(* ===== verification/Prelude.thy ===== *)
theory Prelude
  imports "HOL-Library.Word"
begin

text \<open>
  Shared vocabulary of the development: the machine integers and byte buffers of the
  C code, the faults a C operation can run into (null dereference, access outside a
  buffer, use of freed memory, a failed \<^verbatim>\<open>assert\<close>, a recursion beyond its bound, a floating
  value that does not fit its integer, a read that waits for input that never comes), the
  sequencing operator for computations that may fault, the byte-order functions of
  \<^verbatim>\<open>arpa/inet.h\<close> on a little-endian host, bounds-checked \<^verbatim>\<open>memcpy\<close>-style reads and
  writes, and the C string comparisons the sources use.
\<close>

unbundle bit_operations_syntax

type_synonym byte = "8 word"
type_synonym bytes = "byte list"
type_synonym u16 = "16 word"
type_synonym u32 = "32 word"
type_synonym u64 = "64 word"

named_theorems buf_simps \<open>reads and writes of byte buffers\<close>
named_theorems byte_simps \<open>conversions between words and bytes\<close>

section \<open>Computations that may fault\<close>

datatype fault =
    NullDeref | OutOfBounds | UseAfterFree | AssertFailed | OutOfFuel | BadConversion | Blocked

type_synonym 'a res = "fault + 'a"

definition bnd :: "'a res \<Rightarrow> ('a \<Rightarrow> 'b res) \<Rightarrow> 'b res" where
  "bnd m f = (case m of Inl e \<Rightarrow> Inl e | Inr x \<Rightarrow> f x)"

lemma bnd_Inl [simp]: "bnd (Inl e) f = Inl e"
  by (simp add: bnd_def)

lemma bnd_Inr [simp]: "bnd (Inr x) f = f x"
  by (simp add: bnd_def)

lemma bnd_eq_Inr: "bnd m f = Inr y \<longleftrightarrow> (\<exists>x. m = Inr x \<and> f x = Inr y)"
  by (cases m) auto

lemma bnd_eq_Inl: "bnd m f = Inl e \<longleftrightarrow> m = Inl e \<or> (\<exists>x. m = Inr x \<and> f x = Inl e)"
  by (cases m) auto

lemma bnd_InrE:
  assumes "bnd m f = Inr y"
  obtains x where "m = Inr x" "f x = Inr y"
  using assms by (auto simp: bnd_eq_Inr)

lemma bnd_assoc: "bnd (bnd m f) g = bnd m (\<lambda>x. bnd (f x) g)"
  by (cases m) auto

lemma bnd_cong [fundef_cong]:
  "m = m' \<Longrightarrow> (\<And>x. m' = Inr x \<Longrightarrow> f x = f' x) \<Longrightarrow> bnd m f = bnd m' f'"
  by (cases m') auto

definition c_assert :: "bool \<Rightarrow> unit res" where
  "c_assert b = (if b then Inr () else Inl AssertFailed)"

definition deref :: "'a option \<Rightarrow> 'a res" where
  "deref p = (case p of None \<Rightarrow> Inl NullDeref | Some x \<Rightarrow> Inr x)"

lemma deref_simps [simp]: "deref None = Inl NullDeref" "deref (Some x) = Inr x"
  by (simp_all add: deref_def)

lemma deref_eq_Inr [simp]: "deref p = Inr x \<longleftrightarrow> p = Some x"
  by (cases p) auto

lemma c_assert_simps [simp]: "c_assert True = Inr ()" "c_assert False = Inl AssertFailed"
  by (simp_all add: c_assert_def)

text \<open>A loop over a list whose body may fault.\<close>

fun fold_res :: "('a \<Rightarrow> 's \<Rightarrow> 's res) \<Rightarrow> 'a list \<Rightarrow> 's \<Rightarrow> 's res" where
  "fold_res f [] s = Inr s"
| "fold_res f (x # xs) s = bnd (f x s) (fold_res f xs)"

lemma fold_res_inv:
  assumes "\<And>x s s'. x \<in> set xs \<Longrightarrow> P s \<Longrightarrow> f x s = Inr s' \<Longrightarrow> P s'"
    and "P s" and "fold_res f xs s = Inr s'"
  shows "P s'"
  using assms by (induction xs arbitrary: s) (auto simp: bnd_eq_Inr)

lemma fold_res_total:
  assumes "\<And>x s. x \<in> set xs \<Longrightarrow> P s \<Longrightarrow> \<exists>s'. f x s = Inr s' \<and> P s'" and "P s"
  shows "\<exists>s'. fold_res f xs s = Inr s' \<and> P s'"
  using assms
proof (induction xs arbitrary: s)
  case (Cons x xs)
  from Cons.prems obtain s1 where "f x s = Inr s1" "P s1" by fastforce
  with Cons show ?case by simp
qed simp

section \<open>Byte order\<close>

text \<open>
  \<^verbatim>\<open>uint16_t\<close> and \<^verbatim>\<open>uint32_t\<close> fields overlaid on a buffer are read in host order,
  little-endian on the machines the Makefiles build for; \<^verbatim>\<open>ntohs\<close>, \<^verbatim>\<open>htons\<close>,
  \<^verbatim>\<open>ntohl\<close>, \<^verbatim>\<open>htonl\<close> swap the bytes.
\<close>

definition le16 :: "byte \<Rightarrow> byte \<Rightarrow> u16" where
  "le16 a b = ucast a OR push_bit 8 (ucast b)"

definition le32 :: "byte \<Rightarrow> byte \<Rightarrow> byte \<Rightarrow> byte \<Rightarrow> u32" where
  "le32 a b c d =
     ucast a OR push_bit 8 (ucast b) OR push_bit 16 (ucast c) OR push_bit 24 (ucast d)"

definition bytes16 :: "u16 \<Rightarrow> bytes" where
  "bytes16 w = [ucast w, ucast (drop_bit 8 w)]"

definition bytes32 :: "u32 \<Rightarrow> bytes" where
  "bytes32 w = [ucast w, ucast (drop_bit 8 w), ucast (drop_bit 16 w), ucast (drop_bit 24 w)]"

definition bytes64 :: "u64 \<Rightarrow> bytes" where
  "bytes64 w = map (\<lambda>i. ucast (drop_bit (8 * i) w)) [0..<8]"

definition htons :: "u16 \<Rightarrow> u16" where
  "htons w = le16 (ucast (drop_bit 8 w)) (ucast w)"

definition htonl :: "u32 \<Rightarrow> u32" where
  "htonl w = le32 (ucast (drop_bit 24 w)) (ucast (drop_bit 16 w))
                  (ucast (drop_bit 8 w)) (ucast w)"

abbreviation ntohs :: "u16 \<Rightarrow> u16" where "ntohs \<equiv> htons"
abbreviation ntohl :: "u32 \<Rightarrow> u32" where "ntohl \<equiv> htonl"

lemma bytes_length [simp]:
  "length (bytes16 w) = 2" "length (bytes32 v) = 4" "length (bytes64 u) = 8"
  by (simp_all add: bytes16_def bytes32_def bytes64_def)

lemma bit_byte_beyond [simp]: "\<not> bit (a :: byte) (8 + n)" "\<not> bit (a :: byte) (16 + n)"
  "\<not> bit (a :: byte) (24 + n)"
  by (auto dest: bit_imp_le_length)

lemma le16_bytes [simp, byte_simps]: "le16 (ucast w) (ucast (drop_bit 8 w)) = w"
  by (rule bit_word_eqI) (auto simp: le16_def bit_simps)

lemma le32_bytes [simp, byte_simps]:
  "le32 (ucast w) (ucast (drop_bit 8 w)) (ucast (drop_bit 16 w)) (ucast (drop_bit 24 w)) = w"
proof (rule bit_word_eqI)
  fix n assume "n < LENGTH(32)"
  then consider "n < 8" | "8 \<le> n \<and> n < 16" | "16 \<le> n \<and> n < 24" | "24 \<le> n \<and> n < 32"
    by force
  then show "bit (le32 (ucast w) (ucast (drop_bit 8 w)) (ucast (drop_bit 16 w))
      (ucast (drop_bit 24 w))) n = bit w n"
    by cases (auto simp: le32_def bit_simps)
qed

lemma bytes16_le16 [simp, byte_simps]: "bytes16 (le16 a b) = [a, b]"
  by (auto simp: bytes16_def le16_def bit_simps intro!: bit_word_eqI)

lemma bytes32_le32 [simp, byte_simps]: "bytes32 (le32 a b c d) = [a, b, c, d]"
  by (auto simp: bytes32_def le32_def bit_simps intro!: bit_word_eqI)

lemma htons_htons [simp]: "htons (htons w) = w"
proof -
  have "bytes16 (htons w) = [ucast (drop_bit 8 w), ucast w]"
    by (simp only: htons_def bytes16_le16)
  then show ?thesis by (simp add: bytes16_def htons_def [of "htons w"])
qed

lemma htonl_htonl [simp]: "htonl (htonl w) = w"
proof -
  have "bytes32 (htonl w) =
      [ucast (drop_bit 24 w), ucast (drop_bit 16 w), ucast (drop_bit 8 w), ucast w]"
    by (simp only: htonl_def bytes32_le32)
  then show ?thesis by (simp add: bytes32_def htonl_def [of "htonl w"])
qed

lemma htons_inject [simp]: "htons a = htons b \<longleftrightarrow> a = b"
  by (metis htons_htons)

lemma htonl_inject [simp]: "htonl a = htonl b \<longleftrightarrow> a = b"
  by (metis htonl_htonl)

lemma htons_0 [simp]: "htons 0 = 0" and htonl_0 [simp]: "htonl 0 = 0"
  by (simp_all add: htons_def htonl_def le16_def le32_def)

lemma htonl_eq_0_iff [simp]: "htonl w = 0 \<longleftrightarrow> w = 0"
  using htonl_inject [of w 0] by simp

lemma htons_eq_0_iff [simp]: "htons w = 0 \<longleftrightarrow> w = 0"
  using htons_inject [of w 0] by simp

lemma unat_of_nat_u32 [simp]: "n < 2 ^ 32 \<Longrightarrow> unat (of_nat n :: u32) = n"
  by (simp add: unsigned_of_nat take_bit_nat_eq_self)

section \<open>Buffers\<close>

definition read_bytes :: "bytes \<Rightarrow> nat \<Rightarrow> nat \<Rightarrow> bytes res" where
  "read_bytes buf off n =
     (if off + n \<le> length buf then Inr (take n (drop off buf)) else Inl OutOfBounds)"

definition write_bytes :: "bytes \<Rightarrow> nat \<Rightarrow> bytes \<Rightarrow> bytes res" where
  "write_bytes buf off bs =
     (if off + length bs \<le> length buf
      then Inr (take off buf @ bs @ drop (off + length bs) buf) else Inl OutOfBounds)"

definition calloc :: "nat \<Rightarrow> bytes" where
  "calloc n = replicate n 0"

lemma length_calloc [simp]: "length (calloc n) = n"
  by (simp add: calloc_def)

lemma read_bytes_Inr: "read_bytes buf off n = Inr bs \<longleftrightarrow>
    off + n \<le> length buf \<and> bs = take n (drop off buf)"
  by (auto simp: read_bytes_def)

lemma read_bytes_length: "read_bytes buf off n = Inr bs \<Longrightarrow> length bs = n"
  by (auto simp: read_bytes_Inr)

lemma write_bytes_Inr: "write_bytes buf off bs = Inr buf' \<longleftrightarrow>
    off + length bs \<le> length buf \<and> buf' = take off buf @ bs @ drop (off + length bs) buf"
  by (auto simp: write_bytes_def)

lemma write_bytes_length [buf_simps]: "write_bytes buf off bs = Inr buf' \<Longrightarrow> length buf' = length buf"
  by (auto simp: write_bytes_Inr)

lemma read_write_same [buf_simps]:
  "write_bytes buf off bs = Inr buf' \<Longrightarrow> read_bytes buf' off (length bs) = Inr bs"
  by (auto simp: write_bytes_Inr read_bytes_def)

lemma read_write_before:
  "write_bytes buf off bs = Inr buf' \<Longrightarrow> o2 + n \<le> off \<Longrightarrow> read_bytes buf' o2 n = read_bytes buf o2 n"
  by (auto simp: write_bytes_Inr read_bytes_def drop_take min.absorb1)

lemma read_write_after:
  "write_bytes buf off bs = Inr buf' \<Longrightarrow> off + length bs \<le> o2 \<Longrightarrow>
   read_bytes buf' o2 n = read_bytes buf o2 n"
  by (auto simp: write_bytes_Inr read_bytes_def)

lemma read_bytes_append_left [buf_simps]:
  "off + n \<le> length a \<Longrightarrow> read_bytes (a @ b) off n = read_bytes a off n"
  by (simp add: read_bytes_def)

lemma read_bytes_append_right [buf_simps]:
  "length a \<le> off \<Longrightarrow> read_bytes (a @ b) off n = read_bytes b (off - length a) n"
  by (auto simp: read_bytes_def)

lemma read_bytes_whole [buf_simps, simp]:
  "n = length a \<Longrightarrow> read_bytes a 0 n = Inr a"
  by (simp add: read_bytes_def)

lemma write_bytes_0 [buf_simps]:
  "length bs \<le> length buf \<Longrightarrow> write_bytes buf 0 bs = Inr (bs @ drop (length bs) buf)"
  by (simp add: write_bytes_def)

section \<open>C strings\<close>

text \<open>
  A C string is the list of its characters before the terminating NUL.
  \<^verbatim>\<open>strncpy(dst, src, n)\<close> keeps at most \<open>n\<close> of them; \<^verbatim>\<open>strncmp(a, b, n) == 0\<close>
  compares at most \<open>n\<close>.
\<close>

definition strncpy :: "nat \<Rightarrow> string \<Rightarrow> string" where
  "strncpy n s = take n s"

definition strncmp_eq :: "nat \<Rightarrow> string \<Rightarrow> string \<Rightarrow> bool" where
  "strncmp_eq n a b \<longleftrightarrow> take n a = take n b"

lemma strncmp_eq_refl [simp]: "strncmp_eq n a a"
  by (simp add: strncmp_eq_def)

lemma strncmp_eq_sym: "strncmp_eq n a b \<longleftrightarrow> strncmp_eq n b a"
  by (auto simp: strncmp_eq_def)

lemma strncmp_eq_trans: "strncmp_eq n a b \<Longrightarrow> strncmp_eq n b c \<Longrightarrow> strncmp_eq n a c"
  by (simp add: strncmp_eq_def)

lemma strncmp_eq_short: "length a \<le> n \<Longrightarrow> length b \<le> n \<Longrightarrow> strncmp_eq n a b \<longleftrightarrow> a = b"
  by (simp add: strncmp_eq_def)

lemma strncmp_strncpy [simp]: "strncmp_eq n (strncpy n a) b \<longleftrightarrow> strncmp_eq n a b"
  by (simp add: strncmp_eq_def strncpy_def)

section \<open>Search in linked lists\<close>

text \<open>The walk \<^verbatim>\<open>for (p = head; p; p = p->next) if (test) return p;\<close> is \<open>find\<close>.\<close>

lemma split_elem:
  "xs @ x # ys = zs @ z # us \<Longrightarrow> x = z \<or> z \<in> set ys \<or> x \<in> set us"
proof (induction xs arbitrary: zs)
  case Nil then show ?case by (cases zs) auto
next
  case (Cons a xs)
  show ?case
  proof (cases zs)
    case Nil with Cons.prems show ?thesis by auto
  next
    case (Cons b zs')
    with Cons.prems have "xs @ x # ys = zs' @ z # us" by simp
    from Cons.IH [OF this] show ?thesis .
  qed
qed

lemma find_append: "find P (xs @ ys) = (case find P xs of None \<Rightarrow> find P ys | Some x \<Rightarrow> Some x)"
  by (induction xs) auto

lemma find_SomeD: "find P xs = Some x \<Longrightarrow> P x \<and> x \<in> set xs"
  by (induction xs) (auto split: if_splits)

lemma find_None: "find P xs = None \<longleftrightarrow> (\<forall>x\<in>set xs. \<not> P x)"
  by (induction xs) auto

end
