(* ===== verification/Proto.thy ===== *)
theory Proto
  imports Prelude
begin

text \<open>
  The packet headers of \<^verbatim>\<open>sr_protocol.h\<close> (lab1). The C code overlays packed structs on
  a byte buffer; here each struct is a record with an encoder and a decoder, and a
  cast of a buffer position to a struct is a bounds-checked load. Multi-byte fields keep
  their raw (host) reading, so the code's \<^verbatim>\<open>ntohs\<close>/\<^verbatim>\<open>htonl\<close> calls stay visible.
  The encoders and decoders are inverse to each other, which is what makes a record
  an adequate picture of the overlaid bytes. Also here: the header printers of
  \<^verbatim>\<open>sr_utils.c\<close>, as the list of headers they print.
\<close>

section \<open>Structures\<close>

record sr_ethernet_hdr =
  ether_dhost :: bytes
  ether_shost :: bytes
  ether_type :: u16

record sr_ip_hdr =
  ip_hl :: "4 word"
  ip_v :: "4 word"
  ip_tos :: byte
  ip_len :: u16
  ip_id :: u16
  ip_off :: u16
  ip_ttl :: byte
  ip_p :: byte
  ip_sum :: u16
  ip_src :: u32
  ip_dst :: u32

record sr_icmp_hdr =
  icmp_type :: byte
  icmp_code :: byte
  icmp_sum :: u16

record sr_icmp_t3_hdr = sr_icmp_hdr +
  unused :: u16
  next_mtu :: u16
  data :: bytes

record sr_arp_hdr =
  ar_hrd :: u16
  ar_pro :: u16
  ar_hln :: byte
  ar_pln :: byte
  ar_op :: u16
  ar_sha :: bytes
  ar_sip :: u32
  ar_tha :: bytes
  ar_tip :: u32

definition ETHER_ADDR_LEN :: nat where [simp]: "ETHER_ADDR_LEN = 6"
definition ICMP_DATA_SIZE :: nat where [simp]: "ICMP_DATA_SIZE = 28"
definition sizeof_eth :: nat where [simp]: "sizeof_eth = 14"
definition sizeof_ip :: nat where [simp]: "sizeof_ip = 20"
definition sizeof_icmp :: nat where [simp]: "sizeof_icmp = 4"
definition sizeof_icmp_t3 :: nat where [simp]: "sizeof_icmp_t3 = 36"
definition sizeof_arp :: nat where [simp]: "sizeof_arp = 28"
definition sr_IFACE_NAMELEN :: nat where [simp]: "sr_IFACE_NAMELEN = 32"

datatype sr_icmp_type = icmp_ttl | icmp_unreach | icmp_echo_reply | icmp_echo_request

fun icmp_type_val :: "sr_icmp_type \<Rightarrow> byte" where
  "icmp_type_val icmp_ttl = 11"
| "icmp_type_val icmp_unreach = 3"
| "icmp_type_val icmp_echo_reply = 0"
| "icmp_type_val icmp_echo_request = 8"

datatype sr_icmp_code =
  icmp_port_unreach | icmp_host_unreach | icmp_network_unreach | icmp_ttl_code | icmp_echo_reply_code

fun icmp_code_val :: "sr_icmp_code \<Rightarrow> byte" where
  "icmp_code_val icmp_port_unreach = 3"
| "icmp_code_val icmp_host_unreach = 1"
| "icmp_code_val icmp_network_unreach = 0"
| "icmp_code_val icmp_ttl_code = 0"
| "icmp_code_val icmp_echo_reply_code = 0"

definition IP_RF :: u16 where "IP_RF = 0x8000"
definition IP_DF :: u16 where "IP_DF = 0x4000"
definition IP_MF :: u16 where "IP_MF = 0x2000"
definition IP_OFFMASK :: u16 where "IP_OFFMASK = 0x1fff"
definition ip_protocol_icmp :: byte where "ip_protocol_icmp = 1"
definition ethertype_arp :: u16 where "ethertype_arp = 0x0806"
definition ethertype_ip :: u16 where "ethertype_ip = 0x0800"
definition arp_op_request :: u16 where "arp_op_request = 1"
definition arp_op_reply :: u16 where "arp_op_reply = 2"
definition arp_hrd_ethernet :: u16 where "arp_hrd_ethernet = 1"

section \<open>Layout\<close>

definition eth_bytes :: "sr_ethernet_hdr \<Rightarrow> bytes" where
  "eth_bytes h = ether_dhost h @ ether_shost h @ bytes16 (ether_type h)"

definition eth_of :: "bytes \<Rightarrow> sr_ethernet_hdr" where
  "eth_of b = \<lparr> ether_dhost = take 6 b, ether_shost = take 6 (drop 6 b),
                ether_type = le16 (b ! 12) (b ! 13) \<rparr>"

definition ip_bytes :: "sr_ip_hdr \<Rightarrow> bytes" where
  "ip_bytes h = [push_bit 4 (ucast (ip_v h)) OR ucast (ip_hl h), ip_tos h]
     @ bytes16 (ip_len h) @ bytes16 (ip_id h) @ bytes16 (ip_off h)
     @ [ip_ttl h, ip_p h] @ bytes16 (ip_sum h) @ bytes32 (ip_src h) @ bytes32 (ip_dst h)"

definition ip_of :: "bytes \<Rightarrow> sr_ip_hdr" where
  "ip_of b = \<lparr> ip_hl = ucast (b ! 0), ip_v = ucast (drop_bit 4 (b ! 0)), ip_tos = b ! 1,
     ip_len = le16 (b ! 2) (b ! 3), ip_id = le16 (b ! 4) (b ! 5), ip_off = le16 (b ! 6) (b ! 7),
     ip_ttl = b ! 8, ip_p = b ! 9, ip_sum = le16 (b ! 10) (b ! 11),
     ip_src = le32 (b ! 12) (b ! 13) (b ! 14) (b ! 15),
     ip_dst = le32 (b ! 16) (b ! 17) (b ! 18) (b ! 19) \<rparr>"

definition icmp_bytes :: "sr_icmp_hdr \<Rightarrow> bytes" where
  "icmp_bytes h = [icmp_type h, icmp_code h] @ bytes16 (icmp_sum h)"

definition icmp_of :: "bytes \<Rightarrow> sr_icmp_hdr" where
  "icmp_of b = \<lparr> icmp_type = b ! 0, icmp_code = b ! 1, icmp_sum = le16 (b ! 2) (b ! 3) \<rparr>"

definition t3_bytes :: "sr_icmp_t3_hdr \<Rightarrow> bytes" where
  "t3_bytes h = [icmp_type h, icmp_code h] @ bytes16 (icmp_sum h)
     @ bytes16 (unused h) @ bytes16 (next_mtu h) @ data h"

definition arp_bytes :: "sr_arp_hdr \<Rightarrow> bytes" where
  "arp_bytes h = bytes16 (ar_hrd h) @ bytes16 (ar_pro h) @ [ar_hln h, ar_pln h] @ bytes16 (ar_op h)
     @ ar_sha h @ bytes32 (ar_sip h) @ ar_tha h @ bytes32 (ar_tip h)"

definition arp_of :: "bytes \<Rightarrow> sr_arp_hdr" where
  "arp_of b = \<lparr> ar_hrd = le16 (b ! 0) (b ! 1), ar_pro = le16 (b ! 2) (b ! 3),
     ar_hln = b ! 4, ar_pln = b ! 5, ar_op = le16 (b ! 6) (b ! 7),
     ar_sha = take 6 (drop 8 b), ar_sip = le32 (b ! 14) (b ! 15) (b ! 16) (b ! 17),
     ar_tha = take 6 (drop 18 b), ar_tip = le32 (b ! 24) (b ! 25) (b ! 26) (b ! 27) \<rparr>"

definition load_eth :: "bytes \<Rightarrow> nat \<Rightarrow> sr_ethernet_hdr res" where
  "load_eth buf off = bnd (read_bytes buf off sizeof_eth) (\<lambda>b. Inr (eth_of b))"

definition load_ip :: "bytes \<Rightarrow> nat \<Rightarrow> sr_ip_hdr res" where
  "load_ip buf off = bnd (read_bytes buf off sizeof_ip) (\<lambda>b. Inr (ip_of b))"

definition load_icmp :: "bytes \<Rightarrow> nat \<Rightarrow> sr_icmp_hdr res" where
  "load_icmp buf off = bnd (read_bytes buf off sizeof_icmp) (\<lambda>b. Inr (icmp_of b))"

definition load_arp :: "bytes \<Rightarrow> nat \<Rightarrow> sr_arp_hdr res" where
  "load_arp buf off = bnd (read_bytes buf off sizeof_arp) (\<lambda>b. Inr (arp_of b))"

definition wf_eth :: "sr_ethernet_hdr \<Rightarrow> bool" where
  "wf_eth h \<longleftrightarrow> length (ether_dhost h) = 6 \<and> length (ether_shost h) = 6"

definition wf_arp :: "sr_arp_hdr \<Rightarrow> bool" where
  "wf_arp h \<longleftrightarrow> length (ar_sha h) = 6 \<and> length (ar_tha h) = 6"

definition ethertype :: "bytes \<Rightarrow> u16 res" where
  "ethertype buf = bnd (load_eth buf 0) (\<lambda>ehdr. Inr (ntohs (ether_type ehdr)))"

definition ip_protocol :: "bytes \<Rightarrow> nat \<Rightarrow> byte res" where
  "ip_protocol buf off = bnd (load_ip buf off) (\<lambda>iphdr. Inr (ip_p iphdr))"

section \<open>The printers\<close>

datatype printed =
    PrintEth sr_ethernet_hdr | PrintIp sr_ip_hdr | PrintIcmp sr_icmp_hdr | PrintArp sr_arp_hdr
  | PrintMsg string | PrintUnknown u16

definition print_hdr_eth :: "bytes \<Rightarrow> printed list res" where
  "print_hdr_eth buf = bnd (load_eth buf 0) (\<lambda>h. Inr [PrintEth h])"

definition print_hdr_ip :: "bytes \<Rightarrow> nat \<Rightarrow> printed list res" where
  "print_hdr_ip buf off = bnd (load_ip buf off) (\<lambda>h. Inr [PrintIp h])"

definition print_hdr_icmp :: "bytes \<Rightarrow> nat \<Rightarrow> printed list res" where
  "print_hdr_icmp buf off = bnd (load_icmp buf off) (\<lambda>h. Inr [PrintIcmp h])"

definition print_hdr_arp :: "bytes \<Rightarrow> nat \<Rightarrow> printed list res" where
  "print_hdr_arp buf off = bnd (load_arp buf off) (\<lambda>h. Inr [PrintArp h])"

definition print_hdrs :: "bytes \<Rightarrow> nat \<Rightarrow> printed list res" where
  "print_hdrs buf len =
     (if len < sizeof_eth then Inr [PrintMsg ''Failed to print ETHERNET header, insufficient length'']
      else bnd (ethertype buf) (\<lambda>ethtype. bnd (print_hdr_eth buf) (\<lambda>p1.
        if ethtype = ethertype_ip then
          (if len < sizeof_eth + sizeof_ip
           then Inr (p1 @ [PrintMsg ''Failed to print IP header, insufficient length''])
           else bnd (print_hdr_ip buf sizeof_eth) (\<lambda>p2. bnd (ip_protocol buf sizeof_eth) (\<lambda>ip_proto.
             if ip_proto = ip_protocol_icmp then
               (if len < sizeof_eth + sizeof_ip + sizeof_icmp
                then Inr (p1 @ p2 @ [PrintMsg ''Failed to print ICMP header, insufficient length''])
                else bnd (print_hdr_icmp buf (sizeof_eth + sizeof_ip)) (\<lambda>p3. Inr (p1 @ p2 @ p3)))
             else Inr (p1 @ p2))))
        else if ethtype = ethertype_arp then
          (if len < sizeof_eth + sizeof_arp
           then Inr (p1 @ [PrintMsg ''Failed to print ARP header, insufficient length''])
           else bnd (print_hdr_arp buf sizeof_eth) (\<lambda>p2. Inr (p1 @ p2)))
        else Inr (p1 @ [PrintUnknown ethtype]))))"

text \<open>\<^verbatim>\<open>print_addr_ip_int\<close>: the four octets it prints.\<close>

definition print_addr_ip_int :: "u32 \<Rightarrow> u32 list" where
  "print_addr_ip_int ip =
     [drop_bit 24 ip, drop_bit 24 (push_bit 8 ip), drop_bit 24 (push_bit 16 ip),
      drop_bit 24 (push_bit 24 ip)]"

section \<open>Lemmas\<close>

named_theorems hdr_simps \<open>encoders and decoders of the packet headers\<close>

lemma hdr_lengths [simp]:
  "wf_eth h \<Longrightarrow> length (eth_bytes h) = 14"
  "length (ip_bytes i) = 20"
  "length (icmp_bytes c) = 4"
  "length (data t) = 28 \<Longrightarrow> length (t3_bytes t) = 36"
  "wf_arp a \<Longrightarrow> length (arp_bytes a) = 28"
  by (simp_all add: eth_bytes_def wf_eth_def ip_bytes_def icmp_bytes_def t3_bytes_def
      arp_bytes_def wf_arp_def)

lemma nibbles [simp]:
  "(ucast (push_bit 4 (ucast (v :: 4 word)) OR ucast (h :: 4 word) :: byte) :: 4 word) = h"
  "(ucast (drop_bit 4 (push_bit 4 (ucast v) OR ucast h :: byte)) :: 4 word) = v"
  "(ucast (drop_bit 4 (push_bit 4 (ucast v :: byte)) OR drop_bit 4 (ucast h)) :: 4 word) = v"
  by (rule bit_word_eqI, auto simp: bit_simps dest: bit_imp_le_length)+

lemma nibbles_join [simp]:
  "push_bit 4 (ucast (ucast (drop_bit 4 b) :: 4 word)) OR ucast (ucast b :: 4 word) = (b :: byte)"
  by (rule bit_word_eqI) (auto simp: bit_simps)

lemma eth_of_bytes [hdr_simps]: "wf_eth h \<Longrightarrow> eth_of (eth_bytes h) = h"
  by (cases h) (simp add: eth_of_def eth_bytes_def wf_eth_def nth_append bytes16_def)

lemma ip_of_bytes [hdr_simps]: "ip_of (ip_bytes h) = h"
  by (cases h) (simp add: ip_of_def ip_bytes_def bytes16_def bytes32_def)

lemma icmp_of_bytes [hdr_simps]: "icmp_of (icmp_bytes h) = h"
  by (cases h) (simp add: icmp_of_def icmp_bytes_def bytes16_def)

lemma arp_of_bytes [hdr_simps]: "wf_arp h \<Longrightarrow> arp_of (arp_bytes h) = h"
  by (cases h) (simp add: arp_of_def arp_bytes_def wf_arp_def bytes16_def bytes32_def nth_append)

text \<open>A buffer of known length, spelled out byte by byte.\<close>

lemma bytes_enum: "length b = n \<Longrightarrow> map ((!) b) [0..<n] = b"
  by (auto simp: map_nth)

lemma wf_eth_of [simp]: "length b = 14 \<Longrightarrow> wf_eth (eth_of b)"
  by (simp add: wf_eth_def eth_of_def)

lemma wf_arp_of [simp]: "length b = 28 \<Longrightarrow> wf_arp (arp_of b)"
  by (simp add: wf_arp_def arp_of_def)

lemma eth_bytes_of [hdr_simps]: assumes "length b = 14" shows "eth_bytes (eth_of b) = b"
proof -
  have b: "b = [b!0, b!1, b!2, b!3, b!4, b!5, b!6, b!7, b!8, b!9, b!10, b!11, b!12, b!13]"
    using bytes_enum [OF assms] by (simp add: eval_nat_numeral)
  show ?thesis by (subst (1 2) b) (simp add: eth_bytes_def eth_of_def)
qed

lemma ip_bytes_of [hdr_simps]: assumes "length b = 20" shows "ip_bytes (ip_of b) = b"
proof -
  have b: "[b!0, b!1, b!2, b!3, b!4, b!5, b!6, b!7, b!8, b!9, b!10, b!11, b!12, b!13, b!14,
      b!15, b!16, b!17, b!18, b!19] = b"
    using bytes_enum [OF assms] by (simp add: eval_nat_numeral)
  have "ip_bytes (ip_of b) = [b!0, b!1, b!2, b!3, b!4, b!5, b!6, b!7, b!8, b!9, b!10, b!11, b!12,
      b!13, b!14, b!15, b!16, b!17, b!18, b!19]"
    by (simp add: ip_bytes_def ip_of_def)
  with b show ?thesis by simp
qed

lemma arp_bytes_of [hdr_simps]: assumes "length b = 28" shows "arp_bytes (arp_of b) = b"
proof -
  have b: "[b!0, b!1, b!2, b!3, b!4, b!5, b!6, b!7, b!8, b!9, b!10, b!11, b!12, b!13, b!14,
      b!15, b!16, b!17, b!18, b!19, b!20, b!21, b!22, b!23, b!24, b!25, b!26, b!27] = b"
    using bytes_enum [OF assms] by (simp add: eval_nat_numeral)
  have "arp_bytes (arp_of [b!0, b!1, b!2, b!3, b!4, b!5, b!6, b!7, b!8, b!9, b!10, b!11, b!12,
      b!13, b!14, b!15, b!16, b!17, b!18, b!19, b!20, b!21, b!22, b!23, b!24, b!25, b!26, b!27])
      = [b!0, b!1, b!2, b!3, b!4, b!5, b!6, b!7, b!8, b!9, b!10, b!11, b!12,
      b!13, b!14, b!15, b!16, b!17, b!18, b!19, b!20, b!21, b!22, b!23, b!24, b!25, b!26, b!27]"
    by (simp add: arp_bytes_def arp_of_def)
  then show ?thesis by (simp only: b)
qed

end
