(* ===== verification/Iface.thy ===== *)
theory Iface
  imports Proto
begin

text \<open>
  The interface list of the router, \<^verbatim>\<open>sr_if.c\<close>: a singly linked list of
  \<^verbatim>\<open>struct sr_if\<close>, here a HOL list in the order of the \<^verbatim>\<open>next\<close> pointers, extended at
  its end by \<open>sr_add_interface\<close> and completed by the setters, which work on the last
  node. \<^verbatim>\<open>malloc\<close> does not clear memory, so a new node starts from an arbitrary record
  \<open>g\<close>, a parameter of \<open>sr_add_interface\<close>. The lemmas say what a lookup returns after
  each operation; they are collected in the locale \<open>name_table\<close>.
\<close>

record sr_if =
  if_name :: string
  addr :: bytes
  if_ip :: u32
  speed :: u32

fun sr_get_interface :: "sr_if list \<Rightarrow> string \<Rightarrow> sr_if option" where
  "sr_get_interface [] name = None"
| "sr_get_interface (if_walker # ws) name =
     (if strncmp_eq sr_IFACE_NAMELEN (if_name if_walker) name then Some if_walker
      else sr_get_interface ws name)"

definition sr_if_new :: "sr_if \<Rightarrow> string \<Rightarrow> sr_if" where
  "sr_if_new g name = g\<lparr> if_name := strncpy sr_IFACE_NAMELEN name \<rparr>"

fun sr_add_interface :: "sr_if \<Rightarrow> sr_if list \<Rightarrow> string \<Rightarrow> sr_if list" where
  "sr_add_interface g [] name = [sr_if_new g name]"
| "sr_add_interface g [if_walker] name = [if_walker, sr_if_new g name]"
| "sr_add_interface g (if_walker # w # ws) name = if_walker # sr_add_interface g (w # ws) name"

fun sr_set_ether_addr :: "sr_if list \<Rightarrow> bytes \<Rightarrow> sr_if list res" where
  "sr_set_ether_addr [] a = Inl AssertFailed"
| "sr_set_ether_addr [if_walker] a =
     bnd (read_bytes a 0 6) (\<lambda>a6. Inr [if_walker\<lparr> addr := a6 \<rparr>])"
| "sr_set_ether_addr (if_walker # w # ws) a =
     bnd (sr_set_ether_addr (w # ws) a) (\<lambda>r. Inr (if_walker # r))"

fun sr_set_ether_ip :: "sr_if list \<Rightarrow> u32 \<Rightarrow> sr_if list res" where
  "sr_set_ether_ip [] ip_nbo = Inl AssertFailed"
| "sr_set_ether_ip [if_walker] ip_nbo = Inr [if_walker\<lparr> if_ip := ip_nbo \<rparr>]"
| "sr_set_ether_ip (if_walker # w # ws) ip_nbo =
     bnd (sr_set_ether_ip (w # ws) ip_nbo) (\<lambda>r. Inr (if_walker # r))"

text \<open>The printers, as the fields they print.\<close>

definition sr_print_if :: "sr_if \<Rightarrow> string \<times> bytes \<times> u32" where
  "sr_print_if iface = (if_name iface, addr iface, if_ip iface)"

fun sr_print_if_walk :: "sr_if \<Rightarrow> sr_if list \<Rightarrow> (string \<times> bytes \<times> u32) list" where
  "sr_print_if_walk if_walker [] = [sr_print_if if_walker]"
| "sr_print_if_walk if_walker (w # ws) = sr_print_if if_walker # sr_print_if_walk w ws"

fun sr_print_if_list :: "sr_if list \<Rightarrow> (string \<times> bytes \<times> u32) list" where
  "sr_print_if_list [] = []"
| "sr_print_if_list (w # ws) = sr_print_if_walk w ws"

section \<open>Lemmas\<close>

lemma sr_get_interface_find:
  "sr_get_interface ifs n = find (\<lambda>i. strncmp_eq 32 (if_name i) n) ifs"
  by (induction ifs) auto

lemma sr_get_interface_SomeD:
  "sr_get_interface ifs n = Some i \<Longrightarrow> strncmp_eq 32 (if_name i) n \<and> i \<in> set ifs"
  by (auto simp: sr_get_interface_find dest: find_SomeD)

lemma sr_get_interface_None:
  "sr_get_interface ifs n = None \<longleftrightarrow> (\<forall>i\<in>set ifs. \<not> strncmp_eq 32 (if_name i) n)"
  by (simp add: sr_get_interface_find find_None)

lemma sr_add_interface_append: "sr_add_interface g ifs n = ifs @ [sr_if_new g n]"
  by (induction g ifs n rule: sr_add_interface.induct) auto

lemma sr_set_ether_addr_snoc:
  "sr_set_ether_addr (ifs @ [i]) a = bnd (read_bytes a 0 6) (\<lambda>a6. Inr (ifs @ [i\<lparr> addr := a6 \<rparr>]))"
proof (induction ifs)
  case (Cons x xs)
  have "sr_set_ether_addr (x # (xs @ [i])) a
      = bnd (sr_set_ether_addr (xs @ [i]) a) (\<lambda>r. Inr (x # r))"
    by (cases "xs @ [i]") auto
  with Cons show ?case by (simp add: bnd_assoc)
qed simp

lemma sr_set_ether_ip_snoc: "sr_set_ether_ip (ifs @ [i]) p = Inr (ifs @ [i\<lparr> if_ip := p \<rparr>])"
proof (induction ifs)
  case (Cons x xs)
  have "sr_set_ether_ip (x # (xs @ [i])) p = bnd (sr_set_ether_ip (xs @ [i]) p) (\<lambda>r. Inr (x # r))"
    by (cases "xs @ [i]") auto
  with Cons show ?case by simp
qed simp

lemma sr_print_if_list_map: "sr_print_if_list ifs = map sr_print_if ifs"
proof (cases ifs)
  case (Cons w ws)
  have "sr_print_if_walk w ws = map sr_print_if (w # ws)"
    by (induction w ws rule: sr_print_if_walk.induct) auto
  with Cons show ?thesis by simp
qed simp

text \<open>
  An append-only table of named nodes, as its clients see it: the code relies on a
  lookup of a known name being unaffected by later additions.
\<close>

locale name_table =
  fixes lookup :: "'t \<Rightarrow> string \<Rightarrow> 'n option"
    and add :: "'t \<Rightarrow> 'n \<Rightarrow> 't"
    and name_of :: "'n \<Rightarrow> string"
    and n_max :: nat
  assumes lookup_add: "lookup (add t x) n =
    (case lookup t n of Some y \<Rightarrow> Some y
     | None \<Rightarrow> if strncmp_eq n_max (name_of x) n then Some x else None)"
begin

lemma lookup_add_known: "lookup t n = Some y \<Longrightarrow> lookup (add t x) n = Some y"
  by (simp add: lookup_add)

lemma lookup_add_new: "lookup t (name_of x) = None \<Longrightarrow> lookup (add t x) (name_of x) = Some x"
  by (simp add: lookup_add)

lemma lookup_add_other:
  "\<not> strncmp_eq n_max (name_of x) n \<Longrightarrow> lookup (add t x) n = lookup t n"
  by (simp add: lookup_add split: option.split)

lemma lookup_adds_known: "lookup t n = Some y \<Longrightarrow> lookup (fold (\<lambda>x t. add t x) xs t) n = Some y"
  by (induction xs arbitrary: t) (auto intro: lookup_add_known)

end

interpretation ifs: name_table sr_get_interface "\<lambda>t x. t @ [x]" if_name 32
  by unfold_locales (simp add: sr_get_interface_find find_append split: option.split)

text \<open>
  The sequence the VNS client runs for one interface: add, set the hardware address,
  set the IP address.
\<close>

lemma sr_if_setup:
  assumes "length a = 6"
  shows "bnd (sr_set_ether_addr (sr_add_interface g ifs n) a) (\<lambda>l. sr_set_ether_ip l p)
    = Inr (ifs @ [g\<lparr> if_name := strncpy 32 n, addr := a, if_ip := p \<rparr>])"
  using assms by (simp add: sr_add_interface_append sr_set_ether_addr_snoc sr_set_ether_ip_snoc
      sr_if_new_def)

text \<open>
  Interface registration: adding an interface and setting its two addresses leaves
  every earlier lookup as it was, and makes the new name resolve to an interface with
  exactly these addresses when no interface had that name.
\<close>

theorem sr_interface_registered:
  assumes "length a = 6"
    and "bnd (sr_set_ether_addr (sr_add_interface g ifs n) a) (\<lambda>l. sr_set_ether_ip l p) = Inr ifs'"
  shows "sr_get_interface ifs' m =
    (case sr_get_interface ifs m of Some i \<Rightarrow> Some i
     | None \<Rightarrow> if strncmp_eq sr_IFACE_NAMELEN n m
         then Some (g\<lparr> if_name := strncpy sr_IFACE_NAMELEN n, addr := a, if_ip := p \<rparr>) else None)"
  using assms by (auto simp: sr_if_setup ifs.lookup_add split: option.splits)

theorem sr_interface_registered_witness:
  "\<exists>ifs'. sr_get_interface ifs' ''eth1'' =
     Some \<lparr> if_name = ''eth1'', addr = [1,2,3,4,5,6], if_ip = 9, speed = 0 \<rparr> \<and>
     sr_get_interface ifs' ''eth0'' =
     Some \<lparr> if_name = ''eth0'', addr = [], if_ip = 7, speed = 0 \<rparr>"
proof -
  let ?i0 = "\<lparr> if_name = ''eth0'', addr = [], if_ip = 7, speed = 0 \<rparr>"
  let ?a = "[1,2,3,4,5,6] :: bytes"
  have l: "length ?a = 6" by simp
  obtain ifs' where r: "bnd (sr_set_ether_addr (sr_add_interface ?i0 [?i0] ''eth1'') ?a)
      (\<lambda>l. sr_set_ether_ip l 9) = Inr ifs'"
    using sr_if_setup [OF l] by blast
  show ?thesis
    using sr_interface_registered [OF l r, of "''eth1''"]
      sr_interface_registered [OF l r, of "''eth0''"]
    by (intro exI [of _ ifs']) (simp add: strncmp_eq_def strncpy_def)
qed

end
