(* ===== verification/Rtable.thy ===== *)
theory Rtable
  imports Iface
begin

text \<open>
  The routing table, \<^verbatim>\<open>sr_rt.c\<close> and the table functions of \<^verbatim>\<open>sr_main.c\<close>: a linked list
  of entries, appended to by \<open>sr_add_rt_entry\<close>, filled from a text file by
  \<open>sr_load_rt\<close>, searched by \<open>longest_prefix_match\<close> and checked against the interface
  list by \<open>sr_verify_routing_table\<close>. Addresses are in network byte order, as stored.
  The library functions the loader calls (\<^verbatim>\<open>sscanf\<close> of four \<^verbatim>\<open>%s\<close> fields, \<^verbatim>\<open>inet_aton\<close>)
  are modelled as documented. The lemmas characterise the search (the last matching
  entry of greatest mask) and show that the loader reads back what the printer prints.
\<close>

record sr_rt =
  dest :: u32
  gw :: u32
  mask :: u32
  interface :: string

section \<open>Library functions\<close>

definition isspace :: "char \<Rightarrow> bool" where
  "isspace c \<longleftrightarrow> of_char c \<in> {32 :: nat, 9, 10, 11, 12, 13}"

definition isdigit :: "char \<Rightarrow> bool" where
  "isdigit c \<longleftrightarrow> 48 \<le> (of_char c :: nat) \<and> (of_char c :: nat) \<le> 57"

definition digit_of :: "char \<Rightarrow> nat" where
  "digit_of c = (let n = of_char c in
     if 97 \<le> n \<and> n \<le> 102 then n - 87 else if 65 \<le> n \<and> n \<le> 70 then n - 55
     else if 48 \<le> n \<and> n \<le> 57 then n - 48 else 99)"

definition number :: "nat \<Rightarrow> string \<Rightarrow> nat" where
  "number base s = foldl (\<lambda>n c. n * base + digit_of c) 0 s"

text \<open>\<^verbatim>\<open>strtoul(s, &end, 0)\<close>: the value and the rest of the string.\<close>

definition strtoul_base :: "string \<Rightarrow> nat \<times> string" where
  "strtoul_base s =
     (if s \<noteq> [] \<and> hd s = CHR ''0'' then
        (if 3 \<le> length s \<and> (s ! 1 = CHR ''x'' \<or> s ! 1 = CHR ''X'') \<and> digit_of (s ! 2) < 16
         then (16, drop 2 s) else (8, s))
      else (10, s))"

definition strtoul :: "string \<Rightarrow> nat \<times> string" where
  "strtoul s =
     (let (base, t) = strtoul_base s
      in (number base (takeWhile (\<lambda>c. digit_of c < base) t), dropWhile (\<lambda>c. digit_of c < base) t))"

text \<open>\<^verbatim>\<open>inet_aton\<close>: one to four numbers separated by dots, the last one filling the
  remaining octets; the first argument counts the parts still allowed.\<close>

fun inet_parts :: "nat \<Rightarrow> nat \<Rightarrow> string \<Rightarrow> nat option" where
  "inet_parts 0 acc s = None"
| "inet_parts (Suc k) acc s =
     (if s = [] \<or> \<not> isdigit (hd s) then None
      else let (v, r) = strtoul s in
        if v > 0xffffffff then None
        else if r \<noteq> [] \<and> hd r = CHR ''.'' then
          (if k = 0 \<or> v > 255 then None else inet_parts k (acc + v * 256 ^ k) (tl r))
        else if r = [] \<or> isspace (hd r) then
          (if v < 256 ^ Suc k then Some (acc + v) else None)
        else None)"

definition inet_aton :: "string \<Rightarrow> u32 option" where
  "inet_aton s = map_option (\<lambda>n. htonl (of_nat n)) (inet_parts 4 0 s)"

definition dec_digit :: "nat \<Rightarrow> char" where
  "dec_digit n = char_of (48 + n)"

definition dec_octet :: "nat \<Rightarrow> string" where
  "dec_octet n = (if n < 10 then [dec_digit n]
     else if n < 100 then [dec_digit (n div 10), dec_digit (n mod 10)]
     else [dec_digit (n div 100), dec_digit (n div 10 mod 10), dec_digit (n mod 10)])"

definition octet :: "nat \<Rightarrow> u32 \<Rightarrow> nat" where
  "octet i a = unat (ntohl a) div 256 ^ i mod 256"

definition inet_ntoa :: "u32 \<Rightarrow> string" where
  "inet_ntoa a = dec_octet (octet 3 a) @ ''.'' @ dec_octet (octet 2 a) @ ''.''
     @ dec_octet (octet 1 a) @ ''.'' @ dec_octet (octet 0 a)"

text \<open>The whitespace-separated fields of a line, as \<^verbatim>\<open>sscanf("%s %s ...")\<close> takes them.\<close>

function tokens :: "string \<Rightarrow> string list" where
  "tokens s = (let t = dropWhile isspace s in
     if t = [] then [] else takeWhile (\<lambda>c. \<not> isspace c) t # tokens (dropWhile (\<lambda>c. \<not> isspace c) t))"
  by auto
termination
proof (relation "measure length")
  fix s t assume t: "(t :: string) = dropWhile isspace s" "t \<noteq> []"
  have "\<not> isspace (hd t)" using t by (metis hd_dropWhile)
  then have "length (dropWhile (\<lambda>c. \<not> isspace c) t) < length t"
    using t(2) by (cases t) (auto intro: le_imp_less_Suc length_dropWhile_le)
  also have "\<dots> \<le> length s" using t(1) by (simp add: length_dropWhile_le)
  finally show "(dropWhile (\<lambda>c. \<not> isspace c) t, s) \<in> measure length" by simp
qed simp

declare tokens.simps [simp del]

section \<open>Operations\<close>

definition sr_rt_new :: "u32 \<Rightarrow> u32 \<Rightarrow> u32 \<Rightarrow> string \<Rightarrow> sr_rt" where
  "sr_rt_new d g m name =
     \<lparr> dest = d, gw = g, mask = m, interface = strncpy sr_IFACE_NAMELEN name \<rparr>"

fun sr_add_rt_entry :: "sr_rt list \<Rightarrow> u32 \<Rightarrow> u32 \<Rightarrow> u32 \<Rightarrow> string \<Rightarrow> sr_rt list" where
  "sr_add_rt_entry [] d g m name = [sr_rt_new d g m name]"
| "sr_add_rt_entry [rt_walker] d g m name = [rt_walker, sr_rt_new d g m name]"
| "sr_add_rt_entry (rt_walker # w # ws) d g m name =
     rt_walker # sr_add_rt_entry (w # ws) d g m name"

text \<open>
  The four 32-byte buffers of the loader keep their old contents when a line has fewer
  than four fields; a field of 32 characters or more overruns its buffer.
\<close>

record rt_bufs =
  b_dest :: string
  b_gw :: string
  b_mask :: string
  b_iface :: string

definition sscanf4 :: "string \<Rightarrow> rt_bufs \<Rightarrow> rt_bufs res" where
  "sscanf4 line b =
     (let fs = take 4 (tokens line) in
      if \<exists>f\<in>set fs. 32 \<le> length f then Inl OutOfBounds
      else Inr \<lparr> b_dest = (if 0 < length fs then fs ! 0 else b_dest b),
                 b_gw = (if 1 < length fs then fs ! 1 else b_gw b),
                 b_mask = (if 2 < length fs then fs ! 2 else b_mask b),
                 b_iface = (if 3 < length fs then fs ! 3 else b_iface b) \<rparr>)"

fun sr_load_rt_lines :: "string list \<Rightarrow> rt_bufs \<Rightarrow> bool \<Rightarrow> sr_rt list \<Rightarrow> (int \<times> sr_rt list) res" where
  "sr_load_rt_lines [] b clear_routing_table rt = Inr (0, rt)"
| "sr_load_rt_lines (line # lines) b clear_routing_table rt =
     bnd (sscanf4 line b) (\<lambda>b.
       (case inet_aton (b_dest b) of None \<Rightarrow> Inr (-1, rt) | Some dest_addr \<Rightarrow>
       (case inet_aton (b_gw b) of None \<Rightarrow> Inr (-1, rt) | Some gw_addr \<Rightarrow>
       (case inet_aton (b_mask b) of None \<Rightarrow> Inr (-1, rt) | Some mask_addr \<Rightarrow>
          let rt = (if \<not> clear_routing_table then [] else rt) in
          sr_load_rt_lines lines b True
            (sr_add_rt_entry rt dest_addr gw_addr mask_addr (b_iface b))))))"

text \<open>The file is \<open>None\<close> when \<^verbatim>\<open>access\<close> refuses it; \<open>b\<close> is what the stack held.\<close>

definition sr_load_rt :: "rt_bufs \<Rightarrow> sr_rt list \<Rightarrow> string list option \<Rightarrow> (int \<times> sr_rt list) res" where
  "sr_load_rt b rt file = (case file of None \<Rightarrow> Inr (-1, rt)
     | Some lines \<Rightarrow> sr_load_rt_lines lines b False rt)"

definition sr_print_routing_entry :: "sr_rt \<Rightarrow> string" where
  "sr_print_routing_entry e = inet_ntoa (dest e) @ [CHR 0x09, CHR 0x09] @ inet_ntoa (gw e)
     @ [CHR 0x09] @ inet_ntoa (mask e) @ [CHR 0x09] @ interface e @ [CHR 0x0A]"

definition sr_print_routing_table :: "sr_rt list \<Rightarrow> string list" where
  "sr_print_routing_table rt =
     (if rt = [] then ['' *warning* Routing table empty '' @ [CHR 0x0A]]
      else (''Destination'' @ [CHR 0x09] @ ''Gateway'' @ [CHR 0x09, CHR 0x09] @ ''Mask''
              @ [CHR 0x09] @ ''Iface'' @ [CHR 0x0A]) # map sr_print_routing_entry rt)"

fun lpm_loop :: "u32 \<Rightarrow> sr_rt list \<Rightarrow> u32 \<Rightarrow> sr_rt option \<Rightarrow> sr_rt option" where
  "lpm_loop target [] largest_mask lpm = lpm"
| "lpm_loop target (route # rs) largest_mask lpm =
     (let result = mask route AND target in
      if result = dest route then
        (if ntohl (mask route) \<ge> ntohl largest_mask
         then lpm_loop target rs (mask route) (Some route)
         else lpm_loop target rs largest_mask lpm)
      else lpm_loop target rs largest_mask lpm)"

definition longest_prefix_match :: "sr_rt list \<Rightarrow> u32 \<Rightarrow> sr_rt option" where
  "longest_prefix_match rt ip = lpm_loop ip rt 0 None"

fun sr_verify_rt_loop :: "sr_if list \<Rightarrow> sr_rt list \<Rightarrow> int \<Rightarrow> int" where
  "sr_verify_rt_loop ifs [] ret = ret"
| "sr_verify_rt_loop ifs (rt_walker # ws) ret =
     (if find (\<lambda>if_walker. strncmp_eq sr_IFACE_NAMELEN (if_name if_walker) (interface rt_walker)) ifs = None
      then sr_verify_rt_loop ifs ws (ret + 1) else sr_verify_rt_loop ifs ws ret)"

definition sr_verify_routing_table :: "sr_if list \<Rightarrow> sr_rt list \<Rightarrow> int" where
  "sr_verify_routing_table ifs rt =
     (if ifs = [] \<or> rt = [] then 999 else sr_verify_rt_loop ifs rt 0)"

section \<open>Lemmas\<close>

lemma sr_add_rt_entry_append: "sr_add_rt_entry rt d g m n = rt @ [sr_rt_new d g m n]"
  by (induction rt d g m n rule: sr_add_rt_entry.induct) auto

definition rt_matches :: "u32 \<Rightarrow> sr_rt \<Rightarrow> bool" where
  "rt_matches ip e \<longleftrightarrow> mask e AND ip = dest e"

text \<open>\<open>r\<close> is the last matching entry among those of greatest mask.\<close>

definition lpm_best :: "u32 \<Rightarrow> sr_rt list \<Rightarrow> sr_rt \<Rightarrow> bool" where
  "lpm_best ip rt r \<longleftrightarrow> (\<exists>pre post. rt = pre @ r # post \<and> rt_matches ip r
     \<and> (\<forall>q\<in>set pre. rt_matches ip q \<longrightarrow> ntohl (mask q) \<le> ntohl (mask r))
     \<and> (\<forall>q\<in>set post. rt_matches ip q \<longrightarrow> ntohl (mask q) < ntohl (mask r)))"

lemma lpm_best_snoc_other:
  assumes "lpm_best ip rt r" "rt_matches ip q \<longrightarrow> ntohl (mask q) < ntohl (mask r)"
  shows "lpm_best ip (rt @ [q]) r"
proof -
  obtain pre post where rt: "rt = pre @ r # post" and m: "rt_matches ip r"
    and p: "\<forall>q\<in>set pre. rt_matches ip q \<longrightarrow> ntohl (mask q) \<le> ntohl (mask r)"
    and s: "\<forall>q\<in>set post. rt_matches ip q \<longrightarrow> ntohl (mask q) < ntohl (mask r)"
    using assms(1) by (auto simp: lpm_best_def)
  show ?thesis unfolding lpm_best_def
    using rt m p s assms(2) by (intro exI [of _ pre] exI [of _ "post @ [q]"]) auto
qed

lemma lpm_best_max:
  "lpm_best ip rt r \<Longrightarrow> q \<in> set rt \<Longrightarrow> rt_matches ip q \<Longrightarrow> ntohl (mask q) \<le> ntohl (mask r)"
  by (auto simp: lpm_best_def less_imp_le)

lemma lpm_best_snoc_new:
  assumes "rt_matches ip r" "\<forall>q\<in>set rt. rt_matches ip q \<longrightarrow> ntohl (mask q) \<le> ntohl (mask r)"
  shows "lpm_best ip (rt @ [r]) r"
  unfolding lpm_best_def using assms by (intro exI [of _ rt] exI [of _ "[]"]) auto

text \<open>The loop invariant: what the walk knows after the entries \<open>done\<close>.\<close>

definition lpm_inv :: "u32 \<Rightarrow> sr_rt list \<Rightarrow> u32 \<Rightarrow> sr_rt option \<Rightarrow> bool" where
  "lpm_inv ip seen m lpm \<longleftrightarrow> (case lpm of
     None \<Rightarrow> m = 0 \<and> (\<forall>q\<in>set seen. \<not> rt_matches ip q)
   | Some r \<Rightarrow> m = mask r \<and> lpm_best ip seen r)"

lemma lpm_loop_inv:
  "lpm_inv ip seen m lpm \<Longrightarrow>
   (case lpm_loop ip rt m lpm of None \<Rightarrow> \<forall>q\<in>set (seen @ rt). \<not> rt_matches ip q
    | Some r \<Rightarrow> lpm_best ip (seen @ rt) r)"
proof (induction rt arbitrary: seen m lpm)
  case Nil
  then show ?case by (auto simp: lpm_inv_def split: option.splits)
next
  case (Cons e rt)
  have step: "lpm_inv ip (seen @ [e]) m lpm \<Longrightarrow> \<not> rt_matches ip e \<or> \<not> ntohl (mask e) \<ge> ntohl m \<Longrightarrow> ?case"
    using Cons.IH [of "seen @ [e]" m lpm] by (auto simp: rt_matches_def Let_def cong: option.case_cong)
  consider (no) "\<not> rt_matches ip e" | (less) "rt_matches ip e" "ntohl (mask e) < ntohl m"
    | (take) "rt_matches ip e" "ntohl (mask e) \<ge> ntohl m" by fastforce
  then show ?case
  proof cases
    case no
    then show ?thesis using Cons.prems
      by (intro step) (auto simp: lpm_inv_def intro: lpm_best_snoc_other split: option.splits)
  next
    case less
    then show ?thesis using Cons.prems
      by (intro step) (auto simp: lpm_inv_def intro: lpm_best_snoc_other split: option.splits)
  next
    case take
    have "lpm_best ip (seen @ [e]) e"
      using take Cons.prems by (intro lpm_best_snoc_new)
        (auto simp: lpm_inv_def split: option.splits dest: lpm_best_max intro: order_trans)
    then have "lpm_inv ip (seen @ [e]) (mask e) (Some e)" by (simp add: lpm_inv_def)
    from Cons.IH [OF this] take show ?thesis by (simp add: rt_matches_def Let_def cong: option.case_cong)
  qed
qed

lemma lpm_None: "longest_prefix_match rt ip = None \<longleftrightarrow> (\<forall>q\<in>set rt. \<not> rt_matches ip q)"
  and lpm_Some: "longest_prefix_match rt ip = Some r \<Longrightarrow> lpm_best ip rt r"
proof -
  have inv: "case longest_prefix_match rt ip of None \<Rightarrow> \<forall>q\<in>set rt. \<not> rt_matches ip q
    | Some r \<Rightarrow> lpm_best ip rt r"
    using lpm_loop_inv [of ip "[]" 0 None rt] by (simp add: lpm_inv_def longest_prefix_match_def cong: option.case_cong)
  then show "longest_prefix_match rt ip = Some r \<Longrightarrow> lpm_best ip rt r" by simp
  from inv show "longest_prefix_match rt ip = None \<longleftrightarrow> (\<forall>q\<in>set rt. \<not> rt_matches ip q)"
    by (cases "longest_prefix_match rt ip") (auto simp: lpm_best_def)
qed

lemma lpm_in_table: "longest_prefix_match rt ip = Some r \<Longrightarrow> r \<in> set rt \<and> rt_matches ip r"
  by (drule lpm_Some) (auto simp: lpm_best_def)

lemma lpm_best_unique:
  assumes "lpm_best ip rt r" "lpm_best ip rt r'" shows "r = r'"
proof -
  obtain a b where 1: "rt = a @ r # b" "rt_matches ip r"
    "\<forall>q\<in>set b. rt_matches ip q \<longrightarrow> ntohl (mask q) < ntohl (mask r)"
    using assms(1) by (auto simp: lpm_best_def)
  obtain c d where 2: "rt = c @ r' # d" "rt_matches ip r'"
    "\<forall>q\<in>set d. rt_matches ip q \<longrightarrow> ntohl (mask q) < ntohl (mask r')"
    using assms(2) by (auto simp: lpm_best_def)
  have "r \<in> set rt" using 1(1) by simp
  moreover have "r' \<in> set rt" using 2(1) by simp
  ultimately have eq: "ntohl (mask r) = ntohl (mask r')"
    using assms 1(2) 2(2) by (meson lpm_best_max order_antisym)
  from 1(1) 2(1) have "a @ r # b = c @ r' # d" by simp
  then consider "r = r'" | "r' \<in> set b" | "r \<in> set d"
    using split_elem by fast
  then show ?thesis using 1 2 eq by cases auto
qed

lemma lpm_iff: "longest_prefix_match rt ip = Some r \<longleftrightarrow> lpm_best ip rt r"
  by (metis lpm_Some lpm_None lpm_in_table lpm_best_unique lpm_best_def in_set_conv_decomp
      not_Some_eq)
section \<open>Prefixes\<close>

definition prefix_mask :: "nat \<Rightarrow> u32" where
  "prefix_mask n = htonl (push_bit (32 - n) (Bit_Operations.mask n))"

lemma htonl_and: "htonl (a AND b) = htonl a AND htonl b"
  by (rule bit_word_eqI) (auto simp: htonl_def le32_def bit_simps)

lemma bit_prefix_mask:
  "n \<le> 32 \<Longrightarrow> bit (ntohl (prefix_mask n)) i \<longleftrightarrow> 32 - n \<le> i \<and> i < 32"
  by (auto simp: prefix_mask_def bit_simps)

lemma prefix_mask_less:
  assumes "k < n" "n \<le> 32" shows "ntohl (prefix_mask k) < ntohl (prefix_mask n)"
proof -
  have "ntohl (prefix_mask k) AND ntohl (prefix_mask n) = ntohl (prefix_mask k)"
    using assms by (intro bit_word_eqI) (auto simp: bit_prefix_mask bit_simps)
  then have "ntohl (prefix_mask k) \<le> ntohl (prefix_mask n)"
    by (metis word_and_le1)
  moreover have "ntohl (prefix_mask k) \<noteq> ntohl (prefix_mask n)"
  proof
    assume "ntohl (prefix_mask k) = ntohl (prefix_mask n)"
    then have "bit (ntohl (prefix_mask k)) (32 - n) \<longleftrightarrow> bit (ntohl (prefix_mask n)) (32 - n)" by simp
    then show False using assms by (auto simp: bit_prefix_mask)
  qed
  ultimately show ?thesis by (simp add: less_le)
qed

lemma prefix_mask_le_iff:
  "k \<le> 32 \<Longrightarrow> n \<le> 32 \<Longrightarrow> ntohl (prefix_mask k) \<le> ntohl (prefix_mask n) \<longleftrightarrow> k \<le> n"
  by (metis prefix_mask_less less_le_not_le linorder_le_cases order_antisym_conv order_refl)

lemma rt_matches_prefix:
  assumes "mask e = prefix_mask n" "n \<le> 32"
  shows "rt_matches ip e \<longleftrightarrow>
    drop_bit (32 - n) (ntohl (dest e)) = drop_bit (32 - n) (ntohl ip)
    \<and> take_bit (32 - n) (ntohl (dest e)) = 0"
proof -
  have "rt_matches ip e \<longleftrightarrow> ntohl (prefix_mask n) AND ntohl ip = ntohl (dest e)"
    unfolding rt_matches_def assms(1) htonl_and [symmetric] by simp
  also have "\<dots> \<longleftrightarrow> (\<forall>i<32. bit (ntohl (dest e)) i \<longleftrightarrow> 32 - n \<le> i \<and> bit (ntohl ip) i)"
    unfolding bit_eq_iff using assms(2)
    by (auto simp: bit_simps bit_prefix_mask dest: bit_imp_le_length)
  also have "\<dots> \<longleftrightarrow> drop_bit (32 - n) (ntohl (dest e)) = drop_bit (32 - n) (ntohl ip)
    \<and> take_bit (32 - n) (ntohl (dest e)) = 0" (is "?l \<longleftrightarrow> ?r")
  proof
    assume l: ?l
    show ?r
    proof (intro conjI bit_word_eqI)
      fix i show "bit (drop_bit (32 - n) (ntohl (dest e))) i = bit (drop_bit (32 - n) (ntohl ip)) i"
        using l bit_imp_le_length [of "ntohl (dest e)" "32 - n + i"]
          bit_imp_le_length [of "ntohl ip" "32 - n + i"]
        by (cases "32 - n + i < 32") (auto simp: bit_drop_bit_eq)
    next
      fix i show "bit (take_bit (32 - n) (ntohl (dest e))) i = bit 0 i"
        using l by (auto simp: bit_simps dest: bit_imp_le_length)
    qed
  next
    assume r: ?r
    show ?l
    proof (intro allI impI)
      fix i :: nat assume "i < 32"
      show "bit (ntohl (dest e)) i \<longleftrightarrow> 32 - n \<le> i \<and> bit (ntohl ip) i"
      proof (cases "32 - n \<le> i")
        case True
        then have "bit (drop_bit (32 - n) (ntohl (dest e))) (i - (32 - n)) =
          bit (drop_bit (32 - n) (ntohl ip)) (i - (32 - n))" using r by simp
        with True show ?thesis by (simp add: bit_drop_bit_eq)
      next
        case False
        have "\<not> bit (take_bit (32 - n) (ntohl (dest e))) i" using r by simp
        with False show ?thesis by (simp add: bit_take_bit_iff)
      qed
    qed
  qed
  finally show ?thesis .
qed

section \<open>The loader reads what the printer prints\<close>

lemma tokens_Nil [simp]: "tokens [] = []"
  by (subst tokens.simps) simp

lemma tokens_space: "isspace c \<Longrightarrow> tokens (c # s) = tokens s"
  by (subst (1 2) tokens.simps) simp

lemma tokens_word:
  assumes "w \<noteq> []" "\<forall>c\<in>set w. \<not> isspace c" "isspace c"
  shows "tokens (w @ c # s) = w # tokens (c # s)"
proof -
  have d: "dropWhile isspace (w @ c # s) = w @ c # s" using assms by (cases w) auto
  have "takeWhile (\<lambda>c. \<not> isspace c) (w @ c # s) = w"
    "dropWhile (\<lambda>c. \<not> isspace c) (w @ c # s) = c # s"
    using assms by (auto simp: takeWhile_append dropWhile_append)
  with d show ?thesis by (subst tokens.simps) (simp add: Let_def)
qed

lemma isspace_tab [simp]: "isspace (CHR 0x09)" "isspace (CHR 0x0A)"
  by (simp_all add: isspace_def)

lemma dec_digit [simp]: "n < 10 \<Longrightarrow> digit_of (dec_digit n) = n" "n < 10 \<Longrightarrow> isdigit (dec_digit n)"
  "n < 10 \<Longrightarrow> \<not> isspace (dec_digit n)"
  by (auto simp: digit_of_def dec_digit_def isdigit_def isspace_def Let_def)

lemma dec_octet_digits:
  assumes "n < 256"
  shows "dec_octet n \<noteq> []" "\<forall>c\<in>set (dec_octet n). digit_of c < 10 \<and> \<not> isspace c"
    "isdigit (hd (dec_octet n))" "length (dec_octet n) \<le> 3"
  using assms by (auto simp: dec_octet_def)

lemma number_dec_octet: assumes "n < 256" shows "number 10 (dec_octet n) = n"
proof -
  have d: "n div 100 = n div 10 div 10" by (simp add: div_mult2_eq [symmetric])
  have "n div 100 * 10 + n div 10 mod 10 = n div 10" unfolding d by (rule div_mult_mod_eq)
  moreover have "n div 10 * 10 + n mod 10 = n" by (rule div_mult_mod_eq)
  ultimately have "(n div 100 * 10 + n div 10 mod 10) * 10 + n mod 10 = n" by simp
  with assms show ?thesis by (simp add: number_def dec_octet_def)
qed

lemma dec_digit_zero: assumes "n < 10" shows "dec_digit n = CHR ''0'' \<longleftrightarrow> n = 0"
proof
  assume "dec_digit n = CHR ''0''"
  then have "digit_of (dec_digit n) = digit_of CHR ''0''" by simp
  with assms show "n = 0" by (simp add: digit_of_def [of "CHR ''0''"])
next
  assume "n = 0"
  moreover have "of_char CHR ''0'' = (48 :: nat)" by simp
  ultimately show "dec_digit n = CHR ''0''" by (metis add_0_right char_of_char dec_digit_def)
qed

lemma strtoul_dec_octet:
  assumes n: "n < 256" and s: "s = [] \<or> digit_of (hd s) \<ge> 16 \<and> hd s \<noteq> CHR ''x'' \<and> hd s \<noteq> CHR ''X''"
  shows "strtoul (dec_octet n @ s) = (n, s)"
proof (cases "n = 0")
  case True
  have z: "digit_of CHR ''0'' = 0" by (simp add: digit_of_def)
  have d: "dec_octet n = [CHR ''0'']" using True by (simp add: dec_octet_def dec_digit_zero)
  have "strtoul_base (dec_octet n @ s) = (8, CHR ''0'' # s)"
    using s d by (cases s) (auto simp: strtoul_base_def)
  then show ?thesis using s True d z
    by (cases s) (auto simp: strtoul_def number_def)
next
  case False
  have hd: "hd (dec_octet n @ s) \<noteq> CHR ''0''"
    using n False by (auto simp: dec_octet_def dec_digit_zero)
  then have b: "strtoul_base (dec_octet n @ s) = (10, dec_octet n @ s)"
    by (simp add: strtoul_base_def)
  have "takeWhile (\<lambda>c. digit_of c < 10) (dec_octet n @ s) = dec_octet n"
    "dropWhile (\<lambda>c. digit_of c < 10) (dec_octet n @ s) = s"
    using dec_octet_digits(2) [OF n] s by (cases s; auto simp: takeWhile_append dropWhile_append)+
  with b show ?thesis by (simp add: strtoul_def number_dec_octet n)
qed

lemma octet_less [simp]: "octet i a < 256"
  by (simp add: octet_def)

lemma octets_join:
  "((octet 3 a * 256 + octet 2 a) * 256 + octet 1 a) * 256 + octet 0 a = unat (ntohl a)"
proof -
  define n where "n = unat (ntohl a)"
  have "n < 256 * (256 * (256 * 256))"
    using unsigned_less [of "ntohl a", where ?'a = nat] by (simp add: n_def)
  then have top: "n div 256 div 256 div 256 < 256"
    by (simp add: div_less_iff_less_mult mult.commute del: div_mult2_eq)
  have "octet 3 a = n div 256 div 256 div 256 mod 256" "octet 2 a = n div 256 div 256 mod 256"
    "octet 1 a = n div 256 mod 256" "octet 0 a = n mod 256"
    by (simp_all add: octet_def n_def div_mult2_eq [symmetric])
  with top show ?thesis by (simp add: n_def [symmetric])
qed

lemma inet_parts_step:
  assumes n: "n < 256"
  shows "inet_parts (Suc (Suc k)) acc (dec_octet n @ CHR ''.'' # s) = inet_parts (Suc k) (acc + n * 256 ^ Suc k) s"
    "inet_parts (Suc 0) acc (dec_octet n) = Some (acc + n)"
proof -
  have dot: "digit_of CHR ''.'' \<ge> 16" by (simp add: digit_of_def)
  have hd: "isdigit (hd (dec_octet n @ s)) \<and> dec_octet n \<noteq> []" for s
    using dec_octet_digits [OF n] by auto
  have 1: "strtoul (dec_octet n @ CHR ''.'' # s) = (n, CHR ''.'' # s)"
    using strtoul_dec_octet [OF n, of "CHR ''.'' # s"] dot by simp
  have 2: "strtoul (dec_octet n) = (n, [])"
    using strtoul_dec_octet [OF n, of "[]"] by simp
  show "inet_parts (Suc (Suc k)) acc (dec_octet n @ CHR ''.'' # s) =
      inet_parts (Suc k) (acc + n * 256 ^ Suc k) s"
    using n hd [of "CHR ''.'' # s"] by (simp only: inet_parts.simps(2) 1) simp
  show "inet_parts (Suc 0) acc (dec_octet n) = Some (acc + n)"
    using n hd [of "[]"] by (simp add: 2)
qed

lemma inet_aton_ntoa [simp]: "inet_aton (inet_ntoa a) = Some a"
proof -
  have s: "inet_ntoa a = dec_octet (octet 3 a) @ CHR ''.'' # dec_octet (octet 2 a) @ CHR ''.'' #
      dec_octet (octet 1 a) @ CHR ''.'' # dec_octet (octet 0 a)"
    by (simp add: inet_ntoa_def)
  have 4: "4 = Suc (Suc (Suc (Suc 0)))" by simp
  have "inet_parts 4 0 (inet_ntoa a) = Some (unat (ntohl a))"
    unfolding s 4 by (simp only: inet_parts_step octet_less octets_join [symmetric]) (simp add: algebra_simps)
  then show ?thesis by (simp add: inet_aton_def)
qed

lemma inet_ntoa_word:
  "inet_ntoa a \<noteq> []" "c \<in> set (inet_ntoa a) \<Longrightarrow> \<not> isspace c" "length (inet_ntoa a) \<le> 15"
proof -
  have d: "\<not> isspace CHR ''.''" by (simp add: isspace_def)
  show "inet_ntoa a \<noteq> []" by (simp add: inet_ntoa_def)
  show "c \<in> set (inet_ntoa a) \<Longrightarrow> \<not> isspace c"
    using dec_octet_digits(2) [OF octet_less] d by (auto simp: inet_ntoa_def)
  show "length (inet_ntoa a) \<le> 15"
    using dec_octet_digits(4) [of "octet 3 a"] dec_octet_digits(4) [of "octet 2 a"]
      dec_octet_digits(4) [of "octet 1 a"] dec_octet_digits(4) [of "octet 0 a"]
    by (simp add: inet_ntoa_def)
qed

definition wf_rt_name :: "string \<Rightarrow> bool" where
  "wf_rt_name s \<longleftrightarrow> s \<noteq> [] \<and> length s < sr_IFACE_NAMELEN \<and> (\<forall>c\<in>set s. \<not> isspace c)"

lemma tokens_entry:
  assumes "wf_rt_name (interface e)"
  shows "tokens (sr_print_routing_entry e) =
    [inet_ntoa (dest e), inet_ntoa (gw e), inet_ntoa (mask e), interface e]"
  using assms inet_ntoa_word
  by (simp add: sr_print_routing_entry_def tokens_word tokens_space wf_rt_name_def)

lemma sscanf4_entry:
  assumes "wf_rt_name (interface e)"
  shows "sscanf4 (sr_print_routing_entry e) b =
    Inr \<lparr> b_dest = inet_ntoa (dest e), b_gw = inet_ntoa (gw e), b_mask = inet_ntoa (mask e),
          b_iface = interface e \<rparr>"
proof -
  have "\<not> 32 \<le> length (inet_ntoa a)" for a using inet_ntoa_word(3) [of a] by simp
  with assms show ?thesis by (simp add: sscanf4_def tokens_entry wf_rt_name_def)
qed

lemma sr_rt_new_fields [simp]:
  "wf_rt_name (interface e) \<Longrightarrow> sr_rt_new (dest e) (gw e) (mask e) (interface e) = e"
  by (cases e) (simp add: sr_rt_new_def wf_rt_name_def strncpy_def)

lemma sr_load_rt_lines_entries:
  assumes "\<forall>e\<in>set es. wf_rt_name (interface e)"
  shows "sr_load_rt_lines (map sr_print_routing_entry es) b True rt = Inr (0, rt @ es)"
  using assms by (induction es arbitrary: b rt) (auto simp: sscanf4_entry sr_add_rt_entry_append)

text \<open>
  C31. The routing table is read back exactly: a file holding the lines that
  \<^verbatim>\<open>sr_print_routing_entry\<close> prints for the entries of a table loads as that table, in the
  same order, replacing whatever was there, and the loader reports success.
\<close>

theorem sr_load_rt_roundtrip:
  assumes "\<forall>e\<in>set rt. wf_rt_name (interface e)" "rt \<noteq> []"
  shows "sr_load_rt b old (Some (map sr_print_routing_entry rt)) = Inr (0, rt)"
proof -
  obtain e es where rt: "rt = e # es" using assms(2) by (cases rt) auto
  show ?thesis using assms(1) unfolding rt
    by (simp add: sr_load_rt_def sscanf4_entry sr_add_rt_entry_append sr_load_rt_lines_entries)
qed

theorem sr_load_rt_roundtrip_witness:
  "let e = \<lparr> dest = htonl 0x0A000100, gw = htonl 0x0A000102, mask = htonl 0xFFFFFF00, interface = ''eth1'' \<rparr>
   in sr_load_rt \<lparr> b_dest = [], b_gw = [], b_mask = [], b_iface = [] \<rparr> []
        (Some [sr_print_routing_entry e, sr_print_routing_entry e]) = Inr (0, [e, e])"
proof -
  let ?e = "\<lparr> dest = htonl 0x0A000100, gw = htonl 0x0A000102, mask = htonl 0xFFFFFF00, interface = ''eth1'' \<rparr>"
  have "\<forall>e\<in>set [?e, ?e]. wf_rt_name (interface e)"
    by (simp add: wf_rt_name_def isspace_def)
  from sr_load_rt_roundtrip [OF this, of "\<lparr> b_dest = [], b_gw = [], b_mask = [], b_iface = [] \<rparr>" "[]"]
  show ?thesis by (simp add: Let_def)
qed

text \<open>
  C10. Longest prefix match, in full: the search returns \<open>r\<close> exactly when \<open>r\<close> matches
  the destination, no matching entry before it has a greater mask, and every matching
  entry after it has a smaller one; it returns NULL exactly when nothing matches.
\<close>

theorem longest_prefix_match_spec:
  "(longest_prefix_match rt ip = Some r \<longleftrightarrow>
     (\<exists>pre post. rt = pre @ r # post \<and> mask r AND ip = dest r
       \<and> (\<forall>q\<in>set pre. mask q AND ip = dest q \<longrightarrow> ntohl (mask q) \<le> ntohl (mask r))
       \<and> (\<forall>q\<in>set post. mask q AND ip = dest q \<longrightarrow> ntohl (mask q) < ntohl (mask r))))
   \<and> (longest_prefix_match rt ip = None \<longleftrightarrow> (\<forall>q\<in>set rt. mask q AND ip \<noteq> dest q))"
  unfolding lpm_iff lpm_None lpm_best_def rt_matches_def by blast

theorem longest_prefix_match_spec_witness:
  "longest_prefix_match
     [\<lparr> dest = 0, gw = 1, mask = 0, interface = ''eth0'' \<rparr>,
      \<lparr> dest = htonl 0x0A000000, gw = 2, mask = htonl 0xFF000000, interface = ''eth1'' \<rparr>]
     (htonl 0x0A010203)
   = Some \<lparr> dest = htonl 0x0A000000, gw = 2, mask = htonl 0xFF000000, interface = ''eth1'' \<rparr>"
proof -
  let ?a = "\<lparr> dest = 0, gw = 1, mask = 0, interface = ''eth0'' \<rparr>"
  let ?b = "\<lparr> dest = htonl 0x0A000000, gw = 2, mask = htonl 0xFF000000, interface = ''eth1'' \<rparr>"
  have "\<exists>pre post. [?a, ?b] = pre @ ?b # post \<and> mask ?b AND htonl 0x0A010203 = dest ?b
       \<and> (\<forall>q\<in>set pre. mask q AND htonl 0x0A010203 = dest q \<longrightarrow> ntohl (mask q) \<le> ntohl (mask ?b))
       \<and> (\<forall>q\<in>set post. mask q AND htonl 0x0A010203 = dest q \<longrightarrow> ntohl (mask q) < ntohl (mask ?b))"
    by (intro exI [of _ "[?a]"] exI [of _ "[]"]) (simp add: htonl_and [symmetric])
  then show ?thesis using longest_prefix_match_spec [of "[?a, ?b]" "htonl 0x0A010203" ?b] by blast
qed

text \<open>
  With contiguous masks the search is a longest-prefix lookup: the entry found
  agrees with the destination on all the bits of its prefix, and no entry with a longer
  prefix agrees with it.
\<close>

theorem longest_prefix_match_longest:
  assumes masks: "\<forall>e\<in>set rt. \<exists>n\<le>32. mask e = prefix_mask n"
    and r: "longest_prefix_match rt ip = Some r"
  shows "\<exists>n\<le>32. mask r = prefix_mask n
     \<and> drop_bit (32 - n) (ntohl (dest r)) = drop_bit (32 - n) (ntohl ip)
     \<and> (\<forall>q\<in>set rt. \<forall>k. n < k \<and> k \<le> 32 \<and> mask q = prefix_mask k \<longrightarrow>
          \<not> (drop_bit (32 - k) (ntohl (dest q)) = drop_bit (32 - k) (ntohl ip)
             \<and> take_bit (32 - k) (ntohl (dest q)) = 0))"
proof -
  have b: "lpm_best ip rt r" and m: "r \<in> set rt" "rt_matches ip r"
    using lpm_Some [OF r] lpm_in_table [OF r] by auto
  obtain n where n: "n \<le> 32" "mask r = prefix_mask n" using masks m(1) by blast
  have "\<not> rt_matches ip q" if "q \<in> set rt" "n < k" "k \<le> 32" "mask q = prefix_mask k" for q k
    using lpm_best_max [OF b that(1)] prefix_mask_less [OF that(2,3)] n that(4) by auto
  then show ?thesis using n m(2) rt_matches_prefix by (intro exI [of _ n]) blast
qed

theorem longest_prefix_match_longest_witness:
  "\<exists>n\<le>32. prefix_mask 8 = prefix_mask n
     \<and> drop_bit (32 - n) (0x0A000000 :: u32) = drop_bit (32 - n) 0x0A010203"
proof -
  let ?b = "\<lparr> dest = htonl 0x0A000000, gw = 2, mask = prefix_mask 8, interface = ''eth1'' \<rparr>"
  have m: "\<forall>e\<in>set [?b]. \<exists>n\<le>32. mask e = prefix_mask n" by (auto intro: exI [of _ 8])
  have "ntohl (prefix_mask 8) AND 0x0A010203 = 0x0A000000" by (simp add: prefix_mask_def push_bit_eq_mult mask_eq_exp_minus_1)
  then have "prefix_mask 8 AND htonl 0x0A010203 = htonl 0x0A000000"
    by (metis htonl_and htonl_htonl)
  then have "longest_prefix_match [?b] (htonl 0x0A010203) = Some ?b"
    by (simp add: longest_prefix_match_def)
  from longest_prefix_match_longest [OF m this] show ?thesis by auto
qed

section \<open>The consistency check\<close>

lemma sr_verify_rt_loop:
  "sr_verify_rt_loop ifs rt n =
     n + int (length (filter (\<lambda>e. sr_get_interface ifs (interface e) = None) rt))"
  by (induction rt arbitrary: n) (auto simp: sr_get_interface_find)

text \<open>
  \<^verbatim>\<open>sr_verify_routing_table\<close> returns 0 exactly when both tables are non-empty and the
  outgoing interface of every route exists; otherwise it returns the number of routes
  without one, or 999 for an empty table.
\<close>

theorem sr_verify_routing_table_spec:
  "sr_verify_routing_table ifs rt =
     (if ifs = [] \<or> rt = [] then 999
      else int (length (filter (\<lambda>e. sr_get_interface ifs (interface e) = None) rt)))
   \<and> (sr_verify_routing_table ifs rt = 0 \<longleftrightarrow>
      ifs \<noteq> [] \<and> rt \<noteq> [] \<and> (\<nexists>e. e \<in> set rt \<and> sr_get_interface ifs (interface e) = None))"
  by (auto simp: sr_verify_routing_table_def sr_verify_rt_loop filter_empty_conv)

end
