(* ===== verification/CText.thy ===== *)
theory CText
  imports Rtable
begin

text \<open>
  Text as the C library formats and reads it: the conversions \<^verbatim>\<open>%d\<close>, \<^verbatim>\<open>%u\<close>, \<^verbatim>\<open>%x\<close> and \<^verbatim>\<open>%02x\<close> of
  \<^verbatim>\<open>printf\<close>, \<^verbatim>\<open>snprintf\<close> with its bound, \<^verbatim>\<open>atoi\<close>, and \<^verbatim>\<open>fgets\<close> over the bytes of a file. The lemmas
  bound the lengths and show that \<^verbatim>\<open>atoi\<close> reads what \<^verbatim>\<open>%d\<close> writes.
\<close>

section \<open>Formatting\<close>

fun dec :: "nat \<Rightarrow> string" where
  "dec n = (if n < 10 then [dec_digit n] else dec (n div 10) @ [dec_digit (n mod 10)])"

declare dec.simps [simp del]

definition dec_int :: "int \<Rightarrow> string" where
  "dec_int i = (if i < 0 then CHR ''-'' # dec (nat (- i)) else dec (nat i))"

definition hex_digit :: "nat \<Rightarrow> char" where
  "hex_digit n = (if n < 10 then char_of (48 + n) else char_of (87 + n))"

fun hexa :: "nat \<Rightarrow> string" where
  "hexa n = (if n < 16 then [hex_digit n] else hexa (n div 16) @ [hex_digit (n mod 16)])"

declare hexa.simps [simp del]

definition hex2 :: "byte \<Rightarrow> string" where
  "hex2 b = [hex_digit (unat b div 16), hex_digit (unat b mod 16)]"

text \<open>\<^verbatim>\<open>snprintf(buf, n, ...)\<close> writes the NUL in the last of the \<open>n\<close> places at the latest.\<close>

definition snprintf :: "nat \<Rightarrow> string \<Rightarrow> string" where
  "snprintf n s = take (n - 1) s"

abbreviation TAB :: char where "TAB \<equiv> CHR 0x09"
abbreviation LF :: char where "LF \<equiv> CHR 0x0A"

section \<open>Reading\<close>

text \<open>\<^verbatim>\<open>atoi\<close> is \<^verbatim>\<open>(int) strtol(s, NULL, 10)\<close>: the \<^verbatim>\<open>long\<close> saturates, the \<^verbatim>\<open>int\<close> keeps its lower half.\<close>

definition strtol10 :: "string \<Rightarrow> int" where
  "strtol10 s =
     (let t = dropWhile isspace s;
          neg = t \<noteq> [] \<and> hd t = CHR ''-'';
          u = (if t \<noteq> [] \<and> (hd t = CHR ''-'' \<or> hd t = CHR ''+'') then tl t else t);
          n = int (number 10 (takeWhile isdigit u))
      in if neg then max (- n) (- (2 ^ 63)) else min n (2 ^ 63 - 1))"

definition atoi :: "string \<Rightarrow> int" where
  "atoi s = sint (of_int (strtol10 s) :: u32)"

text \<open>What \<^verbatim>\<open>fgets\<close> delivers from a file, \<open>n > 1\<close> being the size of its buffer.\<close>

function fgets_lines :: "nat \<Rightarrow> string \<Rightarrow> string list" where
  "fgets_lines n s =
     (if s = [] \<or> n < 2 then [] else
      let l = takeWhile (\<lambda>c. c \<noteq> LF) s;
          k = (if length l < n - 1 then (if length l < length s then length l + 1 else length l) else n - 1)
      in take k s # fgets_lines n (drop k s))"
  by auto
termination
proof (relation "measure (\<lambda>(n, s). length s)")
  fix n :: nat and s l k
  assume a: "\<not> (s = [] \<or> n < 2)" "l = takeWhile (\<lambda>c. c \<noteq> LF) s"
    "k = (if length l < n - 1 then (if length l < length s then length l + 1 else length l) else n - 1)"
  have "length l = length s \<Longrightarrow> 0 < length l" using a(1) by auto
  then have "0 < k" using a length_takeWhile_le [of "\<lambda>c. c \<noteq> LF" s] by (auto split: if_splits)
  then show "((n, drop k s), n, s) \<in> measure (\<lambda>(n, s). length s)" using a(1) by simp
qed simp

declare fgets_lines.simps [simp del]

section \<open>Lemmas\<close>

lemma snprintf_fits [simp]: "length s < n \<Longrightarrow> snprintf n s = s"
  by (simp add: snprintf_def)

lemma length_snprintf: "length (snprintf n s) \<le> n - 1"
  by (simp add: snprintf_def)

lemma dec_digit_is: "d < 10 \<Longrightarrow> isdigit (dec_digit d) \<and> digit_of (dec_digit d) = d"
  by (auto simp: isdigit_def digit_of_def dec_digit_def Let_def)

lemma number_snoc: "number b (s @ [c]) = number b s * b + digit_of c"
  by (simp add: number_def)

lemma dec_digits: "(\<forall>c\<in>set (dec n). isdigit c) \<and> number 10 (dec n) = n \<and> dec n \<noteq> []"
proof (induction n rule: dec.induct)
  case (1 n)
  show ?case
  proof (cases "n < 10")
    case True
    then show ?thesis using dec_digit_is [of n] by (simp add: dec.simps [of n] number_def)
  next
    case False
    have "n mod 10 < 10" by simp
    with 1 [OF False] False dec_digit_is [of "n mod 10"] show ?thesis
      by (simp add: dec.simps [of n] number_snoc)
  qed
qed

lemma length_dec: "n < 10 ^ Suc k \<Longrightarrow> length (dec n) \<le> Suc k"
proof (induction k arbitrary: n)
  case (Suc k)
  have "n div 10 < 10 ^ Suc k" using Suc.prems by (simp add: less_mult_imp_div_less)
  from Suc.IH [OF this] show ?case by (simp add: dec.simps [of n])
qed (simp add: dec.simps)

lemma isdigit_plain: "isdigit c \<Longrightarrow> \<not> isspace c \<and> c \<noteq> CHR ''-'' \<and> c \<noteq> CHR ''+'' \<and> c \<noteq> TAB \<and> c \<noteq> LF"
  by (auto simp: isdigit_def isspace_def)

lemma strtol_dec:
  assumes "\<bar>i\<bar> < 2 ^ 63" shows "strtol10 (dec_int i) = i"
proof -
  define n where "n = nat \<bar>i\<bar>"
  obtain c cs where d: "dec n = c # cs" using dec_digits [of n] by (cases "dec n") auto
  have dd: "\<forall>x\<in>set (c # cs). isdigit x" "number 10 (c # cs) = n" using dec_digits [of n] d by auto
  then have p: "\<not> isspace c" "c \<noteq> CHR ''-''" "c \<noteq> CHR ''+''" "isdigit c"
    using isdigit_plain [of c] by auto
  have tw: "takeWhile isdigit cs = cs" using dd by simp
  have m: "\<not> isspace (CHR ''-'')" by (simp add: isspace_def)
  show ?thesis
  proof (cases "i < 0")
    case True
    then have "dec_int i = CHR ''-'' # c # cs" "int n = - i" using d by (simp_all add: dec_int_def n_def)
    then show ?thesis using p dd(2) m assms True by (simp add: strtol10_def Let_def tw)
  next
    case False
    then have "dec_int i = c # cs" "int n = i" using d by (simp_all add: dec_int_def n_def)
    then show ?thesis using p dd(2) assms False by (simp add: strtol10_def Let_def tw)
  qed
qed

lemma atoi_dec:
  assumes "- (2 ^ 31) \<le> i" "i < 2 ^ 31" shows "atoi (dec_int i) = i"
  using strtol_dec [of i] assms by (simp add: atoi_def signed_of_int signed_take_bit_int_eq_self)

lemma length_dec_int:
  assumes "- (2 ^ 31) \<le> i" "i < 2 ^ 32" shows "length (dec_int i) \<le> 11"
proof -
  have "length (dec (nat \<bar>i\<bar>)) \<le> Suc 9" using assms by (intro length_dec) simp
  then show ?thesis by (auto simp: dec_int_def)
qed

lemma dec_int_plain: "c \<in> set (dec_int i) \<Longrightarrow> c \<noteq> TAB \<and> c \<noteq> LF"
  using dec_digits isdigit_plain by (auto simp: dec_int_def split: if_splits)

definition unhex2 :: "char \<Rightarrow> char \<Rightarrow> byte" where
  "unhex2 a b = of_nat (digit_of a * 16 + digit_of b)"

lemma digit_of_hex: "n < 16 \<Longrightarrow> digit_of (hex_digit n) = n"
  by (auto simp: digit_of_def hex_digit_def Let_def)

lemma unhex2_hex2: "hex2 b = [x, y] \<Longrightarrow> unhex2 x y = b"
proof -
  assume "hex2 b = [x, y]"
  moreover have "unat b < 2 ^ LENGTH(8)" by (rule unsigned_less)
  then have "unat b div 16 < 16" by (simp add: less_mult_imp_div_less)
  moreover have "of_nat (unat b div 16 * 16 + unat b mod 16) = b" by (simp only: div_mult_mod_eq) simp
  ultimately show ?thesis by (auto simp: hex2_def unhex2_def digit_of_hex simp del: of_nat_add of_nat_mult)
qed

lemma fgets_lines_concat: "2 \<le> n \<Longrightarrow> concat (fgets_lines n s) = s"
  by (induction n s rule: fgets_lines.induct) (subst fgets_lines.simps, auto simp: Let_def)

text \<open>A file of lines that fit the buffer is read line by line.\<close>

lemma fgets_lines_lines:
  "\<forall>l\<in>set ls. \<exists>w. l = w @ [LF] \<and> LF \<notin> set w \<and> length w < n - 1 \<Longrightarrow> fgets_lines n (concat ls) = ls"
proof (induction ls)
  case (Cons l ls)
  then obtain w where w: "l = w @ [LF]" "LF \<notin> set w" "length w < n - 1" by auto
  have "takeWhile (\<lambda>c. c \<noteq> LF) (w @ LF # concat ls) = w"
    using w(2) by (induction w) auto
  with w Cons show ?case by (subst fgets_lines.simps) (simp add: Let_def)
qed (simp add: fgets_lines.simps)

end
