(* ===== verification/Dumper.thy ===== *)
theory Dumper
  imports Prelude
begin

text \<open>
  The packet log of the router, \<^verbatim>\<open>sr_dumper.c\<close> with \<^verbatim>\<open>sr_dumper.h\<close>: a file in the format of tcpdump, a
  header followed by records, each a header of its own and the captured bytes. A \<^verbatim>\<open>FILE\<close> is the
  list of the bytes written to it; the structures are written as a little-endian host lays them out.
  \<open>read_dump\<close> is a reader of the format, and what the router writes reads back as what it was
  given.
\<close>

section \<open>The file\<close>

definition PCAP_VERSION_MAJOR :: u16 where [simp]: "PCAP_VERSION_MAJOR = 2"
definition PCAP_VERSION_MINOR :: u16 where [simp]: "PCAP_VERSION_MINOR = 4"
definition TCPDUMP_MAGIC :: u32 where [simp]: "TCPDUMP_MAGIC = 0xa1b2c3d4"
definition LINKTYPE_ETHERNET :: u32 where [simp]: "LINKTYPE_ETHERNET = 1"

record pcap_file_header =
  pf_magic :: u32
  pf_version_major :: u16
  pf_version_minor :: u16
  pf_thiszone :: u32
  pf_sigfigs :: u32
  pf_snaplen :: u32
  pf_linktype :: u32

text \<open>A \<^verbatim>\<open>struct timeval\<close> has two 64-bit members; on disk they are cut to 32 bits.\<close>

record pcap_pkthdr =
  tv_sec :: u64
  tv_usec :: u64
  pk_caplen :: u32
  pk_len :: u32

record pcap_sf_pkthdr =
  sf_sec :: u32
  sf_usec :: u32
  sf_caplen :: u32
  sf_len :: u32

definition pcap_file_header_bytes :: "pcap_file_header \<Rightarrow> bytes" where
  "pcap_file_header_bytes h = bytes32 (pf_magic h) @ bytes16 (pf_version_major h) @ bytes16 (pf_version_minor h)
     @ bytes32 (pf_thiszone h) @ bytes32 (pf_sigfigs h) @ bytes32 (pf_snaplen h) @ bytes32 (pf_linktype h)"

definition pcap_sf_pkthdr_bytes :: "pcap_sf_pkthdr \<Rightarrow> bytes" where
  "pcap_sf_pkthdr_bytes h = bytes32 (sf_sec h) @ bytes32 (sf_usec h) @ bytes32 (sf_caplen h) @ bytes32 (sf_len h)"

definition sf_write_header :: "bytes \<Rightarrow> u32 \<Rightarrow> u32 \<Rightarrow> u32 \<Rightarrow> bytes" where
  "sf_write_header fp linktype thiszone snaplen =
     fp @ pcap_file_header_bytes \<lparr> pf_magic = TCPDUMP_MAGIC, pf_version_major = PCAP_VERSION_MAJOR,
       pf_version_minor = PCAP_VERSION_MINOR, pf_thiszone = thiszone, pf_sigfigs = 0, pf_snaplen = snaplen,
       pf_linktype = linktype \<rparr>"

text \<open>
  The name - stands for the standard output, which holds \<open>out\<close> already; \<open>can_open\<close> says whether \<^verbatim>\<open>fopen\<close>
  succeeds, with an empty file.
\<close>

definition sr_dump_open :: "bytes \<Rightarrow> bool \<Rightarrow> string \<Rightarrow> u32 \<Rightarrow> u32 \<Rightarrow> bytes option" where
  "sr_dump_open out can_open fname thiszone snaplen =
     (if fname = ''-'' then Some (sf_write_header out LINKTYPE_ETHERNET thiszone snaplen)
      else if \<not> can_open then None
      else Some (sf_write_header [] LINKTYPE_ETHERNET thiszone snaplen))"

definition sr_dump :: "bytes \<Rightarrow> pcap_pkthdr \<Rightarrow> bytes \<Rightarrow> bytes res" where
  "sr_dump fp h sp =
     (let sf_hdr = \<lparr> sf_sec = ucast (tv_sec h), sf_usec = ucast (tv_usec h), sf_caplen = pk_caplen h, sf_len = pk_len h \<rparr>
      in bnd (read_bytes sp 0 (unat (pk_caplen h))) (\<lambda>b. Inr (fp @ pcap_sf_pkthdr_bytes sf_hdr @ b)))"

section \<open>Reading a file\<close>

definition rd32 :: "bytes \<Rightarrow> nat \<Rightarrow> u32" where
  "rd32 b i = le32 (b ! i) (b ! (i + 1)) (b ! (i + 2)) (b ! (i + 3))"

definition rd16 :: "bytes \<Rightarrow> nat \<Rightarrow> u16" where
  "rd16 b i = le16 (b ! i) (b ! (i + 1))"

type_synonym dump_record = "pcap_sf_pkthdr \<times> bytes"

function read_records :: "bytes \<Rightarrow> dump_record list option" where
  "read_records b =
     (if b = [] then Some []
      else if length b < 16 then None
      else let h = \<lparr> sf_sec = rd32 b 0, sf_usec = rd32 b 4, sf_caplen = rd32 b 8, sf_len = rd32 b 12 \<rparr>;
               n = unat (sf_caplen h); r = drop 16 b
        in if length r < n then None
           else map_option (\<lambda>rs. (h, take n r) # rs) (read_records (drop n r)))"
  by pat_completeness auto
termination by (relation "measure length") auto

declare read_records.simps [simp del]

definition read_dump :: "bytes \<Rightarrow> (pcap_file_header \<times> dump_record list) option" where
  "read_dump b =
     (if length b < 24 \<or> rd32 b 0 \<noteq> TCPDUMP_MAGIC then None
      else map_option (Pair \<lparr> pf_magic = rd32 b 0, pf_version_major = rd16 b 4, pf_version_minor = rd16 b 6,
             pf_thiszone = rd32 b 8, pf_sigfigs = rd32 b 12, pf_snaplen = rd32 b 16, pf_linktype = rd32 b 20 \<rparr>)
        (read_records (drop 24 b)))"

section \<open>Lemmas\<close>

definition record_bytes :: "dump_record \<Rightarrow> bytes" where
  "record_bytes r = pcap_sf_pkthdr_bytes (fst r) @ snd r"

definition record_ok :: "dump_record \<Rightarrow> bool" where
  "record_ok r \<longleftrightarrow> length (snd r) = unat (sf_caplen (fst r))"

lemma length_pcap_headers [simp]:
  "length (pcap_file_header_bytes f) = 24" "length (pcap_sf_pkthdr_bytes h) = 16"
  by (simp_all add: pcap_file_header_bytes_def pcap_sf_pkthdr_bytes_def)

lemma read_sf_pkthdr:
  "rd32 (pcap_sf_pkthdr_bytes h @ b) 0 = sf_sec h" "rd32 (pcap_sf_pkthdr_bytes h @ b) 4 = sf_usec h"
  "rd32 (pcap_sf_pkthdr_bytes h @ b) 8 = sf_caplen h" "rd32 (pcap_sf_pkthdr_bytes h @ b) 12 = sf_len h"
  by (simp_all add: rd32_def pcap_sf_pkthdr_bytes_def bytes32_def)

lemma read_file_header:
  "rd32 (pcap_file_header_bytes f @ b) 0 = pf_magic f" "rd16 (pcap_file_header_bytes f @ b) 4 = pf_version_major f"
  "rd16 (pcap_file_header_bytes f @ b) 6 = pf_version_minor f" "rd32 (pcap_file_header_bytes f @ b) 8 = pf_thiszone f"
  "rd32 (pcap_file_header_bytes f @ b) 12 = pf_sigfigs f" "rd32 (pcap_file_header_bytes f @ b) 16 = pf_snaplen f"
  "rd32 (pcap_file_header_bytes f @ b) 20 = pf_linktype f"
  by (simp_all add: rd32_def rd16_def pcap_file_header_bytes_def bytes32_def bytes16_def)

lemma read_records_Cons:
  assumes "record_ok r"
  shows "read_records (record_bytes r @ b) = map_option (Cons r) (read_records b)"
proof (cases r)
  case (Pair h d)
  have "pcap_sf_pkthdr_bytes h \<noteq> []" by (metis length_pcap_headers(2) list.size(3) zero_neq_numeral)
  with assms Pair show ?thesis
    by (cases h, subst read_records.simps) (simp add: record_bytes_def record_ok_def read_sf_pkthdr)
qed

lemma read_records_all:
  "\<forall>r\<in>set rs. record_ok r \<Longrightarrow> read_records (concat (map record_bytes rs)) = Some rs"
  by (induction rs) (simp_all add: read_records_Cons read_records.simps [of "[]"])

lemma read_dump_file:
  assumes "pf_magic f = TCPDUMP_MAGIC" "\<forall>r\<in>set rs. record_ok r"
  shows "read_dump (pcap_file_header_bytes f @ concat (map record_bytes rs)) = Some (f, rs)"
  using assms by (simp add: read_dump_def read_file_header read_records_all)

lemma sr_dump_record:
  assumes "unat (pk_caplen h) \<le> length sp"
  shows "\<exists>r. sr_dump fp h sp = Inr (fp @ record_bytes r) \<and> record_ok r \<and> snd r = take (unat (pk_caplen h)) sp
    \<and> fst r = \<lparr> sf_sec = ucast (tv_sec h), sf_usec = ucast (tv_usec h), sf_caplen = pk_caplen h, sf_len = pk_len h \<rparr>"
  using assms
  by (intro exI [of _ "(\<lparr> sf_sec = ucast (tv_sec h), sf_usec = ucast (tv_usec h), sf_caplen = pk_caplen h,
      sf_len = pk_len h \<rparr>, take (unat (pk_caplen h)) sp)"])
    (simp add: sr_dump_def read_bytes_def record_bytes_def record_ok_def)

end
