(* ===== verification/Cksum.thy ===== *)
theory Cksum
  imports Prelude
begin

text \<open>
  The Internet checksum of \<^verbatim>\<open>sr_utils.c\<close> (router) and \<^verbatim>\<open>ctcp_utils.c\<close> (cTCP), which
  are the same loop, and the corruption primitive \<^verbatim>\<open>flipbit\<close> of
  \<^verbatim>\<open>ctcp_sys_internal.h\<close>. The C code works on a 32-bit accumulator; \<open>wsum\<close> is the
  mathematical sum of the big-endian 16-bit words that it stands for.
\<close>

section \<open>The C code\<close>

fun cksum_sum :: "u32 \<Rightarrow> bytes \<Rightarrow> u32" where
  "cksum_sum s (a # b # data) = cksum_sum (s + (push_bit 8 (ucast a) OR ucast b)) data"
| "cksum_sum s [a] = s + push_bit 8 (ucast a)"
| "cksum_sum s [] = s"

lemma unat_fold_step:
  "unat (drop_bit 16 s + (s AND 0xFFFF) :: u32) = unat s div 65536 + unat s mod 65536"
proof -
  have a: "unat (s AND 0xFFFF) = unat s mod 65536"
  proof -
    have "s AND 0xFFFF = take_bit 16 s"
      by (simp add: take_bit_eq_mask mask_eq_exp_minus_1)
    then show ?thesis by (simp only: unsigned_take_bit_eq) (simp add: take_bit_eq_mod)
  qed
  have "unat s < 2 ^ LENGTH(32)" by (rule unsigned_less)
  then have lt: "unat s < 2 ^ 32" by simp
  have b: "unat (drop_bit 16 s) = unat s div 65536"
    using lt by (simp only: unsigned_drop_bit_eq) (simp add: drop_bit_eq_div take_bit_nat_eq_self)
  from lt have "unat s div 65536 + unat s mod 65536 < 2 ^ 32" by simp
  then show ?thesis using a b by (simp add: unat_word_ariths)
qed

lemma div_plus_mod_less: "65535 < (n :: nat) \<Longrightarrow> n div 65536 + n mod 65536 < n"
proof -
  assume "65535 < n"
  then have "0 < n div 65536" by (simp add: div_greater_zero_iff)
  moreover have "n = 65536 * (n div 65536) + n mod 65536" by simp
  ultimately show ?thesis by linarith
qed

lemma word_gt_FFFF: "(s :: u32) > 0xFFFF \<longleftrightarrow> unat s > 65535"
  by (simp add: word_less_nat_alt)

function cksum_fold :: "u32 \<Rightarrow> u32" where
  "cksum_fold s =
     (if s > 0xFFFF then cksum_fold (drop_bit 16 s + (s AND 0xFFFF)) else s)"
  by pat_completeness auto
termination
  by (relation "measure unat") (auto simp: unat_fold_step word_gt_FFFF div_plus_mod_less)

declare cksum_fold.simps [simp del]

definition cksum :: "bytes \<Rightarrow> u16" where
  "cksum data =
     (let s = cksum_fold (cksum_sum 0 data);
          s' = (ucast (htons (ucast (NOT s))) :: u32)
      in if s' \<noteq> 0 then ucast s' else 0xFFFF)"

text \<open>\<^verbatim>\<open>flipbit(segment, bit)\<close>: flip one bit of the segment; outside it is undefined.\<close>

definition flipbit :: "bytes \<Rightarrow> nat \<Rightarrow> bytes res" where
  "flipbit seg k =
     (if k div 8 < length seg
      then Inr (seg[k div 8 := seg ! (k div 8) XOR push_bit (k mod 8) 1])
      else Inl OutOfBounds)"

section \<open>The sum it computes\<close>

fun wsum :: "bytes \<Rightarrow> nat" where
  "wsum (a # b # data) = 256 * unat a + unat b + wsum data"
| "wsum [a] = 256 * unat a"
| "wsum [] = 0"

lemma wsum_append: "even (length xs) \<Longrightarrow> wsum (xs @ ys) = wsum xs + wsum ys"
  by (induction xs rule: wsum.induct) auto

lemma wsum_replicate_0 [simp]: "wsum (replicate n 0) = 0"
proof (induction n rule: less_induct)
  case (less n)
  show ?case
  proof (cases n)
    case (Suc m)
    then show ?thesis using less by (cases m) auto
  qed simp
qed

lemma unat_lt2p_byte: "unat (a :: byte) < 256"
proof -
  have "unat a < 2 ^ LENGTH(8)" by (rule unsigned_less)
  then show ?thesis by simp
qed

lemma unat_byte_bound: "unat (a :: byte) \<le> 255"
  using unat_lt2p_byte [of a] by simp

lemma wsum_bound: "wsum data \<le> 65535 * ((length data + 1) div 2)"
proof (induction data rule: wsum.induct)
  case (1 a b data)
  then show ?case using unat_byte_bound [of a] unat_byte_bound [of b] by simp
next
  case (2 a)
  then show ?case using unat_byte_bound [of a] by simp
qed simp

lemma wsum_less: "length data \<le> 131072 \<Longrightarrow> wsum data < 2 ^ 32"
proof -
  assume "length data \<le> 131072"
  then have "(length data + 1) div 2 \<le> 65536" by simp
  then have "65535 * ((length data + 1) div 2) \<le> 65535 * 65536" by simp
  with wsum_bound [of data] show ?thesis by simp
qed

lemma unat_ucast_byte [simp]: "unat (ucast (a :: byte) :: u32) = unat a"
  using unat_byte_bound [of a] by (simp add: unsigned_ucast_eq take_bit_nat_eq_self)

lemma unat_word_of_bytes:
  "unat (push_bit 8 (ucast (a :: byte)) OR ucast (b :: byte) :: u32) = 256 * unat a + unat b"
proof -
  have "push_bit 8 (ucast a) OR ucast b = (push_bit 8 (ucast a) + ucast b :: u32)"
    by (rule disjunctive_add [symmetric]) (auto simp: bit_simps dest: bit_imp_le_length)
  moreover have "unat (push_bit 8 (ucast a) :: u32) = 256 * unat a"
    using unat_byte_bound [of a]
    by (simp add: push_bit_eq_mult unat_word_ariths)
  ultimately show ?thesis
    using unat_byte_bound [of a] unat_byte_bound [of b] by (simp add: unat_word_ariths)
qed

lemma unat_word_of_byte:
  "unat (push_bit 8 (ucast (a :: byte)) :: u32) = 256 * unat a"
  using unat_word_of_bytes [of a 0] by simp

lemma unat_cksum_sum: "unat s + wsum data < 2 ^ 32 \<Longrightarrow> unat (cksum_sum s data) = unat s + wsum data"
  by (induction s data rule: cksum_sum.induct)
     (auto simp: unat_word_ariths unat_word_of_bytes unat_word_of_byte)

text \<open>Folding the carries is reduction modulo \<open>65535\<close> with representatives \<open>1..65535\<close>.\<close>

definition ones_rep :: "nat \<Rightarrow> nat" where
  "ones_rep n = (if n = 0 then 0 else if n mod 65535 = 0 then 65535 else n mod 65535)"

lemma ones_rep_step: "ones_rep (n div 65536 + n mod 65536) = ones_rep n"
proof -
  have "n = 65535 * (n div 65536) + (n div 65536 + n mod 65536)"
    using div_mult_mod_eq [of n 65536] by linarith
  then have "n mod 65535 = (n div 65536 + n mod 65536) mod 65535"
    by (metis mod_mult_self4)
  moreover have "n div 65536 + n mod 65536 = 0 \<longleftrightarrow> n = 0" by auto
  ultimately show ?thesis by (simp add: ones_rep_def)
qed

lemma unat_cksum_fold: "unat (cksum_fold s) = ones_rep (unat s)"
proof (induction s rule: cksum_fold.induct)
  case (1 s)
  show ?case
  proof (cases "s > 0xFFFF")
    case True
    with 1 show ?thesis
      by (subst cksum_fold.simps) (simp add: unat_fold_step ones_rep_step)
  next
    case False
    then have "unat s \<le> 65535" by (simp add: word_gt_FFFF)
    then have "ones_rep (unat s) = unat s"
      by (cases "unat s = 65535") (auto simp: ones_rep_def)
    with False show ?thesis by (subst cksum_fold.simps) simp
  qed
qed

text \<open>The checksum in terms of the sum: the one's complement of its representative.\<close>

definition cksum_of_sum :: "nat \<Rightarrow> u16" where
  "cksum_of_sum n = htons (if n mod 65535 = 0 then 0xFFFF else of_nat (65535 - n mod 65535))"

lemma ones_rep_le: "ones_rep n \<le> 65535"
  by (simp add: ones_rep_def)

lemma ucast_NOT_fold:
  assumes "unat (s :: u32) \<le> 65535"
  shows "(ucast (NOT s) :: u16) = of_nat (65535 - unat s)"
proof -
  have "(ucast (NOT s) :: u16) = NOT (ucast s)"
    by (rule bit_word_eqI) (auto simp: bit_simps)
  also have "\<dots> = 65535 - of_nat (unat s)"
    by (simp add: not_eq_complement)
  also have "\<dots> = of_nat (65535 - unat s)"
    using assms by (simp add: of_nat_diff)
  finally show ?thesis .
qed

lemma unat_ucast_u16 [simp]: "unat (ucast (x :: u16) :: u32) = unat x"
proof -
  have "unat x < 2 ^ LENGTH(16)" by (rule unsigned_less)
  then show ?thesis by (simp add: unsigned_ucast_eq take_bit_nat_eq_self)
qed

lemma of_nat_u16_eq_0: "n \<le> 65535 \<Longrightarrow> (of_nat n :: u16) = 0 \<longleftrightarrow> n = 0"
  by (simp add: word_of_nat_eq_0_iff dvd_imp_le) (auto dest: dvd_imp_le)

lemma cksum_eq:
  assumes "wsum data < 2 ^ 32"
  shows "cksum data = cksum_of_sum (wsum data)"
proof -
  define s where "s = cksum_fold (cksum_sum 0 data)"
  have u: "unat s = ones_rep (wsum data)"
    using assms by (simp add: s_def unat_cksum_fold unat_cksum_sum)
  have c: "(ucast (NOT s) :: u16) = of_nat (65535 - ones_rep (wsum data))"
    using ones_rep_le by (simp add: u ucast_NOT_fold)
  have z: "(ucast (htons x) :: u32) \<noteq> 0 \<longleftrightarrow> x \<noteq> 0" for x :: u16
    by (metis htons_0 htons_htons unat_ucast_u16 unsigned_0 unat_eq_zero)
  have d: "(ucast (ucast x :: u32) :: u16) = x" for x :: u16
    by (rule bit_word_eqI) (simp add: bit_simps)
  have "cksum data = (if (ucast (NOT s) :: u16) \<noteq> 0 then htons (ucast (NOT s)) else 0xFFFF)"
    by (simp add: cksum_def Let_def z d flip: s_def)
  also have "\<dots> = cksum_of_sum (wsum data)"
  proof (cases "wsum data mod 65535 = 0")
    case True
    then show ?thesis
      by (simp add: c ones_rep_def cksum_of_sum_def htons_def le16_def)
  next
    case False
    then have "ones_rep (wsum data) = wsum data mod 65535" by (auto simp: ones_rep_def)
    moreover have "65535 - wsum data mod 65535 \<noteq> 0"
      using mod_less_divisor [of 65535 "wsum data"] by simp
    ultimately show ?thesis
      using False by (simp add: c cksum_of_sum_def of_nat_u16_eq_0 del: of_nat_diff)
  qed
  finally show ?thesis .
qed

section \<open>What a receiver that recomputes it sees\<close>

lemma wsum_bytes16_htons: "wsum (bytes16 (htons w)) = unat w"
proof -
  have "bytes16 (htons w) = [ucast (drop_bit 8 w), ucast w]"
    by (simp only: htons_def bytes16_le16)
  moreover have "unat (ucast (drop_bit 8 w) :: byte) = unat w div 256"
  proof -
    have lt: "unat w < 2 ^ LENGTH(16)" by (rule unsigned_less)
    have "unat (drop_bit 8 w) = unat w div 256"
      using lt by (simp only: unsigned_drop_bit_eq) (simp add: drop_bit_eq_div take_bit_nat_eq_self)
    then have "unat (ucast (drop_bit 8 w) :: byte) = unat w div 256 mod 256"
      by (simp add: unsigned_ucast_eq take_bit_eq_mod)
    then show ?thesis using lt by simp
  qed
  moreover have "unat (ucast w :: byte) = unat w mod 256"
    by (simp add: unsigned_ucast_eq take_bit_eq_mod)
  ultimately show ?thesis by simp
qed

lemma wsum_cksum_of_sum:
  "wsum (bytes16 (cksum_of_sum n)) = (if n mod 65535 = 0 then 65535 else 65535 - n mod 65535)"
proof -
  have "unat (of_nat (65535 - n mod 65535) :: u16) = 65535 - n mod 65535"
    by (simp add: unat_of_nat take_bit_eq_mod mod_less_divisor del: of_nat_diff)
  then show ?thesis
    by (simp add: cksum_of_sum_def wsum_bytes16_htons del: of_nat_diff)
qed

lemma cksum_of_sum_inject:
  "cksum_of_sum m = cksum_of_sum n \<longleftrightarrow> m mod 65535 = n mod 65535"
proof
  assume "cksum_of_sum m = cksum_of_sum n"
  then have "wsum (bytes16 (cksum_of_sum m)) = wsum (bytes16 (cksum_of_sum n))" by simp
  then show "m mod 65535 = n mod 65535"
    using mod_less_divisor [of 65535 m] mod_less_divisor [of 65535 n]
    by (simp add: wsum_cksum_of_sum split: if_splits)
qed (simp add: cksum_of_sum_def)

lemma cksum_of_sum_mult: "n mod 65535 = 0 \<Longrightarrow> cksum_of_sum n = 0xFFFF"
  by (simp add: cksum_of_sum_def htons_def le16_def)

lemma cksum_never_zero: "wsum data < 2 ^ 32 \<Longrightarrow> cksum data \<noteq> 0"
proof
  assume "wsum data < 2 ^ 32" "cksum data = 0"
  then have "wsum (bytes16 (cksum_of_sum (wsum data))) = 0"
    by (simp add: cksum_eq bytes16_def)
  then show False
    using mod_less_divisor [of 65535 "wsum data"] by (simp add: wsum_cksum_of_sum split: if_splits)
qed

lemma complement_mod:
  "(n + (if n mod 65535 = 0 then 65535 else 65535 - n mod 65535)) mod (65535 :: nat) = 0"
proof (cases "n mod 65535 = 0")
  case False
  have *: "n = c * q + r \<Longrightarrow> r < c \<Longrightarrow> n + (c - r) = c * (q + 1)" for n c q r :: nat
    by (simp add: algebra_simps)
  have "n + (65535 - n mod 65535) = 65535 * (n div 65535 + 1)" by (rule *) simp_all
  then have "(n + (65535 - n mod 65535)) mod 65535 = 0" by (simp only: mod_mult_self1_is_0)
  with False show ?thesis by (simp only: if_False)
qed simp

lemma cksum_store_verifies:
  assumes "even (length pre)" and "length pre + length post + 2 \<le> 131072"
  shows "cksum (pre @ bytes16 (cksum (pre @ [0, 0] @ post)) @ post) = 0xFFFF"
proof -
  let ?n = "wsum pre + wsum post"
  let ?d = "pre @ [0, 0] @ post"
  have w0: "wsum ?d = ?n" using assms by (simp add: wsum_append)
  have "wsum ?d < 2 ^ 32" by (rule wsum_less) (use assms in simp)
  then have c: "cksum ?d = cksum_of_sum ?n" by (simp only: cksum_eq w0)
  let ?e = "pre @ bytes16 (cksum_of_sum ?n) @ post"
  have "wsum ?e = ?n + wsum (bytes16 (cksum_of_sum ?n))"
    using assms by (simp add: wsum_append)
  also have "\<dots> mod 65535 = 0" by (simp only: wsum_cksum_of_sum complement_mod)
  finally have m: "wsum ?e mod 65535 = 0" .
  have "wsum ?e < 2 ^ 32" by (rule wsum_less) (use assms in simp)
  then show ?thesis unfolding c by (simp only: cksum_eq cksum_of_sum_mult [OF m])
qed

text \<open>
  C27. Checksum soundness: storing the checksum of a datagram with a zeroed checksum field
  into that field makes the checksum of the whole come out as 0xFFFF, for a field at an
  even offset and data up to 128 KiB, the size below which the 32-bit sum cannot overflow.
\<close>

theorem cksum_validates:
  assumes "even (length pre)" and "length pre + length post + 2 \<le> 131072"
  shows "cksum (pre @ bytes16 (cksum (pre @ [0, 0] @ post)) @ post) = 0xFFFF"
  using assms by (rule cksum_store_verifies)

theorem cksum_validates_witness:
  "cksum ([0x45, 0] @ bytes16 (cksum ([0x45, 0] @ [0, 0] @ [10, 0, 0, 1])) @ [10, 0, 0, 1]) = 0xFFFF"
  by (rule cksum_validates) simp_all

section \<open>A flipped bit changes it\<close>

lemma wsum_update:
  assumes "i < length data"
  shows "wsum (data[i := x]) + (if even i then 256 else 1) * unat (data ! i) =
         wsum data + (if even i then 256 else 1) * unat x"
  using assms
proof (induction data arbitrary: i rule: wsum.induct)
  case (1 a b data)
  consider "i = 0" | "i = 1" | j where "i = Suc (Suc j)"
    by (metis One_nat_def not0_implies_Suc)
  then show ?case
  proof cases
    case 3
    with 1 show ?thesis by fastforce
  qed auto
qed auto

lemma unat_flip:
  assumes "j < 8"
  shows "unat (a XOR push_bit j 1 :: byte) = unat a + 2 ^ j \<or>
         unat (a XOR push_bit j 1 :: byte) + 2 ^ j = unat a"
proof -
  let ?m = "push_bit j 1 :: byte"
  have "uint ?m = 2 ^ j"
  proof -
    have "j = 0 \<or> j = 1 \<or> j = 2 \<or> j = 3 \<or> j = 4 \<or> j = 5 \<or> j = 6 \<or> j = 7"
      using assms by linarith
    then show ?thesis by (elim disjE) simp_all
  qed
  then have "uint (a XOR ?m) = flip_bit j (uint a)"
    by (simp add: unsigned_xor_eq flip_bit_eq_xor push_bit_eq_mult)
  then have "uint (a XOR ?m) = uint a + 2 ^ j \<or> uint (a XOR ?m) + 2 ^ j = uint a"
    by (simp add: flip_bit_eq_if set_bit_eq unset_bit_eq)
  then have "int (unat (a XOR ?m)) = int (unat a + 2 ^ j) \<or>
      int (unat (a XOR ?m) + 2 ^ j) = int (unat a)"
    by simp
  then show ?thesis by (simp only: of_nat_eq_iff)
qed

lemma shift_mod_neq:
  assumes "m = n + d \<or> m + d = n" and "0 < d" and "d < 65535"
  shows "m mod 65535 \<noteq> n mod (65535 :: nat)"
proof
  assume "m mod 65535 = n mod 65535"
  then have "65535 dvd d" using assms(1)
    by (metis add.commute mod_eq_dvd_iff_nat diff_add_inverse le_add1)
  with assms show False by (auto dest: dvd_imp_le)
qed

text \<open>
  Corruption detection: whatever bit of a segment the simulated link flips
  (\<^verbatim>\<open>flipbit\<close> of \<^verbatim>\<open>ctcp_sys_internal.h\<close>), the checksum of the segment changes.
\<close>

theorem flipbit_changes_cksum:
  assumes "k div 8 < length data" and "length data \<le> 131072" and "flipbit data k = Inr data'"
  shows "cksum data' \<noteq> cksum data"
proof -
  let ?i = "k div 8" and ?j = "k mod 8"
  let ?x = "data ! ?i XOR push_bit ?j 1" and ?w = "if even (k div 8) then 256 else 1 :: nat"
  have d': "data' = data[?i := ?x]" using assms by (simp add: flipbit_def)
  have w: "wsum data' + ?w * unat (data ! ?i) = wsum data + ?w * unat ?x"
    unfolding d' by (rule wsum_update) (rule assms(1))
  have j: "?j < 8" by simp
  have dd: "wsum data' = wsum data + ?w * 2 ^ ?j \<or> wsum data' + ?w * 2 ^ ?j = wsum data"
    using unat_flip [OF j, of "data ! ?i"] w by (auto simp: algebra_simps)
  have "(2 :: nat) ^ ?j \<le> 2 ^ 7" by (rule power_increasing) (use j in auto)
  then have "0 < ?w * 2 ^ ?j" "?w * 2 ^ ?j < 65535" by auto
  from shift_mod_neq [OF dd this]
  have "cksum_of_sum (wsum data') \<noteq> cksum_of_sum (wsum data)"
    by (simp add: cksum_of_sum_inject)
  moreover have "wsum data' < 2 ^ 32" "wsum data < 2 ^ 32"
    by (rule wsum_less, use assms d' in simp)+
  ultimately show ?thesis by (simp only: cksum_eq not_False_eq_True)
qed

theorem flipbit_changes_cksum_witness:
  "cksum [0x45, 0x20, 1] \<noteq> cksum [0x45, 0, 1]"
  by (rule flipbit_changes_cksum [of 13]) (simp_all add: flipbit_def)

end
