(* ===== verification/Sha1.thy ===== *)
theory Sha1
  imports Prelude
begin

text \<open>
  \<^verbatim>\<open>sha1.c\<close>: the SHA-1 context and its operations as the C code has them, the hash
  of FIPS 180-1 as a function on whole messages, and the proof that feeding a message
  to the context in any number of pieces computes that hash. The array writes
  \<^verbatim>\<open>Message_Block[Message_Block_Index++]\<close> are list updates; the invariant \<open>sha1_rep\<close>
  shows that the index is always inside the block when one happens.
\<close>

section \<open>The C code\<close>

record sha1_ctx =
  Message_Digest :: "u32 list"
  Length_Low :: u32
  Length_High :: u32
  Message_Block :: bytes
  Message_Block_Index :: nat
  Computed :: bool
  Corrupted :: bool

definition SHA1CircularShift :: "nat \<Rightarrow> u32 \<Rightarrow> u32" where
  "SHA1CircularShift k w = push_bit k w OR drop_bit (32 - k) w"

definition SHA1Reset :: "sha1_ctx \<Rightarrow> sha1_ctx" where
  "SHA1Reset context = context
     \<lparr> Length_Low := 0, Length_High := 0, Message_Block_Index := 0,
       Message_Digest := [0x67452301, 0xEFCDAB89, 0x98BADCFE, 0x10325476, 0xC3D2E1F0],
       Computed := False, Corrupted := False \<rparr>"

text \<open>The message schedule: the first 16 words from the block, then 64 more.\<close>

definition sha1_load :: "bytes \<Rightarrow> u32 list" where
  "sha1_load blk = map (\<lambda>t. push_bit 24 (ucast (blk ! (4 * t)))
                          OR push_bit 16 (ucast (blk ! (4 * t + 1)))
                          OR push_bit 8 (ucast (blk ! (4 * t + 2)))
                          OR ucast (blk ! (4 * t + 3))) [0..<16]"

fun sha1_expand :: "nat \<Rightarrow> u32 list \<Rightarrow> u32 list" where
  "sha1_expand 0 W = W"
| "sha1_expand (Suc n) W =
     (let t = length W in
      sha1_expand n (W @ [SHA1CircularShift 1
        (W ! (t - 3) XOR W ! (t - 8) XOR W ! (t - 14) XOR W ! (t - 16))]))"

type_synonym sha1_buf = "u32 \<times> u32 \<times> u32 \<times> u32 \<times> u32"

definition sha1_shift :: "u32 \<Rightarrow> sha1_buf \<Rightarrow> sha1_buf" where
  "sha1_shift temp = (\<lambda>(A, B, C, D, E). (temp, A, SHA1CircularShift 30 B, C, D))"

definition sha1_round0 :: "u32 list \<Rightarrow> nat \<Rightarrow> sha1_buf \<Rightarrow> sha1_buf" where
  "sha1_round0 W t = (\<lambda>(A, B, C, D, E). sha1_shift
     (SHA1CircularShift 5 A + ((B AND C) OR ((NOT B) AND D)) + E + W ! t + 0x5A827999)
     (A, B, C, D, E))"

definition sha1_round1 :: "u32 list \<Rightarrow> nat \<Rightarrow> sha1_buf \<Rightarrow> sha1_buf" where
  "sha1_round1 W t = (\<lambda>(A, B, C, D, E). sha1_shift
     (SHA1CircularShift 5 A + (B XOR C XOR D) + E + W ! t + 0x6ED9EBA1)
     (A, B, C, D, E))"

definition sha1_round2 :: "u32 list \<Rightarrow> nat \<Rightarrow> sha1_buf \<Rightarrow> sha1_buf" where
  "sha1_round2 W t = (\<lambda>(A, B, C, D, E). sha1_shift
     (SHA1CircularShift 5 A + ((B AND C) OR (B AND D) OR (C AND D)) + E + W ! t + 0x8F1BBCDC)
     (A, B, C, D, E))"

definition sha1_round3 :: "u32 list \<Rightarrow> nat \<Rightarrow> sha1_buf \<Rightarrow> sha1_buf" where
  "sha1_round3 W t = (\<lambda>(A, B, C, D, E). sha1_shift
     (SHA1CircularShift 5 A + (B XOR C XOR D) + E + W ! t + 0xCA62C1D6)
     (A, B, C, D, E))"

definition SHA1ProcessMessageBlock :: "sha1_ctx \<Rightarrow> sha1_ctx" where
  "SHA1ProcessMessageBlock context =
     (let W = sha1_expand 64 (sha1_load (Message_Block context));
          H = Message_Digest context;
          b0 = (H ! 0, H ! 1, H ! 2, H ! 3, H ! 4);
          b1 = fold (sha1_round0 W) [0..<20] b0;
          b2 = fold (sha1_round1 W) [20..<40] b1;
          b3 = fold (sha1_round2 W) [40..<60] b2;
          (A, B, C, D, E) = fold (sha1_round3 W) [60..<80] b3
      in context\<lparr> Message_Digest := [H ! 0 + A, H ! 1 + B, H ! 2 + C, H ! 3 + D, H ! 4 + E],
                  Message_Block_Index := 0 \<rparr>)"

text \<open>\<^verbatim>\<open>context->Message_Block[context->Message_Block_Index++] = b\<close>\<close>

definition sha1_put :: "byte \<Rightarrow> sha1_ctx \<Rightarrow> sha1_ctx" where
  "sha1_put b context = context
     \<lparr> Message_Block := (Message_Block context)[Message_Block_Index context := b],
       Message_Block_Index := Message_Block_Index context + 1 \<rparr>"

definition sha1_count :: "sha1_ctx \<Rightarrow> sha1_ctx" where
  "sha1_count context =
     (let c1 = context\<lparr> Length_Low := Length_Low context + 8 \<rparr> in
      if Length_Low c1 = 0 then
        let c2 = c1\<lparr> Length_High := Length_High c1 + 1 \<rparr> in
        if Length_High c2 = 0 then c2\<lparr> Corrupted := True \<rparr> else c2
      else c1)"

definition sha1_input_byte :: "byte \<Rightarrow> sha1_ctx \<Rightarrow> sha1_ctx" where
  "sha1_input_byte m context =
     (let c = sha1_count (sha1_put m context) in
      if Message_Block_Index c = 64 then SHA1ProcessMessageBlock c else c)"

fun sha1_input_loop :: "sha1_ctx \<Rightarrow> bytes \<Rightarrow> sha1_ctx" where
  "sha1_input_loop context [] = context"
| "sha1_input_loop context (m # ms) =
     (if \<not> Corrupted context then sha1_input_loop (sha1_input_byte m context) ms else context)"

definition SHA1Input :: "sha1_ctx \<Rightarrow> bytes \<Rightarrow> sha1_ctx" where
  "SHA1Input context message_array =
     (if message_array = [] then context
      else if Computed context \<or> Corrupted context then context\<lparr> Corrupted := True \<rparr>
      else sha1_input_loop context message_array)"

text \<open>\<^verbatim>\<open>while (Message_Block_Index < n) Message_Block[Message_Block_Index++] = 0;\<close>\<close>

function sha1_zero_to :: "nat \<Rightarrow> sha1_ctx \<Rightarrow> sha1_ctx" where
  "sha1_zero_to n context =
     (if Message_Block_Index context < n then sha1_zero_to n (sha1_put 0 context) else context)"
  by pat_completeness auto
termination
  by (relation "measure (\<lambda>(n, c). n - Message_Block_Index c)") (auto simp: sha1_put_def)

declare sha1_zero_to.simps [simp del]

definition sha1_length_octets :: "u32 \<Rightarrow> u32 \<Rightarrow> bytes" where
  "sha1_length_octets hi lo =
     [ucast (drop_bit 24 hi), ucast (drop_bit 16 hi), ucast (drop_bit 8 hi), ucast hi,
      ucast (drop_bit 24 lo), ucast (drop_bit 16 lo), ucast (drop_bit 8 lo), ucast lo]"

definition SHA1PadMessage :: "sha1_ctx \<Rightarrow> sha1_ctx" where
  "SHA1PadMessage context =
     (let c1 = (if Message_Block_Index context > 55
                then sha1_zero_to 56 (SHA1ProcessMessageBlock (sha1_zero_to 64 (sha1_put 0x80 context)))
                else sha1_zero_to 56 (sha1_put 0x80 context));
          c2 = c1\<lparr> Message_Block := take 56 (Message_Block c1)
                     @ sha1_length_octets (Length_High c1) (Length_Low c1) \<rparr>
      in SHA1ProcessMessageBlock c2)"

definition SHA1Result :: "sha1_ctx \<Rightarrow> bool \<times> sha1_ctx" where
  "SHA1Result context =
     (if Corrupted context then (False, context)
      else if \<not> Computed context then (True, (SHA1PadMessage context)\<lparr> Computed := True \<rparr>)
      else (True, context))"

section \<open>The hash of FIPS 180-1\<close>

definition fips_f :: "nat \<Rightarrow> u32 \<Rightarrow> u32 \<Rightarrow> u32 \<Rightarrow> u32" where
  "fips_f t B C D =
     (if t < 20 then (B AND C) OR ((NOT B) AND D)
      else if t < 40 then B XOR C XOR D
      else if t < 60 then (B AND C) OR (B AND D) OR (C AND D)
      else B XOR C XOR D)"

definition fips_K :: "nat \<Rightarrow> u32" where
  "fips_K t = (if t < 20 then 0x5A827999 else if t < 40 then 0x6ED9EBA1
               else if t < 60 then 0x8F1BBCDC else 0xCA62C1D6)"

definition fips_step :: "u32 list \<Rightarrow> nat \<Rightarrow> sha1_buf \<Rightarrow> sha1_buf" where
  "fips_step W t = (\<lambda>(A, B, C, D, E).
     (SHA1CircularShift 5 A + fips_f t B C D + E + W ! t + fips_K t,
      A, SHA1CircularShift 30 B, C, D))"

definition fips_compress :: "u32 list \<Rightarrow> bytes \<Rightarrow> u32 list" where
  "fips_compress H blk =
     (let (A, B, C, D, E) = fold (fips_step (sha1_expand 64 (sha1_load blk))) [0..<80]
                              (H ! 0, H ! 1, H ! 2, H ! 3, H ! 4)
      in [H ! 0 + A, H ! 1 + B, H ! 2 + C, H ! 3 + D, H ! 4 + E])"

definition fips_H0 :: "u32 list" where
  "fips_H0 = [0x67452301, 0xEFCDAB89, 0x98BADCFE, 0x10325476, 0xC3D2E1F0]"

definition fips_pad :: "bytes \<Rightarrow> bytes" where
  "fips_pad msg = msg @ [0x80] @ replicate ((119 - length msg mod 64) mod 64) 0
     @ map (\<lambda>i. of_nat (8 * length msg div 256 ^ (7 - i))) [0..<8]"

function chunks64 :: "bytes \<Rightarrow> bytes list" where
  "chunks64 xs = (if length xs < 64 then [] else take 64 xs # chunks64 (drop 64 xs))"
  by pat_completeness auto
termination
  by (relation "measure length") auto

declare chunks64.simps [simp del]

definition fips_sha1 :: "bytes \<Rightarrow> u32 list" where
  "fips_sha1 msg = foldl fips_compress fips_H0 (chunks64 (fips_pad msg))"

section \<open>The block function\<close>

lemma fold_eq_on: "(\<And>x. x \<in> set xs \<Longrightarrow> f x = g x) \<Longrightarrow> fold f xs s = fold g xs s"
  by (induction xs arbitrary: s) auto

lemma sha1_rounds_fips:
  "t < 20 \<Longrightarrow> sha1_round0 W t = fips_step W t"
  "20 \<le> t \<Longrightarrow> t < 40 \<Longrightarrow> sha1_round1 W t = fips_step W t"
  "40 \<le> t \<Longrightarrow> t < 60 \<Longrightarrow> sha1_round2 W t = fips_step W t"
  "60 \<le> t \<Longrightarrow> sha1_round3 W t = fips_step W t"
  by (auto simp: fun_eq_iff sha1_round0_def sha1_round1_def sha1_round2_def sha1_round3_def
      fips_step_def sha1_shift_def fips_f_def fips_K_def)

lemma upt_split: "i \<le> j \<Longrightarrow> j \<le> k \<Longrightarrow> [i..<k] = [i..<j] @ [j..<k]"
  by (metis upt_add_eq_append le_add_diff_inverse)

lemma upt_80: "[0..<80] = [0..<20] @ [20..<40] @ [40..<60] @ [60..<(80::nat)]"
proof -
  have "[0..<80] = [0..<20] @ [20..<(80::nat)]" by (rule upt_split) simp_all
  moreover have "[20..<80] = [20..<40] @ [40..<(80::nat)]" by (rule upt_split) simp_all
  moreover have "[40..<80] = [40..<60] @ [60..<(80::nat)]" by (rule upt_split) simp_all
  ultimately show ?thesis by (simp only:)
qed

lemma fold_rounds_fips:
  "fold (sha1_round0 W) [0..<20] b = fold (fips_step W) [0..<20] b"
  "fold (sha1_round1 W) [20..<40] b = fold (fips_step W) [20..<40] b"
  "fold (sha1_round2 W) [40..<60] b = fold (fips_step W) [40..<60] b"
  "fold (sha1_round3 W) [60..<80] b = fold (fips_step W) [60..<80] b"
  by (rule fold_eq_on, simp only: sha1_rounds_fips atLeastLessThan_iff set_upt)+

lemma process_block_eq:
  "SHA1ProcessMessageBlock c =
     c\<lparr> Message_Digest := fips_compress (Message_Digest c) (Message_Block c),
        Message_Block_Index := 0 \<rparr>"
proof -
  let ?W = "sha1_expand 64 (sha1_load (Message_Block c))"
  let ?H = "Message_Digest c"
  have *: "fold (sha1_round3 ?W) [60..<80] (fold (sha1_round2 ?W) [40..<60]
      (fold (sha1_round1 ?W) [20..<40] (fold (sha1_round0 ?W) [0..<20] b))) =
      fold (fips_step ?W) [0..<80] b" for b
    by (simp only: upt_80 fold_append comp_apply fold_rounds_fips)
  show ?thesis
    by (simp only: SHA1ProcessMessageBlock_def fips_compress_def Let_def * split: prod.splits)
       (simp split: prod.splits)
qed

section \<open>What the context holds\<close>

lemma chunks64_short: "length r < 64 \<Longrightarrow> chunks64 r = []"
  by (subst chunks64.simps) simp

lemma chunks64_block: "length a = 64 \<Longrightarrow> chunks64 (a @ b) = a # chunks64 b"
  by (subst chunks64.simps) simp

lemma chunks64_append: "64 dvd length a \<Longrightarrow> chunks64 (a @ b) = chunks64 a @ chunks64 b"
proof (induction a rule: chunks64.induct)
  case (1 a)
  show ?case
  proof (cases "a = []")
    case True
    then show ?thesis by (simp add: chunks64_short)
  next
    case False
    with 1 have "64 \<le> length a" by (auto dest: dvd_imp_le)
    moreover have "64 dvd length (drop 64 a)"
      using 1 by (simp add: dvd_diff_nat)
    ultimately show ?thesis
      using 1 by (subst (1 2) chunks64.simps) simp
  qed
qed

definition sha1_rep :: "sha1_ctx \<Rightarrow> bytes \<Rightarrow> bool" where
  "sha1_rep c msg \<longleftrightarrow>
     (\<exists>a. 64 dvd length a \<and>
          msg = a @ take (Message_Block_Index c) (Message_Block c) \<and>
          Message_Digest c = foldl fips_compress fips_H0 (chunks64 a)) \<and>
     Message_Block_Index c < 64 \<and> length (Message_Block c) = 64 \<and>
     unat (Length_High c) * 2 ^ 32 + unat (Length_Low c) = 8 * length msg \<and>
     \<not> Computed c \<and> \<not> Corrupted c"

lemma sha1_rep_reset: "length (Message_Block c) = 64 \<Longrightarrow> sha1_rep (SHA1Reset c) []"
  by (simp add: sha1_rep_def SHA1Reset_def fips_H0_def chunks64_short)

lemma unat_u32_lt: "unat (w :: u32) < 2 ^ 32"
proof -
  have "unat w < 2 ^ LENGTH(32)" by (rule unsigned_less)
  then show ?thesis by simp
qed

lemma sha1_count_spec:
  assumes "unat (Length_High c) * 2 ^ 32 + unat (Length_Low c) = 8 * n" and "n < 2 ^ 61 - 1"
  shows "\<exists>hi lo. sha1_count c = c\<lparr> Length_Low := lo, Length_High := hi \<rparr> \<and>
           unat hi * 2 ^ 32 + unat lo = 8 * (n + 1)"
proof -
  let ?lo = "Length_Low c" and ?hi = "Length_High c"
  have u8: "unat (?lo + 8) = (unat ?lo + 8) mod 2 ^ 32" by (simp add: unat_word_ariths)
  show ?thesis
  proof (cases "?lo + 8 = 0")
    case False
    have "unat (?lo + 8) = unat ?lo + 8"
    proof (rule ccontr)
      assume "unat (?lo + 8) \<noteq> unat ?lo + 8"
      then have ge: "unat ?lo + 8 \<ge> 2 ^ 32"
        unfolding u8 by (metis mod_less not_le)
      have "8 dvd unat ?lo"
      proof -
        have "8 dvd unat ?hi * 2 ^ 32 + unat ?lo" unfolding assms(1) by simp
        moreover have "8 dvd unat ?hi * 2 ^ 32" by simp
        ultimately show ?thesis by (metis dvd_add_right_iff)
      qed
      then obtain k where "unat ?lo = 8 * k" by blast
      with ge unat_u32_lt [of ?lo] have "unat ?lo + 8 = 2 ^ 32" by simp
      then have "unat (?lo + 8) = 0" unfolding u8 by simp
      with False show False by (simp add: unat_eq_zero)
    qed
    then show ?thesis
      using False assms by (intro exI [of _ ?hi] exI [of _ "?lo + 8"]) (simp add: sha1_count_def)
  next
    case True
    then have lo: "unat ?lo + 8 = 2 ^ 32"
    proof -
      have "(unat ?lo + 8) mod 2 ^ 32 = 0" unfolding u8 [symmetric] True by simp
      then obtain q where "unat ?lo + 8 = 2 ^ 32 * q" by (auto simp: mod_eq_0_iff_dvd elim!: dvdE)
      with unat_u32_lt [of ?lo] show ?thesis by (cases "q = 1") auto
    qed
    then have hi: "(unat ?hi + 1) * 2 ^ 32 = 8 * (n + 1)" using assms(1) by (simp add: algebra_simps)
    then have "unat ?hi + 1 < 2 ^ 32" using assms(2) by simp
    then have uh: "unat (?hi + 1) = unat ?hi + 1" by (simp add: unat_word_ariths)
    then have "?hi + 1 \<noteq> 0" by (metis add_is_0 one_neq_zero unsigned_0)
    then show ?thesis
      using True hi uh by (intro exI [of _ "?hi + 1"] exI [of _ 0]) (simp add: sha1_count_def)
  qed
qed

lemma sha1_rep_byte:
  assumes rep: "sha1_rep c msg" and n: "length msg < 2 ^ 61 - 1"
  shows "sha1_rep (sha1_input_byte m c) (msg @ [m])"
proof -
  let ?i = "Message_Block_Index c" and ?b = "Message_Block c"
  from rep obtain a where a: "64 dvd length a" "msg = a @ take ?i ?b"
      "Message_Digest c = foldl fips_compress fips_H0 (chunks64 a)"
    and i: "?i < 64" "length ?b = 64" and ok: "\<not> Computed c" "\<not> Corrupted c"
    and len: "unat (Length_High c) * 2 ^ 32 + unat (Length_Low c) = 8 * length msg"
    by (auto simp: sha1_rep_def)
  let ?p = "sha1_put m c"
  have "unat (Length_High ?p) * 2 ^ 32 + unat (Length_Low ?p) = 8 * length msg"
    using len by (simp add: sha1_put_def)
  from sha1_count_spec [OF this n] obtain hi lo where
    c: "sha1_count ?p = ?p\<lparr> Length_Low := lo, Length_High := hi \<rparr>"
    and l: "unat hi * 2 ^ 32 + unat lo = 8 * (length msg + 1)" by blast
  have c': "sha1_count ?p = c\<lparr> Message_Block := ?b[?i := m], Message_Block_Index := ?i + 1,
      Length_Low := lo, Length_High := hi \<rparr>"
    unfolding c by (simp add: sha1_put_def)
  have tk: "take (?i + 1) (?b[?i := m]) = take ?i ?b @ [m]"
    using i by (simp add: take_Suc_conv_app_nth)
  show ?thesis
  proof (cases "?i + 1 = 64")
    case False
    then show ?thesis
      using a i ok l tk by (auto simp: sha1_rep_def sha1_input_byte_def c' Let_def)
  next
    case True
    let ?blk = "?b[?i := m]"
    have blk: "?blk = take ?i ?b @ [m]" using tk True i by simp
    have "sha1_input_byte m c = c\<lparr> Message_Block := ?blk, Length_Low := lo, Length_High := hi,
        Message_Digest := fips_compress (Message_Digest c) ?blk, Message_Block_Index := 0 \<rparr>"
      using True by (simp add: sha1_input_byte_def c' process_block_eq Let_def)
    moreover have "chunks64 (a @ ?blk) = chunks64 a @ [?blk]"
      using a(1) i chunks64_block [of ?blk "[]"] by (simp add: chunks64_append chunks64_short)
    moreover have "64 dvd length (a @ ?blk)" using a(1) i by simp
    ultimately show ?thesis
      using a i ok l blk True by (auto simp: sha1_rep_def intro!: exI [of _ "a @ ?blk"])
  qed
qed

lemma sha1_rep_loop:
  "sha1_rep c msg \<Longrightarrow> length msg + length ms < 2 ^ 61 \<Longrightarrow> sha1_rep (sha1_input_loop c ms) (msg @ ms)"
proof (induction ms arbitrary: c msg)
  case (Cons m ms)
  then have "sha1_rep (sha1_input_byte m c) (msg @ [m])" by (simp add: sha1_rep_byte)
  with Cons.IH [OF this] Cons.prems show ?case by (simp add: sha1_rep_def)
qed simp

lemma sha1_rep_input:
  assumes "sha1_rep c msg" and "length msg + length ms < 2 ^ 61"
  shows "sha1_rep (SHA1Input c ms) (msg @ ms)"
  using assms sha1_rep_loop [OF assms] by (auto simp: SHA1Input_def sha1_rep_def)

section \<open>Padding\<close>

lemma zero_to_spec:
  assumes "Message_Block_Index c \<le> n" and "n \<le> length (Message_Block c)"
  shows "sha1_zero_to n c = c\<lparr> Message_Block := take (Message_Block_Index c) (Message_Block c)
            @ replicate (n - Message_Block_Index c) 0 @ drop n (Message_Block c),
          Message_Block_Index := n \<rparr>"
  using assms
proof (induction n c rule: sha1_zero_to.induct)
  case (1 n c)
  let ?i = "Message_Block_Index c" and ?b = "Message_Block c"
  show ?case
  proof (cases "?i < n")
    case True
    have e: "n - ?i = Suc (n - Suc ?i)" using True by simp
    have "take (Suc ?i) (?b[?i := 0]) = take ?i ?b @ [0]"
      using True 1 by (simp add: take_Suc_conv_app_nth)
    moreover have "sha1_zero_to n (sha1_put 0 c) = (sha1_put 0 c)
      \<lparr> Message_Block := take (Suc ?i) (?b[?i := 0]) @ replicate (n - Suc ?i) 0 @ drop n ?b,
         Message_Block_Index := n \<rparr>"
      using 1 True by (simp add: sha1_put_def)
    ultimately show ?thesis
      using True by (subst sha1_zero_to.simps) (simp add: sha1_put_def e)
  next
    case False
    with 1 have "?i = n" by simp
    then show ?thesis by (subst sha1_zero_to.simps) simp
  qed
qed

lemma ucast_drop_u32: "ucast (drop_bit k (w :: u32)) = (of_nat (unat w div 2 ^ k) :: byte)"
proof -
  have "unat (drop_bit k w) = unat w div 2 ^ k"
    using unat_u32_lt [of w]
    by (simp only: unsigned_drop_bit_eq) (simp add: drop_bit_eq_div take_bit_nat_eq_self)
  then show ?thesis by (metis of_nat_unat unsigned_of_nat ucast_id)
qed

lemma octet_high: "unat (lo :: u32) < 2 ^ 32 \<Longrightarrow>
    (hi * 2 ^ 32 + unat lo) div 2 ^ (32 + k) = hi div 2 ^ k"
  by (simp add: power_add div_mult2_eq)

lemma octet_low:
  assumes "k \<le> 24"
  shows "(of_nat ((hi * 2 ^ 32 + lo) div 2 ^ k) :: byte) = of_nat (lo div 2 ^ k)"
proof -
  have "(2 :: nat) ^ 32 = 2 ^ (32 - k) * 2 ^ k" using assms by (simp flip: power_add)
  then have "hi * 2 ^ 32 + lo = hi * 2 ^ (32 - k) * 2 ^ k + lo" by simp
  then have "(hi * 2 ^ 32 + lo) div 2 ^ k = hi * 2 ^ (32 - k) + lo div 2 ^ k"
    by (simp only:) simp
  moreover have "(2 :: byte) ^ (32 - k) = 0"
  proof -
    have "32 - k = 8 + (24 - k)" using assms by simp
    then have "(2 :: byte) ^ (32 - k) = 2 ^ 8 * 2 ^ (24 - k)" by (simp only: power_add)
    moreover have "(2 :: byte) ^ 8 = 0" by simp
    ultimately show ?thesis by (simp only: mult_zero_left)
  qed
  ultimately show ?thesis
    by (simp only: of_nat_add of_nat_mult of_nat_power of_nat_numeral mult_zero_right add_0)
qed

lemma length_octets:
  assumes "unat hi * 2 ^ 32 + unat lo = 8 * n"
  shows "sha1_length_octets hi lo = map (\<lambda>i. of_nat (8 * n div 256 ^ (7 - i))) [0..<8]"
proof -
  define N where "N = unat hi * 2 ^ 32 + unat lo"
  have h: "N div 2 ^ (32 + k) = unat hi div 2 ^ k" for k
    unfolding N_def by (rule octet_high) (rule unat_u32_lt)
  have l: "(of_nat (N div 2 ^ k) :: byte) = of_nat (unat lo div 2 ^ k)" if "k \<le> 24" for k
    unfolding N_def by (rule octet_low) (rule that)
  have u: "[0..<8] = [0, 1, 2, 3, 4, 5, 6, 7 :: nat]" by (simp add: upt_rec)
  have "sha1_length_octets hi lo = map (\<lambda>k. of_nat (N div 2 ^ k)) [56, 48, 40, 32, 24, 16, 8, 0]"
    using h [of 24] h [of 16] h [of 8] h [of 0] l [of 24] l [of 16] l [of 8] l [of 0]
      ucast_drop_u32 [of 0 hi] ucast_drop_u32 [of 0 lo]
    by (simp add: sha1_length_octets_def ucast_drop_u32)
  also have "\<dots> = map (\<lambda>i. of_nat (N div 256 ^ (7 - i))) [0..<8]"
    unfolding u by simp
  finally show ?thesis unfolding N_def assms .
qed

lemma pad_split:
  assumes "64 dvd length a" and "length r < 64" and "length lo = 8"
  shows "fold (\<lambda>b H. fips_compress H b) (chunks64 (a @ r @ 0x80 # replicate ((119 - length (a @ r) mod 64) mod 64) 0 @ lo)) H
       = (if length r > 55
          then fips_compress (fips_compress (foldl fips_compress H (chunks64 a))
                 (r @ 0x80 # replicate (63 - length r) 0)) (replicate 56 0 @ lo)
          else fips_compress (foldl fips_compress H (chunks64 a))
                 (r @ 0x80 # replicate (55 - length r) 0 @ lo))"
proof -
  have m: "length (a @ r) mod 64 = length r"
    using assms by (auto elim!: dvdE)
  show ?thesis
  proof (cases "length r > 55")
    case True
    define x where "x = r @ 0x80 # replicate (63 - length r) (0 :: byte)"
    have e: "r @ 0x80 # replicate ((119 - length r) mod 64) 0 @ lo = x @ (replicate 56 0 @ lo) @ []"
    proof -
      have "(119 - length r) mod 64 = 119 - length r" using True by simp
      also have "\<dots> = (63 - length r) + 56" using True assms by simp
      finally have "replicate ((119 - length r) mod 64) (0 :: byte) =
          replicate (63 - length r) 0 @ replicate 56 0" by (simp only: replicate_add)
      then show ?thesis by (simp only: x_def) simp
    qed
    have "length x = 64" using assms by (simp add: x_def)
    moreover have "length (replicate 56 0 @ lo) = 64" using assms by simp
    ultimately have "chunks64 (x @ (replicate 56 0 @ lo) @ []) = [x, replicate 56 0 @ lo]"
      by (simp only: chunks64_block) (simp add: chunks64_short)
    then show ?thesis
      using True assms(1) unfolding m e
      by (simp only: chunks64_append fold_append) (simp add: x_def foldl_conv_fold)
  next
    case False
    define x where "x = r @ 0x80 # replicate (55 - length r) 0 @ lo"
    have e: "r @ 0x80 # replicate ((119 - length r) mod 64) 0 @ lo = x @ []"
    proof -
      have "119 - length r = (55 - length r) + 64" using False by simp
      then have "(119 - length r) mod 64 = (55 - length r) mod 64" by (simp only: mod_add_self2)
      then have "(119 - length r) mod 64 = 55 - length r" by simp
      then show ?thesis by (simp add: x_def)
    qed
    have "length x = 64" using assms False by (simp add: x_def)
    then have "chunks64 (x @ []) = [x]" by (simp only: chunks64_block) (simp add: chunks64_short)
    then show ?thesis
      using False assms(1) unfolding m e
      by (simp only: chunks64_append fold_append) (simp add: x_def foldl_conv_fold)
  qed
qed

lemma fips_sha1_split:
  assumes "64 dvd length a" and "length r < 64"
  shows "fips_sha1 (a @ r) =
     (let lo = map (\<lambda>i. of_nat (8 * length (a @ r) div 256 ^ (7 - i))) [0..<8];
          H = foldl fips_compress fips_H0 (chunks64 a)
      in if length r > 55
         then fips_compress (fips_compress H (r @ 0x80 # replicate (63 - length r) 0))
                (replicate 56 0 @ lo)
         else fips_compress H (r @ 0x80 # replicate (55 - length r) 0 @ lo))"
  unfolding fips_sha1_def fips_pad_def Let_def foldl_conv_fold [of fips_compress fips_H0 "chunks64 (_ @ _)"]
    append_assoc append_Cons append_Nil
  by (subst pad_split) (use assms in simp_all)

lemma pad_message:
  assumes rep: "sha1_rep c msg"
  shows "Message_Digest (SHA1PadMessage c) = fips_sha1 msg"
proof -
  define i b r H where "i = Message_Block_Index c" and "b = Message_Block c"
    and "r = take i b" and "H = Message_Digest c"
  note defs = i_def [symmetric] b_def [symmetric] H_def [symmetric]
  from rep obtain a where a: "64 dvd length a" "msg = a @ r"
      "H = foldl fips_compress fips_H0 (chunks64 a)"
    and i: "i < 64" "length b = 64"
    and len: "unat (Length_High c) * 2 ^ 32 + unat (Length_Low c) = 8 * length msg"
    by (auto simp: sha1_rep_def i_def b_def r_def H_def)
  define lo where "lo = sha1_length_octets (Length_High c) (Length_Low c)"
  have lo: "map (\<lambda>i. of_nat (8 * length (a @ r) div 256 ^ (7 - i))) [0..<8] = lo"
    using length_octets [OF len] by (simp add: lo_def a(2))
  have lr: "length r = i" using i by (simp add: r_def)
  have tk: "take (Suc i) (b[i := x]) = r @ [x]" for x
    using i by (simp add: take_Suc_conv_app_nth r_def)
  have spec: "fips_sha1 msg = (if i > 55
      then fips_compress (fips_compress H (r @ 0x80 # replicate (63 - i) 0)) (replicate 56 0 @ lo)
      else fips_compress H (r @ 0x80 # replicate (55 - i) 0 @ lo))"
    using fips_sha1_split [OF a(1), of r] i lr by (simp only: a(2,3) lo Let_def lr)
  have p: "sha1_put 0x80 c = c\<lparr> Message_Block := b[i := 0x80], Message_Block_Index := Suc i \<rparr>"
    by (simp add: sha1_put_def defs)
  show ?thesis
  proof (cases "i > 55")
    case True
    have z: "sha1_zero_to 64 (sha1_put 0x80 c) = c\<lparr>
        Message_Block := r @ 0x80 # replicate (63 - i) 0, Message_Block_Index := 64 \<rparr>"
      unfolding p using i by (subst zero_to_spec) (simp_all add: tk)
    have "sha1_zero_to 56 (SHA1ProcessMessageBlock (sha1_zero_to 64 (sha1_put 0x80 c))) =
        c\<lparr> Message_Digest := fips_compress H (r @ 0x80 # replicate (63 - i) 0),
           Message_Block := replicate 56 0 @ drop 56 (r @ 0x80 # replicate (63 - i) 0),
           Message_Block_Index := 56 \<rparr>"
      unfolding z process_block_eq using i lr
      by (subst zero_to_spec) (simp_all add: defs)
    then show ?thesis
      using True unfolding SHA1PadMessage_def Let_def spec
      by (simp add: defs process_block_eq lo_def)
  next
    case False
    have "sha1_zero_to 56 (sha1_put 0x80 c) = c\<lparr>
        Message_Block := r @ 0x80 # replicate (55 - i) 0 @ drop 56 (b[i := 0x80]),
        Message_Block_Index := 56 \<rparr>"
      unfolding p using i False by (subst zero_to_spec) (simp_all add: tk)
    moreover have "56 - i = Suc (55 - i)" using False by simp
    ultimately show ?thesis
      using False lr unfolding SHA1PadMessage_def Let_def spec
      by (simp add: defs process_block_eq lo_def)
  qed
qed

lemma sha1_digest:
  assumes "length (Message_Block c) = 64" and "length (concat ms) < 2 ^ 61"
  shows "fst (SHA1Result (foldl SHA1Input (SHA1Reset c) ms)) \<and>
         Message_Digest (snd (SHA1Result (foldl SHA1Input (SHA1Reset c) ms))) = fips_sha1 (concat ms)"
proof -
  have "sha1_rep (foldl SHA1Input d ms) (msg @ concat ms)"
    if "sha1_rep d msg" "length msg + length (concat ms) < 2 ^ 61" for d msg
    using that
  proof (induction ms arbitrary: d msg)
    case (Cons m ms)
    then have "sha1_rep (SHA1Input d m) (msg @ m)" by (simp add: sha1_rep_input)
    from Cons.IH [OF this] Cons.prems show ?case by simp
  qed simp
  from this [OF sha1_rep_reset [OF assms(1)]] assms(2)
  have rep: "sha1_rep (foldl SHA1Input (SHA1Reset c) ms) (concat ms)" by simp
  then have "\<not> Computed (foldl SHA1Input (SHA1Reset c) ms)" "\<not> Corrupted (foldl SHA1Input (SHA1Reset c) ms)"
    by (simp_all add: sha1_rep_def)
  with pad_message [OF rep] show ?thesis by (simp add: SHA1Result_def)
qed



definition sha1_zero_ctx :: sha1_ctx where
  "sha1_zero_ctx = \<lparr> Message_Digest = replicate 5 0, Length_Low = 0, Length_High = 0,
     Message_Block = calloc 64, Message_Block_Index = 0, Computed = False, Corrupted = False \<rparr>"


end
