(* ===== verification/ArpCache.thy ===== *)
theory ArpCache
  imports Iface
begin

text \<open>
  The ARP cache and request queue, \<^verbatim>\<open>sr_arpcache.c\<close> from \<open>sr_arpcache_lookup\<close> on. The
  table is the array of 100 entries; the request queue is the linked list
  \<^verbatim>\<open>cache->requests\<close> in the order of its \<^verbatim>\<open>next\<close> pointers, each node under its heap
  address, so that a pointer kept by a caller can be found again, or be found dangling,
  after other calls have changed the queue. Addresses come from the counter
  \<open>next_req\<close> and are not reused. \<^verbatim>\<open>time_t\<close> values are integers.
  The lemmas give the table as a map from addresses to hardware addresses, and the
  invariant \<open>wf_cache\<close> that every operation keeps.
\<close>

definition SR_ARPCACHE_SZ :: nat where [simp]: "SR_ARPCACHE_SZ = 100"
definition SR_ARPCACHE_TO :: int where [simp]: "SR_ARPCACHE_TO = 15"

record sr_packet =
  p_buf :: bytes
  p_iface :: string

record sr_arpentry =
  mac :: bytes
  e_ip :: u32
  added :: int
  valid :: bool

record sr_arpreq =
  r_ip :: u32
  sent :: int
  times_sent :: u32
  packets :: "sr_packet list"

type_synonym req_addr = nat

record sr_arpcache =
  entries :: "sr_arpentry list"
  requests :: "(req_addr \<times> sr_arpreq) list"
  next_req :: req_addr

section \<open>Operations\<close>

fun lookup_loop :: "u32 \<Rightarrow> sr_arpentry list \<Rightarrow> sr_arpentry option \<Rightarrow> sr_arpentry option" where
  "lookup_loop ip [] entry = entry"
| "lookup_loop ip (e # es) entry =
     lookup_loop ip es (if valid e \<and> e_ip e = ip then Some e else entry)"

definition sr_arpcache_lookup :: "sr_arpcache \<Rightarrow> u32 \<Rightarrow> sr_arpentry option" where
  "sr_arpcache_lookup cache ip = lookup_loop ip (entries cache) None"

fun find_req :: "u32 \<Rightarrow> (req_addr \<times> sr_arpreq) list \<Rightarrow> req_addr option" where
  "find_req ip [] = None"
| "find_req ip ((a, req) # rs) = (if r_ip req = ip then Some a else find_req ip rs)"

fun upd_req :: "req_addr \<Rightarrow> (sr_arpreq \<Rightarrow> sr_arpreq) \<Rightarrow> (req_addr \<times> sr_arpreq) list \<Rightarrow> (req_addr \<times> sr_arpreq) list" where
  "upd_req a f [] = []"
| "upd_req a f ((b, req) # rs) = (if b = a then (b, f req) # rs else (b, req) # upd_req a f rs)"

text \<open>The new request of \<^verbatim>\<open>calloc\<close>: never sent, no packets.\<close>

definition new_req :: "u32 \<Rightarrow> sr_arpreq" where
  "new_req ip = \<lparr> r_ip = ip, sent = 0, times_sent = 0, packets = [] \<rparr>"

definition sr_arpcache_queuereq ::
  "sr_arpcache \<Rightarrow> u32 \<Rightarrow> bytes \<Rightarrow> string \<Rightarrow> sr_arpcache \<times> req_addr" where
  "sr_arpcache_queuereq cache ip packet ifc =
     (let (cache1, a) =
        (case find_req ip (requests cache) of
           Some a \<Rightarrow> (cache, a)
         | None \<Rightarrow> (cache\<lparr> requests := (next_req cache, new_req ip) # requests cache,
                          next_req := Suc (next_req cache) \<rparr>, next_req cache))
      in if packet \<noteq> []
         then (cache1\<lparr> requests := upd_req a
                 (\<lambda>req. req\<lparr> packets := \<lparr> p_buf = packet, p_iface = strncpy sr_IFACE_NAMELEN ifc \<rparr>
                                        # packets req \<rparr>) (requests cache1) \<rparr>, a)
         else (cache1, a))"

text \<open>The unlinking walk of \<^verbatim>\<open>sr_arpcache_insert\<close>: the first request for the address leaves
  the queue and is handed to the caller.\<close>

fun unlink_ip :: "u32 \<Rightarrow> (req_addr \<times> sr_arpreq) list
    \<Rightarrow> (req_addr \<times> sr_arpreq) option \<times> (req_addr \<times> sr_arpreq) list" where
  "unlink_ip ip [] = (None, [])"
| "unlink_ip ip ((a, req) # rs) =
     (if r_ip req = ip then (Some (a, req), rs)
      else let (r, rs') = unlink_ip ip rs in (r, (a, req) # rs'))"

fun fill_slot :: "sr_arpentry \<Rightarrow> sr_arpentry list \<Rightarrow> sr_arpentry list" where
  "fill_slot new [] = []"
| "fill_slot new (e # es) = (if \<not> valid e then new # es else e # fill_slot new es)"

definition sr_arpcache_insert ::
  "int \<Rightarrow> sr_arpcache \<Rightarrow> bytes \<Rightarrow> u32 \<Rightarrow> sr_arpcache \<times> (req_addr \<times> sr_arpreq) option" where
  "sr_arpcache_insert now cache m ip =
     (let (req, rs) = unlink_ip ip (requests cache);
          new = \<lparr> mac = take 6 m, e_ip = ip, added = now, valid = True \<rparr>
      in (cache\<lparr> requests := rs, entries := fill_slot new (entries cache) \<rparr>, req))"

fun unlink_addr :: "req_addr \<Rightarrow> (req_addr \<times> sr_arpreq) list \<Rightarrow> (req_addr \<times> sr_arpreq) list" where
  "unlink_addr a [] = []"
| "unlink_addr a ((b, req) # rs) = (if b = a then rs else (b, req) # unlink_addr a rs)"

definition sr_arpreq_destroy :: "sr_arpcache \<Rightarrow> req_addr \<Rightarrow> sr_arpcache" where
  "sr_arpreq_destroy cache a = cache\<lparr> requests := unlink_addr a (requests cache) \<rparr>"

definition sr_arpcache_dump :: "sr_arpcache \<Rightarrow> (bytes \<times> u32 \<times> int \<times> bool) list" where
  "sr_arpcache_dump cache = map (\<lambda>cur. (mac cur, ntohl (e_ip cur), added cur, valid cur)) (entries cache)"

definition empty_entry :: sr_arpentry where
  "empty_entry = \<lparr> mac = [0, 0, 0, 0, 0, 0], e_ip = 0, added = 0, valid = False \<rparr>"

definition sr_arpcache_init :: "sr_arpcache \<Rightarrow> sr_arpcache" where
  "sr_arpcache_init cache = cache\<lparr> entries := replicate SR_ARPCACHE_SZ empty_entry, requests := [] \<rparr>"

text \<open>The expiry half of one round of the \<^verbatim>\<open>sr_arpcache_timeout\<close> thread.\<close>

definition expire_entries :: "int \<Rightarrow> sr_arpcache \<Rightarrow> sr_arpcache" where
  "expire_entries curtime cache = cache\<lparr> entries := map (\<lambda>e.
     if valid e \<and> curtime - added e > SR_ARPCACHE_TO then e\<lparr> valid := False \<rparr> else e) (entries cache) \<rparr>"

section \<open>Lemmas: the table\<close>

definition live_for :: "u32 \<Rightarrow> sr_arpentry \<Rightarrow> bool" where
  "live_for ip e \<longleftrightarrow> valid e \<and> e_ip e = ip"

definition last_some :: "'a list \<Rightarrow> 'a option" where
  "last_some xs = (if xs = [] then None else Some (last xs))"

lemma last_some_simps [simp]: "last_some [] = None" "last_some (xs @ [x]) = Some x"
  "last_some xs = None \<longleftrightarrow> xs = []"
  by (simp_all add: last_some_def)

lemma last_some_Cons: "last_some (x # xs) = (case last_some xs of None \<Rightarrow> Some x | Some y \<Rightarrow> Some y)"
  by (simp add: last_some_def)

lemma last_some_mem: "last_some xs = Some x \<Longrightarrow> x \<in> set xs"
  by (auto simp: last_some_def split: if_splits)

lemma last_some_filter:
  "last_some (filter P xs) = Some e \<longleftrightarrow>
   (\<exists>pre post. xs = pre @ e # post \<and> P e \<and> (\<forall>q\<in>set post. \<not> P q))" (is "?l \<longleftrightarrow> ?r")
proof
  assume ?l
  then obtain zs where "filter P xs = zs @ [e]"
    by (cases "filter P xs" rule: rev_cases) auto
  then have "rev (filter P xs) = e # rev zs" by simp
  then have "filter P (rev xs) = e # rev zs" by (simp add: rev_filter)
  then obtain us vs where r: "rev xs = us @ e # vs" "\<forall>u\<in>set us. \<not> P u" "P e"
    by (auto simp: filter_eq_Cons_iff)
  have "xs = rev (us @ e # vs)" using r(1) by (metis rev_rev_ident)
  then have "xs = rev vs @ e # rev us" by simp
  then show ?r using r(2,3) by (intro exI [of _ "rev vs"] exI [of _ "rev us"]) simp
next
  assume ?r
  then obtain pre post where "xs = pre @ e # post" "P e" "filter P post = []"
    by (auto simp: filter_empty_conv)
  then show ?l by simp
qed

lemma lookup_loop_last:
  "lookup_loop ip es en = (case last_some (filter (live_for ip) es) of None \<Rightarrow> en | Some e \<Rightarrow> Some e)"
  by (induction es arbitrary: en)
     (auto simp: live_for_def last_some_Cons split: option.splits)

lemma lookup_last: "sr_arpcache_lookup c ip = last_some (filter (live_for ip) (entries c))"
  by (simp add: sr_arpcache_lookup_def lookup_loop_last split: option.split)

lemma lookup_SomeD:
  "sr_arpcache_lookup c ip = Some e \<Longrightarrow> e \<in> set (entries c) \<and> valid e \<and> e_ip e = ip"
  by (auto simp: lookup_last live_for_def dest: last_some_mem)

definition cache_full :: "sr_arpcache \<Rightarrow> bool" where
  "cache_full c \<longleftrightarrow> (\<forall>e\<in>set (entries c). valid e)"

lemma fill_slot_split:
  "\<not> (\<forall>e\<in>set es. valid e) \<Longrightarrow>
   \<exists>pre old post. es = pre @ old # post \<and> \<not> valid old \<and> fill_slot new es = pre @ new # post"
proof (induction es)
  case (Cons e es)
  show ?case
  proof (cases "valid e")
    case True
    with Cons obtain pre old post where "es = pre @ old # post" "\<not> valid old"
      "fill_slot new es = pre @ new # post" by auto
    with True show ?thesis
      by (intro exI [of _ "e # pre"] exI [of _ old] exI [of _ post]) simp
  next
    case False
    then show ?thesis by (intro exI [of _ "[]"] exI [of _ e] exI [of _ es]) simp
  qed
qed simp

lemma fill_slot_full: "\<forall>e\<in>set es. valid e \<Longrightarrow> fill_slot new es = es"
  by (induction es) auto

lemma fill_slot_length [simp]: "length (fill_slot new es) = length es"
  by (induction es) auto

lemma fill_slot_set: "e \<in> set (fill_slot new es) \<Longrightarrow> e = new \<or> e \<in> set es"
  by (induction es) (auto split: if_splits)

lemma insert_entries [simp]:
  "entries (fst (sr_arpcache_insert t c m ip)) =
     fill_slot \<lparr> mac = take 6 m, e_ip = ip, added = t, valid = True \<rparr> (entries c)"
  by (simp add: sr_arpcache_insert_def split_beta Let_def)

lemma filter_fill_slot_other:
  "\<not> live_for ip new \<Longrightarrow> filter (live_for ip) (fill_slot new es) = filter (live_for ip) es"
  by (induction es) (auto simp: live_for_def)

lemma filter_fill_slot_same:
  assumes "live_for ip new" "filter (live_for ip) es = []" "\<not> (\<forall>e\<in>set es. valid e)"
  shows "filter (live_for ip) (fill_slot new es) = [new]"
  using assms by (induction es) (auto simp: live_for_def split: if_splits)

definition arp_mac :: "sr_arpcache \<Rightarrow> u32 \<Rightarrow> bytes option" where
  "arp_mac c ip = map_option mac (sr_arpcache_lookup c ip)"

lemma arp_mac_insert_other:
  "ip' \<noteq> ip \<Longrightarrow> sr_arpcache_lookup (fst (sr_arpcache_insert t c m ip)) ip' = sr_arpcache_lookup c ip'"
  by (simp add: lookup_last filter_fill_slot_other live_for_def)

lemma arp_mac_insert_same:
  assumes "\<not> cache_full c" "arp_mac c ip = None"
  shows "arp_mac (fst (sr_arpcache_insert t c m ip)) ip = Some (take 6 m)"
proof -
  let ?new = "\<lparr> mac = take 6 m, e_ip = ip, added = t, valid = True \<rparr>"
  have "filter (live_for ip) (fill_slot ?new (entries c)) = [?new]"
    using assms by (intro filter_fill_slot_same)
      (auto simp: live_for_def cache_full_def arp_mac_def lookup_last)
  then show ?thesis by (simp add: arp_mac_def lookup_last last_some_def)
qed

lemma insert_full:
  "cache_full c \<Longrightarrow> entries (fst (sr_arpcache_insert t c m ip)) = entries c"
  by (simp add: fill_slot_full cache_full_def)

lemma fill_slot_keeps: "e \<in> set es \<Longrightarrow> valid e \<Longrightarrow> e \<in> set (fill_slot new es)"
  by (induction es) auto

lemma arp_mac_insert_keeps:
  assumes "arp_mac c ip' \<noteq> None" shows "arp_mac (fst (sr_arpcache_insert t c m ip)) ip' \<noteq> None"
proof -
  obtain e where e: "e \<in> set (entries c)" "live_for ip' e"
    using assms by (auto simp: arp_mac_def live_for_def dest!: lookup_SomeD)
  then have "e \<in> set (fill_slot new (entries c))" for new
    by (simp add: fill_slot_keeps live_for_def)
  with e show ?thesis by (auto simp: arp_mac_def lookup_last filter_empty_conv)
qed

text \<open>
  What the rest of the router relies on: the table as a partial map that learns.
\<close>

locale neighbour_table =
  fixes resolve :: "'t \<Rightarrow> u32 \<Rightarrow> bytes option"
    and learn :: "'t \<Rightarrow> bytes \<Rightarrow> u32 \<Rightarrow> 't"
    and room :: "'t \<Rightarrow> bool"
  assumes learn_new: "room t \<Longrightarrow> resolve t ip = None \<Longrightarrow> resolve (learn t m ip) ip = Some (take 6 m)"
    and learn_other: "ip' \<noteq> ip \<Longrightarrow> resolve (learn t m ip) ip' = resolve t ip'"
    and learn_keeps: "resolve t ip' \<noteq> None \<Longrightarrow> resolve (learn t m ip) ip' \<noteq> None"
begin

lemma learn_known: "room t \<Longrightarrow> resolve (learn t m ip) ip \<noteq> None"
  using learn_new learn_keeps by (cases "resolve t ip") auto

lemma learn_dom: "room t \<Longrightarrow> dom (resolve (learn t m ip)) = insert ip (dom (resolve t))"
  using learn_known learn_other by (auto simp: dom_def) (metis not_None_eq)+

lemma learn_all_keep: "resolve t ip \<noteq> None \<Longrightarrow> resolve (fold (\<lambda>(m, i) t. learn t m i) ms t) ip \<noteq> None"
  by (induction ms arbitrary: t) (auto simp: learn_keeps split_beta simp del: not_None_eq)

end

interpretation arp: neighbour_table arp_mac "\<lambda>c m ip. fst (sr_arpcache_insert t c m ip)"
    "\<lambda>c. \<not> cache_full c" for t
proof (unfold_locales, goal_cases)
  case 1 then show ?case by (rule arp_mac_insert_same)
next
  case 2 then show ?case by (simp add: arp_mac_def arp_mac_insert_other)
next
  case 3 then show ?case by (rule arp_mac_insert_keeps)
qed

section \<open>Lemmas: the request queue\<close>

definition req_for :: "sr_arpcache \<Rightarrow> u32 \<Rightarrow> (req_addr \<times> sr_arpreq) option" where
  "req_for c ip = find (\<lambda>(a, r). r_ip r = ip) (requests c)"

definition waiting :: "sr_arpcache \<Rightarrow> u32 \<Rightarrow> sr_packet list" where
  "waiting c ip = (case req_for c ip of None \<Rightarrow> [] | Some (a, r) \<Rightarrow> packets r)"

definition wf_queue :: "(req_addr \<times> sr_arpreq) list \<Rightarrow> req_addr \<Rightarrow> bool" where
  "wf_queue rs n \<longleftrightarrow> distinct (map fst rs) \<and> distinct (map (\<lambda>(a, r). r_ip r) rs)
     \<and> (\<forall>a\<in>set (map fst rs). a < n)"

definition wf_cache :: "sr_arpcache \<Rightarrow> bool" where
  "wf_cache c \<longleftrightarrow> length (entries c) = SR_ARPCACHE_SZ \<and> wf_queue (requests c) (next_req c)"

lemma find_req_find: "find_req ip rs = map_option fst (find (\<lambda>(a, r). r_ip r = ip) rs)"
  by (induction ip rs rule: find_req.induct) auto

lemma upd_req_not_in: "a \<notin> set (map fst rs) \<Longrightarrow> upd_req a f rs = rs"
  by (induction a f rs rule: upd_req.induct) auto

lemma upd_req_map:
  "distinct (map fst rs) \<Longrightarrow> upd_req a f rs = map (\<lambda>(b, r). (b, if b = a then f r else r)) rs"
  by (induction a f rs rule: upd_req.induct) (auto intro!: map_idI [symmetric] simp: image_iff)

lemma upd_req_fst [simp]: "map fst (upd_req a f rs) = map fst rs"
  by (induction a f rs rule: upd_req.induct) auto

lemma upd_req_ips:
  "(\<And>r. r_ip (f r) = r_ip r) \<Longrightarrow> map (\<lambda>(a, r). r_ip r) (upd_req a f rs) = map (\<lambda>(a, r). r_ip r) rs"
  by (induction a f rs rule: upd_req.induct) auto

lemma wf_queue_upd:
  "wf_queue rs n \<Longrightarrow> (\<And>r. r_ip (f r) = r_ip r) \<Longrightarrow> wf_queue (upd_req a f rs) n"
  unfolding wf_queue_def by (simp only: upd_req_fst upd_req_ips) blast

lemma unlink_ip_fst: "fst (unlink_ip ip rs) = find (\<lambda>(a, r). r_ip r = ip) rs"
  by (induction ip rs rule: unlink_ip.induct) (auto simp: split_beta)

lemma unlink_ip_absent: "find (\<lambda>(a, r). r_ip r = ip) rs = None \<Longrightarrow> snd (unlink_ip ip rs) = rs"
  by (induction ip rs rule: unlink_ip.induct) (auto simp: split_beta split: if_splits)

lemma filter_ne_id: "\<forall>(a, r)\<in>set rs. r_ip r \<noteq> ip \<Longrightarrow> filter (\<lambda>(a, r). r_ip r \<noteq> ip) rs = rs"
  by (induction rs) auto

lemma unlink_ip_snd:
  "distinct (map (\<lambda>(a, r). r_ip r) rs) \<Longrightarrow> snd (unlink_ip ip rs) = filter (\<lambda>(a, r). r_ip r \<noteq> ip) rs"
  by (induction ip rs rule: unlink_ip.induct) (auto simp: split_beta filter_ne_id image_iff
      intro!: filter_ne_id [symmetric])

lemma unlink_addr_filter:
  "distinct (map fst rs) \<Longrightarrow> unlink_addr a rs = filter (\<lambda>(b, r). b \<noteq> a) rs"
  by (induction a rs rule: unlink_addr.induct) (auto intro!: filter_True [symmetric] simp: image_iff)

lemma wf_queue_filter: "wf_queue rs n \<Longrightarrow> wf_queue (filter P rs) n"
  by (auto simp: wf_queue_def distinct_map_filter)

lemma requests_insert [simp]:
  "requests (fst (sr_arpcache_insert t c m ip)) = snd (unlink_ip ip (requests c))"
  "next_req (fst (sr_arpcache_insert t c m ip)) = next_req c"
  "snd (sr_arpcache_insert t c m ip) = req_for c ip"
  by (simp_all add: sr_arpcache_insert_def split_beta Let_def unlink_ip_fst req_for_def)

lemma wf_queue_unlink_ip: "wf_queue rs n \<Longrightarrow> wf_queue (snd (unlink_ip ip rs)) n"
  using wf_queue_filter [of rs n "\<lambda>(a, r). r_ip r \<noteq> ip"] unlink_ip_snd [of rs ip]
  by (auto simp: wf_queue_def)

lemma wf_queue_unlink_addr: "wf_queue rs n \<Longrightarrow> wf_queue (unlink_addr a rs) n"
  using wf_queue_filter [of rs n "\<lambda>(b, r). b \<noteq> a"] unlink_addr_filter [of rs a]
  by (auto simp: wf_queue_def)

lemma wf_cache_insert: "wf_cache c \<Longrightarrow> wf_cache (fst (sr_arpcache_insert t c m ip))"
  by (simp add: wf_cache_def wf_queue_unlink_ip)

lemma wf_cache_destroy: "wf_cache c \<Longrightarrow> wf_cache (sr_arpreq_destroy c a)"
  by (simp add: wf_cache_def sr_arpreq_destroy_def wf_queue_unlink_addr)

lemma wf_cache_expire: "wf_cache c \<Longrightarrow> wf_cache (expire_entries t c)"
  by (simp add: wf_cache_def expire_entries_def)

lemma wf_cache_init: "wf_cache (sr_arpcache_init c)"
  by (simp add: wf_cache_def sr_arpcache_init_def wf_queue_def)

lemma req_for_None: "req_for c ip = None \<longleftrightarrow> (\<forall>(a, r)\<in>set (requests c). r_ip r \<noteq> ip)"
  by (auto simp: req_for_def find_None)

lemma req_for_SomeD: "req_for c ip = Some (a, r) \<Longrightarrow> (a, r) \<in> set (requests c) \<and> r_ip r = ip"
  by (auto simp: req_for_def dest: find_SomeD)

lemma wf_queue_unique:
  assumes "wf_queue rs n" "(a, r) \<in> set rs" "(b, q) \<in> set rs" "a = b \<or> r_ip r = r_ip q"
  shows "a = b \<and> r = q"
  using assms
proof (induction rs)
  case (Cons x rs)
  have "wf_queue rs n" using Cons.prems(1) by (auto simp: wf_queue_def)
  with Cons show ?case by (cases x) (force simp: wf_queue_def image_iff)
qed simp

lemma req_for_eq:
  assumes "wf_queue (requests c) n" shows "req_for c ip = Some (a, r) \<longleftrightarrow> (a, r) \<in> set (requests c) \<and> r_ip r = ip"
proof
  assume ar: "(a, r) \<in> set (requests c) \<and> r_ip r = ip"
  then obtain b q where bq: "req_for c ip = Some (b, q)"
    using req_for_None [of c ip] by (cases "req_for c ip") auto
  with ar assms show "req_for c ip = Some (a, r)"
    using wf_queue_unique [OF assms, of a r b q] req_for_SomeD [OF bq] by simp
qed (rule req_for_SomeD)

definition new_packet :: "bytes \<Rightarrow> string \<Rightarrow> sr_packet" where
  "new_packet packet ifc = \<lparr> p_buf = packet, p_iface = strncpy sr_IFACE_NAMELEN ifc \<rparr>"

definition push_packet :: "bytes \<Rightarrow> string \<Rightarrow> sr_arpreq \<Rightarrow> sr_arpreq" where
  "push_packet packet ifc req = req\<lparr> packets := new_packet packet ifc # packets req \<rparr>"

lemma push_packet_simps [simp]:
  "r_ip (push_packet p i r) = r_ip r" "sent (push_packet p i r) = sent r"
  "times_sent (push_packet p i r) = times_sent r"
  "packets (push_packet p i r) = new_packet p i # packets r"
  by (simp_all add: push_packet_def)

text \<open>The two branches of \<^verbatim>\<open>sr_arpcache_queuereq\<close> for a real packet.\<close>

lemma queuereq_known:
  assumes "req_for c ip = Some (a, r)" "packet \<noteq> []"
  shows "sr_arpcache_queuereq c ip packet ifc =
    (c\<lparr> requests := upd_req a (push_packet packet ifc) (requests c) \<rparr>, a)"
  using assms unfolding push_packet_def [abs_def] new_packet_def
  by (simp add: sr_arpcache_queuereq_def find_req_find req_for_def Let_def)

lemma queuereq_unknown:
  assumes "req_for c ip = None" "packet \<noteq> []"
  shows "sr_arpcache_queuereq c ip packet ifc =
    (c\<lparr> requests := (next_req c, push_packet packet ifc (new_req ip)) # requests c,
        next_req := Suc (next_req c) \<rparr>, next_req c)"
  using assms by (simp add: sr_arpcache_queuereq_def find_req_find req_for_def push_packet_def
      new_packet_def Let_def)

lemma wf_cache_queuereq:
  assumes "wf_cache c" "packet \<noteq> []" shows "wf_cache (fst (sr_arpcache_queuereq c ip packet ifc))"
proof (cases "req_for c ip")
  case None
  with assms show ?thesis
    by (auto simp: queuereq_unknown wf_cache_def wf_queue_def req_for_None new_req_def)
next
  case (Some ar)
  with assms show ?thesis
    by (cases ar) (simp add: queuereq_known wf_cache_def wf_queue_upd)
qed

lemma find_upd_req:
  assumes "wf_queue rs n" "\<And>r. r_ip (f r) = r_ip r"
  shows "find (\<lambda>(a, r). r_ip r = ip) (upd_req a f rs) =
   map_option (\<lambda>(b, r). (b, if b = a then f r else r)) (find (\<lambda>(a, r). r_ip r = ip) rs)"
proof -
  have d: "distinct (map fst rs)" using assms(1) by (simp add: wf_queue_def)
  show ?thesis unfolding upd_req_map [OF d]
    by (induction rs) (auto simp: assms(2))
qed

lemma req_for_queuereq:
  assumes "wf_cache c" "packet \<noteq> []"
  shows "req_for (fst (sr_arpcache_queuereq c ip packet ifc)) ip' =
    (if ip' \<noteq> ip then req_for c ip'
     else Some (snd (sr_arpcache_queuereq c ip packet ifc), push_packet packet ifc
        (case req_for c ip of None \<Rightarrow> new_req ip | Some (a, r) \<Rightarrow> r)))"
proof (cases "req_for c ip")
  case None
  then show ?thesis using assms(2)
    by (auto simp: queuereq_unknown req_for_def new_req_def)
next
  case (Some ar)
  obtain a r where ar: "ar = (a, r)" by (cases ar)
  have q: "wf_queue (requests c) (next_req c)" using assms(1) by (simp add: wf_cache_def)
  have ne: "b \<noteq> a" if "req_for c ip' = Some (b, q)" "ip' \<noteq> ip" for b q
    using wf_queue_unique [OF q, of b _ a] req_for_SomeD [OF that(1)] req_for_SomeD [OF Some [unfolded ar]] that(2)
    by blast
  have "req_for (fst (sr_arpcache_queuereq c ip packet ifc)) ip' =
      map_option (\<lambda>(b, r). (b, if b = a then push_packet packet ifc r else r)) (req_for c ip')"
    using Some ar assms(2) by (simp add: queuereq_known req_for_def find_upd_req [OF q])
  then show ?thesis using Some ar assms(2) ne
    by (cases "req_for c ip'") (auto simp: queuereq_known)
qed

lemma find_filter_ip:
  "find (\<lambda>(a, r). r_ip r = ip') (filter (\<lambda>(a, r). r_ip r \<noteq> ip) rs) =
   (if ip' = ip then None else find (\<lambda>(a, r). r_ip r = ip') rs)"
  by (induction rs) auto

lemma req_for_insert:
  "wf_cache c \<Longrightarrow> req_for (fst (sr_arpcache_insert t c m ip)) ip' = (if ip' = ip then None else req_for c ip')"
  by (simp add: req_for_def wf_cache_def wf_queue_def unlink_ip_snd find_filter_ip)

lemma find_filter_addr:
  "wf_queue rs n \<Longrightarrow> find (\<lambda>(b, r). r_ip r = ip) (filter (\<lambda>(b, r). b \<noteq> a) rs) =
   (case find (\<lambda>(b, r). r_ip r = ip) rs of None \<Rightarrow> None | Some (b, r) \<Rightarrow> if b = a then None else Some (b, r))"
proof (induction rs)
  case (Cons x rs)
  have "wf_queue rs n" using Cons.prems by (auto simp: wf_queue_def)
  moreover have "r_ip (snd x) = ip \<Longrightarrow> find (\<lambda>(b, r). r_ip r = ip) (filter (\<lambda>(b, r). b \<noteq> a) rs) = None"
    using Cons.prems by (cases x) (auto simp: wf_queue_def find_None image_iff)
  ultimately show ?case using Cons.IH by (cases x) auto
qed simp

lemma req_for_destroy:
  "wf_cache c \<Longrightarrow> req_for (sr_arpreq_destroy c a) ip =
   (case req_for c ip of None \<Rightarrow> None | Some (b, r) \<Rightarrow> if b = a then None else Some (b, r))"
  using find_filter_addr [of "requests c" "next_req c" ip a]
  by (simp add: req_for_def sr_arpreq_destroy_def wf_cache_def unlink_addr_filter wf_queue_def)

lemma queuereq_entries [simp]:
  "entries (fst (sr_arpcache_queuereq c ip packet ifc)) = entries c"
  by (simp add: sr_arpcache_queuereq_def Let_def split: option.split)

lemma entries_destroy [simp]: "entries (sr_arpreq_destroy c a) = entries c"
  by (simp add: sr_arpreq_destroy_def)

section \<open>Properties\<close>


text \<open>
  Queueing a packet: it becomes the first packet waiting for its next hop, in a
  request found under the returned address, with the resend bookkeeping of an existing
  request unchanged; no other queue and no cache entry changes.
\<close>

theorem sr_arpcache_queuereq_spec:
  assumes "wf_cache c" "packet \<noteq> []" "sr_arpcache_queuereq c ip packet ifc = (c', a)"
  shows "waiting c' ip = new_packet packet ifc # waiting c ip
    \<and> (\<exists>r. req_for c' ip = Some (a, r) \<and>
         (case req_for c ip of None \<Rightarrow> sent r = 0 \<and> times_sent r = 0
          | Some (b, q) \<Rightarrow> b = a \<and> sent r = sent q \<and> times_sent r = times_sent q))
    \<and> (\<forall>ip'. ip' \<noteq> ip \<longrightarrow> waiting c' ip' = waiting c ip') \<and> entries c' = entries c \<and> wf_cache c'"
proof -
  have c': "c' = fst (sr_arpcache_queuereq c ip packet ifc)"
    and a: "a = snd (sr_arpcache_queuereq c ip packet ifc)" using assms(3) by auto
  show ?thesis unfolding c' a using assms(1,2)
    by (auto simp: waiting_def req_for_queuereq wf_cache_queuereq new_req_def queuereq_known
        split: option.splits)
qed

lemma lookup_expire:
  "sr_arpcache_lookup (expire_entries t c) ip =
   last_some (filter (\<lambda>e. live_for ip e \<and> t - added e \<le> SR_ARPCACHE_TO) (entries c))"
proof -
  have "filter (live_for ip) (map (\<lambda>e. if valid e \<and> t - added e > 15 then e\<lparr> valid := False \<rparr> else e) es) =
      filter (\<lambda>e. live_for ip e \<and> t - added e \<le> 15) es" for es
    by (induction es) (auto simp: live_for_def)
  then show ?thesis by (simp add: lookup_last expire_entries_def)
qed

text \<open>
  Expiry: after a round of the timeout thread at time \<open>t\<close>, a lookup returns the last
  entry for the address that was valid and is at most 15 seconds old, and nothing older.
\<close>

theorem expire_entries_lookup:
  "sr_arpcache_lookup (expire_entries t c) ip = Some e \<longleftrightarrow>
   (\<exists>pre post. entries c = pre @ e # post \<and> valid e \<and> e_ip e = ip \<and> t - added e \<le> 15
      \<and> (\<nexists>q. q \<in> set post \<and> valid q \<and> e_ip q = ip \<and> t - added q \<le> 15))"
proof -
  show ?thesis unfolding lookup_expire last_some_filter live_for_def by (auto simp: conj_assoc)
qed

text \<open>A cache with one waiting request, for the concrete instances below.\<close>

definition sample_cache :: sr_arpcache where
  "sample_cache = \<lparr> entries = replicate 100 empty_entry,
     requests = [(7, \<lparr> r_ip = 5, sent = 3, times_sent = 1, packets = [new_packet [1] ''eth0''] \<rparr>)],
     next_req = 8 \<rparr>"

lemma sample_cache [simp]: "wf_cache sample_cache" "\<not> cache_full sample_cache"
  "arp_mac sample_cache ip = None" "waiting sample_cache 5 = [new_packet [1] ''eth0'']"
  by (auto simp: sample_cache_def wf_cache_def wf_queue_def cache_full_def arp_mac_def lookup_last
      empty_entry_def live_for_def waiting_def req_for_def filter_empty_conv)


theorem sr_arpcache_queuereq_spec_witness:
  "waiting (fst (sr_arpcache_queuereq sample_cache 5 [2] ''eth1'')) 5 =
     [new_packet [2] ''eth1'', new_packet [1] ''eth0'']"
proof -
  obtain c' a where "sr_arpcache_queuereq sample_cache 5 [2] ''eth1'' = (c', a)" by fastforce
  from sr_arpcache_queuereq_spec [OF _ _ this] this show ?thesis by simp
qed

text \<open>
  A stale mapping can hide a newer one: an address learnt into a low slot after a
  higher slot already holds it keeps resolving to the old hardware address, because the
  lookup returns the last match. The run: another address fills slot 0, the address is
  learnt into slot 1, slot 0 expires, the address is learnt again with a new hardware
  address.
\<close>

theorem arp_stale_mapping_shadows:
  "let c1 = fst (sr_arpcache_insert 0 (sr_arpcache_init c) m0 1);
       c2 = fst (sr_arpcache_insert 10 c1 old 2);
       c3 = expire_entries 16 c2;
       c4 = fst (sr_arpcache_insert 16 c3 new 2)
   in arp_mac c4 2 = Some (take 6 old)
      \<and> hd (entries c4) = \<lparr> mac = take 6 new, e_ip = 2, added = 16, valid = True \<rparr>"
proof -
  have r: "replicate 100 empty_entry = empty_entry # empty_entry # replicate 98 empty_entry"
    by (simp add: numeral_eq_Suc)
  have e: "\<not> valid empty_entry" by (simp add: empty_entry_def)
  show ?thesis
    by (simp add: Let_def sr_arpcache_init_def expire_entries_def r e
        arp_mac_def lookup_last live_for_def last_some_def)
qed

end
