(* ===== verification/Router.thy ===== *)
theory Router
  imports Rtable ArpCache Cksum Dumper
begin

text \<open>
  The router: \<^verbatim>\<open>sr_router.c\<close>, the sending half of \<^verbatim>\<open>sr_arpcache.c\<close> and
  \<^verbatim>\<open>sr_send_packet\<close> of \<^verbatim>\<open>sr_vns_comm.c\<close>. A handler is a function from the router state to
  the new state or a fault. \<^verbatim>\<open>time(NULL)\<close> is the field \<open>sr_now\<close>, with \<open>sr_usec\<close> the microseconds, constant during a
  handler; the frames handed to the server are appended to \<open>wire\<close>; \<open>sock_up\<close> says
  whether \<^verbatim>\<open>write\<close> on the server socket succeeds; \<open>logfile\<close> holds the bytes of the packet log. The functions that send a packet call
  each other recursively through \<^verbatim>\<open>sr_attempt_send\<close> (an unresolved next hop can produce
  an ICMP error, which is itself sent): they take the sending function as an argument, and
  \<open>sr_attempt_send\<close> ties the knot with a bound on the depth, \<open>OutOfFuel\<close> standing for a
  recursion deeper than that.
\<close>

record sr_instance =
  user :: string
  host :: string
  template :: string
  topo_id :: u16
  if_list :: "sr_if list"
  routing_table :: "sr_rt list"
  cache :: sr_arpcache
  logfile :: "bytes option"
  sr_now :: int
  sr_usec :: int
  sock_up :: bool
  wire :: "(string \<times> bytes) list"

type_synonym sender = "sr_instance \<Rightarrow> u32 \<Rightarrow> bytes \<Rightarrow> string \<Rightarrow> sr_instance res"

definition PACKET_DUMP_SIZE :: nat where [simp]: "PACKET_DUMP_SIZE = 1024"

section \<open>Handing a frame to the server\<close>

definition sr_log_packet :: "sr_instance \<Rightarrow> bytes \<Rightarrow> sr_instance res" where
  "sr_log_packet sr buf = (case logfile sr of None \<Rightarrow> Inr sr
     | Some fp \<Rightarrow> let size = min PACKET_DUMP_SIZE (length buf);
                    h = \<lparr> tv_sec = of_int (sr_now sr), tv_usec = of_int (sr_usec sr), pk_caplen = of_nat size,
                          pk_len = of_nat (if size < PACKET_DUMP_SIZE then size else PACKET_DUMP_SIZE) \<rparr>
                in bnd (sr_dump fp h buf) (\<lambda>fp. Inr (sr\<lparr> logfile := Some fp \<rparr>)))"

definition sr_ether_addrs_match_interface :: "sr_instance \<Rightarrow> bytes \<Rightarrow> string \<Rightarrow> bool res" where
  "sr_ether_addrs_match_interface sr buf name =
     (case sr_get_interface (if_list sr) name of None \<Rightarrow> Inr False
      | Some iface \<Rightarrow> bnd (read_bytes buf 6 ETHER_ADDR_LEN) (\<lambda>shost. Inr (shost = addr iface)))"

definition sr_send_packet :: "sr_instance \<Rightarrow> bytes \<Rightarrow> string \<Rightarrow> (int \<times> sr_instance) res" where
  "sr_send_packet sr buf iface =
     (if length buf < sizeof_eth then Inr (-1, sr)
      else bnd (sr_log_packet sr buf) (\<lambda>sr.
        bnd (sr_ether_addrs_match_interface sr buf iface) (\<lambda>ok.
          if \<not> ok then Inr (-1, sr)
          else if \<not> sock_up sr then Inr (-1, sr)
          else Inr (0, sr\<lparr> wire := wire sr @ [(strncpy 16 iface, buf)] \<rparr>))))"

text \<open>The log after a packet; logging cannot fault, since no more is read than there is.\<close>

definition logged :: "sr_instance \<Rightarrow> bytes \<Rightarrow> sr_instance" where
  "logged sr buf = (case sr_log_packet sr buf of Inr sr' \<Rightarrow> sr' | Inl e \<Rightarrow> sr)"

lemma unat_dump_size [simp]: "unat (of_nat (min 1024 n) :: u32) = min 1024 n"
  by (rule unat_of_nat_u32) simp

lemma sr_log_packet_logged [simp]: "sr_log_packet sr buf = Inr (logged sr buf)"
  by (simp add: logged_def sr_log_packet_def sr_dump_def read_bytes_def Let_def split: option.split)

section \<open>Sending ARP\<close>

text \<open>\<^verbatim>\<open>strcmp\<close> of two 32-byte arrays: when the first 32 characters agree and none of them
  terminates the string, the comparison runs past the arrays.\<close>

definition strcmp_eq :: "string \<Rightarrow> string \<Rightarrow> bool res" where
  "strcmp_eq a b = (if 32 \<le> length a \<and> take 32 a = take 32 b then Inl OutOfBounds else Inr (a = b))"

fun find_if_strcmp :: "string \<Rightarrow> sr_if list \<Rightarrow> sr_if option res" where
  "find_if_strcmp iface [] = Inr None"
| "find_if_strcmp iface (node # ns) =
     bnd (strcmp_eq (if_name node) iface) (\<lambda>eq. if eq then Inr (Some node) else find_if_strcmp iface ns)"

definition sr_send_eth :: "sr_instance \<Rightarrow> bytes \<Rightarrow> bytes \<Rightarrow> string \<Rightarrow> u16 \<Rightarrow> sr_instance res" where
  "sr_send_eth sr buf destination iface type =
     bnd (find_if_strcmp iface (if_list sr)) (\<lambda>p. bnd (deref p) (\<lambda>node.
     bnd (read_bytes destination 0 ETHER_ADDR_LEN) (\<lambda>dhost.
     bnd (read_bytes (addr node) 0 ETHER_ADDR_LEN) (\<lambda>shost.
     let eth = eth_bytes \<lparr> ether_dhost = dhost, ether_shost = shost, ether_type = htons type \<rparr> @ buf in
     bnd (sr_send_packet sr eth iface) (\<lambda>(r, sr). Inr sr)))))"

definition sr_send_arp :: "sr_instance \<Rightarrow> u16 \<Rightarrow> string \<Rightarrow> bytes \<Rightarrow> u32 \<Rightarrow> sr_instance res" where
  "sr_send_arp sr code iface target_eth_addr target_ip =
     bnd (deref (sr_get_interface (if_list sr) iface)) (\<lambda>node.
     bnd (read_bytes (addr node) 0 ETHER_ADDR_LEN) (\<lambda>sha.
     bnd (read_bytes target_eth_addr 0 ETHER_ADDR_LEN) (\<lambda>tha.
     let arp_hdr = \<lparr> ar_hrd = htons arp_hrd_ethernet, ar_pro = htons ethertype_ip,
           ar_hln = 6, ar_pln = 4, ar_op = htons code,
           ar_sha = sha, ar_sip = if_ip node, ar_tha = tha, ar_tip = target_ip \<rparr>
     in sr_send_eth sr (arp_bytes arp_hdr) target_eth_addr iface ethertype_arp)))"

fun find_gw :: "u32 \<Rightarrow> sr_rt list \<Rightarrow> sr_rt option" where
  "find_gw target_ip [] = None"
| "find_gw target_ip (rt # rs) = (if gw rt = target_ip then Some rt else find_gw target_ip rs)"

definition sr_send_arp_req :: "sr_instance \<Rightarrow> u32 \<Rightarrow> sr_instance res" where
  "sr_send_arp_req sr target_ip =
     bnd (deref (find_gw target_ip (routing_table sr))) (\<lambda>rt.
       sr_send_arp sr arp_op_request (interface rt) [255, 255, 255, 255, 255, 255] target_ip)"

section \<open>Sending IP and ICMP\<close>

definition ip_header :: "byte \<Rightarrow> u32 \<Rightarrow> u32 \<Rightarrow> nat \<Rightarrow> sr_ip_hdr" where
  "ip_header protocol source dst n =
     \<lparr> ip_hl = 5, ip_v = 4, ip_tos = 0, ip_len = htons (of_nat (sizeof_ip + n)), ip_id = 0,
       ip_off = htons IP_DF, ip_ttl = 64, ip_p = protocol, ip_sum = 0, ip_src = source, ip_dst = dst \<rparr>"

definition with_ip_sum :: "sr_ip_hdr \<Rightarrow> sr_ip_hdr" where
  "with_ip_sum ip = ip\<lparr> ip_sum := cksum (ip_bytes (ip\<lparr> ip_sum := 0 \<rparr>)) \<rparr>"

definition sr_send_ip :: "sender \<Rightarrow> sr_instance \<Rightarrow> byte \<Rightarrow> u32 \<Rightarrow> u32 \<Rightarrow> bytes \<Rightarrow> sr_instance res" where
  "sr_send_ip send sr protocol source dst buf =
     (case longest_prefix_match (routing_table sr) dst of None \<Rightarrow> Inr sr
      | Some rt_node \<Rightarrow>
     (case sr_get_interface (if_list sr) (interface rt_node) of None \<Rightarrow> Inr sr
      | Some if_node \<Rightarrow>
        bnd (read_bytes (addr if_node) 0 ETHER_ADDR_LEN) (\<lambda>shost.
        let ip = with_ip_sum (ip_header protocol source dst (length buf));
            eth = \<lparr> ether_dhost = calloc 6, ether_shost = shost, ether_type = htons ethertype_ip \<rparr>
        in send sr (gw rt_node) (eth_bytes eth @ ip_bytes ip @ buf) (if_name if_node))))"

text \<open>The header fields written over a zeroed ICMP message, then its checksum.\<close>

definition icmp_finish :: "sr_icmp_type \<Rightarrow> sr_icmp_code \<Rightarrow> bytes \<Rightarrow> bytes res" where
  "icmp_finish type code icmp =
     bnd (write_bytes icmp 0 [icmp_type_val type, icmp_code_val code, 0, 0]) (\<lambda>icmp.
       write_bytes icmp 2 (bytes16 (cksum icmp)))"

definition sr_send_icmp3 :: "sender \<Rightarrow> sr_instance \<Rightarrow> sr_icmp_type \<Rightarrow> sr_icmp_code \<Rightarrow> u32 \<Rightarrow> u32
    \<Rightarrow> bytes \<Rightarrow> nat \<Rightarrow> nat \<Rightarrow> sr_instance res" where
  "sr_send_icmp3 send sr type code ip_source ip_dest buf off len =
     bnd (read_bytes buf off len) (\<lambda>d.
     bnd (write_bytes (calloc sizeof_icmp_t3) 8 d) (\<lambda>icmp.
     bnd (icmp_finish type code icmp) (\<lambda>icmp.
       sr_send_ip send sr ip_protocol_icmp ip_source ip_dest icmp)))"

definition sr_send_icmp :: "sender \<Rightarrow> sr_instance \<Rightarrow> sr_icmp_type \<Rightarrow> sr_icmp_code \<Rightarrow> u32 \<Rightarrow> u32
    \<Rightarrow> bytes \<Rightarrow> nat \<Rightarrow> u32 \<Rightarrow> sr_instance res" where
  "sr_send_icmp send sr type code ip_source ip_dest buf off len =
     (let icmp_l = 4 + len in
     bnd (read_bytes buf off (unat len)) (\<lambda>d.
     bnd (write_bytes (calloc (unat icmp_l)) 4 d) (\<lambda>icmp.
     bnd (icmp_finish type code icmp) (\<lambda>icmp.
       sr_send_ip send sr ip_protocol_icmp ip_source ip_dest icmp))))"

section \<open>The request queue at work\<close>

definition deref_req :: "sr_instance \<Rightarrow> req_addr \<Rightarrow> sr_arpreq res" where
  "deref_req sr a = (case map_of (requests (cache sr)) a of
     None \<Rightarrow> Inl UseAfterFree | Some req \<Rightarrow> Inr req)"

definition icmp_for_packet :: "sender \<Rightarrow> sr_instance \<Rightarrow> sr_packet \<Rightarrow> sr_instance res" where
  "icmp_for_packet send sr packet =
     (let node = sr_get_interface (if_list sr) (p_iface packet) in
      bnd (deref node) (\<lambda>node. bnd (load_ip (p_buf packet) sizeof_eth) (\<lambda>ip_hdr.
        sr_send_icmp3 send sr icmp_unreach icmp_host_unreach (if_ip node) (ip_src ip_hdr)
          (p_buf packet) sizeof_eth (4 * unat (ip_hl ip_hdr) + 8))))"

fun icmp_waiting_loop :: "sender \<Rightarrow> req_addr \<Rightarrow> sr_packet list \<Rightarrow> sr_instance \<Rightarrow> sr_instance res" where
  "icmp_waiting_loop send a [] sr = Inr sr"
| "icmp_waiting_loop send a (packet # ps) sr =
     bnd (icmp_for_packet send sr packet) (\<lambda>sr.
     bnd (deref_req sr a) (\<lambda>_. icmp_waiting_loop send a ps sr))"

definition sr_send_icmp_to_waiting :: "sender \<Rightarrow> sr_instance \<Rightarrow> req_addr \<Rightarrow> sr_instance res" where
  "sr_send_icmp_to_waiting send sr a =
     bnd (deref_req sr a) (\<lambda>req. icmp_waiting_loop send a (packets req) sr)"

definition sr_handle_arpreq :: "sender \<Rightarrow> sr_instance \<Rightarrow> req_addr \<Rightarrow> sr_instance res" where
  "sr_handle_arpreq send sr a =
     (let now = sr_now sr in
      bnd (deref_req sr a) (\<lambda>req.
        if now - sent req > 1 then
          (if times_sent req \<ge> 5 then
             bnd (sr_send_icmp_to_waiting send sr a) (\<lambda>sr.
             bnd (deref_req sr a) (\<lambda>_. Inr (sr\<lparr> cache := sr_arpreq_destroy (cache sr) a \<rparr>)))
           else
             bnd (sr_send_arp_req sr (r_ip req)) (\<lambda>sr.
             Inr (sr\<lparr> cache := cache sr\<lparr> requests := upd_req a
                 (\<lambda>req. req\<lparr> sent := now, times_sent := times_sent req + 1 \<rparr>) (requests (cache sr)) \<rparr> \<rparr>)))
        else Inr sr))"

fun sr_attempt_send :: "nat \<Rightarrow> sender" where
  "sr_attempt_send 0 sr ip frame iface = Inl OutOfFuel"
| "sr_attempt_send (Suc n) sr ip frame iface =
     (case sr_arpcache_lookup (cache sr) ip of
        Some entry \<Rightarrow>
          bnd (write_bytes frame 0 (take ETHER_ADDR_LEN (mac entry))) (\<lambda>frame.
          bnd (sr_send_packet sr frame iface) (\<lambda>(r, sr). Inr sr))
      | None \<Rightarrow>
          (let (c, req) = sr_arpcache_queuereq (cache sr) ip frame iface
           in sr_handle_arpreq (sr_attempt_send n) (sr\<lparr> cache := c \<rparr>) req))"

fun next_of :: "req_addr \<Rightarrow> (req_addr \<times> sr_arpreq) list \<Rightarrow> req_addr option res" where
  "next_of a [] = Inl UseAfterFree"
| "next_of a ((b, req) # rs) =
     (if b = a then Inr (case rs of [] \<Rightarrow> None | (c, r) # _ \<Rightarrow> Some c) else next_of a rs)"

text \<open>The walk of \<^verbatim>\<open>sr_arpcache_sweepreqs\<close> reads \<^verbatim>\<open>req->next\<close> after the request has been
  handled; the first argument bounds the number of nodes visited.\<close>

fun sweep_loop :: "nat \<Rightarrow> sender \<Rightarrow> req_addr option \<Rightarrow> sr_instance \<Rightarrow> sr_instance res" where
  "sweep_loop k send None sr = Inr sr"
| "sweep_loop 0 send (Some req) sr = Inl OutOfFuel"
| "sweep_loop (Suc k) send (Some req) sr =
     bnd (sr_handle_arpreq send sr req) (\<lambda>sr.
     bnd (next_of req (requests (cache sr))) (\<lambda>nxt. sweep_loop k send nxt sr))"

definition sr_arpcache_sweepreqs :: "sender \<Rightarrow> sr_instance \<Rightarrow> sr_instance res" where
  "sr_arpcache_sweepreqs send sr =
     sweep_loop (length (requests (cache sr))) send
       (case requests (cache sr) of [] \<Rightarrow> None | (a, r) # _ \<Rightarrow> Some a) sr"

text \<open>One round of the timeout thread, at time \<open>curtime\<close>.\<close>

definition sr_arpcache_timeout :: "nat \<Rightarrow> int \<Rightarrow> sr_instance \<Rightarrow> sr_instance res" where
  "sr_arpcache_timeout n curtime sr =
     sr_arpcache_sweepreqs (sr_attempt_send n)
       (sr\<lparr> sr_now := curtime, cache := expire_entries curtime (cache sr) \<rparr>)"

section \<open>Receiving\<close>

definition sr_recv_arp :: "sender \<Rightarrow> sr_instance \<Rightarrow> sr_arp_hdr \<Rightarrow> sr_instance res" where
  "sr_recv_arp send sr arp =
     (let (c, req) = sr_arpcache_insert (sr_now sr) (cache sr) (ar_sha arp) (ar_sip arp);
          sr = sr\<lparr> cache := c \<rparr>
      in case req of None \<Rightarrow> Inr sr
         | Some (a, r) \<Rightarrow>
             bnd (fold_res (\<lambda>packet sr. send sr (r_ip r) (p_buf packet) (p_iface packet)) (packets r) sr)
               (\<lambda>sr. Inr (sr\<lparr> cache := sr_arpreq_destroy (cache sr) a \<rparr>)))"

definition sr_handle_arp_packet :: "sender \<Rightarrow> sr_instance \<Rightarrow> bytes \<Rightarrow> nat \<Rightarrow> string \<Rightarrow> sr_instance res" where
  "sr_handle_arp_packet send sr packet len ifc =
     (if len < sizeof_arp then Inr sr
      else bnd (deref (sr_get_interface (if_list sr) ifc)) (\<lambda>iface.
        bnd (load_arp packet sizeof_eth) (\<lambda>arp.
          if if_ip iface = ar_tip arp then
            bnd (sr_recv_arp send sr arp) (\<lambda>sr.
              if ntohs (ar_op arp) = arp_op_request
              then sr_send_arp sr arp_op_reply ifc (ar_sha arp) (ar_sip arp)
              else Inr sr)
          else Inr sr)))"

definition sr_check_packet :: "sr_instance \<Rightarrow> u32 \<Rightarrow> sr_if option" where
  "sr_check_packet sr ip_dest = find (\<lambda>iface. if_ip iface = ip_dest) (if_list sr)"

definition sr_handle_my_ip_packet :: "sender \<Rightarrow> sr_instance \<Rightarrow> bytes \<Rightarrow> sr_ip_hdr \<Rightarrow> sr_instance res" where
  "sr_handle_my_ip_packet send sr packet ip_hdr =
     (let ip_hdr_l = unat (ip_hl ip_hdr) * 4 in
      if ip_p ip_hdr = ip_protocol_icmp then
        (let icmp_payload_l = ucast (ntohs (ip_len ip_hdr)) - of_nat ip_hdr_l - 4 in
         bnd (load_icmp packet (sizeof_eth + ip_hdr_l)) (\<lambda>icmp_hdr.
           if icmp_type icmp_hdr = icmp_type_val icmp_echo_request then
             sr_send_icmp send sr icmp_echo_reply icmp_echo_reply_code (ip_dst ip_hdr) (ip_src ip_hdr)
               packet (sizeof_eth + ip_hdr_l + sizeof_icmp) icmp_payload_l
           else Inr sr))
      else sr_send_icmp3 send sr icmp_unreach icmp_port_unreach (ip_dst ip_hdr) (ip_src ip_hdr)
             packet sizeof_eth (ip_hdr_l + 8))"

text \<open>The forwarding rewrite: the time to live and the checksum over the header as long as
  \<^verbatim>\<open>ip_hl\<close> says, in the received buffer.\<close>

definition rewrite_ttl :: "bytes \<Rightarrow> sr_ip_hdr \<Rightarrow> byte \<Rightarrow> bytes res" where
  "rewrite_ttl packet ip_hdr new_ttl =
     bnd (write_bytes packet sizeof_eth (ip_bytes (ip_hdr\<lparr> ip_ttl := new_ttl, ip_sum := 0 \<rparr>))) (\<lambda>packet.
     bnd (read_bytes packet sizeof_eth (unat (ip_hl ip_hdr) * 4)) (\<lambda>h.
       write_bytes packet sizeof_eth (ip_bytes (ip_hdr\<lparr> ip_ttl := new_ttl, ip_sum := cksum h \<rparr>))))"

definition sr_handle_ip_packet :: "sender \<Rightarrow> sr_instance \<Rightarrow> bytes \<Rightarrow> string \<Rightarrow> sr_instance res" where
  "sr_handle_ip_packet send sr packet ifc =
     (if length packet < sizeof_ip + sizeof_eth then Inr sr
      else bnd (load_ip packet sizeof_eth) (\<lambda>ip_hdr.
        let ip_hdr_l = unat (ip_hl ip_hdr) * 4 in
        if sr_check_packet sr (ip_dst ip_hdr) \<noteq> None
        then sr_handle_my_ip_packet send sr packet ip_hdr
        else let new_ttl = ip_ttl ip_hdr - 1 in
        if new_ttl = 0 then
          bnd (read_bytes packet sizeof_eth (ip_hdr_l + 8)) (\<lambda>d.
          bnd (write_bytes (calloc (4 + ip_hdr_l + 8)) 4 d) (\<lambda>buf.
          bnd (deref (sr_get_interface (if_list sr) ifc)) (\<lambda>iface.
            sr_send_icmp send sr icmp_ttl icmp_ttl_code (if_ip iface) (ip_src ip_hdr)
              buf 0 (of_nat (4 + ip_hdr_l + 8)))))
        else bnd (rewrite_ttl packet ip_hdr new_ttl) (\<lambda>packet.
          case longest_prefix_match (routing_table sr) (ip_dst ip_hdr) of
            Some route \<Rightarrow>
              bnd (deref (sr_get_interface (if_list sr) (interface route))) (\<lambda>node.
              bnd (read_bytes (addr node) 0 ETHER_ADDR_LEN) (\<lambda>shost.
              bnd (write_bytes packet 6 shost) (\<lambda>temp.
                send sr (gw route) temp (interface route))))
          | None \<Rightarrow>
              bnd (deref (sr_get_interface (if_list sr) ifc)) (\<lambda>ifback.
                sr_send_icmp3 send sr icmp_unreach icmp_network_unreach (if_ip ifback) (ip_src ip_hdr)
                  packet sizeof_eth (ip_hdr_l + 8)))))"

definition sr_handlepacket :: "nat \<Rightarrow> sr_instance \<Rightarrow> bytes \<Rightarrow> string \<Rightarrow> sr_instance res" where
  "sr_handlepacket n sr packet ifc =
     (let len = length packet; send = sr_attempt_send n in
      bnd (print_hdrs packet len) (\<lambda>_.
        if len < sizeof_eth then Inr sr
        else bnd (ethertype packet) (\<lambda>ethtype.
          if ethtype = ethertype_ip then sr_handle_ip_packet send sr packet ifc
          else if ethtype = ethertype_arp
          then sr_handle_arp_packet send sr packet (len - sizeof_eth) ifc
          else Inr sr)))"

definition sr_init :: "sr_instance \<Rightarrow> sr_instance" where
  "sr_init sr = sr\<lparr> cache := sr_arpcache_init (cache sr) \<rparr>"

end
