(* ===== verification/RouterSafe.thy ===== *)
theory RouterSafe
  imports Router
begin

text \<open>
  Memory safety of the router. \<open>wf_state\<close> is the invariant of a configured router;
  \<open>safe\<close> is the outcome of a handler that may exhaust the recursion bound but commits no
  memory fault. The contract of the sending function is the locale \<open>safe_sender\<close>; the
  clients (\<open>sr_send_ip\<close>, the ICMP senders, \<open>sr_handle_arpreq\<close>, the receive handlers) are
  proved safe inside it, and \<open>sr_attempt_send n\<close> satisfies it for every \<open>n\<close>.

  The delicate point is that the walk over the packets of a given-up request sends ICMP
  errors, and such a send may itself give up requests and free them. \<open>chain\<close> records the
  requests being given up at the moment, each with a packet whose error goes to the next
  one. A send that comes back to one of them can never return (\<open>loop_set\<close>), hence a
  request under treatment is never freed by the calls it makes.
\<close>

section \<open>Invariants\<close>

definition wf_config :: "sr_if list \<Rightarrow> sr_rt list \<Rightarrow> bool" where
  "wf_config ifs rt \<longleftrightarrow> (\<forall>i\<in>set ifs. length (addr i) = 6 \<and> length (if_name i) < 32)
     \<and> (\<forall>r\<in>set rt. length (interface r) < 32 \<and> sr_get_interface ifs (interface r) \<noteq> None)"

definition ip_at :: "bytes \<Rightarrow> sr_ip_hdr" where
  "ip_at f = ip_of (take 20 (drop 14 f))"

text \<open>A frame whose IP header and the eight bytes after it lie inside the buffer.\<close>

definition wf_frame :: "bytes \<Rightarrow> bool" where
  "wf_frame f \<longleftrightarrow> 34 \<le> length f \<and> unat (ip_hl (ip_at f)) \<le> 5
     \<and> 14 + (4 * unat (ip_hl (ip_at f)) + 8) \<le> length f"

text \<open>The source address that \<^verbatim>\<open>sr_send_packet\<close> insists on.\<close>

definition src_ok :: "sr_if list \<Rightarrow> bytes \<Rightarrow> string \<Rightarrow> bool" where
  "src_ok ifs f i \<longleftrightarrow> (\<exists>n. sr_get_interface ifs i = Some n \<and> take 6 (drop 6 f) = addr n)"

definition known_gw :: "sr_rt list \<Rightarrow> u32 \<Rightarrow> bool" where
  "known_gw rt ip \<longleftrightarrow> (\<exists>q\<in>set rt. gw q = ip)"

definition armed :: "int \<Rightarrow> sr_arpreq \<Rightarrow> bool" where
  "armed now r \<longleftrightarrow> now - sent r > 1 \<and> times_sent r \<ge> 5"

definition wf_req :: "bool \<Rightarrow> sr_if list \<Rightarrow> sr_rt list \<Rightarrow> int \<Rightarrow> sr_arpreq \<Rightarrow> bool" where
  "wf_req fl ifs rt now r \<longleftrightarrow> known_gw rt (r_ip r) \<and> times_sent r \<le> 5 \<and> (fl \<or> \<not> armed now r)
     \<and> (\<forall>p\<in>set (packets r). wf_frame (p_buf p) \<and> src_ok ifs (p_buf p) (p_iface p))"

definition wf_state :: "bool \<Rightarrow> sr_if list \<Rightarrow> sr_rt list \<Rightarrow> int \<Rightarrow> sr_instance \<Rightarrow> bool" where
  "wf_state fl ifs rt now sr \<longleftrightarrow> wf_config ifs rt \<and> if_list sr = ifs \<and> routing_table sr = rt \<and> sr_now sr = now
     \<and> wf_cache (cache sr) \<and> (\<forall>e\<in>set (entries (cache sr)). valid e \<longrightarrow> length (mac e) = 6)
     \<and> (\<forall>(a, r)\<in>set (requests (cache sr)). wf_req fl ifs rt now r)"

definition safe :: "bool \<Rightarrow> ('a \<Rightarrow> bool) \<Rightarrow> 'a res \<Rightarrow> bool" where
  "safe fl P r \<longleftrightarrow> (case r of Inl e \<Rightarrow> fl \<and> e = OutOfFuel | Inr x \<Rightarrow> P x)"

lemma safe_simps [simp]: "safe fl P (Inr x) \<longleftrightarrow> P x" "safe fl P (Inl e) \<longleftrightarrow> fl \<and> e = OutOfFuel"
  by (simp_all add: safe_def)

lemma safe_bnd: "safe fl Q m \<Longrightarrow> (\<And>x. Q x \<Longrightarrow> m = Inr x \<Longrightarrow> safe fl P (f x)) \<Longrightarrow> safe fl P (bnd m f)"
  by (cases m) auto

lemma safe_mono: "safe fl Q m \<Longrightarrow> (\<And>x. m = Inr x \<Longrightarrow> Q x \<Longrightarrow> P x) \<Longrightarrow> safe fl P m"
  by (cases m) auto

lemma safe_cases: "safe fl P m \<longleftrightarrow> fl \<and> m = Inl OutOfFuel \<or> (\<exists>x. m = Inr x \<and> P x)"
  by (cases m) auto

text \<open>The destination of the error message for a waiting packet.\<close>

definition icmp_target :: "sr_if list \<Rightarrow> sr_rt list \<Rightarrow> sr_packet \<Rightarrow> u32 option" where
  "icmp_target ifs rt p =
     (case longest_prefix_match rt (ip_src (ip_at (p_buf p))) of None \<Rightarrow> None
      | Some rn \<Rightarrow> if sr_get_interface ifs (interface rn) = None then None else Some (gw rn))"

definition req_at :: "sr_instance \<Rightarrow> req_addr \<Rightarrow> sr_arpreq option" where
  "req_at sr a = map_of (requests (cache sr)) a"

text \<open>From \<open>sr\<close> to \<open>sr'\<close> the requests \<open>A\<close> stay in the queue and at most gain packets.\<close>

definition grows :: "req_addr set \<Rightarrow> sr_instance \<Rightarrow> sr_instance \<Rightarrow> bool" where
  "grows A sr sr' \<longleftrightarrow> if_list sr' = if_list sr \<and> routing_table sr' = routing_table sr \<and> sr_now sr' = sr_now sr
     \<and> entries (cache sr') = entries (cache sr)
     \<and> (\<forall>a\<in>A. \<forall>r. req_at sr a = Some r \<longrightarrow> (\<exists>r'. req_at sr' a = Some r' \<and> r_ip r' = r_ip r
          \<and> sent r' = sent r \<and> times_sent r' = times_sent r \<and> set (packets r) \<subseteq> set (packets r')))"

text \<open>
  A request of \<open>chain sr st ip\<close> is being given up, and sends an error to the next one;
  the last one sends an error to \<open>ip\<close>.
\<close>

definition sends_to :: "sr_instance \<Rightarrow> req_addr \<Rightarrow> u32 \<Rightarrow> bool" where
  "sends_to sr a ip \<longleftrightarrow> (\<exists>r p. req_at sr a = Some r \<and> armed (sr_now sr) r \<and> p \<in> set (packets r)
     \<and> icmp_target (if_list sr) (routing_table sr) p = Some ip)"

fun chain :: "sr_instance \<Rightarrow> req_addr list \<Rightarrow> u32 \<Rightarrow> bool" where
  "chain sr [] ip \<longleftrightarrow> True"
| "chain sr [a] ip \<longleftrightarrow> sends_to sr a ip"
| "chain sr (a # b # st) ip \<longleftrightarrow>
     (\<exists>r. req_at sr b = Some r \<and> sr_arpcache_lookup (cache sr) (r_ip r) = None \<and> sends_to sr a (r_ip r))
     \<and> chain sr (b # st) ip"

definition loop_set :: "sr_instance \<Rightarrow> req_addr set \<Rightarrow> bool" where
  "loop_set sr B \<longleftrightarrow> (\<forall>b\<in>B. \<exists>c\<in>B. \<exists>r. req_at sr c = Some r
     \<and> sr_arpcache_lookup (cache sr) (r_ip r) = None \<and> sends_to sr b (r_ip r))"

section \<open>Growth\<close>

lemma grows_refl [simp]: "grows A sr sr"
  by (auto simp: grows_def)

lemma grows_trans: "grows A s t \<Longrightarrow> grows A t u \<Longrightarrow> grows A s u"
  unfolding grows_def by (fastforce intro: order_trans)

lemma grows_mono: "grows B s t \<Longrightarrow> A \<subseteq> B \<Longrightarrow> grows A s t"
  unfolding grows_def by blast

lemma grows_req:
  "grows A sr sr' \<Longrightarrow> a \<in> A \<Longrightarrow> req_at sr a = Some r \<Longrightarrow>
   \<exists>r'. req_at sr' a = Some r' \<and> r_ip r' = r_ip r \<and> sent r' = sent r \<and> times_sent r' = times_sent r
     \<and> set (packets r) \<subseteq> set (packets r')"
  unfolding grows_def by blast

lemma grows_lookup: "grows A sr sr' \<Longrightarrow> sr_arpcache_lookup (cache sr') ip = sr_arpcache_lookup (cache sr) ip"
  by (simp add: grows_def sr_arpcache_lookup_def)

lemma grows_sends_to:
  assumes "grows A sr sr'" "a \<in> A" "sends_to sr a ip" shows "sends_to sr' a ip"
proof -
  obtain r p where rp: "req_at sr a = Some r" "armed (sr_now sr) r" "p \<in> set (packets r)"
    "icmp_target (if_list sr) (routing_table sr) p = Some ip"
    using assms(3) by (auto simp: sends_to_def)
  obtain r' where r': "req_at sr' a = Some r'" "sent r' = sent r" "times_sent r' = times_sent r"
    "set (packets r) \<subseteq> set (packets r')"
    using grows_req [OF assms(1,2) rp(1)] by blast
  have "armed (sr_now sr') r'" using rp(2) r' assms(1) by (simp add: armed_def grows_def)
  with rp r' assms(1) show ?thesis by (auto simp: sends_to_def grows_def)
qed

lemma grows_chain: "grows (set st) sr sr' \<Longrightarrow> chain sr st ip \<Longrightarrow> chain sr' st ip"
proof (induction sr st ip rule: chain.induct)
  case (2 sr a ip)
  then show ?case using grows_sends_to by fastforce
next
  case (3 sr a b st ip)
  have "grows (set (b # st)) sr sr'" using 3(2) by (rule grows_mono) auto
  moreover obtain r where r: "req_at sr b = Some r" "sr_arpcache_lookup (cache sr) (r_ip r) = None"
    "sends_to sr a (r_ip r)" using 3(3) by auto
  moreover obtain r' where "req_at sr' b = Some r'" "r_ip r' = r_ip r"
    using grows_req [OF 3(2) _ r(1)] by auto
  ultimately show ?case using 3 grows_lookup [OF 3(2)] grows_sends_to [OF 3(2), of a]
    by auto
qed simp

lemma grows_loop_set:
  assumes g: "grows B sr sr'" and l: "loop_set sr B" shows "loop_set sr' B"
  unfolding loop_set_def
proof
  fix b assume b: "b \<in> B"
  then obtain c r where c: "c \<in> B" "req_at sr c = Some r"
    "sr_arpcache_lookup (cache sr) (r_ip r) = None" "sends_to sr b (r_ip r)"
    using l unfolding loop_set_def by blast
  obtain r' where "req_at sr' c = Some r'" "r_ip r' = r_ip r" using grows_req [OF g c(1,2)] by blast
  then show "\<exists>c\<in>B. \<exists>r. req_at sr' c = Some r \<and> sr_arpcache_lookup (cache sr') (r_ip r) = None
      \<and> sends_to sr' b (r_ip r)"
    using c grows_lookup [OF g] grows_sends_to [OF g b c(4)]
    by (intro bexI [of _ c] exI [of _ r']) auto
qed

lemma chain_live: "chain sr st ip \<Longrightarrow> a \<in> set st \<Longrightarrow> \<exists>x. sends_to sr a x"
  by (induction sr st ip rule: chain.induct) auto

text \<open>Coming back to a request of the chain closes a loop.\<close>

lemma chain_loop_set:
  assumes "chain sr st ip" "a \<in> set st" "req_at sr a = Some r" "r_ip r = ip"
    "sr_arpcache_lookup (cache sr) ip = None"
  shows "\<exists>B. a \<in> B \<and> loop_set sr B \<and> B \<subseteq> set st"
proof -
  obtain pre post where st: "st = pre @ a # post" using assms(2) by (meson split_list)
  have suf: "chain sr (pre @ a # post) ip \<Longrightarrow> chain sr (a # post) ip"
  proof (induction pre)
    case (Cons x pre) then show ?case by (cases "pre @ a # post") (auto split: list.splits)
  qed simp
  have fwd: "chain sr (y # ys) ip \<Longrightarrow> \<forall>b\<in>set (y # ys). (\<exists>c\<in>set ys. \<exists>r. req_at sr c = Some r
      \<and> sr_arpcache_lookup (cache sr) (r_ip r) = None \<and> sends_to sr b (r_ip r)) \<or> sends_to sr b ip" for y ys
    by (induction ys arbitrary: y) auto
  have "chain sr (a # post) ip" using suf assms(1) st by simp
  from fwd [OF this] have "loop_set sr (set (a # post))"
    unfolding loop_set_def using assms(3,4,5) by (meson list.set_intros)
  then show ?thesis using st by (intro exI [of _ "set (a # post)"]) auto
qed

section \<open>Operations that only do output\<close>

definition io_only :: "sr_instance \<Rightarrow> sr_instance \<Rightarrow> bool" where
  "io_only sr sr' \<longleftrightarrow> if_list sr' = if_list sr \<and> routing_table sr' = routing_table sr
     \<and> sr_now sr' = sr_now sr \<and> cache sr' = cache sr \<and> sock_up sr' = sock_up sr"

lemma io_only_refl [simp]: "io_only sr sr"
  by (simp add: io_only_def)

lemma io_only_wf: "io_only sr sr' \<Longrightarrow> wf_state fl ifs rt now sr \<Longrightarrow> wf_state fl ifs rt now sr'"
  by (simp add: wf_state_def io_only_def)

lemma io_only_grows: "io_only sr sr' \<Longrightarrow> grows A sr sr'"
  by (simp add: grows_def req_at_def io_only_def)

lemma io_only_req_at: "io_only sr sr' \<Longrightarrow> req_at sr' a = req_at sr a"
  by (simp add: req_at_def io_only_def)

lemma logged_fields:
  "logged sr f = sr\<lparr> logfile := logfile (logged sr f) \<rparr>"
proof -
  obtain x where "sr_log_packet sr f = Inr (sr\<lparr> logfile := x \<rparr>)"
    by (cases "logfile sr") (auto simp: sr_log_packet_def sr_dump_def read_bytes_def Let_def simp del: sr_log_packet_logged
        intro: that [of "logfile sr"])
  then show ?thesis by simp
qed

lemma sr_log_packet_io: "io_only sr (logged sr f)"
  "sock_up (logged sr f) = sock_up sr" "wire (logged sr f) = wire sr"
  by (subst logged_fields, simp add: io_only_def)+

lemma sr_send_packet_io: "\<exists>r sr'. sr_send_packet sr f i = Inr (r, sr') \<and> io_only sr sr'"
proof (cases "length f < 14")
  case False
  let ?s = "logged sr f"
  obtain b where "sr_ether_addrs_match_interface ?s f i = Inr b"
    using False by (cases "sr_get_interface (if_list ?s) i")
      (auto simp: sr_ether_addrs_match_interface_def read_bytes_def)
  with False sr_log_packet_io [of sr f] show ?thesis
    by (auto simp: sr_send_packet_def Let_def io_only_def)
qed (simp add: sr_send_packet_def)

lemma sr_send_arp_io_only: "sr_send_arp sr code i d ip = Inr sr' \<Longrightarrow> io_only sr sr'"
  by (auto simp: sr_send_arp_def sr_send_eth_def bnd_eq_Inr Let_def)
     (metis sr_send_packet_io Inr_inject prod.inject)

lemma sr_send_arp_req_io_only: "sr_send_arp_req sr ip = Inr sr' \<Longrightarrow> io_only sr sr'"
  by (auto simp: sr_send_arp_req_def bnd_eq_Inr dest: sr_send_arp_io_only)

lemma find_if_strcmp_get:
  "\<forall>i\<in>set ifs. length (if_name i) < 32 \<Longrightarrow> length n < 32 \<Longrightarrow>
   find_if_strcmp n ifs = Inr (sr_get_interface ifs n)"
  by (induction ifs) (auto simp: strcmp_eq_def strncmp_eq_short)

lemma sr_get_interface_wf:
  "wf_config ifs rt \<Longrightarrow> sr_get_interface ifs n = Some i \<Longrightarrow> length (addr i) = 6 \<and> length (if_name i) < 32"
  by (auto simp: wf_config_def dest: sr_get_interface_SomeD)

lemma sr_send_eth_io:
  assumes "wf_config (if_list sr) rt" "sr_get_interface (if_list sr) i \<noteq> None" "length i < 32"
    "6 \<le> length d"
  shows "\<exists>sr'. sr_send_eth sr b d i ty = Inr sr' \<and> io_only sr sr'"
proof -
  obtain n where n: "sr_get_interface (if_list sr) i = Some n" using assms(2) by blast
  have f: "find_if_strcmp i (if_list sr) = Inr (Some n)"
    using n assms(1,3) find_if_strcmp_get [of "if_list sr" i] by (auto simp: wf_config_def)
  have l: "length (addr n) = 6" using sr_get_interface_wf [OF assms(1) n] by simp
  obtain r sr' where "sr_send_packet sr (eth_bytes \<lparr> ether_dhost = take 6 d, ether_shost = addr n,
      ether_type = htons ty \<rparr> @ b) i = Inr (r, sr')" "io_only sr sr'"
    using sr_send_packet_io by blast
  with f l assms(4) show ?thesis by (simp add: sr_send_eth_def read_bytes_def)
qed

lemma sr_send_arp_io:
  assumes "wf_config (if_list sr) rt" "sr_get_interface (if_list sr) i \<noteq> None" "length i < 32"
    "6 \<le> length d"
  shows "\<exists>sr'. sr_send_arp sr code i d ip = Inr sr' \<and> io_only sr sr'"
proof -
  obtain n where n: "sr_get_interface (if_list sr) i = Some n" using assms(2) by blast
  have l: "length (addr n) = 6" using sr_get_interface_wf [OF assms(1) n] by simp
  show ?thesis using n l assms(4) sr_send_eth_io [OF assms] by (simp add: sr_send_arp_def read_bytes_def)
qed

lemma find_gw_Some: "find_gw ip rt = Some q \<Longrightarrow> q \<in> set rt \<and> gw q = ip"
  by (induction rt) (auto split: if_splits)

lemma find_gw_known: "known_gw rt ip \<Longrightarrow> find_gw ip rt \<noteq> None"
  by (induction rt) (auto simp: known_gw_def)

lemma sr_send_arp_req_io:
  assumes "wf_config (if_list sr) (routing_table sr)" "known_gw (routing_table sr) ip"
  shows "\<exists>sr'. sr_send_arp_req sr ip = Inr sr' \<and> io_only sr sr'"
proof -
  obtain q where q: "find_gw ip (routing_table sr) = Some q"
    using find_gw_known [OF assms(2)] by blast
  then have "sr_get_interface (if_list sr) (interface q) \<noteq> None" "length (interface q) < 32"
    using assms(1) by (auto simp: wf_config_def dest: find_gw_Some)
  then show ?thesis using q sr_send_arp_io [OF assms(1)] by (simp add: sr_send_arp_req_def)
qed

section \<open>The queue under growth\<close>

lemma req_at_set: "wf_cache (cache sr) \<Longrightarrow> req_at sr a = Some r \<longleftrightarrow> (a, r) \<in> set (requests (cache sr))"
  by (auto simp: req_at_def wf_cache_def wf_queue_def dest: map_of_SomeD)

lemma map_of_upd_req:
  "map_of (upd_req a f rs) b = (if b = a then map_option f (map_of rs a) else map_of rs b)"
  by (induction a f rs rule: upd_req.induct) auto

lemma queuereq_snd:
  "f \<noteq> [] \<Longrightarrow> snd (sr_arpcache_queuereq c ip f i) = (case req_for c ip of None \<Rightarrow> next_req c | Some (a, r) \<Rightarrow> a)"
  by (auto simp: queuereq_known queuereq_unknown split: option.split)

lemma queuereq_req_at:
  assumes "wf_cache (cache sr)" "f \<noteq> []" "sr_arpcache_queuereq (cache sr) ip f i = (c, a)"
  shows "req_at (sr\<lparr> cache := c \<rparr>) a = Some (push_packet f i
      (case req_for (cache sr) ip of None \<Rightarrow> new_req ip | Some (a, r) \<Rightarrow> r))"
    and "b \<noteq> a \<Longrightarrow> req_at (sr\<lparr> cache := c \<rparr>) b = req_at sr b"
    and "req_for (cache sr) ip = None \<Longrightarrow> req_at sr a = None"
    and "req_for (cache sr) ip = Some (b, r) \<Longrightarrow> b = a \<and> req_at sr a = Some r"
proof -
  have "req_for (cache sr) ip = None \<Longrightarrow> a = next_req (cache sr)"
    using assms(2,3) by (simp add: queuereq_unknown)
  moreover have "req_for (cache sr) ip = None \<Longrightarrow> map_of (requests (cache sr)) (next_req (cache sr)) = None"
    using assms(1) by (fastforce simp: wf_cache_def wf_queue_def map_of_eq_None_iff)
  ultimately show 3: "req_for (cache sr) ip = None \<Longrightarrow> req_at sr a = None" by (simp add: req_at_def)
  show 4: "req_for (cache sr) ip = Some (b, r) \<Longrightarrow> b = a \<and> req_at sr a = Some r" for b r
    using assms req_for_SomeD req_at_set [OF assms(1)] by (fastforce simp: queuereq_known)
  show "req_at (sr\<lparr> cache := c \<rparr>) a = Some (push_packet f i
      (case req_for (cache sr) ip of None \<Rightarrow> new_req ip | Some (a, r) \<Rightarrow> r))"
    using assms(2,3) 4
    by (auto simp: req_at_def queuereq_known queuereq_unknown map_of_upd_req split: option.splits)
  show "b \<noteq> a \<Longrightarrow> req_at (sr\<lparr> cache := c \<rparr>) b = req_at sr b"
    using assms(2,3) by (cases "req_for (cache sr) ip")
      (auto simp: req_at_def queuereq_known queuereq_unknown map_of_upd_req)
qed

lemma queuereq_grows:
  assumes "wf_cache (cache sr)" "f \<noteq> []" "sr_arpcache_queuereq (cache sr) ip f i = (c, a)"
  shows "grows A sr (sr\<lparr> cache := c \<rparr>)"
proof -
  note q = queuereq_req_at [OF assms]
  have e: "entries c = entries (cache sr)" using queuereq_entries [of "cache sr" ip f i] assms(3) by simp
  have "\<exists>r'. req_at (sr\<lparr> cache := c \<rparr>) b = Some r' \<and> r_ip r' = r_ip r \<and> sent r' = sent r
      \<and> times_sent r' = times_sent r \<and> set (packets r) \<subseteq> set (packets r')"
    if "req_at sr b = Some r" for b r
  proof (cases "b = a")
    case True
    with that q(3,4) have "req_for (cache sr) ip = Some (a, r)"
      by (cases "req_for (cache sr) ip") auto
    with True q(1) show ?thesis by auto
  qed (simp add: q(2) that)
  with e show ?thesis by (simp add: grows_def)
qed

lemma map_of_unlink_addr: "b \<noteq> a \<Longrightarrow> map_of (unlink_addr a rs) b = map_of rs b"
  by (induction a rs rule: unlink_addr.induct) auto

lemma destroy_grows:
  assumes "a \<notin> B" shows "grows B sr (sr\<lparr> cache := sr_arpreq_destroy (cache sr) a \<rparr>)"
proof -
  have "b \<noteq> a" if "b \<in> B" for b using assms that by blast
  then show ?thesis by (simp add: grows_def req_at_def sr_arpreq_destroy_def map_of_unlink_addr)
qed

section \<open>A send that comes back never returns\<close>

lemma load_ip_at: "load_ip f 14 = Inr h \<longleftrightarrow> 34 \<le> length f \<and> h = ip_at f"
  by (auto simp: load_ip_def read_bytes_def ip_at_def)

lemma ip_bytes_nonempty [simp]: "ip_bytes h \<noteq> []"
  by (simp add: ip_bytes_def)

lemma frame_nonempty: "eth_bytes e @ ip_bytes h @ b \<noteq> []"
  by simp

locale growing_sender =
  fixes send :: sender
  assumes send_grows: "wf_cache (cache sr) \<Longrightarrow> f \<noteq> [] \<Longrightarrow> loop_set sr B \<Longrightarrow> send sr ip f i = Inr sr'
      \<Longrightarrow> wf_cache (cache sr') \<and> grows B sr sr'"
    and send_cycle: "wf_cache (cache sr) \<Longrightarrow> f \<noteq> [] \<Longrightarrow> loop_set sr B \<Longrightarrow> b \<in> B \<Longrightarrow>
      req_at sr b = Some r \<Longrightarrow> sr_arpcache_lookup (cache sr) (r_ip r) = None \<Longrightarrow>
      send sr (r_ip r) f i \<noteq> Inr sr'"
begin

lemma send_ip_grows:
  "wf_cache (cache sr) \<Longrightarrow> loop_set sr B \<Longrightarrow> sr_send_ip send sr p src dst b = Inr sr'
    \<Longrightarrow> wf_cache (cache sr') \<and> grows B sr sr'"
  unfolding sr_send_ip_def
  by (auto simp: bnd_eq_Inr Let_def simp del: append_assoc split: option.splits dest!: send_grows [rotated 3])

lemma icmp_for_packet_grows:
  "wf_cache (cache sr) \<Longrightarrow> loop_set sr B \<Longrightarrow> icmp_for_packet send sr p = Inr sr'
    \<Longrightarrow> wf_cache (cache sr') \<and> grows B sr sr'"
  by (auto simp: icmp_for_packet_def bnd_eq_Inr sr_send_icmp3_def Let_def dest: send_ip_grows)

lemma icmp_for_packet_cycle:
  assumes "wf_cache (cache sr)" "loop_set sr B" "c \<in> B" "req_at sr c = Some r"
    "sr_arpcache_lookup (cache sr) (r_ip r) = None"
    "icmp_target (if_list sr) (routing_table sr) p = Some (r_ip r)"
  shows "icmp_for_packet send sr p \<noteq> Inr sr'"
proof
  assume "icmp_for_packet send sr p = Inr sr'"
  then obtain icmp src where ip: "sr_send_ip send sr ip_protocol_icmp src (ip_src (ip_at (p_buf p))) icmp = Inr sr'"
    by (auto simp: icmp_for_packet_def bnd_eq_Inr sr_send_icmp3_def load_ip_at Let_def)
  from assms(6) obtain rn ifn where "longest_prefix_match (routing_table sr) (ip_src (ip_at (p_buf p))) = Some rn"
    "sr_get_interface (if_list sr) (interface rn) = Some ifn" "gw rn = r_ip r"
    by (auto simp: icmp_target_def split: option.splits if_splits)
  with ip send_cycle [OF assms(1) frame_nonempty assms(2-5)] show False
    by (auto simp: sr_send_ip_def bnd_eq_Inr Let_def)
qed

lemma icmp_waiting_loop_grows:
  "wf_cache (cache sr) \<Longrightarrow> loop_set sr B \<Longrightarrow> icmp_waiting_loop send a ps sr = Inr sr'
    \<Longrightarrow> wf_cache (cache sr') \<and> grows B sr sr'"
proof (induction ps arbitrary: sr)
  case (Cons p ps)
  then obtain sr1 where 1: "icmp_for_packet send sr p = Inr sr1" "icmp_waiting_loop send a ps sr1 = Inr sr'"
    by (auto simp: bnd_eq_Inr)
  then have g: "wf_cache (cache sr1)" "grows B sr sr1"
    using icmp_for_packet_grows [OF Cons.prems(1,2)] by blast+
  with Cons.IH [OF g(1) grows_loop_set [OF g(2) Cons.prems(2)] 1(2)] show ?case
    using grows_trans by blast
qed simp

lemma icmp_waiting_loop_cycle:
  assumes "wf_cache (cache sr)" "loop_set sr B" "c \<in> B" "req_at sr c = Some r"
    "sr_arpcache_lookup (cache sr) (r_ip r) = None"
    "p \<in> set ps" "icmp_target (if_list sr) (routing_table sr) p = Some (r_ip r)"
  shows "icmp_waiting_loop send a ps sr \<noteq> Inr sr'"
  using assms
proof (induction ps arbitrary: sr r)
  case (Cons q ps)
  show ?case
  proof
    assume "icmp_waiting_loop send a (q # ps) sr = Inr sr'"
    then obtain sr1 where 1: "icmp_for_packet send sr q = Inr sr1" "icmp_waiting_loop send a ps sr1 = Inr sr'"
      by (auto simp: bnd_eq_Inr)
    then have g: "wf_cache (cache sr1)" "grows B sr sr1"
      using icmp_for_packet_grows [OF Cons.prems(1,2)] by blast+
    have "q \<noteq> p" using icmp_for_packet_cycle [OF Cons.prems(1-5)] Cons.prems(7) 1(1) by auto
    then have p: "p \<in> set ps" using Cons.prems(6) by simp
    obtain r1 where "req_at sr1 c = Some r1" "r_ip r1 = r_ip r"
      using grows_req [OF g(2) Cons.prems(3,4)] by blast
    with Cons.IH [OF g(1) grows_loop_set [OF g(2) Cons.prems(2)] Cons.prems(3) _ _ p]
      Cons.prems(5,7) g(2) grows_lookup [OF g(2)] 1(2)
    show False by (auto simp: grows_def)
  qed
qed simp

lemma deref_req_at: "deref_req sr a = Inr r \<longleftrightarrow> req_at sr a = Some r"
  by (auto simp: deref_req_def req_at_def split: option.splits)

lemma handle_arpreq_grows:
  assumes "wf_cache (cache sr)" "loop_set sr B" "sr_handle_arpreq send sr a = Inr sr'"
  shows "a \<notin> B \<and> wf_cache (cache sr') \<and> grows B sr sr'"
proof -
  obtain r where r: "req_at sr a = Some r"
    using assms(3) by (auto simp: sr_handle_arpreq_def bnd_eq_Inr deref_req_at Let_def)
  have notin: "a \<notin> B"
  proof
    assume a: "a \<in> B"
    then obtain c rc p where c: "c \<in> B" "req_at sr c = Some rc"
      "sr_arpcache_lookup (cache sr) (r_ip rc) = None" "p \<in> set (packets r)" "armed (sr_now sr) r"
      "icmp_target (if_list sr) (routing_table sr) p = Some (r_ip rc)"
      using assms(2) r unfolding loop_set_def sends_to_def by fastforce
    show False using assms(3) r c(5) icmp_waiting_loop_cycle [OF assms(1,2) c(1-4,6)]
      by (auto simp: sr_handle_arpreq_def bnd_eq_Inr deref_req_at armed_def sr_send_icmp_to_waiting_def Let_def
          split: if_splits)
  qed
  consider (idle) "\<not> sr_now sr - sent r > 1" | (giveup) "armed (sr_now sr) r"
    | (resend) "sr_now sr - sent r > 1" "\<not> times_sent r \<ge> 5" by (auto simp: armed_def)
  then show ?thesis
  proof cases
    case idle
    with assms r notin show ?thesis by (auto simp: sr_handle_arpreq_def Let_def bnd_eq_Inr deref_req_at)
  next
    case giveup
    with assms(3) r obtain sr1 where 1: "icmp_waiting_loop send a (packets r) sr = Inr sr1"
      "sr' = sr1\<lparr> cache := sr_arpreq_destroy (cache sr1) a \<rparr>"
      by (auto simp: sr_handle_arpreq_def bnd_eq_Inr deref_req_at armed_def sr_send_icmp_to_waiting_def Let_def
          split: if_splits)
    have g: "wf_cache (cache sr1)" "grows B sr sr1"
      using icmp_waiting_loop_grows [OF assms(1,2) 1(1)] by auto
    have "grows B sr1 sr'" unfolding 1(2) using notin by (rule destroy_grows)
    with g 1(2) notin show ?thesis by (auto simp: wf_cache_destroy intro: grows_trans)
  next
    case resend
    with assms(3) r obtain sr1 where 1: "sr_send_arp_req sr (r_ip r) = Inr sr1"
      "sr' = sr1\<lparr> cache := cache sr1\<lparr> requests := upd_req a
         (\<lambda>req. req\<lparr> sent := sr_now sr, times_sent := times_sent req + 1 \<rparr>) (requests (cache sr1)) \<rparr> \<rparr>"
      by (auto simp: sr_handle_arpreq_def bnd_eq_Inr deref_req_at Let_def split: if_splits)
    have "io_only sr sr1" using sr_send_arp_req_io_only [OF 1(1)] .
    with 1(2) assms(1) notin show ?thesis
      by (auto simp: io_only_def wf_cache_def wf_queue_upd grows_def req_at_def map_of_upd_req)
  qed
qed

end

text \<open>The knot: every bound gives a sender with the two laws.\<close>

lemma attempt_send_queues:
  assumes "growing_sender (sr_attempt_send n)" "wf_cache (cache sr)" "f \<noteq> []" "loop_set sr B"
    "sr_arpcache_lookup (cache sr) ip = None" "sr_attempt_send (Suc n) sr ip f i = Inr sr'"
  obtains c a where "sr_arpcache_queuereq (cache sr) ip f i = (c, a)" "a \<notin> B"
    "wf_cache (cache sr')" "grows B sr sr'"
proof -
  obtain c a where q: "sr_arpcache_queuereq (cache sr) ip f i = (c, a)" by fastforce
  let ?s = "sr\<lparr> cache := c \<rparr>"
  have g: "grows B sr ?s" by (rule queuereq_grows [OF assms(2,3) q])
  have w: "wf_cache (cache ?s)" using wf_cache_queuereq [OF assms(2,3), of ip i] q by simp
  have "sr_handle_arpreq (sr_attempt_send n) ?s a = Inr sr'" using assms(5,6) q by simp
  from growing_sender.handle_arpreq_grows [OF assms(1) w grows_loop_set [OF g assms(4)] this]
  show ?thesis using that q g grows_trans by blast
qed

lemma growing_attempt_send: "growing_sender (sr_attempt_send n)"
proof (induction n)
  case 0
  show ?case by unfold_locales auto
next
  case (Suc n)
  show ?case
  proof (unfold_locales, goal_cases)
    case (1 sr f B ip i sr')
    show ?case
    proof (cases "sr_arpcache_lookup (cache sr) ip")
      case None
      show ?thesis using attempt_send_queues [OF Suc 1(1,2,3) None 1(4)] by blast
    next
      case (Some e)
      then obtain f' r where "sr_send_packet sr f' i = Inr (r, sr')"
        using 1(4) by (auto simp: bnd_eq_Inr)
      then have "io_only sr sr'" using sr_send_packet_io [of sr f' i] by auto
      then show ?thesis using 1(1) by (simp add: io_only_grows) (simp add: io_only_def)
    qed
  next
    case (2 sr f B b r i sr')
    show ?case
    proof
      assume "sr_attempt_send (Suc n) sr (r_ip r) f i = Inr sr'"
      from attempt_send_queues [OF Suc 2(1,2,3,6) this]
      obtain c a where q: "sr_arpcache_queuereq (cache sr) (r_ip r) f i = (c, a)" "a \<notin> B" .
      have "req_for (cache sr) (r_ip r) = Some (b, r)"
        using 2(1,5) req_for_eq [of "cache sr" "next_req (cache sr)" "r_ip r" b r] req_at_set [OF 2(1)]
        by (simp add: wf_cache_def)
      from queuereq_req_at(4) [OF 2(1,2) q(1) this] q(2) 2(4) show False by simp
    qed
  qed
qed

interpretation gs: growing_sender "sr_attempt_send n" for n
  by (rule growing_attempt_send)

section \<open>Safety of the senders\<close>

lemma chain_snoc:
  "chain sr st (r_ip r) \<Longrightarrow> req_at sr a = Some r \<Longrightarrow>
   (st \<noteq> [] \<Longrightarrow> sr_arpcache_lookup (cache sr) (r_ip r) = None) \<Longrightarrow> sends_to sr a ip \<Longrightarrow>
   chain sr (st @ [a]) ip"
  by (induction sr st "r_ip r" rule: chain.induct) auto

lemma wf_state_simps:
  "wf_state fl ifs rt now sr \<Longrightarrow> if_list sr = ifs" "wf_state fl ifs rt now sr \<Longrightarrow> routing_table sr = rt"
  "wf_state fl ifs rt now sr \<Longrightarrow> sr_now sr = now" "wf_state fl ifs rt now sr \<Longrightarrow> wf_cache (cache sr)"
  by (simp_all add: wf_state_def)

lemma wf_state_cfg: "wf_state fl ifs rt now sr \<Longrightarrow> wf_config ifs rt"
  by (simp add: wf_state_def)

lemma wf_state_req:
  "wf_state fl ifs rt now sr \<Longrightarrow> req_at sr a = Some r \<Longrightarrow> wf_req fl ifs rt now r"
  by (auto simp: wf_state_def req_at_def dest: map_of_SomeD)

lemma src_ok_strncpy [simp]: "src_ok ifs f (strncpy 32 i) \<longleftrightarrow> src_ok ifs f i"
  by (simp add: src_ok_def sr_get_interface_find strncmp_eq_def strncpy_def)

lemma src_okD: "src_ok ifs f i \<Longrightarrow> sr_get_interface ifs i \<noteq> None"
  by (auto simp: src_ok_def)

lemma wf_req_push:
  "wf_req fl ifs rt now r \<Longrightarrow> wf_frame f \<Longrightarrow> src_ok ifs f i \<Longrightarrow> wf_req fl ifs rt now (push_packet f i r)"
  by (auto simp: wf_req_def new_packet_def armed_def)

lemma wf_req_new: "known_gw rt ip \<Longrightarrow> wf_req fl ifs rt now (new_req ip)"
  by (simp add: wf_req_def new_req_def armed_def)

lemma wf_state_queuereq:
  assumes w: "wf_state fl ifs rt now sr" and f: "wf_frame f" "src_ok ifs f i" "known_gw rt ip"
    and q: "sr_arpcache_queuereq (cache sr) ip f i = (c, a)"
  shows "wf_state fl ifs rt now (sr\<lparr> cache := c \<rparr>)"
proof -
  have ne: "f \<noteq> []" using f(1) by (auto simp: wf_frame_def)
  have wc: "wf_cache (cache sr)" using w by (simp add: wf_state_def)
  have c: "wf_cache c" "entries c = entries (cache sr)"
    using wf_cache_queuereq [OF wc ne, of ip i] queuereq_entries [of "cache sr" ip f i] q by auto
  note q' = queuereq_req_at [OF wc ne q]
  have "wf_req fl ifs rt now r" if br: "(b, r) \<in> set (requests c)" for b r
  proof -
    have at: "req_at (sr\<lparr> cache := c \<rparr>) b = Some r" using br c(1) by (simp add: req_at_set)
    show ?thesis
    proof (cases "b = a")
      case True
      have "wf_req fl ifs rt now (case req_for (cache sr) ip of None \<Rightarrow> new_req ip | Some (a, r) \<Rightarrow> r)"
        using wf_req_new [OF f(3)] wf_state_req [OF w] q'(4) by (auto split: option.split)
      from wf_req_push [OF this f(1,2)] have "wf_req fl ifs rt now (push_packet f i
          (case req_for (cache sr) ip of None \<Rightarrow> new_req ip | Some (a, r) \<Rightarrow> r))" .
      with True at q'(1) show ?thesis by (metis option.inject)
    next
      case False
      with at q'(2) wf_state_req [OF w] show ?thesis by simp
    qed
  qed
  with w c show ?thesis by (auto simp: wf_state_def)
qed

lemma ip_at_frame: "wf_eth e \<Longrightarrow> ip_at (eth_bytes e @ ip_bytes h @ b) = h"
  by (simp add: ip_at_def ip_of_bytes)

lemma wf_frame_send:
  assumes "wf_eth e" "ip_hl h = 5" "8 \<le> length b" shows "wf_frame (eth_bytes e @ ip_bytes h @ b)"
  using assms by (simp add: wf_frame_def ip_at_frame)

lemma icmp_finish_ok:
  assumes "4 \<le> length m"
  shows "\<exists>m'. icmp_finish t c m = Inr m' \<and> length m' = length m"
  using assms by (auto simp: icmp_finish_def write_bytes_def)

lemma u32_suc_le: "\<not> 5 \<le> (t :: u32) \<Longrightarrow> t + 1 \<le> 5"
  by (simp add: not_le inc_le)

text \<open>A request that is not given up: nothing is sent but perhaps one ARP request.\<close>

definition resend :: "int \<Rightarrow> sr_arpreq \<Rightarrow> sr_arpreq" where
  "resend now r = (if now - sent r > 1 then r\<lparr> sent := now, times_sent := times_sent r + 1 \<rparr> else r)"

lemma resend_simps [simp]: "r_ip (resend now r) = r_ip r" "packets (resend now r) = packets r"
  by (simp_all add: resend_def)

lemma wf_req_resend:
  assumes "wf_req fl ifs rt now r" "\<not> armed now r" shows "wf_req fl ifs rt now (resend now r)"
proof -
  have "times_sent (resend now r) \<le> 5"
    using assms u32_suc_le [of "times_sent r"] by (auto simp: resend_def wf_req_def armed_def)
  moreover have "\<not> armed now (resend now r)"
    using assms(2) by (auto simp: resend_def armed_def)
  ultimately show ?thesis using assms(1) by (simp add: wf_req_def)
qed

lemma upd_req_cong:
  "map_of rs a = Some r \<Longrightarrow> f r = g r \<Longrightarrow> upd_req a f rs = upd_req a g rs"
  by (induction a f rs rule: upd_req.induct) auto

lemma upd_req_id: "map_of rs a = Some r \<Longrightarrow> f r = r \<Longrightarrow> upd_req a f rs = rs"
  by (induction a f rs rule: upd_req.induct) auto

lemma handle_arpreq_calm:
  assumes w: "wf_state fl ifs rt now sr" and r: "req_at sr a = Some r" and calm: "\<not> armed now r"
  shows "\<exists>sr'. sr_handle_arpreq send sr a = Inr sr' \<and> wf_state fl ifs rt now sr'
    \<and> requests (cache sr') = upd_req a (resend now) (requests (cache sr))
    \<and> entries (cache sr') = entries (cache sr) \<and> if_list sr' = ifs \<and> routing_table sr' = rt
    \<and> (a \<notin> A \<longrightarrow> grows A sr sr')"
proof -
  note [simp] = wf_state_simps [OF w]
  have d: "deref_req sr a = Inr r" using r by (simp add: deref_req_def req_at_def)
  have r': "map_of (requests (cache sr)) a = Some r" using r by (simp add: req_at_def)
  show ?thesis
  proof (cases "now - sent r > 1")
    case False
    then have "upd_req a (resend now) (requests (cache sr)) = requests (cache sr)"
      using upd_req_id [OF r', of "resend now"] by (simp add: resend_def)
    with False d w show ?thesis by (auto simp: sr_handle_arpreq_def)
  next
    case True
    have t: "\<not> times_sent r \<ge> 5" using True calm by (simp add: armed_def)
    have "known_gw rt (r_ip r)" using wf_state_req [OF w r] by (simp add: wf_req_def)
    then obtain s1 where s1: "sr_send_arp_req sr (r_ip r) = Inr s1" "io_only sr s1"
      using sr_send_arp_req_io [of sr "r_ip r"] wf_state_cfg [OF w] by auto
    let ?f = "\<lambda>q. q\<lparr> sent := now, times_sent := times_sent q + 1 \<rparr>"
    let ?s = "s1\<lparr> cache := cache s1\<lparr> requests := upd_req a ?f (requests (cache s1)) \<rparr> \<rparr>"
    have w1: "wf_state fl ifs rt now s1" using io_only_wf [OF s1(2) w] .
    have rs: "requests (cache ?s) = upd_req a (resend now) (requests (cache sr))"
      using s1(2) True upd_req_cong [OF r', of ?f "resend now"] by (simp add: io_only_def resend_def)
    have c1: "wf_cache (cache ?s)" using w1 by (auto simp: wf_state_def wf_cache_def wf_queue_upd)
    have "wf_req fl ifs rt now q" if "(b, q) \<in> set (requests (cache ?s))" for b q
    proof -
      have "map_of (upd_req a (resend now) (requests (cache sr))) b = Some q"
        using that c1 req_at_set [of ?s b q] rs by (simp add: req_at_def)
      then consider "b = a" "q = resend now r" | "req_at sr b = Some q"
        using r by (auto simp: map_of_upd_req req_at_def split: if_splits)
      then show ?thesis using wf_state_req [OF w] r wf_req_resend calm by cases auto
    qed
    then have "wf_state fl ifs rt now ?s" using w1 c1 by (auto simp: wf_state_def)
    moreover have "a \<notin> A \<Longrightarrow> b \<in> A \<Longrightarrow> b \<noteq> a" for b by blast
    then have "a \<notin> A \<Longrightarrow> grows A sr ?s"
      using s1(2) by (simp add: grows_def io_only_def req_at_def map_of_upd_req)
    ultimately show ?thesis using d True t s1 rs
      by (intro exI [of _ ?s]) (simp add: sr_handle_arpreq_def io_only_def)
  qed
qed

locale safe_sender = growing_sender send for send :: sender +
  fixes fl :: bool and ifs :: "sr_if list" and rt :: "sr_rt list" and now :: int
  assumes send_safe: "wf_state fl ifs rt now sr \<Longrightarrow> chain sr st ip \<Longrightarrow> wf_frame f \<Longrightarrow>
      src_ok ifs f i \<Longrightarrow> known_gw rt ip \<Longrightarrow>
      safe fl (\<lambda>sr'. wf_state fl ifs rt now sr' \<and> grows (set st) sr sr') (send sr ip f i)"
begin

lemma send_ip_safe:
  assumes w: "wf_state fl ifs rt now sr" and b: "8 \<le> length b"
    and ch: "\<And>rn. longest_prefix_match rt d = Some rn \<Longrightarrow> sr_get_interface ifs (interface rn) \<noteq> None
      \<Longrightarrow> chain sr st (gw rn)"
  shows "safe fl (\<lambda>sr'. wf_state fl ifs rt now sr' \<and> grows (set st) sr sr') (sr_send_ip send sr p s d b)"
proof -
  note [simp] = wf_state_simps [OF w]
  show ?thesis
  proof (cases "longest_prefix_match rt d")
    case (Some rn)
    have k: "known_gw rt (gw rn)" using lpm_in_table [OF Some] by (auto simp: known_gw_def)
    show ?thesis
    proof (cases "sr_get_interface ifs (interface rn)")
      case 2: (Some n)
      have n: "length (addr n) = 6" "length (if_name n) < 32" using sr_get_interface_wf [OF wf_state_cfg [OF w] 2] by auto
      let ?f = "eth_bytes \<lparr> ether_dhost = calloc 6, ether_shost = addr n, ether_type = htons ethertype_ip \<rparr>
          @ ip_bytes (with_ip_sum (ip_header p s d (length b))) @ b"
      have "sr_get_interface ifs (if_name n) = Some n"
        using sr_get_interface_SomeD [OF 2] 2 by (simp add: sr_get_interface_find strncmp_eq_def)
      then have i: "src_ok ifs ?f (if_name n)" using n(1) by (simp add: src_ok_def eth_bytes_def)
      have f: "wf_frame ?f"
        using n b by (intro wf_frame_send) (simp_all add: wf_eth_def with_ip_sum_def ip_header_def)
      from send_safe [OF w ch [OF Some] f i k] Some 2 n(1)
      show ?thesis by (simp add: sr_send_ip_def Let_def)
    qed (use Some w in \<open>simp add: sr_send_ip_def\<close>)
  qed (use w in \<open>simp add: sr_send_ip_def\<close>)
qed

lemma send_icmp3_safe:
  assumes w: "wf_state fl ifs rt now sr" and b: "off + n \<le> length b" "n \<le> 28"
    and ch: "\<And>rn. longest_prefix_match rt d = Some rn \<Longrightarrow> sr_get_interface ifs (interface rn) \<noteq> None
      \<Longrightarrow> chain sr st (gw rn)"
  shows "safe fl (\<lambda>sr'. wf_state fl ifs rt now sr' \<and> grows (set st) sr sr')
    (sr_send_icmp3 send sr t c s d b off n)"
proof -
  let ?m = "take 8 (calloc 36) @ take n (drop off b) @ drop (8 + n) (calloc 36)"
  obtain m' where "icmp_finish t c ?m = Inr m'" "length m' = 36"
    using icmp_finish_ok [of ?m t c] b by auto
  with b send_ip_safe [OF w _ ch] show ?thesis
    by (simp add: sr_send_icmp3_def read_bytes_def write_bytes_def)
qed

lemma send_icmp_safe:
  assumes w: "wf_state fl ifs rt now sr" and b: "off + unat n \<le> length b" "4 \<le> unat n" "unat n + 4 < 2 ^ 32"
    and ch: "\<And>rn. longest_prefix_match rt d = Some rn \<Longrightarrow> sr_get_interface ifs (interface rn) \<noteq> None
      \<Longrightarrow> chain sr st (gw rn)"
  shows "safe fl (\<lambda>sr'. wf_state fl ifs rt now sr' \<and> grows (set st) sr sr')
    (sr_send_icmp send sr t c s d b off n)"
proof -
  let ?m = "take 4 (calloc (unat n + 4)) @ take (unat n) (drop off b) @ drop (4 + unat n) (calloc (unat n + 4))"
  have l: "unat (4 + n) = unat n + 4" using b(3) by (simp add: unat_word_ariths)
  obtain m' where "icmp_finish t c ?m = Inr m'" "length m' = unat n + 4"
    using icmp_finish_ok [of ?m t c] b by auto
  with b send_ip_safe [OF w _ ch] show ?thesis
    by (simp add: sr_send_icmp_def read_bytes_def write_bytes_def l Let_def)
qed

lemma icmp_for_packet_safe:
  assumes w: "wf_state fl ifs rt now sr" and p: "wf_frame (p_buf p)" "sr_get_interface ifs (p_iface p) \<noteq> None"
    and ch: "\<And>ip. icmp_target ifs rt p = Some ip \<Longrightarrow> chain sr st ip"
  shows "safe fl (\<lambda>sr'. wf_state fl ifs rt now sr' \<and> grows (set st) sr sr') (icmp_for_packet send sr p)"
proof -
  obtain n where n: "sr_get_interface ifs (p_iface p) = Some n" using p(2) by blast
  have h: "load_ip (p_buf p) 14 = Inr (ip_at (p_buf p))" using p(1) by (simp add: load_ip_at wf_frame_def)
  have "chain sr st (gw rn)" if "longest_prefix_match rt (ip_src (ip_at (p_buf p))) = Some rn"
    "sr_get_interface ifs (interface rn) \<noteq> None" for rn
    using that by (intro ch) (simp add: icmp_target_def)
  with send_icmp3_safe [OF w] n h p(1) show ?thesis
    by (simp add: icmp_for_packet_def wf_state_simps [OF w] wf_frame_def)
qed

lemma icmp_waiting_loop_safe:
  assumes w: "wf_state fl ifs rt now sr" and ch: "chain sr st (r_ip r)" and r: "req_at sr a = Some r"
    and arm: "armed now r" and un: "st \<noteq> [] \<Longrightarrow> sr_arpcache_lookup (cache sr) (r_ip r) = None"
    and ps: "set ps \<subseteq> set (packets r)"
  shows "safe fl (\<lambda>sr'. wf_state fl ifs rt now sr' \<and> grows (set (st @ [a])) sr sr')
    (icmp_waiting_loop send a ps sr)"
  using w ch r arm un ps
proof (induction ps arbitrary: sr r)
  case (Cons p ps)
  note w = Cons.prems(1) and ch = Cons.prems(2) and r = Cons.prems(3)
  have p: "wf_frame (p_buf p)" "sr_get_interface ifs (p_iface p) \<noteq> None"
    using wf_state_req [OF w r] Cons.prems(6) src_okD by (auto simp: wf_req_def)
  have c: "chain sr (st @ [a]) ip" if "icmp_target ifs rt p = Some ip" for ip
    by (rule chain_snoc [OF ch r]) (use Cons.prems r that wf_state_simps [OF w] in \<open>auto simp: sends_to_def\<close>)
  have 1: "safe fl (\<lambda>sr'. wf_state fl ifs rt now sr' \<and> grows (set (st @ [a])) sr sr') (icmp_for_packet send sr p)"
    by (rule icmp_for_packet_safe [OF w p]) (rule c)
  show ?case unfolding icmp_waiting_loop.simps
  proof (rule safe_bnd [OF 1], elim conjE)
    fix s1 assume s1: "wf_state fl ifs rt now s1" "grows (set (st @ [a])) sr s1"
    obtain r1 where r1: "req_at s1 a = Some r1" "r_ip r1 = r_ip r" "sent r1 = sent r"
      "times_sent r1 = times_sent r" "set (packets r) \<subseteq> set (packets r1)"
      using grows_req [OF s1(2) _ r] by auto
    have g: "grows (set st) sr s1" using s1(2) by (rule grows_mono) auto
    have "safe fl (\<lambda>sr'. wf_state fl ifs rt now sr' \<and> grows (set (st @ [a])) s1 sr') (icmp_waiting_loop send a ps s1)"
    proof (rule Cons.IH [OF s1(1) _ r1(1)])
      show "chain s1 st (r_ip r1)" using grows_chain [OF g ch] r1(2) by simp
      show "armed now r1" using Cons.prems(4) r1 by (simp add: armed_def)
      show "sr_arpcache_lookup (cache s1) (r_ip r1) = None" if "st \<noteq> []"
        using Cons.prems(5) [OF that] grows_lookup [OF g] r1(2) by simp
      show "set ps \<subseteq> set (packets r1)" using Cons.prems(6) r1(5) by auto
    qed
    then have "safe fl (\<lambda>sr'. wf_state fl ifs rt now sr' \<and> grows (set (st @ [a])) sr sr') (icmp_waiting_loop send a ps s1)"
      by (rule safe_mono) (use grows_trans [OF s1(2)] in blast)
    moreover have "deref_req s1 a = Inr r1" using r1(1) by (simp add: deref_req_at)
    ultimately show "safe fl (\<lambda>sr'. wf_state fl ifs rt now sr' \<and> grows (set (st @ [a])) sr sr')
        (bnd (deref_req s1 a) (\<lambda>_. icmp_waiting_loop send a ps s1))" by simp
  qed
qed simp

lemma wf_state_destroy:
  assumes "wf_state fl ifs rt now sr"
  shows "wf_state fl ifs rt now (sr\<lparr> cache := sr_arpreq_destroy (cache sr) a \<rparr>)"
proof -
  have "set (unlink_addr a rs) \<subseteq> set rs" for rs
    by (induction a rs rule: unlink_addr.induct) auto
  then have "\<forall>(b, r)\<in>set (unlink_addr a (requests (cache sr))). wf_req fl ifs rt now r"
    using assms unfolding wf_state_def by blast
  with assms show ?thesis
    by (simp add: wf_state_def wf_cache_destroy) (simp add: sr_arpreq_destroy_def)
qed

lemma handle_arpreq_safe:
  assumes w: "wf_state fl ifs rt now sr" and ch: "chain sr st (r_ip r)" and r: "req_at sr a = Some r"
    and un: "st \<noteq> [] \<Longrightarrow> sr_arpcache_lookup (cache sr) (r_ip r) = None"
  shows "safe fl (\<lambda>sr'. wf_state fl ifs rt now sr' \<and> (a \<notin> set st \<longrightarrow> grows (set st) sr sr'))
    (sr_handle_arpreq send sr a)"
proof -
  note [simp] = wf_state_simps [OF w]
  have d: "deref_req sr a = Inr r" using r by (simp add: deref_req_at)
  show ?thesis
  proof (cases "armed now r")
    case False
    from handle_arpreq_calm [OF w r False, of send "set st"] show ?thesis by auto
  next
    case giveup: True
    have l: "safe fl (\<lambda>sr'. wf_state fl ifs rt now sr' \<and> grows (set (st @ [a])) sr sr')
        (icmp_waiting_loop send a (packets r) sr)"
      by (rule icmp_waiting_loop_safe [OF w ch r giveup un]) auto
    have "sr_handle_arpreq send sr a = bnd (icmp_waiting_loop send a (packets r) sr) (\<lambda>sr.
        bnd (deref_req sr a) (\<lambda>_. Inr (sr\<lparr> cache := sr_arpreq_destroy (cache sr) a \<rparr>)))"
      using giveup d by (simp add: sr_handle_arpreq_def armed_def sr_send_icmp_to_waiting_def)
    also have "safe fl (\<lambda>sr'. wf_state fl ifs rt now sr' \<and> (a \<notin> set st \<longrightarrow> grows (set st) sr sr')) \<dots>"
    proof (rule safe_bnd [OF l], elim conjE)
      fix s1 assume s1: "wf_state fl ifs rt now s1" "grows (set (st @ [a])) sr s1"
      obtain r1 where r1: "deref_req s1 a = Inr r1"
        using grows_req [OF s1(2) _ r] by (auto simp: deref_req_at)
      have g: "grows (set st) sr s1" using s1(2) by (rule grows_mono) auto
      then show "safe fl (\<lambda>sr'. wf_state fl ifs rt now sr' \<and> (a \<notin> set st \<longrightarrow> grows (set st) sr sr'))
          (bnd (deref_req s1 a) (\<lambda>_. Inr (s1\<lparr> cache := sr_arpreq_destroy (cache s1) a \<rparr>)))"
        using r1 wf_state_destroy [OF s1(1)] destroy_grows grows_trans by auto
    qed
    finally show ?thesis .
  qed
qed

text \<open>A request under treatment is not treated again by a call that returns.\<close>

lemma handle_arpreq_nested_safe:
  assumes w: "wf_state fl ifs rt now sr" and ch: "chain sr st (r_ip r)" and r: "req_at sr a = Some r"
    and un: "sr_arpcache_lookup (cache sr) (r_ip r) = None"
  shows "safe fl (\<lambda>sr'. wf_state fl ifs rt now sr' \<and> grows (set st) sr sr') (sr_handle_arpreq send sr a)"
proof (rule safe_mono [OF handle_arpreq_safe [OF w ch r un]])
  fix sr' assume h: "sr_handle_arpreq send sr a = Inr sr'"
    and *: "wf_state fl ifs rt now sr' \<and> (a \<notin> set st \<longrightarrow> grows (set st) sr sr')"
  have "a \<notin> set st"
  proof
    assume a: "a \<in> set st"
    obtain B where "a \<in> B" "loop_set sr B" using chain_loop_set [OF ch a r refl un] by blast
    with handle_arpreq_grows [OF wf_state_simps(4) [OF w] _ h] show False by blast
  qed
  with * show "wf_state fl ifs rt now sr' \<and> grows (set st) sr sr'" by blast
qed

end

lemma wf_state_mac:
  "wf_state fl ifs rt now sr \<Longrightarrow> sr_arpcache_lookup (cache sr) ip = Some e \<Longrightarrow> length (mac e) = 6"
  by (auto simp: wf_state_def dest: lookup_SomeD)

lemma attempt_send_resolved_safe:
  assumes "wf_state fl ifs rt now sr" "sr_arpcache_lookup (cache sr) ip = Some e" "wf_frame f"
  shows "safe fl' (\<lambda>sr'. wf_state fl ifs rt now sr' \<and> grows A sr sr') (sr_attempt_send (Suc n) sr ip f i)"
proof -
  have "write_bytes f 0 (take 6 (mac e)) = Inr (take 6 (mac e) @ drop 6 f)"
    using wf_state_mac [OF assms(1,2)] assms(3) by (simp add: write_bytes_def wf_frame_def)
  moreover obtain r s1 where "sr_send_packet sr (take 6 (mac e) @ drop 6 f) i = Inr (r, s1)" "io_only sr s1"
    using sr_send_packet_io by blast
  ultimately show ?thesis using assms(2) io_only_wf [OF _ assms(1)] io_only_grows by simp
qed

text \<open>The state in which an unresolved send hands over to \<^verbatim>\<open>sr_handle_arpreq\<close>.\<close>

lemma attempt_send_unresolved:
  assumes w: "wf_state fl ifs rt now sr" and f: "wf_frame f" "src_ok ifs f i" "known_gw rt ip"
    and None: "sr_arpcache_lookup (cache sr) ip = None"
  obtains s a r where "sr_attempt_send (Suc n) sr ip f i = sr_handle_arpreq (sr_attempt_send n) s a"
    "wf_state fl ifs rt now s" "grows A sr s" "req_at s a = Some r" "r_ip r = ip"
    "r = push_packet f i (case req_for (cache sr) ip of None \<Rightarrow> new_req ip | Some (a, r) \<Rightarrow> r)"
    "s = sr\<lparr> cache := fst (sr_arpcache_queuereq (cache sr) ip f i) \<rparr>"
    "a = snd (sr_arpcache_queuereq (cache sr) ip f i)"
proof -
  obtain c a where q: "sr_arpcache_queuereq (cache sr) ip f i = (c, a)" by fastforce
  let ?s = "sr\<lparr> cache := c \<rparr>"
  have ne: "f \<noteq> []" using f(1) by (auto simp: wf_frame_def)
  have wc: "wf_cache (cache sr)" using wf_state_simps(4) [OF w] .
  let ?r = "push_packet f i (case req_for (cache sr) ip of None \<Rightarrow> new_req ip | Some (a, r) \<Rightarrow> r)"
  show ?thesis
  proof (rule that [of ?s a ?r])
    show "r_ip ?r = ip" by (auto simp: new_req_def dest: req_for_SomeD split: option.split)
  qed (use None q wf_state_queuereq [OF w f q] queuereq_grows [OF wc ne q] queuereq_req_at(1) [OF wc ne q]
      in simp_all)
qed

lemma safe_attempt_send: "safe_sender (sr_attempt_send n) True ifs rt now"
proof (induction n)
  case 0
  show ?case by unfold_locales auto
next
  case (Suc n)
  show ?case
  proof (intro safe_sender.intro safe_sender_axioms.intro gs.growing_sender_axioms, goal_cases)
    case (1 sr st ip f i)
    show ?case
    proof (cases "sr_arpcache_lookup (cache sr) ip")
      case (Some e)
      from attempt_send_resolved_safe [OF 1(1) Some 1(3)] show ?thesis .
    next
      case None
      from attempt_send_unresolved [OF 1(1,3,4,5) None, of n "set st"]
      obtain s a r where s: "sr_attempt_send (Suc n) sr ip f i = sr_handle_arpreq (sr_attempt_send n) s a"
        "wf_state True ifs rt now s" "grows (set st) sr s" "req_at s a = Some r" "r_ip r = ip" .
      have "safe True (\<lambda>sr'. wf_state True ifs rt now sr' \<and> grows (set st) s sr') (sr_handle_arpreq (sr_attempt_send n) s a)"
        by (rule safe_sender.handle_arpreq_nested_safe [OF Suc s(2) _ s(4)])
          (use s(5) grows_chain [OF s(3) 1(2)] grows_lookup [OF s(3)] None in auto)
      then show ?thesis unfolding s(1)
        by (rule safe_mono) (use grows_trans [OF s(3)] in blast)
    qed
  qed
qed

text \<open>With no request to give up, one level of sending is enough.\<close>

lemma total_attempt_send: "safe_sender (sr_attempt_send (Suc n)) False ifs rt now"
proof (intro safe_sender.intro safe_sender_axioms.intro gs.growing_sender_axioms, goal_cases)
  case (1 sr st ip f i)
  show ?case
  proof (cases "sr_arpcache_lookup (cache sr) ip")
    case (Some e)
    from attempt_send_resolved_safe [OF 1(1) Some 1(3)] show ?thesis .
  next
    case None
    from attempt_send_unresolved [OF 1(1,3,4,5) None, of n "set st"]
    obtain s a r where s: "sr_attempt_send (Suc n) sr ip f i = sr_handle_arpreq (sr_attempt_send n) s a"
      "wf_state False ifs rt now s" "grows (set st) sr s" "req_at s a = Some r" .
    have "\<not> armed now r" using wf_state_req [OF s(2,4)] by (simp add: wf_req_def)
    from handle_arpreq_calm [OF s(2,4) this, of "sr_attempt_send n" "set st"]
    obtain sr' where sr': "sr_handle_arpreq (sr_attempt_send n) s a = Inr sr'" "wf_state False ifs rt now sr'"
      "a \<notin> set st \<longrightarrow> grows (set st) s sr'" by blast
    have "a \<notin> set st"
    proof
      assume a: "a \<in> set st"
      then obtain x where "sends_to sr a x" using chain_live [OF 1(2)] by blast
      then obtain r0 where "req_at sr a = Some r0" "armed now r0"
        using wf_state_simps(3) [OF 1(1)] by (auto simp: sends_to_def)
      with wf_state_req [OF 1(1)] show False by (fastforce simp: wf_req_def)
    qed
    with sr' s grows_trans show ?thesis by auto
  qed
qed

interpretation ss: safe_sender "sr_attempt_send n" True ifs rt now for n ifs rt now
  by (rule safe_attempt_send)

interpretation ts: safe_sender "sr_attempt_send (Suc n)" False ifs rt now for n ifs rt now
  by (rule total_attempt_send)

section \<open>Safety of the receive handlers\<close>

lemma print_hdrs_total: "\<exists>p. print_hdrs buf (length buf) = Inr p"
  by (simp add: print_hdrs_def ethertype_def ip_protocol_def print_hdr_eth_def print_hdr_ip_def
      print_hdr_icmp_def print_hdr_arp_def load_eth_def load_ip_def load_icmp_def load_arp_def
      read_bytes_def Let_def)

definition wf_rx :: "bytes \<Rightarrow> bool" where
  "wf_rx f \<longleftrightarrow> (ethertype f = Inr ethertype_ip \<and> 34 \<le> length f \<longrightarrow> wf_frame f
     \<and> 4 * unat (ip_hl (ip_at f)) + 8 \<le> unat (ntohs (ip_len (ip_at f)))
     \<and> 14 + unat (ntohs (ip_len (ip_at f))) \<le> length f)"

lemma rewrite_ttl_eq:
  assumes "34 \<le> length f" "14 + 4 * unat (ip_hl h) \<le> length f"
  shows "rewrite_ttl f h t = Inr (take 14 f @ ip_bytes (h\<lparr> ip_ttl := t, ip_sum :=
    cksum (take (4 * unat (ip_hl h)) (ip_bytes (h\<lparr> ip_ttl := t, ip_sum := 0 \<rparr>) @ drop 34 f)) \<rparr>) @ drop 34 f)"
  using assms by (simp add: rewrite_ttl_def write_bytes_def read_bytes_def mult.commute)

lemma ip_at_rewrite: "14 \<le> length f \<Longrightarrow> ip_at (take 14 f @ ip_bytes h @ r) = h"
  by (simp add: ip_at_def ip_of_bytes)

lemma ip_at_shost: "length s = 6 \<Longrightarrow> 14 \<le> length f \<Longrightarrow> ip_at (take 6 f @ s @ drop 12 f) = ip_at f"
  by (simp add: ip_at_def)

lemma wf_frame_shost: "length s = 6 \<Longrightarrow> wf_frame f \<Longrightarrow> wf_frame (take 6 f @ s @ drop 12 f)"
  by (simp add: wf_frame_def ip_at_shost)

lemma wf_frame_rewrite:
  "wf_frame f \<Longrightarrow> rewrite_ttl f (ip_at f) t = Inr f' \<Longrightarrow>
   wf_frame f' \<and> length f' = length f \<and> ip_src (ip_at f') = ip_src (ip_at f) \<and> ip_hl (ip_at f') = ip_hl (ip_at f)"
  by (auto simp: wf_frame_def rewrite_ttl_eq ip_at_rewrite)

context safe_sender
begin

lemma send_top:
  assumes "wf_state fl ifs rt now sr" "wf_frame f" "src_ok ifs f i" "known_gw rt ip"
  shows "safe fl (wf_state fl ifs rt now) (send sr ip f i)"
  by (rule safe_mono [OF send_safe [of sr "[]"]]) (use assms in auto)

lemma send_icmp3_top:
  assumes "wf_state fl ifs rt now sr" "off + n \<le> length b" "n \<le> 28"
  shows "safe fl (wf_state fl ifs rt now) (sr_send_icmp3 send sr t c s d b off n)"
  by (rule safe_mono [OF send_icmp3_safe [of sr off n b d "[]"]]) (use assms in auto)

lemma send_icmp_top:
  assumes "wf_state fl ifs rt now sr" "off + unat n \<le> length b" "4 \<le> unat n" "unat n + 4 < 2 ^ 32"
  shows "safe fl (wf_state fl ifs rt now) (sr_send_icmp send sr t c s d b off n)"
  by (rule safe_mono [OF send_icmp_safe [of sr off n b d "[]"]]) (use assms in auto)

lemma wf_state_insert:
  assumes w: "wf_state fl ifs rt now sr" and m: "length m = 6" and i: "sr_arpcache_insert t (cache sr) m ip = (c, q)"
  shows "wf_state fl ifs rt now (sr\<lparr> cache := c \<rparr>)" "q = Some (a, r) \<Longrightarrow> wf_req fl ifs rt now r"
proof -
  have c: "c = fst (sr_arpcache_insert t (cache sr) m ip)" and q: "q = req_for (cache sr) ip"
    using i requests_insert(3) [of t "cache sr" m ip] by auto
  have "set (snd (unlink_ip ip rs)) \<subseteq> set rs" for rs
    by (induction ip rs rule: unlink_ip.induct) (auto simp: split_beta)
  then have "\<forall>(b, r)\<in>set (requests c). wf_req fl ifs rt now r"
    using w unfolding c requests_insert wf_state_def by blast
  moreover have "\<forall>e\<in>set (entries c). valid e \<longrightarrow> length (mac e) = 6"
    using w m unfolding c insert_entries wf_state_def by (fastforce dest: fill_slot_set)
  moreover have "wf_cache c" unfolding c by (rule wf_cache_insert [OF wf_state_simps(4) [OF w]])
  ultimately show "wf_state fl ifs rt now (sr\<lparr> cache := c \<rparr>)" using w by (simp add: wf_state_def)
  show "q = Some (a, r) \<Longrightarrow> wf_req fl ifs rt now r"
    using w req_for_SomeD [of "cache sr" ip a r] unfolding q wf_state_def by blast
qed

lemma fold_send_safe:
  assumes "\<forall>p\<in>set ps. wf_frame (p_buf p) \<and> src_ok ifs (p_buf p) (p_iface p)" "known_gw rt ip"
    "wf_state fl ifs rt now sr"
  shows "safe fl (wf_state fl ifs rt now) (fold_res (\<lambda>p sr. send sr ip (p_buf p) (p_iface p)) ps sr)"
  using assms
proof (induction ps arbitrary: sr)
  case (Cons p ps)
  have "safe fl (wf_state fl ifs rt now) (send sr ip (p_buf p) (p_iface p))"
    using Cons.prems by (intro send_top) auto
  then show ?case unfolding fold_res.simps by (rule safe_bnd) (use Cons in auto)
qed simp

lemma recv_arp_safe:
  assumes w: "wf_state fl ifs rt now sr" and m: "length (ar_sha arp) = 6"
  shows "safe fl (wf_state fl ifs rt now) (sr_recv_arp send sr arp)"
proof -
  obtain c q where i: "sr_arpcache_insert (sr_now sr) (cache sr) (ar_sha arp) (ar_sip arp) = (c, q)" by fastforce
  note w' = wf_state_insert [OF w m i]
  show ?thesis
  proof (cases q)
    case (Some ar)
    obtain a r where ar: "q = Some (a, r)" using Some by (cases ar) auto
    have "wf_req fl ifs rt now r" by (rule w'(2) [OF ar])
    then have "safe fl (wf_state fl ifs rt now) (fold_res (\<lambda>p sr. send sr (r_ip r) (p_buf p) (p_iface p))
        (packets r) (sr\<lparr> cache := c \<rparr>))"
      using w'(1) by (intro fold_send_safe) (auto simp: wf_req_def)
    then show ?thesis using i ar wf_state_destroy
      by (auto simp: sr_recv_arp_def intro!: safe_bnd)
  qed (use i w'(1) in \<open>simp add: sr_recv_arp_def\<close>)
qed

lemma handle_arp_packet_safe:
  assumes w: "wf_state fl ifs rt now sr" and i: "sr_get_interface ifs ifc \<noteq> None" "length ifc < 32"
    and l: "length f = 14 + n"
  shows "safe fl (wf_state fl ifs rt now) (sr_handle_arp_packet send sr f n ifc)"
proof (cases "n < 28")
  case False
  obtain node where node: "sr_get_interface ifs ifc = Some node" using i by blast
  let ?arp = "arp_of (take 28 (drop 14 f))"
  have arp: "load_arp f 14 = Inr ?arp" using l False by (simp add: load_arp_def read_bytes_def)
  have m: "length (ar_sha ?arp) = 6" using l False by (simp add: arp_of_def)
  have r: "safe fl (wf_state fl ifs rt now) (sr_recv_arp send sr ?arp)" by (rule recv_arp_safe [OF w m])
  have "safe fl (wf_state fl ifs rt now) (sr_send_arp s1 c ifc (ar_sha ?arp) (ar_sip ?arp))"
    if s1: "wf_state fl ifs rt now s1" for s1 c
    using sr_send_arp_io [of s1 rt ifc "ar_sha ?arp" c "ar_sip ?arp"] i m wf_state_simps [OF s1] wf_state_cfg [OF s1]
      io_only_wf s1 by (auto simp: safe_cases)
  then show ?thesis using False node arp w r wf_state_simps [OF w]
    by (auto simp: sr_handle_arp_packet_def intro!: safe_bnd)
qed (use w in \<open>simp add: sr_handle_arp_packet_def\<close>)

lemma handle_my_ip_packet_safe:
  assumes w: "wf_state fl ifs rt now sr" and f: "wf_frame f"
    and l: "4 * unat (ip_hl (ip_at f)) + 8 \<le> unat (ntohs (ip_len (ip_at f)))"
      "14 + unat (ntohs (ip_len (ip_at f))) \<le> length f"
  shows "safe fl (wf_state fl ifs rt now) (sr_handle_my_ip_packet send sr f (ip_at f))"
proof -
  let ?h = "unat (ip_hl (ip_at f))" and ?n = "unat (ntohs (ip_len (ip_at f)))"
  let ?pl = "ucast (ntohs (ip_len (ip_at f))) - of_nat (?h * 4) - 4 :: u32"
  have n: "?n < 2 ^ 16" using unsigned_less [of "ntohs (ip_len (ip_at f))", where ?'a = nat] by simp
  have h: "?h \<le> 5" using f by (simp add: wf_frame_def)
  have "of_nat (?n - ?h * 4 - 4) = (of_nat ?n - of_nat (?h * 4) - 4 :: u32)"
    using l(1) by (simp add: of_nat_diff)
  then have "?pl = of_nat (?n - ?h * 4 - 4)" by simp
  moreover have "?n - ?h * 4 - 4 < 2 ^ 32" using n by simp
  ultimately have pl: "unat ?pl = ?n - ?h * 4 - 4" by (simp only: unat_of_nat_u32)
  obtain ic where ic: "load_icmp f (14 + ?h * 4) = Inr ic"
    using f by (simp add: load_icmp_def read_bytes_def wf_frame_def)
  show ?thesis
  proof (cases "ip_p (ip_at f) = ip_protocol_icmp")
    case True
    have "safe fl (wf_state fl ifs rt now) (sr_send_icmp send sr icmp_echo_reply icmp_echo_reply_code
        (ip_dst (ip_at f)) (ip_src (ip_at f)) f (14 + ?h * 4 + 4) ?pl)"
      using l n h by (intro send_icmp_top w) (simp_all only: pl, auto)
    with True ic w show ?thesis by (simp add: sr_handle_my_ip_packet_def Let_def)
  next
    case False
    have "safe fl (wf_state fl ifs rt now) (sr_send_icmp3 send sr icmp_unreach icmp_port_unreach
        (ip_dst (ip_at f)) (ip_src (ip_at f)) f 14 (?h * 4 + 8))"
      using f h by (intro send_icmp3_top w) (simp_all add: wf_frame_def)
    with False show ?thesis by (simp add: sr_handle_my_ip_packet_def Let_def)
  qed
qed

lemma forward_safe:
  assumes w: "wf_state fl ifs rt now sr" and f: "wf_frame f" and i: "sr_get_interface ifs ifc \<noteq> None"
  shows "safe fl (wf_state fl ifs rt now)
    (case longest_prefix_match rt d of
       Some route \<Rightarrow>
         bnd (deref (sr_get_interface ifs (interface route))) (\<lambda>node.
         bnd (read_bytes (addr node) 0 ETHER_ADDR_LEN) (\<lambda>shost.
         bnd (write_bytes f 6 shost) (\<lambda>temp. send sr (gw route) temp (interface route))))
     | None \<Rightarrow>
         bnd (deref (sr_get_interface ifs ifc)) (\<lambda>ifback.
           sr_send_icmp3 send sr icmp_unreach icmp_network_unreach (if_ip ifback) s
             f sizeof_eth (unat (ip_hl (ip_at f)) * 4 + 8)))"
proof (cases "longest_prefix_match rt d")
  case None
  with i f show ?thesis by (auto intro!: send_icmp3_top w simp: wf_frame_def)
next
  case (Some r)
  have r: "r \<in> set rt" using lpm_in_table [OF Some] by simp
  then have k: "known_gw rt (gw r)" by (auto simp: known_gw_def)
  obtain node where node: "sr_get_interface ifs (interface r) = Some node"
    using r wf_state_cfg [OF w] by (auto simp: wf_config_def)
  have l: "length (addr node) = 6" using sr_get_interface_wf [OF wf_state_cfg [OF w] node] by simp
  have "safe fl (wf_state fl ifs rt now) (send sr (gw r) (take 6 f @ addr node @ drop 12 f) (interface r))"
    using node l f by (intro send_top w wf_frame_shost l f k) (simp add: src_ok_def wf_frame_def)
  with Some node l f show ?thesis by (simp add: write_bytes_def wf_frame_def)
qed

lemma handle_ip_packet_safe:
  assumes w: "wf_state fl ifs rt now sr" and i: "sr_get_interface ifs ifc \<noteq> None"
    and f: "34 \<le> length f \<Longrightarrow> wf_frame f
     \<and> 4 * unat (ip_hl (ip_at f)) + 8 \<le> unat (ntohs (ip_len (ip_at f)))
     \<and> 14 + unat (ntohs (ip_len (ip_at f))) \<le> length f"
  shows "safe fl (wf_state fl ifs rt now) (sr_handle_ip_packet send sr f ifc)"
proof (cases "length f < 34")
  case False
  note [simp] = wf_state_simps [OF w]
  let ?h = "ip_at f" and ?n = "unat (ip_hl (ip_at f)) * 4"
  have wf: "wf_frame f" using f False by simp
  have ld: "load_ip f 14 = Inr ?h" using False by (simp add: load_ip_at)
  have h: "?n \<le> 20" "14 + (?n + 8) \<le> length f" using wf by (auto simp: wf_frame_def)
  obtain node where node: "sr_get_interface ifs ifc = Some node" using i by blast
  consider (mine) "sr_check_packet sr (ip_dst ?h) \<noteq> None"
    | (ttl) "sr_check_packet sr (ip_dst ?h) = None" "ip_ttl ?h - 1 = 0"
    | (fwd) "sr_check_packet sr (ip_dst ?h) = None" "ip_ttl ?h - 1 \<noteq> 0" by blast
  then show ?thesis
  proof cases
    case mine
    with False ld handle_my_ip_packet_safe [OF w wf] f show ?thesis
      by (simp add: sr_handle_ip_packet_def)
  next
    case ttl
    let ?b = "take 4 (calloc (4 + ?n + 8)) @ take (?n + 8) (drop 14 f) @ drop (4 + (?n + 8)) (calloc (4 + ?n + 8))"
    have u: "unat (of_nat (4 + ?n + 8) :: u32) = 4 + ?n + 8" using h(1) by (intro unat_of_nat_u32) simp
    have "safe fl (wf_state fl ifs rt now) (sr_send_icmp send sr icmp_ttl icmp_ttl_code (if_ip node) (ip_src ?h)
        ?b 0 (of_nat (4 + ?n + 8)))"
      using h by (intro send_icmp_top w) (simp_all only: u, auto)
    with ttl False ld h node show ?thesis
      by (simp add: sr_handle_ip_packet_def Let_def read_bytes_def write_bytes_def)
  next
    case fwd
    obtain f' where f': "rewrite_ttl f ?h (ip_ttl ?h - 1) = Inr f'"
      using False h by (simp add: rewrite_ttl_eq)
    note wf' = wf_frame_rewrite [OF wf f']
    from forward_safe [OF w _ i, where f = f' and d = "ip_dst ?h" and s = "ip_src ?h"] wf' fwd False ld f'
    show ?thesis by (simp add: sr_handle_ip_packet_def Let_def cong: option.case_cong)
  qed
qed (use w in \<open>simp add: sr_handle_ip_packet_def\<close>)

end

lemma handlepacket_safe:
  assumes ss: "safe_sender (sr_attempt_send n) fl ifs rt now"
    and w: "wf_state fl ifs rt now sr" and f: "wf_rx f"
    and i: "sr_get_interface ifs ifc \<noteq> None" "length ifc < 32"
  shows "safe fl (wf_state fl ifs rt now) (sr_handlepacket n sr f ifc)"
proof -
  obtain p where p: "print_hdrs f (length f) = Inr p" using print_hdrs_total by blast
  show ?thesis
  proof (cases "length f < 14")
    case False
    then obtain ty where ty: "ethertype f = Inr ty"
      by (simp add: ethertype_def load_eth_def read_bytes_def)
    have "ty = ethertype_ip \<Longrightarrow> safe fl (wf_state fl ifs rt now) (sr_handle_ip_packet (sr_attempt_send n) sr f ifc)"
      using f ty by (intro safe_sender.handle_ip_packet_safe [OF ss w i(1)]) (auto simp: wf_rx_def)
    moreover have "safe fl (wf_state fl ifs rt now) (sr_handle_arp_packet (sr_attempt_send n) sr f (length f - 14) ifc)"
      using False by (intro safe_sender.handle_arp_packet_safe [OF ss w i]) simp
    ultimately show ?thesis using p ty False w by (simp add: sr_handlepacket_def Let_def)
  qed (use p w in \<open>simp add: sr_handlepacket_def\<close>)
qed



text \<open>A small configured router, for the concrete instances.\<close>

definition sample_ifs :: "sr_if list" where
  "sample_ifs = [\<lparr> if_name = ''eth0'', addr = [2,0,0,0,0,1], if_ip = 0x0100000A, speed = 0 \<rparr>,
                 \<lparr> if_name = ''eth1'', addr = [2,0,0,0,0,2], if_ip = 0x0100010A, speed = 0 \<rparr>]"

definition sample_rt :: "sr_rt list" where
  "sample_rt = [\<lparr> dest = 0, gw = 0x0200000A, mask = 0, interface = ''eth0'' \<rparr>,
                \<lparr> dest = 0x0200010A, gw = 0x0200010A, mask = 0xFFFFFFFF, interface = ''eth1'' \<rparr>]"

definition sample_router :: sr_instance where
  "sample_router = \<lparr> user = ''u'', host = ''h'', template = [], topo_id = 0, if_list = sample_ifs,
     routing_table = sample_rt,
     cache = sr_arpcache_init \<lparr> entries = [], requests = [], next_req = 0 \<rparr>,
     logfile = None, sr_now = 100, sr_usec = 0, sock_up = True, wire = [] \<rparr>"

lemma sample_config: "wf_config sample_ifs sample_rt"
  by (simp add: wf_config_def sample_ifs_def sample_rt_def strncmp_eq_def)

lemma sample_router_wf: "wf_state fl sample_ifs sample_rt 100 sample_router"
proof -
  have "wf_cache (cache sample_router)" by (simp add: sample_router_def wf_cache_init)
  moreover have "\<forall>e\<in>set (entries (cache sample_router)). \<not> valid e"
    by (simp add: sample_router_def sr_arpcache_init_def empty_entry_def)
  ultimately show ?thesis
    by (auto simp: wf_state_def sample_config sample_router_def sr_arpcache_init_def)
qed

text \<open>An echo request from 10.0.1.2 to 10.0.0.1.\<close>

definition sample_ping :: bytes where
  "sample_ping = [2,0,0,0,0,1, 9,9,9,9,9,9, 8,0,
     0x45,0,0,28, 0,0,0,0, 64,1,0,0, 10,0,1,2, 10,0,0,1,
     8,0,0,0, 1,1,1,1]"

lemma sample_ping_header:
  "ip_at sample_ping = \<lparr> ip_hl = 5, ip_v = 4, ip_tos = 0, ip_len = 0x1C00, ip_id = 0, ip_off = 0,
     ip_ttl = 64, ip_p = 1, ip_sum = 0, ip_src = 0x0201000A, ip_dst = 0x0100000A \<rparr>"
  by (simp add: ip_at_def ip_of_def sample_ping_def le16_def le32_def)

lemma sample_ping_rx: "wf_rx sample_ping" "wf_frame sample_ping"
  by (simp_all add: wf_rx_def wf_frame_def sample_ping_header htons_def le16_def, simp_all add: sample_ping_def)



end
