(* ===== verification/RouterSpec.thy ===== *)
theory RouterSpec
  imports RouterSafe
begin

text \<open>
  What the router does with a packet: the frames it puts on the wire when it forwards,
  answers, queues or gives up, for every kind of packet it handles; when a recursion depth
  of one is enough; and the situations in which the code fails: a request given up by the
  timeout thread, an error message that needs the address being resolved, an IP header with
  options, a time to live of zero.
\<close>

section \<open>Sending to a resolved next hop\<close>

lemma sr_send_packet_ok:
  assumes "src_ok (if_list sr) f i" "14 \<le> length f" "sock_up sr"
  shows "\<exists>sr'. sr_send_packet sr f i = Inr (0, sr') \<and> io_only sr sr'
    \<and> wire sr' = wire sr @ [(strncpy 16 i, f)]"
proof -
  let ?s = "logged sr f"
  have io: "io_only sr ?s" "sock_up ?s = sock_up sr" "wire ?s = wire sr"
    using sr_log_packet_io by auto
  obtain n where "sr_get_interface (if_list sr) i = Some n" "take 6 (drop 6 f) = addr n"
    using assms(1) by (auto simp: src_ok_def)
  then have "sr_ether_addrs_match_interface ?s f i = Inr True"
    using io(1) assms(2) by (simp add: sr_ether_addrs_match_interface_def read_bytes_def io_only_def)
  with io assms show ?thesis
    by (simp add: sr_send_packet_def Let_def io_only_def)
qed

lemma src_ok_dhost: "length m = 6 \<Longrightarrow> 6 \<le> length f \<Longrightarrow> src_ok ifs (m @ drop 6 f) i \<longleftrightarrow> src_ok ifs f i"
  by (simp add: src_ok_def)

lemma attempt_send_resolved:
  assumes "sr_arpcache_lookup (cache sr) ip = Some e" "length (mac e) = 6" "14 \<le> length f"
    "src_ok (if_list sr) f i" "sock_up sr"
  shows "\<exists>sr'. sr_attempt_send (Suc n) sr ip f i = Inr sr' \<and> io_only sr sr'
    \<and> wire sr' = wire sr @ [(strncpy 16 i, mac e @ drop 6 f)]"
proof -
  have w: "write_bytes f 0 (take 6 (mac e)) = Inr (mac e @ drop 6 f)"
    using assms(2,3) by (simp add: write_bytes_def)
  have s: "src_ok (if_list sr) (mac e @ drop 6 f) i" "14 \<le> length (mac e @ drop 6 f)"
    using assms by (simp_all add: src_ok_dhost)
  from sr_send_packet_ok [OF s assms(5)] w assms(1) show ?thesis by auto
qed

section \<open>The header of an IP datagram\<close>

lemma wf_frame_nonempty: "wf_frame f \<Longrightarrow> f \<noteq> []"
  by (cases f) (auto simp: wf_frame_def)

lemma load_ip_fields: "34 \<le> length f \<Longrightarrow> load_ip f 14 = Inr (ip_at f)"
  by (simp add: load_ip_at)

lemma ip_bytes_sum_split:
  "ip_bytes h = take 10 (ip_bytes h) @ bytes16 (ip_sum h) @ drop 12 (ip_bytes h)"
  "take 10 (ip_bytes (h\<lparr> ip_sum := s \<rparr>)) = take 10 (ip_bytes h)"
  "drop 12 (ip_bytes (h\<lparr> ip_sum := s \<rparr>)) = drop 12 (ip_bytes h)"
  by (simp_all add: ip_bytes_def bytes16_def)

text \<open>An IP header carrying the checksum of itself with a zero checksum verifies.\<close>

lemma ip_checksum_verifies:
  "cksum (ip_bytes (h\<lparr> ip_sum := cksum (ip_bytes (h\<lparr> ip_sum := 0 \<rparr>)) \<rparr>)) = 0xFFFF"
proof -
  let ?pre = "take 10 (ip_bytes h)" and ?post = "drop 12 (ip_bytes h)"
  have 0: "ip_bytes (h\<lparr> ip_sum := 0 \<rparr>) = ?pre @ [0, 0] @ ?post"
    using ip_bytes_sum_split(1) [of "h\<lparr> ip_sum := 0 \<rparr>"]
    by (simp add: ip_bytes_sum_split(2,3) bytes16_def)
  have "ip_bytes (h\<lparr> ip_sum := s \<rparr>) = ?pre @ bytes16 s @ ?post" for s
    using ip_bytes_sum_split(1) [of "h\<lparr> ip_sum := s \<rparr>"] by (simp add: ip_bytes_sum_split(2,3))
  then show ?thesis using cksum_store_verifies [of ?pre ?post] unfolding 0 by simp
qed

section \<open>Messages\<close>

definition icmp_msg :: "byte \<Rightarrow> byte \<Rightarrow> bytes \<Rightarrow> bytes" where
  "icmp_msg t c b = [t, c] @ bytes16 (cksum ([t, c, 0, 0] @ b)) @ b"

definition ip_frame :: "bytes \<Rightarrow> bytes \<Rightarrow> byte \<Rightarrow> u32 \<Rightarrow> u32 \<Rightarrow> bytes \<Rightarrow> bytes" where
  "ip_frame m a p s d b = m @ a @ bytes16 (htons ethertype_ip)
     @ ip_bytes (with_ip_sum (ip_header p s d (length b))) @ b"

text \<open>The part of a datagram an ICMP error quotes: its header and eight bytes.\<close>

definition quoted :: "bytes \<Rightarrow> bytes" where
  "quoted f = take (4 * unat (ip_hl (ip_at f)) + 8) (drop 14 f)"

text \<open>The reply path to \<open>d\<close>: a route, its interface, and a resolved gateway.\<close>

definition reply_path :: "sr_instance \<Rightarrow> u32 \<Rightarrow> sr_if \<Rightarrow> sr_arpentry \<Rightarrow> bool" where
  "reply_path sr d node e \<longleftrightarrow> (\<exists>rn. longest_prefix_match (routing_table sr) d = Some rn
     \<and> sr_get_interface (if_list sr) (interface rn) = Some node
     \<and> sr_arpcache_lookup (cache sr) (gw rn) = Some e)"

lemma icmp_msg_verifies: "length b \<le> 131068 \<Longrightarrow> cksum (icmp_msg t c b) = 0xFFFF"
  using cksum_store_verifies [of "[t, c]" b] by (simp add: icmp_msg_def)

lemma icmp_finish_msg:
  assumes "length x = 4"
  shows "icmp_finish t c (x @ b) = Inr (icmp_msg (icmp_type_val t) (icmp_code_val c) b)"
  using assms by (simp add: icmp_finish_def write_bytes_def icmp_msg_def)

lemma send_ip_resolved:
  assumes w: "wf_state True ifs rt now sr" and r: "reply_path sr d node e" and up: "sock_up sr"
  shows "\<exists>sr'. sr_send_ip (sr_attempt_send (Suc n)) sr p s d b = Inr sr' \<and> io_only sr sr'
    \<and> wire sr' = wire sr @ [(strncpy 16 (if_name node), ip_frame (mac e) (addr node) p s d b)]"
proof -
  obtain rn where rn: "longest_prefix_match (routing_table sr) d = Some rn"
    "sr_get_interface (if_list sr) (interface rn) = Some node"
    "sr_arpcache_lookup (cache sr) (gw rn) = Some e" using r by (auto simp: reply_path_def)
  have cfg: "wf_config (if_list sr) rt" using w by (auto simp: wf_state_def)
  have n: "length (addr node) = 6" using sr_get_interface_wf [OF cfg rn(2)] by simp
  have m: "length (mac e) = 6" using wf_state_mac [OF w rn(3)] .
  let ?f = "eth_bytes \<lparr> ether_dhost = calloc 6, ether_shost = addr node, ether_type = htons ethertype_ip \<rparr>
      @ ip_bytes (with_ip_sum (ip_header p s d (length b))) @ b"
  have "sr_get_interface (if_list sr) (if_name node) = Some node"
    using sr_get_interface_SomeD [OF rn(2)] rn(2) by (simp add: sr_get_interface_find strncmp_eq_def)
  then have i: "src_ok (if_list sr) ?f (if_name node)" using n by (simp add: src_ok_def eth_bytes_def)
  have f: "mac e @ drop 6 ?f = ip_frame (mac e) (addr node) p s d b"
    using n by (simp add: eth_bytes_def ip_frame_def)
  from attempt_send_resolved [OF rn(3) m _ i up, of n] rn n f show ?thesis
    by (simp add: sr_send_ip_def Let_def eth_bytes_def)
qed

lemma send_icmp_resolved:
  assumes "wf_state True ifs rt now sr" "reply_path sr d node e" "sock_up sr"
    "off + unat n \<le> length b" "unat n + 4 < 2 ^ 32"
  shows "\<exists>sr'. sr_send_icmp (sr_attempt_send (Suc k)) sr t c s d b off n = Inr sr' \<and> io_only sr sr'
    \<and> wire sr' = wire sr @ [(strncpy 16 (if_name node), ip_frame (mac e) (addr node) ip_protocol_icmp s d
        (icmp_msg (icmp_type_val t) (icmp_code_val c) (take (unat n) (drop off b))))]"
proof -
  have l: "unat (4 + n) = 4 + unat n" using assms(5) by (simp add: unat_word_ariths)
  have "write_bytes (calloc (unat (4 + n))) 4 (take (unat n) (drop off b)) =
      Inr (take 4 (calloc (unat (4 + n))) @ take (unat n) (drop off b))"
    using assms(4) by (simp add: write_bytes_def l)
  with send_ip_resolved [OF assms(1-3)] assms(4) show ?thesis
    by (simp add: sr_send_icmp_def read_bytes_def icmp_finish_msg l)
qed

lemma send_icmp3_resolved:
  assumes "wf_state True ifs rt now sr" "reply_path sr d node e" "sock_up sr" "off + 28 \<le> length b"
  shows "\<exists>sr'. sr_send_icmp3 (sr_attempt_send (Suc k)) sr t c s d b off 28 = Inr sr' \<and> io_only sr sr'
    \<and> wire sr' = wire sr @ [(strncpy 16 (if_name node), ip_frame (mac e) (addr node) ip_protocol_icmp s d
        (icmp_msg (icmp_type_val t) (icmp_code_val c) ([0, 0, 0, 0] @ take 28 (drop off b))))]"
proof -
  have z: "calloc 36 = [0, 0, 0, 0] @ [0, 0, 0, 0] @ calloc 28"
    by (simp add: calloc_def numeral_eq_Suc)
  have "write_bytes (calloc 36) 8 (take 28 (drop off b)) = Inr ([0, 0, 0, 0] @ [0, 0, 0, 0] @ take 28 (drop off b))"
    using assms(4) by (simp add: write_bytes_def z)
  moreover have "icmp_finish t c ([0, 0, 0, 0] @ [0, 0, 0, 0] @ take 28 (drop off b)) =
      Inr (icmp_msg (icmp_type_val t) (icmp_code_val c) ([0, 0, 0, 0] @ take 28 (drop off b)))"
    by (rule icmp_finish_msg) simp
  ultimately show ?thesis using send_ip_resolved [OF assms(1-3)] assms(4)
    by (simp add: sr_send_icmp3_def read_bytes_def)
qed

section \<open>Dispatch\<close>

lemma handlepacket_ip:
  assumes "ethertype f = Inr ethertype_ip" "14 \<le> length f"
  shows "sr_handlepacket n sr f ifc = sr_handle_ip_packet (sr_attempt_send n) sr f ifc"
proof -
  obtain p where "print_hdrs f (length f) = Inr p" using print_hdrs_total by blast
  with assms show ?thesis by (simp add: sr_handlepacket_def Let_def)
qed

lemma handlepacket_arp:
  assumes "ethertype f = Inr ethertype_arp" "14 \<le> length f"
  shows "sr_handlepacket n sr f ifc = sr_handle_arp_packet (sr_attempt_send n) sr f (length f - 14) ifc"
proof -
  obtain p where "print_hdrs f (length f) = Inr p" using print_hdrs_total by blast
  with assms show ?thesis
    by (simp add: sr_handlepacket_def Let_def ethertype_ip_def ethertype_arp_def)
qed

section \<open>Properties: what goes on the wire\<close>

text \<open>
  C7. Forwarding: an IP packet for somebody else whose next hop is resolved leaves on the
  interface of its longest-prefix route, addressed to the gateway's hardware address and
  from the interface's, with the time to live decremented and a header checksum that
  verifies, every other byte unchanged; the ARP cache and queue do not change.
\<close>

theorem sr_forwards_packet:
  assumes w: "wf_state True ifs rt now sr" and f: "ethertype f = Inr ethertype_ip" "wf_frame f" "ip_hl (ip_at f) = 5"
    and d: "sr_check_packet sr (ip_dst (ip_at f)) = None" "ip_ttl (ip_at f) \<noteq> 1"
    and r: "longest_prefix_match rt (ip_dst (ip_at f)) = Some route"
      "sr_get_interface ifs (interface route) = Some node"
      "sr_arpcache_lookup (cache sr) (gw route) = Some e"
    and up: "sock_up sr"
  shows "\<exists>sr' h. sr_handlepacket (Suc n) sr f ifc = Inr sr' \<and> cache sr' = cache sr
    \<and> wire sr' = wire sr @ [(strncpy 16 (interface route),
         mac e @ addr node @ take 2 (drop 12 f) @ ip_bytes h @ drop 34 f)]
    \<and> h = (ip_at f)\<lparr> ip_ttl := ip_ttl (ip_at f) - 1, ip_sum := ip_sum h \<rparr> \<and> cksum (ip_bytes h) = 0xFFFF"
proof -
  note [simp] = wf_state_simps [OF w]
  have l: "42 \<le> length f" using f(2,3) by (simp add: wf_frame_def)
  define h0 where "h0 = (ip_at f)\<lparr> ip_ttl := ip_ttl (ip_at f) - 1 \<rparr>"
  define h where "h = h0\<lparr> ip_sum := cksum (ip_bytes (h0\<lparr> ip_sum := 0 \<rparr>)) \<rparr>"
  define f' where "f' = take 14 f @ ip_bytes h @ drop 34 f"
  have rw: "rewrite_ttl f (ip_at f) (ip_ttl (ip_at f) - 1) = Inr f'"
    using l f(3) by (simp add: rewrite_ttl_eq f'_def h_def h0_def)
  have n: "length (addr node) = 6" using sr_get_interface_wf [OF wf_state_cfg [OF w] r(2)] by simp
  let ?t = "take 6 f' @ addr node @ drop 12 f'"
  have wt: "write_bytes f' 6 (addr node) = Inr ?t" using n l by (simp add: write_bytes_def f'_def)
  have so: "src_ok (if_list sr) ?t (interface route)" using r(2) n l by (simp add: src_ok_def f'_def)
  have lt: "14 \<le> length ?t" using l by (simp add: f'_def)
  have "mac e @ drop 6 ?t = mac e @ addr node @ take 2 (drop 12 f) @ ip_bytes h @ drop 34 f"
    using l n by (simp add: f'_def drop_take)
  with attempt_send_resolved [OF r(3) wf_state_mac [OF w r(3)] lt so up, of n]
  obtain sr' where sr': "sr_attempt_send (Suc n) sr (gw route) ?t (interface route) = Inr sr'" "io_only sr sr'"
    "wire sr' = wire sr @ [(strncpy 16 (interface route),
         mac e @ addr node @ take 2 (drop 12 f) @ ip_bytes h @ drop 34 f)]" by auto
  have "sr_handlepacket (Suc n) sr f ifc = Inr sr'"
    using l d r n wt rw sr'(1)
    by (simp add: handlepacket_ip [OF f(1)] sr_handle_ip_packet_def load_ip_fields Let_def
        del: sr_attempt_send.simps)
  moreover have "cksum (ip_bytes h) = 0xFFFF" unfolding h_def by (rule ip_checksum_verifies)
  moreover have "h = (ip_at f)\<lparr> ip_ttl := ip_ttl (ip_at f) - 1, ip_sum := ip_sum h \<rparr>"
    by (simp add: h_def h0_def)
  ultimately show ?thesis using sr'(2,3) by (auto simp: io_only_def)
qed

text \<open>
  C19. Echo: an ICMP echo request for one of the router's addresses is answered by exactly
  one frame, back along the route of its source, an echo reply from the address asked
  to the asker with the payload of the request, whose IP and ICMP checksums verify.
\<close>

theorem sr_answers_echo:
  assumes w: "wf_state True ifs rt now sr" and f: "ethertype f = Inr ethertype_ip" "wf_frame f"
    and len: "4 * unat (ip_hl (ip_at f)) + 4 \<le> unat (ntohs (ip_len (ip_at f)))"
      "14 + unat (ntohs (ip_len (ip_at f))) \<le> length f"
    and me: "sr_check_packet sr (ip_dst (ip_at f)) \<noteq> None" "ip_p (ip_at f) = ip_protocol_icmp"
    and echo: "load_icmp f (14 + 4 * unat (ip_hl (ip_at f))) = Inr ic" "icmp_type ic = 8"
    and r: "reply_path sr (ip_src (ip_at f)) node e" and up: "sock_up sr"
    and payload: "payload = take (unat (ntohs (ip_len (ip_at f))) - 4 * unat (ip_hl (ip_at f)) - 4)
      (drop (14 + 4 * unat (ip_hl (ip_at f)) + 4) f)"
  shows "\<exists>sr'. sr_handlepacket (Suc n) sr f ifc = Inr sr' \<and> cache sr' = cache sr
    \<and> wire sr' = wire sr @ [(strncpy 16 (if_name node),
         ip_frame (mac e) (addr node) ip_protocol_icmp (ip_dst (ip_at f)) (ip_src (ip_at f)) (icmp_msg 0 0 payload))]
    \<and> cksum (icmp_msg 0 0 payload) = 0xFFFF"
proof -
  let ?h = "unat (ip_hl (ip_at f)) * 4" and ?n = "unat (ntohs (ip_len (ip_at f)))"
  let ?pl = "ucast (ntohs (ip_len (ip_at f))) - of_nat ?h - 4 :: u32"
  have n: "?n < 2 ^ 16" using unsigned_less [of "ntohs (ip_len (ip_at f))", where ?'a = nat] by simp
  have "of_nat (?n - ?h - 4) = (of_nat ?n - of_nat ?h - 4 :: u32)"
    using len(1) by (simp add: of_nat_diff)
  then have "?pl = of_nat (?n - ?h - 4)" by simp
  moreover have "?n - ?h - 4 < 2 ^ 32" using n by simp
  ultimately have pl: "unat ?pl = ?n - ?h - 4" by (simp only: unat_of_nat_u32)
  have b: "14 + ?h + 4 + unat ?pl \<le> length f" "unat ?pl + 4 < 2 ^ 32"
    unfolding pl using len n by simp_all
  have p: "take (unat ?pl) (drop (14 + ?h + 4) f) = payload"
    unfolding pl payload by (simp add: mult.commute)
  obtain sr' where sr': "sr_send_icmp (sr_attempt_send (Suc n)) sr icmp_echo_reply icmp_echo_reply_code
      (ip_dst (ip_at f)) (ip_src (ip_at f)) f (14 + ?h + 4) ?pl = Inr sr'" "io_only sr sr'"
    "wire sr' = wire sr @ [(strncpy 16 (if_name node), ip_frame (mac e) (addr node) ip_protocol_icmp
        (ip_dst (ip_at f)) (ip_src (ip_at f)) (icmp_msg 0 0 payload))]"
    using send_icmp_resolved [OF w r up b, of n icmp_echo_reply icmp_echo_reply_code "ip_dst (ip_at f)"]
    unfolding p by auto
  have l: "34 \<le> length f" using f(2) by (simp add: wf_frame_def)
  have "sr_handlepacket (Suc n) sr f ifc = Inr sr'"
    using l me echo sr'(1) by (simp add: handlepacket_ip [OF f(1)] sr_handle_ip_packet_def load_ip_fields Let_def
        sr_handle_my_ip_packet_def mult.commute del: sr_attempt_send.simps)
  moreover have "length payload \<le> 131068" using payload n by simp
  ultimately show ?thesis using sr'(2,3) icmp_msg_verifies by (auto simp: io_only_def)
qed

text \<open>
  C20. Time exceeded: an IP packet in transit whose time to live is one is not forwarded;
  exactly one ICMP message of type 11 goes back to its source, from the address of the
  receiving interface, quoting the IP header and the eight bytes after it.
\<close>

theorem sr_answers_ttl_exceeded:
  assumes w: "wf_state True ifs rt now sr" and f: "ethertype f = Inr ethertype_ip" "wf_frame f"
    and d: "sr_check_packet sr (ip_dst (ip_at f)) = None" "ip_ttl (ip_at f) = 1"
    and i: "sr_get_interface ifs ifc = Some inode"
    and r: "reply_path sr (ip_src (ip_at f)) node e" and up: "sock_up sr"
  shows "\<exists>sr'. sr_handlepacket (Suc n) sr f ifc = Inr sr' \<and> cache sr' = cache sr
    \<and> wire sr' = wire sr @ [(strncpy 16 (if_name node), ip_frame (mac e) (addr node) ip_protocol_icmp
        (if_ip inode) (ip_src (ip_at f)) (icmp_msg 11 0 ([0, 0, 0, 0] @ quoted f)))]"
proof -
  note [simp] = wf_state_simps [OF w]
  let ?n = "unat (ip_hl (ip_at f)) * 4"
  let ?len = "of_nat (4 + ?n + 8) :: u32"
  have h: "?n \<le> 20" "14 + (?n + 8) \<le> length f" "34 \<le> length f" using f(2) by (auto simp: wf_frame_def)
  have q: "take (?n + 8) (drop 14 f) = quoted f" by (simp add: quoted_def mult.commute)
  have lq: "length (quoted f) = ?n + 8" using h by (simp add: q [symmetric])
  have u: "unat ?len = 4 + ?n + 8" using h(1) by (intro unat_of_nat_u32) simp
  let ?b = "[0, 0, 0, 0] @ quoted f"
  have b: "write_bytes (calloc (4 + ?n + 8)) 4 (quoted f) = Inr ?b"
    using lq by (simp add: write_bytes_def calloc_def numeral_eq_Suc)
  have bb: "0 + unat ?len \<le> length ?b" "unat ?len + 4 < 2 ^ 32" unfolding u using lq h(1) by simp_all
  have tk: "take (unat ?len) (drop 0 ?b) = ?b" unfolding u using lq by simp
  obtain sr' where sr': "sr_send_icmp (sr_attempt_send (Suc n)) sr icmp_ttl icmp_ttl_code (if_ip inode)
      (ip_src (ip_at f)) ?b 0 ?len = Inr sr'" "io_only sr sr'"
    "wire sr' = wire sr @ [(strncpy 16 (if_name node), ip_frame (mac e) (addr node) ip_protocol_icmp
        (if_ip inode) (ip_src (ip_at f)) (icmp_msg 11 0 ?b))]"
    using send_icmp_resolved [OF w r up bb, of n icmp_ttl icmp_ttl_code "if_ip inode"] unfolding tk by auto
  have "read_bytes f 14 (?n + 8) = Inr (quoted f)" using h(2) q by (simp add: read_bytes_def)
  then have "sr_handlepacket (Suc n) sr f ifc = Inr sr'"
    using h d i b sr'(1)
    by (simp add: handlepacket_ip [OF f(1)] sr_handle_ip_packet_def load_ip_fields Let_def
        del: sr_attempt_send.simps)
  with sr'(2,3) show ?thesis by (auto simp: io_only_def)
qed

text \<open>
  Destination unreachable: an IP packet for the router that is not ICMP is answered by
  a port-unreachable message (type 3, code 3) from the address it was sent to, and a packet
  in transit with no matching route by a network-unreachable message (type 3, code 0) from
  the address of the receiving interface; both quote the datagram.
\<close>

theorem sr_answers_unreachable:
  assumes w: "wf_state True ifs rt now sr" and f: "ethertype f = Inr ethertype_ip" "wf_frame f" "ip_hl (ip_at f) = 5"
    and i: "sr_get_interface ifs ifc = Some inode"
    and r: "reply_path sr (ip_src (ip_at f)) node e" and up: "sock_up sr"
  shows "(sr_check_packet sr (ip_dst (ip_at f)) \<noteq> None \<and> ip_p (ip_at f) \<noteq> ip_protocol_icmp \<longrightarrow>
    (\<exists>sr'. sr_handlepacket (Suc n) sr f ifc = Inr sr' \<and> cache sr' = cache sr
    \<and> wire sr' = wire sr @ [(strncpy 16 (if_name node), ip_frame (mac e) (addr node) ip_protocol_icmp
        (ip_dst (ip_at f)) (ip_src (ip_at f)) (icmp_msg 3 3 ([0, 0, 0, 0] @ quoted f)))])) \<and>
    (sr_check_packet sr (ip_dst (ip_at f)) = None \<and> ip_ttl (ip_at f) \<noteq> 1
       \<and> longest_prefix_match rt (ip_dst (ip_at f)) = None \<longrightarrow>
    (\<exists>sr' h. sr_handlepacket (Suc n) sr f ifc = Inr sr' \<and> cache sr' = cache sr
    \<and> wire sr' = wire sr @ [(strncpy 16 (if_name node), ip_frame (mac e) (addr node) ip_protocol_icmp
        (if_ip inode) (ip_src (ip_at f)) (icmp_msg 3 0 ([0, 0, 0, 0] @ ip_bytes h @ take 8 (drop 34 f))))]
    \<and> h = (ip_at f)\<lparr> ip_ttl := ip_ttl (ip_at f) - 1, ip_sum := ip_sum h \<rparr>))"
proof (intro conjI, goal_cases)
  case 1
  have h: "unat (ip_hl (ip_at f)) * 4 + 8 = 28" "42 \<le> length f" using f by (auto simp: wf_frame_def)
  have q: "take 28 (drop 14 f) = quoted f" using f(3) by (simp add: quoted_def)
  have b: "14 + 28 \<le> length f" using h by simp
  obtain sr' where sr': "sr_send_icmp3 (sr_attempt_send (Suc n)) sr icmp_unreach icmp_port_unreach
      (ip_dst (ip_at f)) (ip_src (ip_at f)) f 14 28 = Inr sr'" "io_only sr sr'"
    "wire sr' = wire sr @ [(strncpy 16 (if_name node), ip_frame (mac e) (addr node) ip_protocol_icmp
        (ip_dst (ip_at f)) (ip_src (ip_at f)) (icmp_msg 3 3 ([0, 0, 0, 0] @ quoted f)))]"
    using send_icmp3_resolved [OF w r up b, of n icmp_unreach icmp_port_unreach "ip_dst (ip_at f)"]
    unfolding q by auto
  show ?case
  proof
    assume "sr_check_packet sr (ip_dst (ip_at f)) \<noteq> None \<and> ip_p (ip_at f) \<noteq> ip_protocol_icmp"
    then have "sr_handlepacket (Suc n) sr f ifc = Inr sr'"
      using h f(3) sr'(1)
      by (simp add: handlepacket_ip [OF f(1)] sr_handle_ip_packet_def load_ip_fields Let_def
          sr_handle_my_ip_packet_def del: sr_attempt_send.simps)
    with sr'(2,3) show "\<exists>sr'. sr_handlepacket (Suc n) sr f ifc = Inr sr' \<and> cache sr' = cache sr
      \<and> wire sr' = wire sr @ [(strncpy 16 (if_name node), ip_frame (mac e) (addr node) ip_protocol_icmp
        (ip_dst (ip_at f)) (ip_src (ip_at f)) (icmp_msg 3 3 ([0, 0, 0, 0] @ quoted f)))]"
      by (auto simp: io_only_def)
  qed
next
  case 2
  note [simp] = wf_state_simps [OF w]
  have l: "42 \<le> length f" using f(2,3) by (simp add: wf_frame_def)
  define h0 where "h0 = (ip_at f)\<lparr> ip_ttl := ip_ttl (ip_at f) - 1 \<rparr>"
  define h where "h = h0\<lparr> ip_sum := cksum (ip_bytes (h0\<lparr> ip_sum := 0 \<rparr>)) \<rparr>"
  define f' where "f' = take 14 f @ ip_bytes h @ drop 34 f"
  have rw: "rewrite_ttl f (ip_at f) (ip_ttl (ip_at f) - 1) = Inr f'"
    using l f(3) by (simp add: rewrite_ttl_eq f'_def h_def h0_def)
  have b: "14 + 28 \<le> length f'" using l by (simp add: f'_def)
  have q: "take 28 (drop 14 f') = ip_bytes h @ take 8 (drop 34 f)" using l by (simp add: f'_def)
  obtain sr' where sr': "sr_send_icmp3 (sr_attempt_send (Suc n)) sr icmp_unreach icmp_network_unreach
      (if_ip inode) (ip_src (ip_at f)) f' 14 28 = Inr sr'" "io_only sr sr'"
    "wire sr' = wire sr @ [(strncpy 16 (if_name node), ip_frame (mac e) (addr node) ip_protocol_icmp
        (if_ip inode) (ip_src (ip_at f)) (icmp_msg 3 0 ([0, 0, 0, 0] @ ip_bytes h @ take 8 (drop 34 f))))]"
    using send_icmp3_resolved [OF w r up b, of n icmp_unreach icmp_network_unreach "if_ip inode"]
    unfolding q by auto
  show ?case
  proof
    assume "sr_check_packet sr (ip_dst (ip_at f)) = None \<and> ip_ttl (ip_at f) \<noteq> 1
       \<and> longest_prefix_match rt (ip_dst (ip_at f)) = None"
    then have "sr_handlepacket (Suc n) sr f ifc = Inr sr'"
      using l f(3) i rw sr'(1)
      by (simp add: handlepacket_ip [OF f(1)] sr_handle_ip_packet_def load_ip_fields Let_def
          del: sr_attempt_send.simps)
    moreover have "h = (ip_at f)\<lparr> ip_ttl := ip_ttl (ip_at f) - 1, ip_sum := ip_sum h \<rparr>"
      by (simp add: h_def h0_def)
    ultimately show "\<exists>sr' h. sr_handlepacket (Suc n) sr f ifc = Inr sr' \<and> cache sr' = cache sr
      \<and> wire sr' = wire sr @ [(strncpy 16 (if_name node), ip_frame (mac e) (addr node) ip_protocol_icmp
        (if_ip inode) (ip_src (ip_at f)) (icmp_msg 3 0 ([0, 0, 0, 0] @ ip_bytes h @ take 8 (drop 34 f))))]
      \<and> h = (ip_at f)\<lparr> ip_ttl := ip_ttl (ip_at f) - 1, ip_sum := ip_sum h \<rparr>"
      using sr'(2,3) by (auto simp: io_only_def)
  qed
qed

section \<open>Properties: address resolution\<close>

definition arp_frame :: "u16 \<Rightarrow> sr_if \<Rightarrow> bytes \<Rightarrow> u32 \<Rightarrow> bytes" where
  "arp_frame code node target tip =
     target @ addr node @ bytes16 (htons ethertype_arp) @ arp_bytes
       \<lparr> ar_hrd = htons arp_hrd_ethernet, ar_pro = htons ethertype_ip, ar_hln = 6, ar_pln = 4,
         ar_op = htons code, ar_sha = addr node, ar_sip = if_ip node, ar_tha = target, ar_tip = tip \<rparr>"

lemma send_arp_ok:
  assumes "wf_config (if_list sr) rt" "sr_get_interface (if_list sr) i = Some node" "length i < 32"
    "length d = 6" "sock_up sr"
  shows "\<exists>sr'. sr_send_arp sr code i d ip = Inr sr' \<and> io_only sr sr'
    \<and> wire sr' = wire sr @ [(strncpy 16 i, arp_frame code node d ip)]"
proof -
  have n: "length (addr node) = 6" using sr_get_interface_wf [OF assms(1,2)] by simp
  have f: "find_if_strcmp i (if_list sr) = Inr (Some node)"
    using assms(1,2,3) find_if_strcmp_get [of "if_list sr" i] by (auto simp: wf_config_def)
  let ?f = "arp_frame code node d ip"
  have so: "src_ok (if_list sr) ?f i" "14 \<le> length ?f"
    using assms(2,4) n by (simp_all add: src_ok_def arp_frame_def)
  have e: "sr_send_arp sr code i d ip = bnd (sr_send_packet sr ?f i) (\<lambda>(r, sr). Inr sr)"
    using assms(2,4) n f by (simp add: sr_send_arp_def sr_send_eth_def read_bytes_def arp_frame_def eth_bytes_def Let_def)
  from sr_send_packet_ok [OF so assms(5)] show ?thesis unfolding e by auto
qed

lemma attempt_send_queued:
  assumes w: "wf_state True ifs rt now sr" and f: "wf_frame f" "src_ok ifs f i" and q: "find_gw ip rt = Some q"
    and un: "sr_arpcache_lookup (cache sr) ip = None"
  shows "\<exists>s a r. sr_attempt_send (Suc n) sr ip f i = sr_handle_arpreq (sr_attempt_send n) s a
    \<and> wf_state True ifs rt now s \<and> deref_req s a = Inr r \<and> req_for (cache s) ip = Some (a, r)
    \<and> r = push_packet f i (case req_for (cache sr) ip of None \<Rightarrow> new_req ip | Some (a, r) \<Rightarrow> r)
    \<and> wire s = wire sr \<and> sock_up s = sock_up sr \<and> a = snd (sr_arpcache_queuereq (cache sr) ip f i)"
proof -
  have k: "known_gw rt ip" using find_gw_Some [OF q] by (auto simp: known_gw_def)
  obtain s a r where s: "sr_attempt_send (Suc n) sr ip f i = sr_handle_arpreq (sr_attempt_send n) s a"
    "wf_state True ifs rt now s" "req_at s a = Some r" "r_ip r = ip"
    "r = push_packet f i (case req_for (cache sr) ip of None \<Rightarrow> new_req ip | Some (a, r) \<Rightarrow> r)"
    "s = sr\<lparr> cache := fst (sr_arpcache_queuereq (cache sr) ip f i) \<rparr>"
    "a = snd (sr_arpcache_queuereq (cache sr) ip f i)"
    using attempt_send_unresolved [OF w f k un, of n "{}"] by metis
  note [simp] = wf_state_simps [OF s(2)]
  have d: "deref_req s a = Inr r" using s(3) by (simp add: deref_req_def req_at_def)
  have rf: "req_for (cache s) ip = Some (a, r)"
    using s(3,4) req_at_set [of s a r] req_for_eq [of "cache s" "next_req (cache s)" ip a r] wf_state_simps(4) [OF s(2)]
    by (simp add: wf_cache_def)
  have "wire s = wire sr" "sock_up s = sock_up sr" using s(6) by simp_all
  with s d rf show ?thesis by blast
qed

lemma attempt_send_first:
  assumes w: "wf_state True ifs rt now sr" and f: "wf_frame f" "src_ok ifs f i"
    and q: "find_gw ip rt = Some q" "sr_get_interface ifs (interface q) = Some node"
    and un: "sr_arpcache_lookup (cache sr) ip = None" and up: "sock_up sr" and t: "now > 1" and None: "req_for (cache sr) ip = None"
  shows "\<exists>sr' a. sr_attempt_send (Suc n) sr ip f i = Inr sr'
        \<and> req_for (cache sr') ip = Some (a, \<lparr> r_ip = ip, sent = now, times_sent = 1, packets = [new_packet f i] \<rparr>)
        \<and> wire sr' = wire sr @ [(strncpy 16 (interface q), arp_frame arp_op_request node [255,255,255,255,255,255] ip)]"
proof -
  obtain s a r where s: "sr_attempt_send (Suc n) sr ip f i = sr_handle_arpreq (sr_attempt_send n) s a"
    "wf_state True ifs rt now s" "deref_req s a = Inr r" "req_for (cache s) ip = Some (a, r)"
    "r = push_packet f i (new_req ip)" "wire s = wire sr" "sock_up s"
    using attempt_send_queued [OF w f q(1) un, of n] None up by auto
  note [simp] = wf_state_simps [OF s(2)]
  have r: "r = \<lparr> r_ip = ip, sent = 0, times_sent = 0, packets = [new_packet f i] \<rparr>"
    using s(5) by (simp add: new_req_def push_packet_def)
  have "length (interface q) < 32" using wf_state_cfg [OF w] find_gw_Some [OF q(1)] by (auto simp: wf_config_def)
  with send_arp_ok [of s rt "interface q" node "[255,255,255,255,255,255]" arp_op_request ip]
    wf_state_cfg [OF s(2)] q(2) s(6,7)
  obtain s1 where s1: "sr_send_arp_req s ip = Inr s1" "io_only s s1"
    "wire s1 = wire sr @ [(strncpy 16 (interface q), arp_frame arp_op_request node [255,255,255,255,255,255] ip)]"
    by (auto simp: sr_send_arp_req_def q(1))
  let ?f = "\<lambda>q. q\<lparr> sent := now, times_sent := times_sent q + 1 \<rparr>"
  let ?s = "s1\<lparr> cache := cache s1\<lparr> requests := upd_req a ?f (requests (cache s1)) \<rparr> \<rparr>"
  have "sr_handle_arpreq (sr_attempt_send n) s a = Inr ?s"
    using s(3) r t s1(1) by (simp add: sr_handle_arpreq_def)
  moreover have "req_for (cache ?s) ip = Some (a, ?f r)"
    using s(4) s1(2) wf_state_simps(4) [OF s(2)]
      find_upd_req [of "requests (cache s)" "next_req (cache s)" ?f ip a]
    by (simp add: req_for_def io_only_def wf_cache_def)
  ultimately show ?thesis using s(1) s1(3) r by simp
qed


lemma fold_send_resolved:
  assumes "sr_arpcache_lookup (cache sr) ip = Some e" "length (mac e) = 6" "sock_up sr"
    "\<forall>p\<in>set ps. wf_frame (p_buf p) \<and> src_ok (if_list sr) (p_buf p) (p_iface p)"
  shows "\<exists>sr'. fold_res (\<lambda>p sr. sr_attempt_send (Suc n) sr ip (p_buf p) (p_iface p)) ps sr = Inr sr'
    \<and> io_only sr sr' \<and> wire sr' = wire sr @ map (\<lambda>p. (strncpy 16 (p_iface p), mac e @ drop 6 (p_buf p))) ps"
  using assms
proof (induction ps arbitrary: sr)
  case (Cons p ps)
  have "14 \<le> length (p_buf p)" "src_ok (if_list sr) (p_buf p) (p_iface p)"
    using Cons.prems(4) by (auto simp: wf_frame_def)
  with attempt_send_resolved [OF Cons.prems(1,2) _ _ Cons.prems(3), of "p_buf p" "p_iface p" n]
  obtain s1 where s1: "sr_attempt_send (Suc n) sr ip (p_buf p) (p_iface p) = Inr s1" "io_only sr s1"
    "wire s1 = wire sr @ [(strncpy 16 (p_iface p), mac e @ drop 6 (p_buf p))]" by auto
  have "sr_arpcache_lookup (cache s1) ip = Some e" "sock_up s1"
    "\<forall>p\<in>set ps. wf_frame (p_buf p) \<and> src_ok (if_list s1) (p_buf p) (p_iface p)"
    using s1(2) Cons.prems by (auto simp: io_only_def)
  from Cons.IH [OF this(1) Cons.prems(2) this(2,3)] s1 show ?case
    by (fastforce simp: io_only_def simp del: sr_attempt_send.simps)
qed simp

lemma recv_arp_resolves:
  assumes w: "wf_state True ifs rt now sr" and l: "length (ar_sha arp) = 6"
    and new: "arp_mac (cache sr) (ar_sip arp) = None" "\<not> cache_full (cache sr)" and up: "sock_up sr"
  shows "\<exists>s2. sr_recv_arp (sr_attempt_send (Suc n)) sr arp = Inr s2
    \<and> if_list s2 = ifs \<and> sock_up s2 \<and> arp_mac (cache s2) (ar_sip arp) = Some (ar_sha arp)
    \<and> waiting (cache s2) (ar_sip arp) = [] \<and> wire s2 = wire sr
        @ map (\<lambda>p. (strncpy 16 (p_iface p), ar_sha arp @ drop 6 (p_buf p))) (waiting (cache sr) (ar_sip arp))"
proof -
  note [simp] = wf_state_simps [OF w]
  let ?ip = "ar_sip arp" and ?m = "ar_sha arp"
  obtain c req where ins: "sr_arpcache_insert now (cache sr) ?m ?ip = (c, req)" by fastforce
  have c: "c = fst (sr_arpcache_insert now (cache sr) ?m ?ip)" and req: "req = req_for (cache sr) ?ip"
    using ins requests_insert(3) [of now "cache sr" ?m ?ip] by auto
  have wc: "wf_cache (cache sr)" using wf_state_simps(4) [OF w] .
  have am: "arp_mac c ?ip = Some ?m" unfolding c using arp.learn_new new l by simp
  then obtain e where e: "sr_arpcache_lookup c ?ip = Some e" "mac e = ?m" by (auto simp: arp_mac_def)
  let ?s = "sr\<lparr> cache := c \<rparr>"
  have ws: "wf_state True ifs rt now ?s" by (rule ss.wf_state_insert(1) [OF w l ins])
  have wt0: "waiting c ?ip = []" unfolding c by (simp add: waiting_def req_for_insert [OF wc])
  show ?thesis
  proof (cases req)
    case None
    then have "sr_recv_arp (sr_attempt_send (Suc n)) sr arp = Inr ?s" using ins by (simp add: sr_recv_arp_def)
    with am wt0 up None req show ?thesis by (intro exI [of _ ?s]) (simp add: waiting_def)
  next
    case (Some ar)
    obtain a r where ar: "req = Some (a, r)" using Some by (cases ar) auto
    have ip: "r_ip r = ?ip" using ar req req_for_SomeD by simp
    have "wf_req True ifs rt now r" by (rule ss.wf_state_insert(2) [OF w l ins ar])
    then have "\<forall>p\<in>set (packets r). wf_frame (p_buf p) \<and> src_ok (if_list ?s) (p_buf p) (p_iface p)"
      by (auto simp: wf_req_def)
    with fold_send_resolved [of ?s ?ip e "packets r" n] e l up
    obtain s1 where s1: "fold_res (\<lambda>p sr. sr_attempt_send (Suc n) sr (r_ip r) (p_buf p) (p_iface p)) (packets r) ?s = Inr s1"
      "io_only ?s s1" "wire s1 = wire sr @ map (\<lambda>p. (strncpy 16 (p_iface p), ?m @ drop 6 (p_buf p))) (packets r)"
      unfolding ip by auto
    let ?s2 = "s1\<lparr> cache := sr_arpreq_destroy (cache s1) a \<rparr>"
    have "sr_recv_arp (sr_attempt_send (Suc n)) sr arp = Inr ?s2"
      using ins ar s1(1) by (simp add: sr_recv_arp_def del: sr_attempt_send.simps)
    moreover have "arp_mac (cache ?s2) ?ip = Some ?m"
      using s1(2) am by (simp add: arp_mac_def lookup_last io_only_def)
    moreover have "waiting (cache ?s2) ?ip = []"
      using s1(2) wt0 ws by (auto simp: waiting_def req_for_destroy io_only_def wf_state_def split: option.splits)
    moreover have "packets r = waiting (cache sr) ?ip" using ar req by (simp add: waiting_def)
    ultimately show ?thesis using s1 up by (intro exI [of _ ?s2]) (simp add: io_only_def)
  qed
qed

text \<open>
  C15. Resolution: an ARP packet for the receiving interface from an unknown sender, with a
  free cache slot, teaches the router the sender's hardware address; every packet waiting
  for it is sent to that address in queue order, the queue for it is empty afterwards, and
  an ARP request, but not a reply, is answered with the interface's own hardware address.
\<close>

theorem sr_arp_resolves:
  assumes w: "wf_state True ifs rt now sr" and f: "ethertype f = Inr ethertype_arp" "load_arp f 14 = Inr arp"
    and i: "sr_get_interface ifs ifc = Some iface" "length ifc < 32" "if_ip iface = ar_tip arp"
    and new: "arp_mac (cache sr) (ar_sip arp) = None" "\<not> cache_full (cache sr)" and up: "sock_up sr"
  shows "\<exists>sr'. sr_handlepacket (Suc n) sr f ifc = Inr sr'
    \<and> arp_mac (cache sr') (ar_sip arp) = Some (ar_sha arp) \<and> waiting (cache sr') (ar_sip arp) = []
    \<and> wire sr' = wire sr
        @ map (\<lambda>p. (strncpy 16 (p_iface p), ar_sha arp @ drop 6 (p_buf p))) (waiting (cache sr) (ar_sip arp))
        @ (if ntohs (ar_op arp) = arp_op_request
           then [(strncpy 16 ifc, arp_frame arp_op_reply iface (ar_sha arp) (ar_sip arp))] else [])"
proof -
  let ?ip = "ar_sip arp" and ?m = "ar_sha arp"
  have l: "14 + 28 \<le> length f" "length ?m = 6"
    using f(2) by (auto simp: load_arp_def bnd_eq_Inr read_bytes_Inr arp_of_def)
  note [simp] = wf_state_simps [OF w]
  obtain s2 where s2: "sr_recv_arp (sr_attempt_send (Suc n)) sr arp = Inr s2"
    "if_list s2 = ifs" "sock_up s2" "arp_mac (cache s2) ?ip = Some ?m" "waiting (cache s2) ?ip = []"
    "wire s2 = wire sr @ map (\<lambda>p. (strncpy 16 (p_iface p), ?m @ drop 6 (p_buf p))) (waiting (cache sr) ?ip)"
    using recv_arp_resolves [OF w l(2) new up] by blast
  have cfg: "wf_config (if_list s2) rt" using wf_state_cfg [OF w] s2(2) by simp
  have g: "sr_get_interface (if_list s2) ifc = Some iface" using i(1) s2(2) by simp
  obtain s3 where s3: "sr_send_arp s2 arp_op_reply ifc ?m ?ip = Inr s3" "io_only s2 s3"
    "wire s3 = wire s2 @ [(strncpy 16 ifc, arp_frame arp_op_reply iface ?m ?ip)]"
    using send_arp_ok [OF cfg g i(2) l(2) s2(3)] by blast
  show ?thesis
  proof (cases "ntohs (ar_op arp) = arp_op_request")
    case True
    then have "sr_handlepacket (Suc n) sr f ifc = Inr s3"
      using l f(2) i s2(1) s3(1)
      by (simp add: handlepacket_arp [OF f(1)] sr_handle_arp_packet_def del: sr_attempt_send.simps)
    with True s2 s3 show ?thesis by (simp add: io_only_def)
  next
    case False
    then have "sr_handlepacket (Suc n) sr f ifc = Inr s2"
      using l f(2) i s2(1)
      by (simp add: handlepacket_arp [OF f(1)] sr_handle_arp_packet_def del: sr_attempt_send.simps)
    with False s2 show ?thesis by simp
  qed
qed

section \<open>Properties: giving up\<close>

definition first_addr :: "(req_addr \<times> sr_arpreq) list \<Rightarrow> req_addr option" where
  "first_addr rs = (case rs of [] \<Rightarrow> None | (a, r) # _ \<Rightarrow> Some a)"

lemma next_of_split:
  "a \<notin> set (map fst pre) \<Longrightarrow> next_of a (pre @ (a, r) # suf) = Inr (first_addr suf)"
  by (induction pre) (auto simp: first_addr_def split: list.split)

lemma next_of_absent: "a \<notin> set (map fst rs) \<Longrightarrow> next_of a rs = Inl UseAfterFree"
  by (induction a rs rule: next_of.induct) auto

lemma upd_req_split:
  "a \<notin> set (map fst pre) \<Longrightarrow> upd_req a f (pre @ (a, r) # suf) = pre @ (a, f r) # suf"
  by (induction pre) auto

lemma wf_state_split:
  assumes "wf_state fl ifs rt now sr" "requests (cache sr) = pre @ (a, r) # suf"
  shows "a \<notin> set (map fst pre)" "req_at sr a = Some r"
proof -
  have "distinct (map fst (pre @ (a, r) # suf))"
    using assms by (auto simp: wf_state_def wf_cache_def wf_queue_def)
  then show 1: "a \<notin> set (map fst pre)" by auto
  have "map_of pre a = None" using 1 by (simp add: map_of_eq_None_iff)
  then show "req_at sr a = Some r" using assms(2) by (simp add: req_at_def map_add_def)
qed

lemma sweep_loop_calm:
  assumes "wf_state fl ifs rt now sr" "requests (cache sr) = pre @ suf"
    "\<forall>(a, r)\<in>set suf. \<not> armed now r" "length suf \<le> k"
  shows "\<exists>sr'. sweep_loop k send (first_addr suf) sr = Inr sr' \<and> wf_state fl ifs rt now sr'
    \<and> requests (cache sr') = pre @ map (\<lambda>(a, r). (a, resend now r)) suf"
  using assms
proof (induction suf arbitrary: k sr pre)
  case (Cons x suf)
  obtain a r where x: "x = (a, r)" by (cases x)
  obtain k' where k: "k = Suc k'" using Cons.prems(4) by (cases k) auto
  note sp = wf_state_split [OF Cons.prems(1,2) [unfolded x]]
  have "\<not> armed now r" using Cons.prems(3) x by auto
  from handle_arpreq_calm [OF Cons.prems(1) sp(2) this, of send "{}"]
  obtain s1 where s1: "sr_handle_arpreq send sr a = Inr s1" "wf_state fl ifs rt now s1"
    "requests (cache s1) = (pre @ [(a, resend now r)]) @ suf"
    using Cons.prems(2) x upd_req_split [OF sp(1)] by auto
  have "next_of a (requests (cache s1)) = Inr (first_addr suf)"
    using s1(3) next_of_split [OF sp(1)] by simp
  moreover obtain s2 where "sweep_loop k' send (first_addr suf) s1 = Inr s2" "wf_state fl ifs rt now s2"
    "requests (cache s2) = (pre @ [(a, resend now r)]) @ map (\<lambda>(a, r). (a, resend now r)) suf"
    using Cons.IH [OF s1(2,3)] Cons.prems(3,4) k by auto
  ultimately show ?case using s1(1) x k by (simp add: first_addr_def)
qed (simp add: first_addr_def)

lemma handle_arpreq_destroys:
  assumes "wf_cache (cache sr)" "req_at sr a = Some r" "armed (sr_now sr) r"
    "sr_handle_arpreq (sr_attempt_send n) sr a = Inr sr'"
  shows "a \<notin> set (map fst (requests (cache sr')))"
proof -
  obtain s1 where s1: "icmp_waiting_loop (sr_attempt_send n) a (packets r) sr = Inr s1"
    "sr' = s1\<lparr> cache := sr_arpreq_destroy (cache s1) a \<rparr>"
    using assms(2-4) by (auto simp: sr_handle_arpreq_def bnd_eq_Inr gs.deref_req_at armed_def
        sr_send_icmp_to_waiting_def Let_def split: if_splits)
  have "loop_set sr {}" by (simp add: loop_set_def)
  from gs.icmp_waiting_loop_grows [OF assms(1) this s1(1)] have "wf_cache (cache s1)" by simp
  then show ?thesis using s1(2)
    by (auto simp: wf_cache_def wf_queue_def sr_arpreq_destroy_def unlink_addr_filter)
qed

lemma sweep_loop_armed:
  assumes "wf_state True ifs rt now sr" "requests (cache sr) = pre @ suf"
    "\<exists>(a, r)\<in>set suf. armed now r" "length suf \<le> k"
  shows "sweep_loop k (sr_attempt_send n) (first_addr suf) sr \<in> {Inl UseAfterFree, Inl OutOfFuel}"
  using assms
proof (induction suf arbitrary: k sr pre)
  case (Cons x suf)
  obtain a r where x: "x = (a, r)" by (cases x)
  obtain k' where k: "k = Suc k'" using Cons.prems(4) by (cases k) auto
  note sp = wf_state_split [OF Cons.prems(1,2) [unfolded x]]
  note [simp] = wf_state_simps [OF Cons.prems(1)]
  show ?case
  proof (cases "armed now r")
    case True
    have "safe True (\<lambda>_. True) (sr_handle_arpreq (sr_attempt_send n) sr a)"
      by (rule safe_mono [OF ss.handle_arpreq_safe [OF Cons.prems(1) _ sp(2), of "[]"]]) auto
    then consider "sr_handle_arpreq (sr_attempt_send n) sr a = Inl OutOfFuel"
      | s1 where "sr_handle_arpreq (sr_attempt_send n) sr a = Inr s1" by (auto simp: safe_cases)
    then show ?thesis
    proof cases
      case (2 s1)
      have "next_of a (requests (cache s1)) = Inl UseAfterFree"
        by (rule next_of_absent) (use handle_arpreq_destroys [OF wf_state_simps(4) [OF Cons.prems(1)] sp(2) _ 2] True in simp)
      with 2 x k show ?thesis by (simp add: first_addr_def)
    qed (use x k in \<open>simp add: first_addr_def\<close>)
  next
    case False
    from handle_arpreq_calm [OF Cons.prems(1) sp(2) this, of "sr_attempt_send n" "{}"]
    obtain s1 where s1: "sr_handle_arpreq (sr_attempt_send n) sr a = Inr s1" "wf_state True ifs rt now s1"
      "requests (cache s1) = (pre @ [(a, resend now r)]) @ suf"
      using Cons.prems(2) x upd_req_split [OF sp(1)] by auto
    have "next_of a (requests (cache s1)) = Inr (first_addr suf)"
      using s1(3) next_of_split [OF sp(1)] by simp
    moreover have "sweep_loop k' (sr_attempt_send n) (first_addr suf) s1 \<in> {Inl UseAfterFree, Inl OutOfFuel}"
      using Cons.IH [OF s1(2,3)] Cons.prems(3,4) k False x by auto
    ultimately show ?thesis using s1(1) x k by (simp add: first_addr_def)
  qed
qed simp


text \<open>
  C38. Unbounded recursion: let a gateway fail to answer five requests while a packet waits
  for it whose own source lies behind the same gateway. From then on, sending any packet
  through that gateway exceeds every recursion depth: the error message for the waiting
  packet must itself be sent through the gateway, which gives up the request again.
\<close>

theorem sr_attempt_send_diverges:
  assumes w: "wf_state True ifs rt now sr" and f: "wf_frame f" "src_ok ifs f i"
    and r: "req_for (cache sr) ip = Some (a, r)" "now - sent r > 1" "times_sent r \<ge> 5" "p \<in> set (packets r)"
    and rb: "longest_prefix_match rt (ip_src (ip_at (p_buf p))) = Some route" "gw route = ip"
    and un: "sr_arpcache_lookup (cache sr) ip = None"
  shows "sr_attempt_send n sr ip f i = Inl OutOfFuel"
proof -
  note [simp] = wf_state_simps [OF w]
  have at: "req_at sr a = Some r" "r_ip r = ip"
    using req_for_SomeD [OF r(1)] req_at_set [of sr a r] by auto
  have route: "route \<in> set rt" using lpm_in_table [OF rb(1)] by simp
  then have "sr_get_interface ifs (interface route) \<noteq> None"
    using wf_state_cfg [OF w] by (auto simp: wf_config_def)
  then have st: "sends_to sr a ip"
    using at r rb by (auto simp: sends_to_def armed_def icmp_target_def)
  have l: "loop_set sr {a}" using st at un by (auto simp: loop_set_def)
  have k: "known_gw rt ip" using route rb(2) by (auto simp: known_gw_def)
  have "safe True (\<lambda>sr'. wf_state True ifs rt now sr' \<and> grows (set []) sr sr') (sr_attempt_send n sr ip f i)"
    by (rule ss.send_safe [OF w _ f k]) simp
  moreover have "sr_attempt_send n sr ip f i \<noteq> Inr sr'" for sr'
    using gs.send_cycle [OF _ wf_frame_nonempty [OF f(1)] l _ at(1), of n i sr'] un at(2) by auto
  ultimately show ?thesis by (auto simp: safe_cases)
qed

section \<open>Properties: malformed datagrams\<close>

text \<open>
  A datagram with IP options for one of the router's addresses overruns the heap: if
  it is not ICMP, its header is longer than 20 bytes and it lies inside the frame, the
  port-unreachable message copies more than the 28 bytes its buffer has room for.
\<close>

theorem sr_icmp3_overflow:
  assumes "ethertype f = Inr ethertype_ip" "5 < unat (ip_hl (ip_at f))"
    "14 + (4 * unat (ip_hl (ip_at f)) + 8) \<le> length f"
    "sr_check_packet sr (ip_dst (ip_at f)) \<noteq> None" "ip_p (ip_at f) \<noteq> ip_protocol_icmp"
  shows "sr_handlepacket n sr f ifc = Inl OutOfBounds"
proof -
  have "34 \<le> length f" using assms(2,3) by simp
  with assms show ?thesis
    by (simp add: handlepacket_ip sr_handle_ip_packet_def load_ip_fields Let_def sr_handle_my_ip_packet_def
        sr_send_icmp3_def read_bytes_def write_bytes_def)
qed

section \<open>Concrete instances\<close>

text \<open>The sample router with both gateways resolved, and with a request about to be given up.\<close>

definition sample_entries :: "sr_arpentry list" where
  "sample_entries = [\<lparr> mac = [1,1,1,1,1,1], e_ip = 0x0200000A, added = 100, valid = True \<rparr>,
     \<lparr> mac = [2,2,2,2,2,2], e_ip = 0x0200010A, added = 100, valid = True \<rparr>] @ replicate 98 empty_entry"

definition resolved_router :: sr_instance where
  "resolved_router = sample_router\<lparr> cache := \<lparr> entries = sample_entries, requests = [], next_req = 0 \<rparr> \<rparr>"

text \<open>A UDP or ICMP datagram of 28 bytes from 10.0.1.2.\<close>

definition sample_dgram :: "byte \<Rightarrow> byte \<Rightarrow> bytes \<Rightarrow> bytes" where
  "sample_dgram ttl p d = [2,0,0,0,0,1, 9,9,9,9,9,9, 8,0,
     0x45,0,0,28, 0,0,0,0, ttl,p,0,0, 10,0,1,2] @ d @ [8,0,0,0, 1,1,1,1]"

lemma empty_entry_invalid [simp]: "\<not> valid empty_entry"
  by (simp add: empty_entry_def)

lemma sample_lookup:
  "sr_arpcache_lookup (cache resolved_router) 0x0200000A = Some \<lparr> mac = [1,1,1,1,1,1], e_ip = 0x0200000A, added = 100, valid = True \<rparr>"
  "sr_arpcache_lookup (cache resolved_router) 0x0200010A = Some \<lparr> mac = [2,2,2,2,2,2], e_ip = 0x0200010A, added = 100, valid = True \<rparr>"
  by (simp_all add: lookup_last resolved_router_def sample_entries_def live_for_def last_some_def)

lemma resolved_router_wf: "wf_state fl sample_ifs sample_rt 100 resolved_router"
proof -
  have "wf_cache (cache resolved_router)"
    by (simp add: wf_cache_def wf_queue_def resolved_router_def sample_entries_def)
  moreover have "\<forall>e\<in>set (entries (cache resolved_router)). valid e \<longrightarrow> length (mac e) = 6"
    by (auto simp: resolved_router_def sample_entries_def)
  ultimately show ?thesis
    by (simp add: wf_state_def sample_config resolved_router_def sample_router_def)
qed

lemma sample_lpm:
  "longest_prefix_match sample_rt 0x0201000A = Some (sample_rt ! 0)"
  "longest_prefix_match sample_rt 0x0200010A = Some (sample_rt ! 1)"
  "longest_prefix_match sample_rt 0x0300000A = Some (sample_rt ! 0)"
  by (simp_all add: longest_prefix_match_def sample_rt_def)

lemma sample_route_fields:
  "gw (sample_rt ! 0) = 0x0200000A" "interface (sample_rt ! 0) = ''eth0''"
  "gw (sample_rt ! Suc 0) = 0x0200010A" "interface (sample_rt ! Suc 0) = ''eth1''"
  "sr_get_interface sample_ifs ''eth0'' = Some (sample_ifs ! 0)"
  "sr_get_interface sample_ifs ''eth1'' = Some (sample_ifs ! Suc 0)"
  by (simp_all add: sample_rt_def sample_ifs_def strncmp_eq_def)

lemma resolved_router_fields [simp]:
  "if_list resolved_router = sample_ifs" "routing_table resolved_router = sample_rt" "sock_up resolved_router"
  "wire resolved_router = []" "requests (cache resolved_router) = []" "sr_now resolved_router = 100"
  by (simp_all add: resolved_router_def sample_router_def)

lemma sample_reply_path:
  "reply_path resolved_router 0x0201000A (sample_ifs ! 0) \<lparr> mac = [1,1,1,1,1,1], e_ip = 0x0200000A, added = 100, valid = True \<rparr>"
  by (simp add: reply_path_def sample_lpm sample_route_fields sample_lookup)

lemma sample_dgram_ip:
  assumes "length d = 4"
  shows "ethertype (sample_dgram ttl p d) = Inr ethertype_ip" "wf_frame (sample_dgram ttl p d)"
    "ip_at (sample_dgram ttl p d) = \<lparr> ip_hl = 5, ip_v = 4, ip_tos = 0, ip_len = 0x1C00, ip_id = 0, ip_off = 0,
      ip_ttl = ttl, ip_p = p, ip_sum = 0, ip_src = 0x0201000A, ip_dst = le32 (d!0) (d!1) (d!2) (d!3) \<rparr>"
    "length (sample_dgram ttl p d) = 42"
proof -
  obtain a b c e where d: "d = [a, b, c, e]"
    using assms by (auto simp: length_Suc_conv numeral_eq_Suc)
  show ip: "ip_at (sample_dgram ttl p d) = \<lparr> ip_hl = 5, ip_v = 4, ip_tos = 0, ip_len = 0x1C00, ip_id = 0, ip_off = 0,
      ip_ttl = ttl, ip_p = p, ip_sum = 0, ip_src = 0x0201000A, ip_dst = le32 (d!0) (d!1) (d!2) (d!3) \<rparr>"
    by (simp add: ip_at_def ip_of_def sample_dgram_def d, simp add: le16_def le32_def)
  show l: "length (sample_dgram ttl p d) = 42" using assms by (simp add: sample_dgram_def)
  show "wf_frame (sample_dgram ttl p d)" by (simp add: wf_frame_def ip l)
  show "ethertype (sample_dgram ttl p d) = Inr ethertype_ip"
    by (simp add: ethertype_def load_eth_def read_bytes_def l)
      (simp add: sample_dgram_def eth_of_def le16_def htons_def ethertype_ip_def)
qed

lemma sample_mine: "sr_check_packet resolved_router 0x0100000A = Some (sample_ifs ! 0)"
  "sr_check_packet resolved_router 0x0200010A = None"
  by (simp_all add: sr_check_packet_def sample_ifs_def)

text \<open>A datagram for 10.1.0.2, through eth1.\<close>

lemma transit: "length [10,1,0,2 :: byte] = 4" "le32 10 1 0 2 = 0x0200010A"
  and local: "length [10,0,0,1 :: byte] = 4" "le32 10 0 0 1 = 0x0100000A"
  by (simp_all add: le32_def)

theorem sr_forwards_packet_witness:
  "\<exists>sr' h. sr_handlepacket 1 resolved_router (sample_dgram 64 17 [10,1,0,2]) ''eth0'' = Inr sr'
    \<and> wire sr' = [(''eth1'', [2,2,2,2,2,2] @ [2,0,0,0,0,2] @ [8,0] @ ip_bytes h @ [8,0,0,0, 1,1,1,1])]
    \<and> ip_ttl h = 63 \<and> cksum (ip_bytes h) = 0xFFFF"
proof -
  let ?f = "sample_dgram 64 17 [10,1,0,2]"
  note d = sample_dgram_ip [OF transit(1), of 64 17]
  have "\<exists>sr' h. sr_handlepacket (Suc 0) resolved_router ?f ''eth0'' = Inr sr' \<and> cache sr' = cache resolved_router
    \<and> wire sr' = wire resolved_router @ [(strncpy 16 (interface (sample_rt ! 1)),
         mac \<lparr> mac = [2,2,2,2,2,2], e_ip = 0x0200010A, added = 100, valid = True \<rparr> @ addr (sample_ifs ! 1)
         @ take 2 (drop 12 ?f) @ ip_bytes h @ drop 34 ?f)]
    \<and> h = (ip_at ?f)\<lparr> ip_ttl := ip_ttl (ip_at ?f) - 1, ip_sum := ip_sum h \<rparr> \<and> cksum (ip_bytes h) = 0xFFFF"
    by (rule sr_forwards_packet [OF resolved_router_wf d(1,2)])
      (simp_all add: d(3) transit(2) sample_mine sample_lpm sample_route_fields sample_lookup)
  then obtain sr' h where "sr_handlepacket (Suc 0) resolved_router ?f ''eth0'' = Inr sr'"
    "wire sr' = [(''eth1'', [2,2,2,2,2,2] @ [2,0,0,0,0,2] @ [8,0] @ ip_bytes h @ [8,0,0,0, 1,1,1,1])]"
    "h = (ip_at ?f)\<lparr> ip_ttl := ip_ttl (ip_at ?f) - 1, ip_sum := ip_sum h \<rparr>" "cksum (ip_bytes h) = 0xFFFF"
    by (auto simp: sample_route_fields strncpy_def sample_dgram_def sample_ifs_def)
  moreover have "ip_ttl h = 63" using d(3) by (subst calculation(3)) simp
  ultimately show ?thesis by auto
qed

theorem sr_answers_echo_witness:
  "\<exists>sr'. sr_handlepacket 1 resolved_router (sample_dgram 64 1 [10,0,0,1]) ''eth0'' = Inr sr'
    \<and> wire sr' = [(''eth0'', ip_frame [1,1,1,1,1,1] [2,0,0,0,0,1] ip_protocol_icmp 0x0100000A 0x0201000A
         (icmp_msg 0 0 [1,1,1,1]))]"
proof -
  let ?f = "sample_dgram 64 1 [10,0,0,1]"
  note d = sample_dgram_ip [OF local(1), of 64 1]
  have ic: "load_icmp ?f (14 + 4 * unat (ip_hl (ip_at ?f))) = Inr \<lparr> icmp_type = 8, icmp_code = 0, icmp_sum = 0 \<rparr>"
    by (simp add: load_icmp_def read_bytes_def d(3,4)) (simp add: sample_dgram_def icmp_of_def le16_def)
  have "\<exists>sr'. sr_handlepacket (Suc 0) resolved_router ?f ''eth0'' = Inr sr' \<and> cache sr' = cache resolved_router
    \<and> wire sr' = wire resolved_router @ [(strncpy 16 (if_name (sample_ifs ! 0)),
         ip_frame (mac \<lparr> mac = [1,1,1,1,1,1], e_ip = 0x0200000A, added = 100, valid = True \<rparr>) (addr (sample_ifs ! 0))
           ip_protocol_icmp (ip_dst (ip_at ?f)) (ip_src (ip_at ?f)) (icmp_msg 0 0 [1,1,1,1]))]
    \<and> cksum (icmp_msg 0 0 [1,1,1,1]) = 0xFFFF"
    by (rule sr_answers_echo [OF resolved_router_wf d(1,2) _ _ _ _ ic])
      (simp_all add: d(3,4) local(2) sample_mine sample_reply_path htons_def le16_def ip_protocol_icmp_def,
       simp add: sample_dgram_def)
  then show ?thesis by (auto simp: d(3) local(2) strncpy_def sample_ifs_def)
qed

theorem sr_answers_ttl_exceeded_witness:
  "\<exists>sr'. sr_handlepacket 1 resolved_router (sample_dgram 1 17 [10,1,0,2]) ''eth0'' = Inr sr'
    \<and> wire sr' = [(''eth0'', ip_frame [1,1,1,1,1,1] [2,0,0,0,0,1] ip_protocol_icmp 0x0100000A 0x0201000A
         (icmp_msg 11 0 ([0,0,0,0] @ quoted (sample_dgram 1 17 [10,1,0,2]))))]"
proof -
  let ?f = "sample_dgram 1 17 [10,1,0,2]"
  note d = sample_dgram_ip [OF transit(1), of 1 17]
  have "\<exists>sr'. sr_handlepacket (Suc 0) resolved_router ?f ''eth0'' = Inr sr' \<and> cache sr' = cache resolved_router
    \<and> wire sr' = wire resolved_router @ [(strncpy 16 (if_name (sample_ifs ! 0)),
         ip_frame (mac \<lparr> mac = [1,1,1,1,1,1], e_ip = 0x0200000A, added = 100, valid = True \<rparr>) (addr (sample_ifs ! 0))
           ip_protocol_icmp (if_ip (sample_ifs ! 0)) (ip_src (ip_at ?f)) (icmp_msg 11 0 ([0,0,0,0] @ quoted ?f)))]"
    by (rule sr_answers_ttl_exceeded [OF resolved_router_wf d(1,2)])
      (simp_all add: d(3) transit(2) sample_mine sample_reply_path sample_route_fields)
  then show ?thesis by (auto simp: d(3) strncpy_def sample_ifs_def)
qed

theorem sr_answers_unreachable_witness:
  "\<exists>sr'. sr_handlepacket 1 resolved_router (sample_dgram 64 17 [10,0,0,1]) ''eth0'' = Inr sr'
    \<and> wire sr' = [(''eth0'', ip_frame [1,1,1,1,1,1] [2,0,0,0,0,1] ip_protocol_icmp 0x0100000A 0x0201000A
         (icmp_msg 3 3 ([0,0,0,0] @ quoted (sample_dgram 64 17 [10,0,0,1]))))]"
proof -
  let ?f = "sample_dgram 64 17 [10,0,0,1]"
  note d = sample_dgram_ip [OF local(1), of 64 17]
  have hl: "ip_hl (ip_at ?f) = 5" by (simp add: d(3))
  have rp: "reply_path resolved_router (ip_src (ip_at ?f)) (sample_ifs ! 0)
      \<lparr> mac = [1,1,1,1,1,1], e_ip = 0x0200000A, added = 100, valid = True \<rparr>"
    by (simp add: d(3) sample_reply_path)
  note u = sr_answers_unreachable [OF resolved_router_wf d(1,2) hl sample_route_fields(5) rp resolved_router_fields(3), of 0]
  have "\<exists>sr'. sr_handlepacket (Suc 0) resolved_router ?f ''eth0'' = Inr sr' \<and> cache sr' = cache resolved_router
    \<and> wire sr' = wire resolved_router @ [(strncpy 16 (if_name (sample_ifs ! 0)),
         ip_frame (mac \<lparr> mac = [1,1,1,1,1,1], e_ip = 0x0200000A, added = 100, valid = True \<rparr>) (addr (sample_ifs ! 0))
           ip_protocol_icmp (ip_dst (ip_at ?f)) (ip_src (ip_at ?f)) (icmp_msg 3 3 ([0,0,0,0] @ quoted ?f)))]"
    by (rule u [THEN conjunct1, THEN mp]) (simp add: d(3) local(2) sample_mine ip_protocol_icmp_def)
  then show ?thesis by (auto simp: d(3) local(2) strncpy_def sample_ifs_def)
qed

lemma sample_fresh: "sr_arpcache_lookup (cache sample_router) ip = None" "requests (cache sample_router) = []"
  "sock_up sample_router" "wire sample_router = []" "\<not> cache_full (cache sample_router)"
  "if_list sample_router = sample_ifs"
proof -
  have "filter (live_for ip) (entries (cache sample_router)) = []"
    by (simp add: sample_router_def sr_arpcache_init_def live_for_def filter_empty_conv)
  then show "sr_arpcache_lookup (cache sample_router) ip = None" by (simp add: lookup_last)
qed (simp_all add: sample_router_def sr_arpcache_init_def cache_full_def)

text \<open>A datagram already rewritten to leave through eth0.\<close>

definition sample_out :: bytes where
  "sample_out = take 6 (sample_dgram 63 17 [10,0,0,3]) @ [2,0,0,0,0,1] @ drop 12 (sample_dgram 63 17 [10,0,0,3])"

lemma sample_out: "wf_frame sample_out" "src_ok sample_ifs sample_out ''eth0''"
  "ip_src (ip_at sample_out) = 0x0201000A"
proof -
  have d4: "length [10,0,0,3 :: byte] = 4" by simp
  note d = sample_dgram_ip [OF d4, of 63 17]
  have "ip_at sample_out = ip_at (sample_dgram 63 17 [10,0,0,3])"
    unfolding sample_out_def by (rule ip_at_shost) (simp_all add: d(4))
  then show "ip_src (ip_at sample_out) = 0x0201000A" by (simp add: d(3))
  show "wf_frame sample_out" unfolding sample_out_def by (rule wf_frame_shost) (simp_all add: d(2))
  show "src_ok sample_ifs sample_out ''eth0''"
    by (simp add: src_ok_def sample_route_fields) (simp add: sample_out_def sample_dgram_def sample_ifs_def)
qed


text \<open>An ARP reply from the gateway 10.0.0.2 to 10.0.0.1.\<close>

definition sample_arp :: bytes where
  "sample_arp = [2,0,0,0,0,1, 5,5,5,5,5,5, 8,6, 0,1, 8,0, 6, 4, 0,2, 5,5,5,5,5,5, 10,0,0,2, 2,0,0,0,0,1, 10,0,0,1]"

lemma sample_arp: "ethertype sample_arp = Inr ethertype_arp"
  "load_arp sample_arp 14 = Inr \<lparr> ar_hrd = 0x100, ar_pro = 8, ar_hln = 6, ar_pln = 4, ar_op = 0x200,
     ar_sha = [5,5,5,5,5,5], ar_sip = 0x0200000A, ar_tha = [2,0,0,0,0,1], ar_tip = 0x0100000A \<rparr>"
  by (simp_all add: ethertype_def load_eth_def load_arp_def read_bytes_def sample_arp_def eth_of_def arp_of_def
      le16_def le32_def htons_def ethertype_arp_def)

theorem sr_arp_resolves_witness:
  "\<exists>sr'. sr_handlepacket 1 sample_router sample_arp ''eth0'' = Inr sr'
    \<and> arp_mac (cache sr') 0x0200000A = Some [5,5,5,5,5,5] \<and> wire sr' = []"
proof -
  have "arp_mac (cache sample_router) 0x0200000A = None" by (simp add: arp_mac_def sample_fresh)
  from sr_arp_resolves [OF sample_router_wf sample_arp sample_route_fields(5) _ _ _ sample_fresh(5,3), of 0] this
  show ?thesis
    by (simp add: sample_ifs_def sample_fresh waiting_def req_for_def htons_def le16_def arp_op_request_def) blast
qed

text \<open>A request sent five times, still holding a packet from behind its own gateway.\<close>

definition tired_req :: "sr_arpreq" where
  "tired_req = \<lparr> r_ip = 0x0200000A, sent = 98, times_sent = 5, packets = [new_packet sample_out ''eth0''] \<rparr>"

definition tired_router :: sr_instance where
  "tired_router = sample_router\<lparr> cache := (cache sample_router)\<lparr> requests := [(0, tired_req)], next_req := 1 \<rparr> \<rparr>"

lemma tired_router_wf: "wf_state True sample_ifs sample_rt 100 tired_router"
proof -
  have "wf_req True sample_ifs sample_rt 100 tired_req"
    using sample_out by (auto simp: wf_req_def tired_req_def known_gw_def sample_rt_def new_packet_def)
  moreover have "wf_cache (cache tired_router)"
    using sample_router_wf [of True] by (simp add: wf_state_def wf_cache_def wf_queue_def tired_router_def)
  ultimately show ?thesis using sample_router_wf [of True]
    by (simp add: wf_state_def tired_router_def)
qed


theorem sr_attempt_send_diverges_witness:
  "\<forall>n. sr_attempt_send n tired_router 0x0200000A sample_out ''eth0'' = Inl OutOfFuel"
proof
  fix n
  have l: "sr_arpcache_lookup (cache tired_router) 0x0200000A = None"
    using sample_fresh(1) by (simp add: tired_router_def sr_arpcache_lookup_def)
  have r: "req_for (cache tired_router) 0x0200000A = Some (0, tired_req)"
    by (simp add: tired_router_def req_for_def tired_req_def)
  show "sr_attempt_send n tired_router 0x0200000A sample_out ''eth0'' = Inl OutOfFuel"
    by (rule sr_attempt_send_diverges [OF tired_router_wf sample_out(1,2) r _ _ _ _ _ l,
          where p = "new_packet sample_out ''eth0''" and route = "sample_rt ! 0"])
      (simp_all add: tired_req_def new_packet_def sample_out sample_lpm sample_route_fields)
qed

text \<open>A UDP datagram for 10.0.0.1 with one word of options.\<close>

theorem sr_icmp3_overflow_witness:
  "sr_handlepacket 1 sample_router ([2,0,0,0,0,1, 9,9,9,9,9,9, 8,0,
     0x46,0,0,32, 0,0,0,0, 64,17,0,0, 10,0,1,2, 10,0,0,1, 1,1,1,1, 0,7,0,7, 0,8,0,0]) ''eth0'' = Inl OutOfBounds"
  by (rule sr_icmp3_overflow)
    (simp_all add: ethertype_def load_eth_def read_bytes_def eth_of_def le16_def htons_def ethertype_ip_def
      ip_at_def ip_of_def le32_def sample_fresh sr_check_packet_def sample_ifs_def ip_protocol_icmp_def)

end
