(* ===== verification/RouterRun.thy ===== *)
theory RouterRun
  imports RouterSpec
begin

text \<open>
  The router as a state machine: the main thread receives frames, the timeout thread wakes
  up at later and later times. A run interleaves the two, each event being one atomic step
  that returns; a step that faults or does not return is no step of the run. The invariant
  of the sending and receiving functions holds in every reachable state.
\<close>

datatype router_event = Receive bytes string | Timeout int

inductive router_step :: "nat \<Rightarrow> sr_instance \<Rightarrow> router_event \<Rightarrow> sr_instance \<Rightarrow> bool" for n where
  receive: "sr_handlepacket n sr f ifc = Inr sr' \<Longrightarrow> router_step n sr (Receive f ifc) sr'"
| timeout: "sr_now sr \<le> t \<Longrightarrow> sr_arpcache_timeout n t sr = Inr sr' \<Longrightarrow> router_step n sr (Timeout t) sr'"

inductive_simps router_step_simps: "router_step n sr (Receive f ifc) sr'" "router_step n sr (Timeout t) sr'"

text \<open>Frames the environment may deliver: contained IP datagrams, on existing interfaces.\<close>

fun event_ok :: "sr_if list \<Rightarrow> router_event \<Rightarrow> bool" where
  "event_ok ifs (Receive f ifc) \<longleftrightarrow> wf_rx f \<and> sr_get_interface ifs ifc \<noteq> None \<and> length ifc < 32"
| "event_ok ifs (Timeout t) \<longleftrightarrow> True"

inductive router_reach :: "nat \<Rightarrow> sr_instance \<Rightarrow> sr_instance \<Rightarrow> bool" for n s0 where
  start: "router_reach n s0 (sr_init s0)"
| step: "router_reach n s0 s \<Longrightarrow> event_ok (if_list s) ev \<Longrightarrow> router_step n s ev s' \<Longrightarrow> router_reach n s0 s'"

lemma wf_state_init:
  assumes "wf_config (if_list s) (routing_table s)"
  shows "wf_state fl (if_list s) (routing_table s) (sr_now s) (sr_init s)"
  using assms by (simp add: wf_state_def sr_init_def wf_cache_init)
    (simp add: sr_arpcache_init_def)

lemma wf_state_tick:
  assumes "wf_state True ifs rt now sr"
  shows "wf_state True ifs rt t (sr\<lparr> sr_now := t, cache := expire_entries t (cache sr) \<rparr>)"
  using assms by (auto simp: wf_state_def wf_cache_expire wf_req_def) (auto simp: expire_entries_def wf_req_def split: if_splits)

lemma sweepreqs_Inr:
  assumes "wf_state True ifs rt now sr" "sr_arpcache_sweepreqs (sr_attempt_send n) sr = Inr sr'"
  shows "wf_state True ifs rt now sr'"
proof -
  have *: "sr_arpcache_sweepreqs (sr_attempt_send n) sr = sweep_loop (length (requests (cache sr)))
      (sr_attempt_send n) (first_addr (requests (cache sr))) sr"
    by (simp add: sr_arpcache_sweepreqs_def first_addr_def)
  show ?thesis
  proof (cases "\<exists>(a, r)\<in>set (requests (cache sr)). armed now r")
    case True
    with sweep_loop_armed [OF assms(1), of "[]" "requests (cache sr)" "length (requests (cache sr))" n]
    show ?thesis using assms(2) * by simp
  next
    case False
    with sweep_loop_calm [OF assms(1), of "[]" "requests (cache sr)" "length (requests (cache sr))" "sr_attempt_send n"]
    show ?thesis using assms(2) * by auto
  qed
qed

lemma router_step_wf:
  assumes "router_step n s ev s'" "wf_state True ifs rt (sr_now s) s" "event_ok ifs ev"
  shows "wf_state True ifs rt (sr_now s') s'"
  using assms(1)
proof (cases rule: router_step.cases)
  case (receive f ifc)
  have "safe True (wf_state True ifs rt (sr_now s)) (sr_handlepacket n s f ifc)"
    by (rule handlepacket_safe [OF ss.safe_sender_axioms assms(2)]) (use assms(3) receive in auto)
  with receive show ?thesis using wf_state_simps(3) by fastforce
next
  case (timeout t)
  with sweepreqs_Inr [OF wf_state_tick [OF assms(2)]] show ?thesis
    using wf_state_simps(3) by (fastforce simp: sr_arpcache_timeout_def)
qed

lemma router_reach_wf:
  "router_reach n s0 s \<Longrightarrow> wf_config (if_list s0) (routing_table s0) \<Longrightarrow>
   wf_state True (if_list s0) (routing_table s0) (sr_now s) s"
proof (induction rule: router_reach.induct)
  case start
  then show ?case using wf_state_init by (simp add: sr_init_def)
next
  case (step s ev s')
  then show ?case using router_step_wf wf_state_simps(1) by metis
qed



end
