(* ===== verification/Vns.thy ===== *)
theory Vns
  imports RouterSafe Sha1
begin

text \<open>
  The client of the virtual network server, \<^verbatim>\<open>sr_vns_comm.c\<close> with the messages of
  \<^verbatim>\<open>vnscommand.h\<close>: reading a length-prefixed command from the stream socket, dispatching
  it, configuring the interfaces from a hardware description, authenticating with a salted
  SHA-1, storing a routing table file. What the socket will deliver is a list of results
  of \<^verbatim>\<open>recv\<close>: data, an interrupted call, an error; an empty chunk is end of file. Files
  are a map from names to contents. The lemmas show that a command is read whole however
  the stream is segmented, and what each command does.
\<close>

section \<open>Messages\<close>

definition VNSOPEN :: u32 where "VNSOPEN = 1"
definition VNSCLOSE :: u32 where "VNSCLOSE = 2"
definition VNSPACKET :: u32 where "VNSPACKET = 4"
definition VNSBANNER :: u32 where "VNSBANNER = 8"
definition VNSHWINFO :: u32 where "VNSHWINFO = 16"
definition VNS_RTABLE :: u32 where "VNS_RTABLE = 32"
definition VNS_OPEN_TEMPLATE :: u32 where "VNS_OPEN_TEMPLATE = 64"
definition VNS_AUTH_REQUEST :: u32 where "VNS_AUTH_REQUEST = 128"
definition VNS_AUTH_REPLY :: u32 where "VNS_AUTH_REPLY = 256"
definition VNS_AUTH_STATUS :: u32 where "VNS_AUTH_STATUS = 512"

definition HWINTERFACE :: u32 where "HWINTERFACE = 1"
definition HWETHER :: u32 where "HWETHER = 32"
definition HWETHIP :: u32 where "HWETHIP = 64"

definition IDSIZE :: nat where [simp]: "IDSIZE = 32"
definition sizeof_c_base :: nat where [simp]: "sizeof_c_base = 8"
definition sizeof_c_packet_header :: nat where [simp]: "sizeof_c_packet_header = 24"
definition sizeof_c_packet_ethernet_header :: nat where [simp]: "sizeof_c_packet_ethernet_header = 38"
definition sizeof_c_hw_entry :: nat where [simp]: "sizeof_c_hw_entry = 36"
definition AUTH_KEY_LEN :: nat where [simp]: "AUTH_KEY_LEN = 64"
definition SHA1_LEN :: nat where [simp]: "SHA1_LEN = 20"

definition bytes_of_string :: "string \<Rightarrow> bytes" where
  "bytes_of_string s = map (\<lambda>c. of_nat (of_char c)) s"

definition string_of_bytes :: "bytes \<Rightarrow> string" where
  "string_of_bytes b = map (\<lambda>x. char_of (unat x)) b"

text \<open>The fixed-size character arrays of the messages: cut by \<^verbatim>\<open>strncpy\<close>, padded with NULs.\<close>

definition char_array :: "nat \<Rightarrow> string \<Rightarrow> bytes" where
  "char_array n s = take n (bytes_of_string s) @ replicate (n - length s) 0"

text \<open>A C string inside a buffer: it must be terminated before the buffer ends.\<close>

definition c_string_at :: "bytes \<Rightarrow> nat \<Rightarrow> string res" where
  "c_string_at buf off =
     (if 0 \<in> set (drop off buf) then Inr (string_of_bytes (takeWhile (\<lambda>x. x \<noteq> 0) (drop off buf)))
      else Inl OutOfBounds)"

definition load_u32 :: "bytes \<Rightarrow> nat \<Rightarrow> u32 res" where
  "load_u32 buf off = bnd (read_bytes buf off 4) (\<lambda>b. Inr (le32 (b ! 0) (b ! 1) (b ! 2) (b ! 3)))"

definition packet_msg :: "string \<Rightarrow> bytes \<Rightarrow> bytes" where
  "packet_msg iface buf = bytes32 (htonl (of_nat (length buf + sizeof_c_packet_header)))
     @ bytes32 (htonl VNSPACKET) @ char_array 16 iface @ buf"

definition open_msg :: "u16 \<Rightarrow> string \<Rightarrow> string \<Rightarrow> bytes" where
  "open_msg topo hst usr = bytes32 (htonl 108) @ bytes32 (htonl VNSOPEN) @ bytes16 (htons topo) @ [0, 0]
     @ char_array IDSIZE hst @ char_array IDSIZE usr @ calloc IDSIZE"

definition open_template_msg :: "string \<Rightarrow> string \<Rightarrow> bytes" where
  "open_template_msg templ hst = bytes32 (htonl 70) @ bytes32 (htonl VNS_OPEN_TEMPLATE)
     @ char_array 30 templ @ char_array IDSIZE hst"

section \<open>State\<close>

datatype recv_result = Data bytes | Eintr | SockError

record vns =
  router :: sr_instance
  files :: "string \<Rightarrow> bytes option"
  writable :: bool
  incoming :: "recv_result list"
  sent_ctl :: "bytes list"

section \<open>Reading a command\<close>

text \<open>
  The read loops: until \<open>n\<close> bytes have arrived; \<open>None\<close> is the error return. A chunk
  longer than what is asked for stays in the socket. An empty chunk (end of file) changes
  nothing, and the loop asks again.
\<close>

fun recv_loop :: "nat \<Rightarrow> bytes \<Rightarrow> recv_result list \<Rightarrow> (bytes option \<times> recv_result list) res" where
  "recv_loop n acc evs = (if n \<le> length acc then Inr (Some acc, evs) else
     (case evs of [] \<Rightarrow> Inl Blocked
      | Eintr # evs \<Rightarrow> recv_loop n acc evs
      | SockError # evs \<Rightarrow> Inr (None, evs)
      | Data b # evs \<Rightarrow>
          (let want = n - length acc in
           if length b \<le> want then recv_loop n (acc @ b) evs
           else Inr (Some (acc @ take want b), Data (drop want b) # evs))))"

section \<open>Handlers\<close>

definition sr_arp_req_not_for_us :: "sr_instance \<Rightarrow> bytes \<Rightarrow> nat \<Rightarrow> u32 \<Rightarrow> string \<Rightarrow> bool res" where
  "sr_arp_req_not_for_us sr buf off len ifc =
     (let iface = sr_get_interface (if_list sr) ifc in
      if len < of_nat (sizeof_eth + sizeof_arp) then Inr False
      else bnd (c_assert (iface \<noteq> None)) (\<lambda>_. bnd (deref iface) (\<lambda>iface.
           bnd (load_eth buf off) (\<lambda>e_hdr.
           if ether_type e_hdr = htons ethertype_arp then
             bnd (load_arp buf (off + sizeof_eth)) (\<lambda>a_hdr.
               Inr (ar_op a_hdr = htons arp_op_request \<and> ar_tip a_hdr \<noteq> if_ip iface))
           else Inr False))))"

definition hwinfo_entry :: "sr_if \<Rightarrow> bytes \<Rightarrow> sr_if list \<Rightarrow> sr_if list res" where
  "hwinfo_entry g e ifs =
     (let key = ntohl (le32 (e ! 0) (e ! 1) (e ! 2) (e ! 3)); value = drop 4 e in
      if key = HWINTERFACE
      then Inr (sr_add_interface g ifs (string_of_bytes (takeWhile (\<lambda>x. x \<noteq> 0) value)))
      else if key = HWETHIP
      then sr_set_ether_ip ifs (le32 (value ! 0) (value ! 1) (value ! 2) (value ! 3))
      else if key = HWETHER then sr_set_ether_addr ifs value
      else Inr ifs)"

fun hwinfo_loop :: "(nat \<Rightarrow> sr_if) \<Rightarrow> bytes \<Rightarrow> nat \<Rightarrow> nat \<Rightarrow> sr_if list \<Rightarrow> sr_if list res" where
  "hwinfo_loop g buf i 0 ifs = Inr ifs"
| "hwinfo_loop g buf i (Suc n) ifs =
     bnd (read_bytes buf (sizeof_c_base + i * sizeof_c_hw_entry) sizeof_c_hw_entry) (\<lambda>e.
     bnd (hwinfo_entry (g i) e ifs) (hwinfo_loop g buf (Suc i) n))"

text \<open>\<open>g i\<close> is what \<^verbatim>\<open>malloc\<close> returns at the \<open>i\<close>th entry.\<close>

definition sr_handle_hwinfo :: "(nat \<Rightarrow> sr_if) \<Rightarrow> sr_instance \<Rightarrow> bytes \<Rightarrow> (int \<times> sr_instance) res" where
  "sr_handle_hwinfo g sr buf =
     bnd (load_u32 buf 0) (\<lambda>mLen.
     let num_entries = sint (ucast ((ucast (ntohl mLen) - 8 :: u64) div of_nat sizeof_c_hw_entry) :: u32) in
     bnd (hwinfo_loop g buf 0 (nat num_entries) (if_list sr)) (\<lambda>ifs.
       Inr (num_entries, sr\<lparr> if_list := ifs \<rparr>)))"

text \<open>The file name is built in an array of 40 characters.\<close>

definition sr_handle_rtable :: "vns \<Rightarrow> bytes \<Rightarrow> (bool \<times> vns) res" where
  "sr_handle_rtable v buf =
     bnd (c_string_at buf sizeof_c_base) (\<lambda>hid.
     bnd (if length hid + 7 < 7 + IDSIZE + 1 then Inr (''rtable.'' @ hid) else Inl OutOfBounds) (\<lambda>fn.
     if writable v then
       bnd (load_u32 buf 0) (\<lambda>mLen.
       bnd (read_bytes buf (sizeof_c_base + IDSIZE) (unat (ntohl mLen - 8 - 32))) (\<lambda>d.
         Inr (True, v\<lparr> files := (files v)(fn := Some d) \<rparr>)))
     else Inr (False, v)))"

text \<open>
  \<^verbatim>\<open>fgets\<close> into the key array of 65 bytes: at most 64 bytes, up to and including a newline,
  and a NUL; the rest of the array keeps what the stack held, \<open>junk\<close>.
\<close>

definition fgets_key :: "bytes \<Rightarrow> bytes \<Rightarrow> bytes option" where
  "fgets_key junk content =
     (if content = [] then None else
      let pre = takeWhile (\<lambda>x. x \<noteq> 10) content;
          line = take AUTH_KEY_LEN (if length pre < length content then pre @ [10] else pre)
      in Some (line @ [0] @ drop (length line + 1) junk))"

definition auth_reply :: "string \<Rightarrow> u32 list \<Rightarrow> bytes" where
  "auth_reply usr digest =
     (let len = 12 + length usr + SHA1_LEN in
      bytes32 (htonl (of_nat len)) @ bytes32 (htonl VNS_AUTH_REPLY) @ bytes32 (htonl (of_nat (length usr)))
      @ bytes_of_string usr @ concat (map (\<lambda>w. bytes32 (htonl w)) digest))"

definition sr_handle_auth_request :: "sha1_ctx \<Rightarrow> bytes \<Rightarrow> vns \<Rightarrow> bytes \<Rightarrow> (bool \<times> vns) res" where
  "sr_handle_auth_request c0 junk v buf =
     (case files v ''auth_key'' of None \<Rightarrow> Inr (False, v) | Some content \<Rightarrow>
     (case fgets_key junk content of None \<Rightarrow> Inr (False, v) | Some auth_key \<Rightarrow>
        bnd (load_u32 buf 0) (\<lambda>mLen.
        bnd (read_bytes buf sizeof_c_base (unat (ntohl mLen - 8))) (\<lambda>salt.
        let sha1 = SHA1Input (SHA1Input (SHA1Reset c0) salt) (take AUTH_KEY_LEN auth_key);
            (ok, sha1) = SHA1Result sha1
        in if \<not> ok then Inr (False, v)
           else let msg = auth_reply (user (router v)) (Message_Digest sha1) in
             if sock_up (router v) then Inr (True, v\<lparr> sent_ctl := sent_ctl v @ [msg] \<rparr>)
             else Inr (False, v)))))"

text \<open>When the authentication failed, the message is printed: a string that must end in the command.\<close>

definition sr_handle_auth_status :: "bytes \<Rightarrow> byte res" where
  "sr_handle_auth_status buf = bnd (read_bytes buf sizeof_c_base 1) (\<lambda>b.
     if b ! 0 \<noteq> 0 then Inr (b ! 0)
     else bnd (c_string_at buf (sizeof_c_base + 1)) (\<lambda>_. Inr 0))"

text \<open>The parameters of one read: the sending bound, and the uninitialised memory.\<close>

record vns_env =
  depth :: nat
  fresh_if :: "nat \<Rightarrow> sr_if"
  fresh_ctx :: sha1_ctx
  stack_junk :: bytes

definition vns_packet :: "vns_env \<Rightarrow> vns \<Rightarrow> bytes \<Rightarrow> (int \<times> vns) res" where
  "vns_packet env v buf =
     (let sr = router v;
          plen = of_nat (length buf) - of_nat sizeof_c_packet_ethernet_header + of_nat sizeof_eth in
      bnd (c_string_at buf sizeof_c_base) (\<lambda>ifc.
      bnd (sr_arp_req_not_for_us sr buf sizeof_c_packet_header plen ifc) (\<lambda>drop_it.
      if drop_it then Inr (1, v)
      else let packet = drop sizeof_c_packet_header buf in
        bnd (sr_log_packet sr packet) (\<lambda>sr.
        bnd (sr_handlepacket (depth env) sr packet ifc) (\<lambda>sr.
          Inr (1, v\<lparr> router := sr \<rparr>))))))"

definition vns_dispatch :: "vns_env \<Rightarrow> vns \<Rightarrow> u32 \<Rightarrow> bytes \<Rightarrow> (int \<times> vns) res" where
  "vns_dispatch env v command buf =
     (if command = VNSPACKET then vns_packet env v buf
      else if command = VNSCLOSE then bnd (c_string_at buf 8) (\<lambda>_. Inr (0, v))
      else if command = VNSBANNER then bnd (c_string_at buf 8) (\<lambda>_. Inr (1, v))
      else if command = VNSHWINFO then
        bnd (sr_handle_hwinfo (fresh_if env) (router v) buf) (\<lambda>(n, sr).
          Inr (if sr_verify_routing_table (if_list sr) (routing_table sr) \<noteq> 0 then -1 else 1,
               v\<lparr> router := sr \<rparr>))
      else if command = VNS_RTABLE then
        bnd (sr_handle_rtable v buf) (\<lambda>(ok, v). Inr (if ok then 1 else -1, v))
      else if command = VNS_AUTH_REQUEST then
        bnd (sr_handle_auth_request (fresh_ctx env) (stack_junk env) v buf) (\<lambda>(ok, v).
          Inr (if ok then 1 else -1, v))
      else if command = VNS_AUTH_STATUS then
        bnd (sr_handle_auth_status buf) (\<lambda>ok. Inr (if ok \<noteq> 0 then 1 else -1, v))
      else Inr (1, v))"

definition close_sock :: "vns \<Rightarrow> vns" where
  "close_sock v = v\<lparr> router := (router v)\<lparr> sock_up := False \<rparr> \<rparr>"

definition sr_read_from_server_expect :: "vns_env \<Rightarrow> vns \<Rightarrow> u32 \<Rightarrow> (int \<times> vns) res" where
  "sr_read_from_server_expect env v expected_cmd =
     bnd (recv_loop 4 [] (incoming v)) (\<lambda>(r, evs). let v = v\<lparr> incoming := evs \<rparr> in
       case r of None \<Rightarrow> Inr (-1, v)
      | Some hd4 \<Rightarrow>
        (let len = ntohl (le32 (hd4 ! 0) (hd4 ! 1) (hd4 ! 2) (hd4 ! 3)) in
         if sint len > 10000 \<or> sint len < 0 then Inr (-1, close_sock v)
         else bnd (write_bytes (calloc (unat len)) 0 (bytes32 (htonl len))) (\<lambda>_.
         bnd (recv_loop (unat len - 4) [] (incoming v)) (\<lambda>(r, evs). let v = v\<lparr> incoming := evs \<rparr> in
           case r of None \<Rightarrow> Inr (-1, close_sock v)
          | Some body \<Rightarrow>
            (let buf = hd4 @ body in
             bnd (load_u32 buf 4) (\<lambda>c.
             let command = ntohl c in
             if expected_cmd \<noteq> 0 \<and> command \<noteq> expected_cmd \<and> command \<noteq> VNSCLOSE then Inr (-1, v)
             else bnd (write_bytes buf 4 (bytes32 command)) (\<lambda>buf.
               vns_dispatch env v command buf)))))))"

definition sr_read_from_server :: "vns_env \<Rightarrow> vns \<Rightarrow> (int \<times> vns) res" where
  "sr_read_from_server env v = sr_read_from_server_expect env v 0"

definition vns_send :: "vns \<Rightarrow> bytes \<Rightarrow> (bool \<times> vns)" where
  "vns_send v msg = (if sock_up (router v) then (True, v\<lparr> sent_ctl := sent_ctl v @ [msg] \<rparr>) else (False, v))"

text \<open>The session of \<^verbatim>\<open>sr_connect_to_server\<close> once the socket is connected.\<close>

definition sr_connect_to_server :: "vns_env \<Rightarrow> vns \<Rightarrow> (int \<times> vns) res" where
  "sr_connect_to_server env v =
     bnd (sr_read_from_server_expect env v VNS_AUTH_REQUEST) (\<lambda>(r, v). if r \<noteq> 1 then Inr (-1, v) else
     bnd (sr_read_from_server_expect env v VNS_AUTH_STATUS) (\<lambda>(r, v). if r \<noteq> 1 then Inr (-1, v) else
     let sr = router v;
         (ok, v) = vns_send v (if template sr \<noteq> [] then open_template_msg (template sr) (host sr)
                               else open_msg (topo_id sr) (host sr) (user sr))
     in if \<not> ok then Inr (-1, v)
        else if template sr \<noteq> [] then
          bnd (sr_read_from_server_expect env v VNS_RTABLE) (\<lambda>(r, v). if r \<noteq> 1 then Inr (-1, v) else Inr (0, v))
        else Inr (0, v)))"

section \<open>Lemmas: the stream\<close>

declare recv_loop.simps [simp del]

fun stream_of :: "recv_result list \<Rightarrow> bytes" where
  "stream_of [] = []"
| "stream_of (Data b # evs) = b @ stream_of evs"
| "stream_of (Eintr # evs) = stream_of evs"
| "stream_of (SockError # evs) = []"

definition no_error :: "recv_result list \<Rightarrow> bool" where
  "no_error evs \<longleftrightarrow> SockError \<notin> set evs"

lemma recv_loop_done: "n \<le> length acc \<Longrightarrow> recv_loop n acc evs = Inr (Some acc, evs)"
  by (simp add: recv_loop.simps)

lemma recv_loop_stream:
  assumes "no_error evs" "n \<le> length acc + length (stream_of evs)" "length acc \<le> n"
  shows "\<exists>evs'. recv_loop n acc evs = Inr (Some (acc @ take (n - length acc) (stream_of evs)), evs')
    \<and> no_error evs' \<and> stream_of evs' = drop (n - length acc) (stream_of evs)"
  using assms
proof (induction evs arbitrary: acc)
  case Nil
  then show ?case by (simp add: recv_loop_done no_error_def)
next
  case (Cons ev evs)
  show ?case
  proof (cases "n \<le> length acc")
    case True
    with Cons.prems show ?thesis by (simp add: recv_loop_done)
  next
    case False
    have ne: "no_error evs" using Cons.prems(1) by (simp add: no_error_def)
    show ?thesis
    proof (cases ev)
      case (Data b)
      show ?thesis
      proof (cases "length b \<le> n - length acc")
        case True
        have "recv_loop n acc (ev # evs) = recv_loop n (acc @ b) evs"
          using False Data True by (subst recv_loop.simps) (simp add: Let_def)
        with Cons.IH [OF ne, of "acc @ b"] Cons.prems Data True show ?thesis
          by (simp add: diff_diff_add)
      next
        case b: False
        have "recv_loop n acc (ev # evs) =
            Inr (Some (acc @ take (n - length acc) b), Data (drop (n - length acc) b) # evs)"
          using False Data b by (subst recv_loop.simps) (simp add: Let_def)
        with Cons.prems(1) Data b show ?thesis by (simp add: no_error_def)
      qed
    next
      case Eintr
      have "recv_loop n acc (ev # evs) = recv_loop n acc evs"
        using False Eintr by (subst recv_loop.simps) simp
      with Cons.IH [OF ne] Cons.prems Eintr show ?thesis by simp
    qed (use Cons.prems in \<open>simp add: no_error_def\<close>)
  qed
qed

lemma le32_bytes32 [simp]:
  "le32 (bytes32 w ! 0) (bytes32 w ! Suc 0) (bytes32 w ! 2) (bytes32 w ! 3) = w"
  by (simp add: bytes32_def)

lemma load_u32_bytes32: "length pre = off \<Longrightarrow> load_u32 (pre @ bytes32 w @ post) off = Inr w"
  by (simp add: load_u32_def read_bytes_def)

lemma sint_small: "n \<le> 10000 \<Longrightarrow> sint (of_nat n :: u32) = int n"
  by (subst signed_of_nat) (simp add: signed_take_bit_int_eq_self)

lemma read_frames_expect:
  assumes s: "no_error (incoming v)" "stream_of (incoming v) =
      bytes32 (htonl (of_nat (8 + length body))) @ bytes32 (htonl cmd) @ body @ rest"
    and l: "8 + length body \<le> 10000" and x: "x = 0 \<or> cmd = x"
  shows "\<exists>evs. no_error evs \<and> stream_of evs = rest
    \<and> sr_read_from_server_expect env v x = vns_dispatch env (v\<lparr> incoming := evs \<rparr>) cmd
        (bytes32 (htonl (of_nat (8 + length body))) @ bytes32 cmd @ body)"
proof -
  let ?len = "of_nat (8 + length body) :: u32"
  have u: "unat ?len = 8 + length body" using l by (intro unat_of_nat_u32) simp
  have si: "\<not> (sint ?len > 10000 \<or> sint ?len < 0)" using sint_small [OF l] l by simp
  obtain e1 where e1: "recv_loop 4 [] (incoming v) = Inr (Some (bytes32 (htonl ?len)), e1)" "no_error e1"
    "stream_of e1 = bytes32 (htonl cmd) @ body @ rest"
    using recv_loop_stream [OF s(1), of 4 "[]"] s(2) by auto
  obtain e2 where e2: "recv_loop (unat ?len - 4) [] e1 = Inr (Some (bytes32 (htonl cmd) @ body), e2)" "no_error e2"
    "stream_of e2 = rest"
    using recv_loop_stream [OF e1(2), of "unat ?len - 4" "[]"] e1(3) unfolding u by auto
  have w: "write_bytes (calloc (unat ?len)) 0 (bytes32 (htonl ?len)) \<noteq> Inl e" for e
    unfolding u by (simp add: write_bytes_def)
  then obtain b where b: "write_bytes (calloc (unat ?len)) 0 (bytes32 (htonl ?len)) = Inr b"
    by (cases "write_bytes (calloc (unat ?len)) 0 (bytes32 (htonl ?len))") auto
  have "write_bytes (bytes32 (htonl ?len) @ bytes32 (htonl cmd) @ body) 4 (bytes32 cmd) =
      Inr (bytes32 (htonl ?len) @ bytes32 cmd @ body)" by (simp add: write_bytes_def)
  then show ?thesis
    using e1 e2 si b x load_u32_bytes32 [of "bytes32 (htonl ?len)" 4 "htonl cmd" body]
    by (intro exI [of _ e2]) (auto simp: sr_read_from_server_expect_def Let_def simp del: of_nat_add)
qed

lemma read_frames:
  assumes "no_error (incoming v)" "stream_of (incoming v) =
      bytes32 (htonl (of_nat (8 + length body))) @ bytes32 (htonl cmd) @ body @ rest"
    and "8 + length body \<le> 10000"
  shows "\<exists>evs. no_error evs \<and> stream_of evs = rest
    \<and> sr_read_from_server env v = vns_dispatch env (v\<lparr> incoming := evs \<rparr>) cmd
        (bytes32 (htonl (of_nat (8 + length body))) @ bytes32 cmd @ body)"
  unfolding sr_read_from_server_def by (rule read_frames_expect [OF assms]) simp

text \<open>
  C28. Framing: if the bytes still to come from the server begin with a command, a length
  field from 8 to 10000 that counts the whole command and a type, then however the stream
  is cut into chunks, and interrupted by signals, the client reads exactly this command, hands
  it to the handler of its type, and leaves the stream at the next command.
\<close>

theorem vns_read_frames:
  assumes s: "no_error (incoming v)" "stream_of (incoming v) =
      bytes32 (htonl (of_nat (8 + length body))) @ bytes32 (htonl cmd) @ body @ rest"
    and l: "8 + length body \<le> 10000"
  shows "\<exists>evs. no_error evs \<and> stream_of evs = rest
    \<and> sr_read_from_server env v = vns_dispatch env (v\<lparr> incoming := evs \<rparr>) cmd
        (bytes32 (htonl (of_nat (8 + length body))) @ bytes32 cmd @ body)"
  using assms by (rule read_frames)

text \<open>
  At end of file the client never comes back: empty reads, however many, leave the read
  loop where it was, so once the server has closed the connection in the middle of a
  command, or between two, the loop spins forever instead of reporting the end.
\<close>

theorem recv_loop_spins_at_eof:
  "length acc < n \<Longrightarrow> recv_loop n acc (replicate k (Data []) @ evs) = recv_loop n acc evs"
  by (induction k) (auto simp: recv_loop.simps)

theorem recv_loop_spins_at_eof_witness:
  "recv_loop 4 [1, 2] (replicate 1000 (Data []) @ []) = Inl Blocked"
  by (subst recv_loop_spins_at_eof) (simp_all add: recv_loop.simps)

text \<open>
  A length field below four overruns the command buffer: four bytes of it are written
  into an allocation of that many bytes.
\<close>

theorem vns_short_command_overrun:
  assumes "no_error (incoming v)" "stream_of (incoming v) = bytes32 (htonl (of_nat n)) @ rest" "n < 4"
  shows "sr_read_from_server env v = Inl OutOfBounds"
proof -
  have u: "unat (of_nat n :: u32) = n" using assms(3) by (intro unat_of_nat_u32) simp
  have n: "n \<le> 10000" using assms(3) by simp
  have si: "sint (of_nat n :: u32) = int n" by (rule sint_small [OF n])
  obtain e1 where e1: "recv_loop 4 [] (incoming v) = Inr (Some (bytes32 (htonl (of_nat n))), e1)"
    using recv_loop_stream [OF assms(1), of 4 "[]"] assms(2) by auto
  have "write_bytes (calloc n) 0 (bytes32 (htonl (of_nat n))) = Inl OutOfBounds"
    using assms(3) by (simp add: write_bytes_def)
  then show ?thesis using e1 si assms(3) u
    by (simp add: sr_read_from_server_def sr_read_from_server_expect_def Let_def)
qed

section \<open>Lemmas: strings in messages\<close>

lemma unat_of_char [simp]: "unat (of_nat (of_char c) :: byte) = (of_char c :: nat)"
proof -
  have "unat (of_nat (of_char c) :: byte) = of_char c mod 256"
    by (simp only: unsigned_of_nat take_bit_eq_mod) simp
  then show ?thesis by simp
qed

lemma zero_char: "(of_nat (of_char c) :: byte) = 0 \<longleftrightarrow> c = CHR 0x00"
proof
  assume "(of_nat (of_char c) :: byte) = 0"
  then have "(of_char c :: nat) = of_char (CHR 0x00)" using unat_of_char [of c] by simp
  then show "c = CHR 0x00" by (simp only: of_char_eq_iff)
qed simp

definition c_name :: "string \<Rightarrow> bool" where
  "c_name s \<longleftrightarrow> CHR 0x00 \<notin> set s"

lemma string_bytes [simp]: "string_of_bytes (bytes_of_string s) = s"
  by (simp add: string_of_bytes_def bytes_of_string_def comp_def)

lemma length_bytes_of_string [simp]: "length (bytes_of_string s) = length s"
  by (simp add: bytes_of_string_def)

lemma takeWhile_name:
  assumes "c_name s" shows "takeWhile (\<lambda>x. x \<noteq> 0) (bytes_of_string s @ 0 # r) = bytes_of_string s"
proof -
  have "\<forall>x\<in>set (bytes_of_string s). x \<noteq> 0"
    using assms zero_char by (auto simp: bytes_of_string_def c_name_def)
  then show ?thesis by (simp add: takeWhile_append)
qed

lemma char_array_length [simp]: "length (char_array n s) = n"
  by (simp add: char_array_def)

lemma char_array_short:
  "length s < n \<Longrightarrow> char_array n s = bytes_of_string s @ 0 # replicate (n - length s - 1) 0"
  by (cases "n - length s") (auto simp: char_array_def)

lemma c_string_char_array:
  assumes "c_name s" "length s < n" "length pre = off"
  shows "c_string_at (pre @ char_array n s @ r) off = Inr s"
  using assms takeWhile_name [OF assms(1), of "replicate (n - length s - 1) 0 @ r"]
  by (simp add: c_string_at_def char_array_short)

lemma load_shift:
  "length pre \<le> off \<Longrightarrow> load_eth (pre @ f) off = load_eth f (off - length pre)"
  "length pre \<le> off \<Longrightarrow> load_arp (pre @ f) off = load_arp f (off - length pre)"
  by (simp_all add: load_eth_def load_arp_def read_bytes_append_right)

lemma arp_req_shift:
  "length pre = 24 \<Longrightarrow> sr_arp_req_not_for_us sr (pre @ f) 24 l i = sr_arp_req_not_for_us sr f 0 l i"
  by (simp add: sr_arp_req_not_for_us_def load_shift cong: if_cong)

lemma vns_dispatch_packet:
  assumes "c_name i" "length i < 16" "length pre = 8"
    and "sr_arp_req_not_for_us (router v) f 0 (of_nat (length f)) i = Inr b"
  shows "vns_dispatch env v VNSPACKET (pre @ char_array 16 i @ f) = (if b then Inr (1, v) else
    bnd (sr_handlepacket (depth env) (logged (router v) f) f i) (\<lambda>sr. Inr (1, v\<lparr> router := sr \<rparr>)))"
proof -
  let ?buf = "pre @ char_array 16 i @ f"
  have c: "c_string_at ?buf 8 = Inr i" by (rule c_string_char_array [OF assms(1,2,3)])
  have p: "of_nat (length ?buf) - 38 + 14 = (of_nat (length f) :: u32)" using assms(3) by simp
  have d: "drop 24 ?buf = f" using assms(3) by simp
  have s: "sr_arp_req_not_for_us (router v) ?buf 24 (of_nat (length f)) i = Inr b"
    using arp_req_shift [of "pre @ char_array 16 i" "router v" f] assms(3,4) by simp
  show ?thesis using c p d s
    by (simp add: vns_dispatch_def vns_packet_def Let_def del: length_append of_nat_add append_assoc)
qed

text \<open>
  Frames survive the trip: the message \<^verbatim>\<open>sr_send_packet\<close> writes for a frame on an
  interface, read at the other end, reaches \<^verbatim>\<open>sr_handlepacket\<close> as the same frame on the
  interface of the same name, after being logged; only an ARP request for another address
  is dropped instead.
\<close>

theorem vns_packet_roundtrip:
  assumes "no_error (incoming v)" "stream_of (incoming v) = packet_msg i f @ rest"
    and "c_name i" "length i < 16" "length f \<le> 9000"
    and "sr_arp_req_not_for_us (router v) f 0 (of_nat (length f)) i = Inr b"
  shows "\<exists>evs. stream_of evs = rest \<and> sr_read_from_server env v =
    (if b then Inr (1, v\<lparr> incoming := evs \<rparr>)
     else bnd (sr_handlepacket (depth env) (logged (router v) f) f i)
       (\<lambda>sr. Inr (1, v\<lparr> incoming := evs, router := sr \<rparr>)))"
proof -
  let ?body = "char_array 16 i @ f"
  have "stream_of (incoming v) = bytes32 (htonl (of_nat (8 + length ?body))) @ bytes32 (htonl VNSPACKET)
      @ ?body @ rest"
    using assms(2) by (simp add: packet_msg_def add.commute)
  moreover have "8 + length ?body \<le> 10000" using assms(5) by simp
  ultimately obtain evs where evs: "stream_of evs = rest" "sr_read_from_server env v =
      vns_dispatch env (v\<lparr> incoming := evs \<rparr>) VNSPACKET
        ((bytes32 (htonl (of_nat (8 + length ?body))) @ bytes32 VNSPACKET) @ char_array 16 i @ f)"
    using read_frames [OF assms(1), of ?body VNSPACKET rest] by auto
  have "sr_arp_req_not_for_us (router (v\<lparr> incoming := evs \<rparr>)) f 0 (of_nat (length f)) i = Inr b"
    using assms(6) by simp
  from vns_dispatch_packet [OF assms(3,4) _ this, of "bytes32 (htonl (of_nat (8 + length ?body))) @ bytes32 VNSPACKET" env]
    evs show ?thesis by (intro exI [of _ evs]) simp
qed

section \<open>Interfaces and authentication\<close>

definition hw_if :: "sr_if \<Rightarrow> bytes" where
  "hw_if i = bytes32 (htonl HWINTERFACE) @ char_array 32 (if_name i)
     @ bytes32 (htonl HWETHER) @ addr i @ calloc 26
     @ bytes32 (htonl HWETHIP) @ bytes32 (if_ip i) @ calloc 28"

definition hw_ok :: "sr_if \<Rightarrow> bool" where
  "hw_ok i \<longleftrightarrow> c_name (if_name i) \<and> length (if_name i) < 32 \<and> length (addr i) = 6"

lemma hw_if_length: "hw_ok i \<Longrightarrow> length (hw_if i) = 108"
  by (simp add: hw_if_def hw_ok_def)

lemma hwinfo_loop_step:
  assumes "length pre = 8 + 36 * i" "length e = 36"
  shows "hwinfo_loop g (pre @ e @ post) i (Suc n) ifs =
    bnd (hwinfo_entry (g i) e ifs) (hwinfo_loop g (pre @ e @ post) (Suc i) n)"
  using assms by (simp add: read_bytes_def mult.commute)

lemma hwinfo_entries:
  assumes "hw_ok i"
  shows "hwinfo_entry g (bytes32 (htonl HWINTERFACE) @ char_array 32 (if_name i)) ifs =
      Inr (sr_add_interface g ifs (if_name i))"
    "hwinfo_entry g (bytes32 (htonl HWETHER) @ addr i @ calloc 26) ifs = sr_set_ether_addr ifs (addr i @ calloc 26)"
    "hwinfo_entry g (bytes32 (htonl HWETHIP) @ bytes32 (if_ip i) @ calloc 28) ifs = sr_set_ether_ip ifs (if_ip i)"
proof -
  have "string_of_bytes (takeWhile (\<lambda>x. x \<noteq> 0) (char_array 32 (if_name i))) = if_name i"
    using takeWhile_name [of "if_name i" "replicate (31 - length (if_name i)) 0"] assms
    by (simp add: hw_ok_def char_array_short)
  then show "hwinfo_entry g (bytes32 (htonl HWINTERFACE) @ char_array 32 (if_name i)) ifs =
      Inr (sr_add_interface g ifs (if_name i))"
    by (simp add: hwinfo_entry_def nth_append)
qed (simp_all add: hwinfo_entry_def nth_append HWINTERFACE_def HWETHER_def HWETHIP_def)

lemma hwinfo_loop_ifs:
  assumes "\<forall>i\<in>set new. hw_ok i" "length pre = 8 + 36 * k"
  shows "\<exists>ifs'. hwinfo_loop g (pre @ concat (map hw_if new)) k (3 * length new) ifs = Inr (ifs @ ifs')
    \<and> map sr_print_if ifs' = map sr_print_if new"
  using assms
proof (induction new arbitrary: pre k ifs)
  case (Cons i new)
  have ok: "hw_ok i" using Cons.prems(1) by simp
  let ?e1 = "bytes32 (htonl HWINTERFACE) @ char_array 32 (if_name i)"
    and ?e2 = "bytes32 (htonl HWETHER) @ addr i @ calloc 26"
    and ?e3 = "bytes32 (htonl HWETHIP) @ bytes32 (if_ip i) @ calloc 28"
    and ?r = "concat (map hw_if new)"
  let ?buf = "pre @ concat (map hw_if (i # new))"
  have l: "length ?e1 = 36" "length ?e2 = 36" "length ?e3 = 36" using ok by (simp_all add: hw_ok_def)
  have n: "3 * length (i # new) = Suc (Suc (Suc (3 * length new)))" by simp
  let ?i = "(g k)\<lparr> if_name := if_name i, addr := addr i, if_ip := if_ip i \<rparr>"
  have 1: "hwinfo_loop g ?buf k (Suc m) l = bnd (hwinfo_entry (g k) ?e1 l) (hwinfo_loop g ?buf (Suc k) m)" for m l
    using hwinfo_loop_step [of pre k ?e1 g "?e2 @ ?e3 @ ?r"] Cons.prems(2) l by (simp add: hw_if_def)
  have 2: "hwinfo_loop g ?buf (Suc k) (Suc m) l = bnd (hwinfo_entry (g (Suc k)) ?e2 l) (hwinfo_loop g ?buf (Suc (Suc k)) m)" for m l
    using hwinfo_loop_step [of "pre @ ?e1" "Suc k" ?e2 g "?e3 @ ?r"] Cons.prems(2) l by (simp add: hw_if_def)
  have 3: "hwinfo_loop g ?buf (Suc (Suc k)) (Suc m) l = bnd (hwinfo_entry (g (Suc (Suc k))) ?e3 l) (hwinfo_loop g ?buf (Suc (Suc (Suc k))) m)" for m l
    using hwinfo_loop_step [of "pre @ ?e1 @ ?e2" "Suc (Suc k)" ?e3 g ?r] Cons.prems(2) l by (simp add: hw_if_def)
  have name: "strncpy 32 (if_name i) = if_name i" using ok by (simp add: hw_ok_def strncpy_def)
  have "hwinfo_loop g ?buf k (3 * length (i # new)) ifs = hwinfo_loop g ?buf (Suc (Suc (Suc k))) (3 * length new) (ifs @ [?i])"
    unfolding n 1 hwinfo_entries [OF ok] bnd_Inr 2
    using ok by (simp add: 3 hwinfo_entries [OF ok] sr_add_interface_append sr_set_ether_addr_snoc
        sr_set_ether_ip_snoc sr_if_new_def read_bytes_def hw_ok_def name del: hwinfo_loop.simps concat.simps list.map)
  moreover have "?buf = (pre @ hw_if i) @ ?r" by simp
  moreover have "length (pre @ hw_if i) = 8 + 36 * Suc (Suc (Suc k))"
    using Cons.prems(2) hw_if_length [OF ok] by simp
  ultimately obtain ifs' where "hwinfo_loop g ?buf k (3 * length (i # new)) ifs = Inr ((ifs @ [?i]) @ ifs')"
    "map sr_print_if ifs' = map sr_print_if new"
    using Cons.IH [of "pre @ hw_if i" "Suc (Suc (Suc k))" "ifs @ [?i]"] Cons.prems(1) by auto
  moreover have "sr_print_if ?i = sr_print_if i" by (simp add: sr_print_if_def)
  ultimately show ?case by (intro exI [of _ "?i # ifs'"]) simp
qed simp

lemma hwinfo_count:
  assumes "n \<le> 90"
  shows "sint (ucast ((ucast (of_nat (8 + 108 * n) :: u32) - 8 :: u64) div of_nat 36) :: u32) = 3 * int n"
proof -
  have "(ucast (of_nat (8 + 108 * n) :: u32) :: u64) = of_nat (8 + 108 * n)"
  proof (rule word_unat_eq_iff [THEN iffD2])
    have "unat (of_nat (8 + 108 * n) :: u32) = 8 + 108 * n" using assms by (intro unat_of_nat_u32) simp
    then show "unat (ucast (of_nat (8 + 108 * n) :: u32) :: u64) = unat (of_nat (8 + 108 * n) :: u64)"
      using assms by (simp add: unsigned_ucast_eq unsigned_of_nat take_bit_nat_eq_self del: of_nat_add of_nat_mult)
  qed
  then have "(ucast (of_nat (8 + 108 * n) :: u32) - 8 :: u64) = of_nat (108 * n)" by simp
  then have "((ucast (of_nat (8 + 108 * n) :: u32) - 8 :: u64) div of_nat 36) = of_nat (3 * n)"
    using assms by (simp only:) (simp add: word_unat_eq_iff unat_div unsigned_of_nat take_bit_nat_eq_self del: of_nat_mult)
  moreover have "(ucast (of_nat (3 * n) :: u64) :: u32) = of_nat (3 * n)"
    using assms by (simp add: unsigned_of_nat take_bit_nat_eq_self del: of_nat_mult)
  moreover have "sint (of_nat (3 * n) :: u32) = int (3 * n)"
    using assms by (intro sint_small) simp
  ultimately show ?thesis by (simp del: of_nat_mult of_nat_add)
qed

lemma handle_hwinfo:
  assumes "\<forall>i\<in>set new. hw_ok i" "length new \<le> 90" "length t = 4"
  shows "\<exists>ifs'. sr_handle_hwinfo g sr
      (bytes32 (htonl (of_nat (8 + 108 * length new))) @ t @ concat (map hw_if new)) =
        Inr (3 * int (length new), sr\<lparr> if_list := if_list sr @ ifs' \<rparr>)
    \<and> map sr_print_if ifs' = map sr_print_if new"
proof -
  let ?l = "of_nat (8 + 108 * length new) :: u32"
  have len: "load_u32 (bytes32 (htonl ?l) @ t @ concat (map hw_if new)) 0 = Inr (htonl ?l)"
    using load_u32_bytes32 [of "[]" 0 "htonl ?l"] by simp
  obtain ifs' where "hwinfo_loop g ((bytes32 (htonl ?l) @ t) @ concat (map hw_if new)) 0 (3 * length new) (if_list sr)
      = Inr (if_list sr @ ifs')" "map sr_print_if ifs' = map sr_print_if new"
    using hwinfo_loop_ifs [OF assms(1), of "bytes32 (htonl ?l) @ t" 0 g "if_list sr"] assms(3) by auto
  then show ?thesis
    by (intro exI [of _ ifs']) (simp add: sr_handle_hwinfo_def len Let_def hwinfo_count [OF assms(2), simplified of_nat_numeral] nat_mult_distrib
        del: of_nat_add of_nat_mult)
qed

text \<open>
  C29. Hardware description: the message that lists, for each interface, a name, an Ethernet
  address and an IP address, appends exactly these interfaces, in this order, to the
  interface list, and changes nothing else of the router.
\<close>

theorem sr_handle_hwinfo_roundtrip:
  assumes "\<forall>i\<in>set new. hw_ok i" "length new \<le> 90" "length t = 4"
  shows "\<exists>ifs'. sr_handle_hwinfo g sr
      (bytes32 (htonl (of_nat (8 + 108 * length new))) @ t @ concat (map hw_if new)) =
        Inr (3 * int (length new), sr\<lparr> if_list := if_list sr @ ifs' \<rparr>)
    \<and> map sr_print_if ifs' = map sr_print_if new"
  by (rule handle_hwinfo [OF assms])

definition first_line :: "bytes \<Rightarrow> bytes" where
  "first_line content = (let pre = takeWhile (\<lambda>x. x \<noteq> 10) content in
     take 64 (if length pre < length content then pre @ [10] else pre))"

lemma handle_auth_request:
  assumes "files v ''auth_key'' = Some content" "content \<noteq> []" "length junk = 65"
    and "length (Message_Block c0) = 64" "length salt \<le> 9992" "length t = 4" "sock_up (router v)"
  shows "sr_handle_auth_request c0 junk v (bytes32 (htonl (of_nat (8 + length salt))) @ t @ salt) =
    Inr (True, v\<lparr> sent_ctl := sent_ctl v @ [auth_reply (user (router v)) (fips_sha1 (salt @
      (let l = first_line content in
       if length l = 64 then l else l @ [0] @ take (63 - length l) (drop (length l + 1) junk))))] \<rparr>)"
proof -
  let ?l = "of_nat (8 + length salt) :: u32" and ?k = "first_line content"
  have u: "unat (?l - 8) = length salt"
  proof -
    have "?l - 8 = of_nat (length salt)" by simp
    moreover have "unat (of_nat (length salt) :: u32) = length salt"
      using assms(5) by (intro unat_of_nat_u32) simp
    ultimately show ?thesis by (simp only:)
  qed
  have len: "load_u32 (bytes32 (htonl ?l) @ t @ salt) 0 = Inr (htonl ?l)"
    using load_u32_bytes32 [of "[]" 0 "htonl ?l"] by simp
  have rd: "read_bytes (bytes32 (htonl ?l) @ t @ salt) 8 (length salt) = Inr salt"
    using assms(6) by (simp add: read_bytes_def)
  have key: "fgets_key junk content = Some (?k @ [0] @ drop (length ?k + 1) junk)"
    using assms(2) by (simp add: fgets_key_def first_line_def Let_def)
  have kl: "length ?k \<le> 64" by (simp add: first_line_def Let_def)
  let ?key = "take 64 (?k @ [0] @ drop (length ?k + 1) junk)"
  have tk: "?key = (if length ?k = 64 then ?k else ?k @ [0] @ take (63 - length ?k) (drop (length ?k + 1) junk))"
    using kl by (auto simp: take_Cons')
  have "length ?key \<le> 64" by simp
  then have "length (concat [salt, ?key]) < 2 ^ 61" using assms(5) by simp
  from sha1_digest [OF assms(4) this]
  have d: "fst (SHA1Result (SHA1Input (SHA1Input (SHA1Reset c0) salt) ?key))"
    "Message_Digest (snd (SHA1Result (SHA1Input (SHA1Input (SHA1Reset c0) salt) ?key))) = fips_sha1 (salt @ ?key)"
    by simp_all
  obtain ok ctx where r: "SHA1Result (SHA1Input (SHA1Input (SHA1Reset c0) salt) ?key) = (ok, ctx)"
    by fastforce
  have "sr_handle_auth_request c0 junk v (bytes32 (htonl ?l) @ t @ salt) =
    Inr (True, v\<lparr> sent_ctl := sent_ctl v @ [auth_reply (user (router v)) (fips_sha1 (salt @ ?key))] \<rparr>)"
    using d assms(1,7) r
    by (simp add: sr_handle_auth_request_def len u rd key Let_def del: take_append of_nat_add)
  then show ?thesis by (simp only: tk Let_def)
qed


section \<open>Witnesses\<close>

definition sample_vns :: "recv_result list \<Rightarrow> vns" where
  "sample_vns evs = \<lparr> router = sample_router, files = (\<lambda>_. None)(''auth_key'' := Some (replicate 64 107)),
     writable = True, incoming = evs, sent_ctl = [] \<rparr>"

definition sample_env :: vns_env where
  "sample_env = \<lparr> depth = 3, fresh_if = (\<lambda>_. \<lparr> if_name = [], addr = [], if_ip = 0, speed = 0 \<rparr>),
     fresh_ctx = sha1_zero_ctx, stack_junk = calloc 65 \<rparr>"

lemma htonl_small: "htonl 9 = 0x09000000" "htonl 2 = 0x02000000" "htonl 8 = 0x08000000"
  by (simp_all add: htonl_def le32_def) 

text \<open>A banner of one byte, cut in the middle of its length field by a signal.\<close>

theorem vns_read_frames_witness:
  "\<exists>evs. no_error evs \<and> stream_of evs = [7]
    \<and> sr_read_from_server sample_env (sample_vns [Data [0, 0], Eintr, Data [0, 9, 0, 0, 0], Data [8, 0, 7]]) =
      vns_dispatch sample_env (sample_vns evs) VNSBANNER (bytes32 0x09000000 @ bytes32 VNSBANNER @ [0])"
proof -
  let ?v = "sample_vns [Data [0, 0], Eintr, Data [0, 9, 0, 0, 0], Data [8, 0, 7]]"
  have 1: "no_error (incoming ?v)" by (simp add: sample_vns_def no_error_def)
  have 2: "stream_of (incoming ?v) =
      bytes32 (htonl (of_nat (8 + length [0 :: byte]))) @ bytes32 (htonl VNSBANNER) @ [0] @ [7]"
    by (simp add: sample_vns_def VNSBANNER_def htonl_small bytes32_def)
  show ?thesis using vns_read_frames [OF 1 2, of sample_env]
    by (simp add: htonl_small) (simp add: sample_vns_def)
qed

theorem vns_short_command_overrun_witness:
  "sr_read_from_server sample_env (sample_vns [Data [0, 0, 0, 2, 9]]) = Inl OutOfBounds"
proof -
  have "stream_of (incoming (sample_vns [Data [0, 0, 0, 2, 9]])) = bytes32 (htonl (of_nat 2)) @ [9]"
    by (simp add: sample_vns_def htonl_small bytes32_def)
  then show ?thesis
    by (rule vns_short_command_overrun [rotated]) (simp_all add: sample_vns_def no_error_def)
qed

text \<open>A frame too short to be an ARP packet, on the interface \<^verbatim>\<open>eth0\<close>.\<close>

theorem vns_packet_roundtrip_witness:
  "\<exists>evs. stream_of evs = [] \<and>
    sr_read_from_server sample_env (sample_vns [Data (packet_msg ''eth0'' (replicate 20 1))]) =
      bnd (sr_handlepacket 3 (logged sample_router (replicate 20 1)) (replicate 20 1) ''eth0'')
        (\<lambda>sr. Inr (1, (sample_vns evs)\<lparr> router := sr \<rparr>))"
proof -
  let ?f = "replicate 20 (1 :: byte)" and ?v = "sample_vns [Data (packet_msg ''eth0'' (replicate 20 1))]"
  have s: "no_error (incoming ?v)" "stream_of (incoming ?v) = packet_msg ''eth0'' ?f @ []"
    by (simp_all add: sample_vns_def no_error_def)
  have i: "c_name ''eth0''" "length ''eth0'' < 16" "length ?f \<le> 9000" by (simp_all add: c_name_def)
  have a: "sr_arp_req_not_for_us (router ?v) ?f 0 (of_nat (length ?f)) ''eth0'' = Inr False"
    by (simp add: sr_arp_req_not_for_us_def)
  show ?thesis
    using vns_packet_roundtrip [OF s i a, of sample_env] by (simp add: sample_vns_def sample_env_def)
qed

theorem sr_handle_hwinfo_roundtrip_witness:
  "\<exists>ifs'. sr_handle_hwinfo (fresh_if sample_env) sample_router
      (bytes32 (htonl 224) @ bytes32 VNSHWINFO @ concat (map hw_if sample_ifs)) =
        Inr (6, sample_router\<lparr> if_list := if_list sample_router @ ifs' \<rparr>)
    \<and> map sr_print_if ifs' = map sr_print_if sample_ifs"
  using sr_handle_hwinfo_roundtrip [of sample_ifs "bytes32 VNSHWINFO" "fresh_if sample_env" sample_router]
  by (simp add: sample_ifs_def hw_ok_def c_name_def)


end
