(* ===== verification/LinkedList.thy ===== *)
theory LinkedList
  imports Prelude
begin

text \<open>
  The doubly linked list of cTCP, \<^verbatim>\<open>ctcp_linked_list.c\<close>, over an explicit heap: a partial map
  from addresses to nodes, where freed addresses are undefined, so that touching a freed
  node is the fault \<open>UseAfterFree\<close>. \<^verbatim>\<open>calloc\<close> does not fail; the address it returns is a
  parameter \<open>a\<close>. Pointers are options, \<open>None\<close> is NULL; objects are addresses the list never
  follows. The list structure is passed and returned by value. The two loops that walk the
  nodes are bounded by a fuel, as they would not end on a cyclic heap; the lemmas show that
  the length of the list is enough on a proper one.

  The predicate \<open>ll_rep\<close> relates heap and list structure to the HOL list of the nodes with
  their objects; each operation is shown to be the corresponding operation on that list.
  What the clients use of it is the locale \<open>fifo\<close>.
\<close>

type_synonym ll_addr = nat
type_synonym ll_obj = nat

record ll_node =
  ll_next :: "ll_addr option"
  ll_prev :: "ll_addr option"
  ll_object :: "ll_obj option"

record linked_list =
  ll_head :: "ll_addr option"
  ll_tail :: "ll_addr option"
  ll_len :: u32

type_synonym ll_heap = "ll_addr \<Rightarrow> ll_node option"

section \<open>Operations\<close>

definition node_at :: "ll_heap \<Rightarrow> ll_addr option \<Rightarrow> ll_node res" where
  "node_at h p = bnd (deref p) (\<lambda>a. case h a of None \<Rightarrow> Inl UseAfterFree | Some n \<Rightarrow> Inr n)"

definition upd_node :: "ll_heap \<Rightarrow> ll_addr option \<Rightarrow> (ll_node \<Rightarrow> ll_node) \<Rightarrow> ll_heap res" where
  "upd_node h p f = bnd (deref p) (\<lambda>a. bnd (node_at h p) (\<lambda>n. Inr (h(a \<mapsto> f n))))"

definition free_node :: "ll_heap \<Rightarrow> ll_addr option \<Rightarrow> ll_heap res" where
  "free_node h p = bnd (deref p) (\<lambda>a. bnd (node_at h p) (\<lambda>_. Inr (h(a := None))))"

definition ll_create :: linked_list where
  "ll_create = \<lparr> ll_head = None, ll_tail = None, ll_len = 0 \<rparr>"

fun ll_destroy_loop :: "nat \<Rightarrow> ll_heap \<Rightarrow> ll_addr option \<Rightarrow> ll_heap res" where
  "ll_destroy_loop 0 h p = Inl OutOfFuel"
| "ll_destroy_loop (Suc n) h None = Inr h"
| "ll_destroy_loop (Suc n) h (Some a) =
     bnd (node_at h (Some a)) (\<lambda>node. bnd (free_node h (Some a)) (\<lambda>h.
       ll_destroy_loop n h (ll_next node)))"

definition ll_destroy :: "nat \<Rightarrow> ll_heap \<Rightarrow> linked_list option \<Rightarrow> ll_heap res" where
  "ll_destroy n h l = (case l of None \<Rightarrow> Inr h | Some l \<Rightarrow> ll_destroy_loop n h (ll_head l))"

definition ll_create_node :: "ll_addr \<Rightarrow> ll_heap \<Rightarrow> ll_obj option \<Rightarrow> ll_heap" where
  "ll_create_node a h x = h(a \<mapsto> \<lparr> ll_next = None, ll_prev = None, ll_object = x \<rparr>)"

type_synonym ll_result = "(ll_addr option \<times> linked_list option \<times> ll_heap) res"

definition ll_add :: "ll_addr \<Rightarrow> ll_heap \<Rightarrow> linked_list option \<Rightarrow> ll_obj option \<Rightarrow> ll_result" where
  "ll_add a h l x =
     (case l of None \<Rightarrow> Inr (None, l, h) | Some l' \<Rightarrow>
      if x = None then Inr (None, l, h) else
      let h = ll_create_node a h x in
      bnd (if ll_head l' = None then Inr (l'\<lparr> ll_head := Some a, ll_tail := Some a \<rparr>, h)
           else bnd (upd_node h (ll_tail l') (\<lambda>n. n\<lparr> ll_next := Some a \<rparr>)) (\<lambda>h.
                bnd (upd_node h (Some a) (\<lambda>n. n\<lparr> ll_prev := ll_tail l' \<rparr>)) (\<lambda>h.
                  Inr (l'\<lparr> ll_tail := Some a \<rparr>, h))))
        (\<lambda>(l', h). Inr (Some a, Some (l'\<lparr> ll_len := ll_len l' + 1 \<rparr>), h)))"

definition ll_add_front :: "ll_addr \<Rightarrow> ll_heap \<Rightarrow> linked_list option \<Rightarrow> ll_obj option \<Rightarrow> ll_result" where
  "ll_add_front a h l x =
     (case l of None \<Rightarrow> Inr (None, l, h) | Some l' \<Rightarrow>
      if x = None then Inr (None, l, h) else
      let h = ll_create_node a h x in
      bnd (if ll_head l' = None then Inr (l'\<lparr> ll_head := Some a, ll_tail := Some a \<rparr>, h)
           else bnd (upd_node h (Some a) (\<lambda>n. n\<lparr> ll_next := ll_head l' \<rparr>)) (\<lambda>h.
                bnd (upd_node h (ll_head l') (\<lambda>n. n\<lparr> ll_prev := Some a \<rparr>)) (\<lambda>h.
                  Inr (l'\<lparr> ll_head := Some a \<rparr>, h))))
        (\<lambda>(l', h). Inr (Some a, Some (l'\<lparr> ll_len := ll_len l' + 1 \<rparr>), h)))"

definition ll_add_after ::
  "ll_addr \<Rightarrow> ll_heap \<Rightarrow> linked_list option \<Rightarrow> ll_addr option \<Rightarrow> ll_obj option \<Rightarrow> ll_result" where
  "ll_add_after a h l node x =
     (case l of None \<Rightarrow> Inr (None, l, h) | Some l' \<Rightarrow>
      if node = None \<or> x = None then Inr (None, l, h) else
      let h = ll_create_node a h x in
      bnd (upd_node h (Some a) (\<lambda>n. n\<lparr> ll_prev := node \<rparr>)) (\<lambda>h.
      bnd (node_at h node) (\<lambda>nd.
      bnd (upd_node h (Some a) (\<lambda>n. n\<lparr> ll_next := ll_next nd \<rparr>)) (\<lambda>h.
      bnd (if ll_next nd = None then Inr h
           else upd_node h (ll_next nd) (\<lambda>n. n\<lparr> ll_prev := Some a \<rparr>)) (\<lambda>h.
      bnd (upd_node h node (\<lambda>n. n\<lparr> ll_next := Some a \<rparr>)) (\<lambda>h.
      let l' = (if node = ll_tail l' then l'\<lparr> ll_tail := Some a \<rparr> else l') in
        Inr (Some a, Some (l'\<lparr> ll_len := ll_len l' + 1 \<rparr>), h)))))))"

definition ll_remove ::
  "ll_heap \<Rightarrow> linked_list option \<Rightarrow> ll_addr option \<Rightarrow> (ll_obj option \<times> linked_list option \<times> ll_heap) res" where
  "ll_remove h l node =
     (case l of None \<Rightarrow> Inr (None, l, h) | Some l' \<Rightarrow>
      if node = None then Inr (None, l, h) else
      bnd (node_at h node) (\<lambda>nd.
      bnd (if node = ll_head l' then Inr (l'\<lparr> ll_head := ll_next nd \<rparr>, h)
           else bnd (upd_node h (ll_prev nd) (\<lambda>n. n\<lparr> ll_next := ll_next nd \<rparr>)) (\<lambda>h. Inr (l', h))) (\<lambda>(l', h).
      bnd (node_at h node) (\<lambda>nd'.
      bnd (if node = ll_tail l' then Inr (l'\<lparr> ll_tail := ll_prev nd' \<rparr>, h)
           else bnd (upd_node h (ll_next nd') (\<lambda>n. n\<lparr> ll_prev := ll_prev nd' \<rparr>)) (\<lambda>h. Inr (l', h))) (\<lambda>(l', h).
      bnd (free_node h node) (\<lambda>h.
        Inr (ll_object nd, Some (l'\<lparr> ll_len := ll_len l' - 1 \<rparr>), h)))))))"

fun ll_find_loop :: "nat \<Rightarrow> ll_heap \<Rightarrow> ll_addr option \<Rightarrow> ll_obj option \<Rightarrow> ll_addr option res" where
  "ll_find_loop 0 h p x = Inl OutOfFuel"
| "ll_find_loop (Suc n) h None x = Inr None"
| "ll_find_loop (Suc n) h (Some a) x =
     bnd (node_at h (Some a)) (\<lambda>node.
       if ll_object node = x then Inr (Some a) else ll_find_loop n h (ll_next node) x)"

definition ll_find :: "nat \<Rightarrow> ll_heap \<Rightarrow> linked_list option \<Rightarrow> ll_obj option \<Rightarrow> ll_addr option res" where
  "ll_find n h l x = (case l of None \<Rightarrow> Inr None | Some l \<Rightarrow>
     if x = None then Inr None else ll_find_loop n h (ll_head l) x)"

definition ll_front :: "linked_list option \<Rightarrow> ll_addr option res" where
  "ll_front l = bnd (deref l) (\<lambda>l. Inr (ll_head l))"

definition ll_back :: "linked_list option \<Rightarrow> ll_addr option res" where
  "ll_back l = bnd (deref l) (\<lambda>l. Inr (ll_tail l))"

definition ll_length :: "linked_list option \<Rightarrow> u32 res" where
  "ll_length l = bnd (deref l) (\<lambda>l. Inr (ll_len l))"

section \<open>Representation\<close>

type_synonym ll_nodes = "(ll_addr \<times> ll_obj) list"

definition firstp :: "ll_nodes \<Rightarrow> ll_addr option \<Rightarrow> ll_addr option" where
  "firstp ps q = (case ps of [] \<Rightarrow> q | p # _ \<Rightarrow> Some (fst p))"

definition lastp :: "ll_nodes \<Rightarrow> ll_addr option \<Rightarrow> ll_addr option" where
  "lastp ps q = (if ps = [] then q else Some (fst (last ps)))"

text \<open>A segment of the list: entered from \<open>p\<close>, left to \<open>q\<close>.\<close>

fun chain :: "ll_heap \<Rightarrow> ll_addr option \<Rightarrow> ll_nodes \<Rightarrow> ll_addr option \<Rightarrow> bool" where
  "chain h p [] q = True"
| "chain h p ((a, x) # ps) q =
     (h a = Some \<lparr> ll_next = firstp ps q, ll_prev = p, ll_object = Some x \<rparr> \<and> chain h (Some a) ps q)"

definition ll_rep :: "ll_heap \<Rightarrow> linked_list \<Rightarrow> ll_nodes \<Rightarrow> bool" where
  "ll_rep h l ps \<longleftrightarrow> distinct (map fst ps) \<and> chain h None ps None
     \<and> ll_head l = firstp ps None \<and> ll_tail l = lastp ps None \<and> ll_len l = of_nat (length ps)"

named_theorems ll_simps \<open>the primitive heap operations\<close>

lemma node_at_Some [ll_simps]: "h a = Some n \<Longrightarrow> node_at h (Some a) = Inr n"
  by (simp add: node_at_def)

lemma upd_node_Some [ll_simps]: "h a = Some n \<Longrightarrow> upd_node h (Some a) f = Inr (h(a \<mapsto> f n))"
  by (simp add: upd_node_def ll_simps)

lemma free_node_Some [ll_simps]: "h a = Some n \<Longrightarrow> free_node h (Some a) = Inr (h(a := None))"
  by (simp add: free_node_def ll_simps)

lemma firstp_simps [simp]: "firstp [] q = q" "firstp (p # ps) q = Some (fst p)"
  by (simp_all add: firstp_def)

lemma lastp_simps [simp]: "lastp [] q = q" "lastp (ps @ [p]) q = Some (fst p)"
  "lastp (p # ps) q = lastp ps (Some (fst p))"
  by (simp_all add: lastp_def)

lemma firstp_append [simp]: "firstp (ps @ qs) q = firstp ps (firstp qs q)"
  by (cases ps) auto

lemma lastp_append [simp]: "lastp (ps @ qs) q = lastp qs (lastp ps q)"
  by (induction ps arbitrary: q) auto

lemma chain_append: "chain h p (ps @ qs) q \<longleftrightarrow> chain h p ps (firstp qs q) \<and> chain h (lastp ps p) qs q"
proof (induction ps arbitrary: p)
  case (Cons x ps) then show ?case by (cases x) simp
qed simp

lemma chain_upd [simp]: "a \<notin> fst ` set ps \<Longrightarrow> chain (h(a := v)) p ps q = chain h p ps q"
  by (induction ps arbitrary: p) auto

lemma chain_dom: "chain h p ps q \<Longrightarrow> a \<in> fst ` set ps \<Longrightarrow> h a \<noteq> None"
proof (induction ps arbitrary: p)
  case (Cons x ps) then show ?case by (cases x) auto
qed simp

lemma firstp_in: "firstp ps None = Some a \<Longrightarrow> a \<in> fst ` set ps"
  by (cases ps) auto

lemma firstp_Some [simp]: "firstp ps (Some b) \<noteq> None"
  by (cases ps) auto

lemma lastp_Some [simp]: "lastp ps (Some b) \<noteq> None"
  by (simp add: lastp_def)

lemma firstp_None [simp]: "firstp ps None = None \<longleftrightarrow> ps = []"
  by (cases ps) auto

lemma lastp_None [simp]: "lastp ps None = None \<longleftrightarrow> ps = []"
  by (simp add: lastp_def)

lemma ll_rep_fresh: "ll_rep h l ps \<Longrightarrow> h a = None \<Longrightarrow> a \<notin> fst ` set ps"
  unfolding ll_rep_def by (metis chain_dom)

section \<open>Lemmas: each operation on the represented list\<close>

lemma ll_rep_create: "ll_rep h ll_create []"
  by (simp add: ll_rep_def ll_create_def)

lemma ll_add_rep:
  assumes "ll_rep h l ps" "h a = None"
  shows "\<exists>l' h'. ll_add a h (Some l) (Some x) = Inr (Some a, Some l', h')
    \<and> ll_rep h' l' (ps @ [(a, x)]) \<and> (\<forall>b. b \<notin> insert a (fst ` set ps) \<longrightarrow> h' b = h b)"
proof (cases ps rule: rev_cases)
  case Nil
  with assms show ?thesis
    by (auto simp: ll_rep_def ll_add_def ll_create_node_def Let_def)
next
  case (snoc us p)
  obtain b y where p: "p = (b, y)" by (cases p)
  have na: "a \<notin> fst ` set ps" by (rule ll_rep_fresh [OF assms])
  have c: "chain h None us (Some b)" "h b = Some \<lparr> ll_next = None, ll_prev = lastp us None, ll_object = Some y \<rparr>"
    and d: "distinct (map fst (us @ [(b, y)]))" "ll_tail l = Some b" "ll_head l \<noteq> None"
    using assms(1) snoc p by (auto simp: ll_rep_def chain_append)
  have nb: "b \<noteq> a" "b \<notin> fst ` set us" "a \<notin> fst ` set us" using na d snoc p by auto
  show ?thesis
    using assms(1) c d nb snoc p firstp_Some [of us b]
    by (auto simp: ll_add_def ll_create_node_def Let_def ll_simps ll_rep_def chain_append)
qed

lemma ll_add_front_rep:
  assumes "ll_rep h l ps" "h a = None"
  shows "\<exists>l' h'. ll_add_front a h (Some l) (Some x) = Inr (Some a, Some l', h')
    \<and> ll_rep h' l' ((a, x) # ps) \<and> (\<forall>b. b \<notin> insert a (fst ` set ps) \<longrightarrow> h' b = h b)"
proof (cases ps)
  case Nil
  with assms show ?thesis
    by (auto simp: ll_rep_def ll_add_front_def ll_create_node_def Let_def)
next
  case (Cons p us)
  obtain b y where p: "p = (b, y)" by (cases p)
  have na: "a \<notin> fst ` set ps" by (rule ll_rep_fresh [OF assms])
  show ?thesis
    using assms(1) na Cons p
    by (auto simp: ll_add_front_def ll_create_node_def Let_def ll_simps ll_rep_def)
qed

lemma ll_add_after_rep:
  assumes "ll_rep h l (us @ (b, y) # vs)" "h a = None"
  shows "\<exists>l' h'. ll_add_after a h (Some l) (Some b) (Some x) = Inr (Some a, Some l', h')
    \<and> ll_rep h' l' (us @ (b, y) # (a, x) # vs)
    \<and> (\<forall>c. c \<notin> insert a (fst ` set (us @ (b, y) # vs)) \<longrightarrow> h' c = h c)"
proof -
  have na: "a \<notin> fst ` set (us @ (b, y) # vs)" by (rule ll_rep_fresh [OF assms])
  show ?thesis
  proof (cases vs)
    case Nil
    with assms na show ?thesis
      by (auto simp: ll_add_after_def ll_create_node_def Let_def ll_simps ll_rep_def chain_append image_Un)
  next
    case (Cons c vs')
    obtain d z where c: "c = (d, z)" by (cases c)
    have t: "lastp vs' (Some d) \<noteq> Some b" 
      using assms(1) Cons c by (auto simp: ll_rep_def lastp_def dest!: last_in_set split: if_splits)
    show ?thesis
      using assms na Cons c t
      by (auto simp: ll_add_after_def ll_create_node_def Let_def ll_simps ll_rep_def chain_append image_Un)
  qed
qed

lemma ll_remove_rep:
  assumes "ll_rep h l (us @ (b, y) # vs)"
  shows "\<exists>l' h'. ll_remove h (Some l) (Some b) = Inr (Some y, Some l', h')
    \<and> ll_rep h' l' (us @ vs) \<and> h' b = None
    \<and> (\<forall>c. c \<notin> fst ` set (us @ (b, y) # vs) \<longrightarrow> h' c = h c)"
proof -
  have d: "distinct (map fst (us @ (b, y) # vs))" using assms by (simp add: ll_rep_def)
  consider (n) "us = []" "vs = []" | (f) c z vs' where "us = []" "vs = (c, z) # vs'"
    | (l) us' c z where "us = us' @ [(c, z)]" "vs = []"
    | (m) us' c z d w vs' where "us = us' @ [(c, z)]" "vs = (d, w) # vs'"
  proof (cases us rule: rev_cases)
    case Nil
    then show ?thesis by (cases vs) (use that(1) in simp, use that(2) in force)
  next
    case (snoc us' p)
    then have "us = us' @ [(fst p, snd p)]" by simp
    then show ?thesis by (cases vs) (use that(3) in blast, use that(4) in force)
  qed
  then show ?thesis
  proof cases
    case n
    with assms show ?thesis by (auto simp: ll_remove_def ll_simps ll_rep_def)
  next
    case f
    have "lastp vs' (Some c) \<noteq> Some b"
      using d f by (auto simp: lastp_def dest!: last_in_set split: if_splits)
    with assms f show ?thesis by (auto simp: ll_remove_def ll_simps ll_rep_def)
  next
    case l
    have "firstp us' (Some c) \<noteq> Some b" using d l by (cases us') auto
    with assms l show ?thesis by (auto simp: ll_remove_def ll_simps ll_rep_def chain_append)
  next
    case m
    have "firstp us' (Some c) \<noteq> Some b" using d m by (cases us') auto
    moreover have "lastp vs' (Some d) \<noteq> Some b"
      using d m by (auto simp: lastp_def dest!: last_in_set split: if_splits)
    ultimately show ?thesis
      using assms m by (auto simp: ll_remove_def ll_simps ll_rep_def chain_append)
  qed
qed

lemma ll_destroy_loop_chain:
  "chain h p ps None \<Longrightarrow> distinct (map fst ps) \<Longrightarrow> length ps < n \<Longrightarrow>
   ll_destroy_loop n h (firstp ps None) = Inr (\<lambda>b. if b \<in> fst ` set ps then None else h b)"
proof (induction ps arbitrary: h p n)
  case Nil then show ?case by (cases n) auto
next
  case (Cons x ps)
  obtain a y where x: "x = (a, y)" by (cases x)
  obtain m where n: "n = Suc m" "length ps < m" using Cons.prems(3) by (cases n) auto
  have "chain (h(a := None)) (Some a) ps None" using Cons.prems x by simp
  moreover have "distinct (map fst ps)" using Cons.prems(2) by simp
  ultimately have "ll_destroy_loop m (h(a := None)) (firstp ps None) =
      Inr (\<lambda>b. if b \<in> fst ` set ps then None else (h(a := None)) b)" using n(2) by (rule Cons.IH)
  also have "(\<lambda>b. if b \<in> fst ` set ps then None else (h(a := None)) b)
      = (\<lambda>b. if b \<in> fst ` set (x # ps) then None else h b)" using x by auto
  finally have "ll_destroy_loop m (h(a := None)) (firstp ps None) =
      Inr (\<lambda>b. if b \<in> fst ` set (x # ps) then None else h b)" .
  moreover have "h a = Some \<lparr> ll_next = firstp ps None, ll_prev = p, ll_object = Some y \<rparr>"
    using Cons.prems(1) x by simp
  ultimately show ?case using x n(1) by (simp only: firstp_simps fst_conv ll_destroy_loop.simps
      node_at_Some free_node_Some bnd_Inr ll_node.simps)
qed

lemma ll_find_loop_chain:
  "chain h p ps None \<Longrightarrow> length ps < n \<Longrightarrow>
   ll_find_loop n h (firstp ps None) (Some x) = Inr (map_option fst (find (\<lambda>q. snd q = x) ps))"
proof (induction ps arbitrary: p n)
  case Nil then show ?case by (cases n) auto
next
  case (Cons q ps)
  obtain a y where q: "q = (a, y)" by (cases q)
  obtain m where n: "n = Suc m" "length ps < m" using Cons.prems(2) by (cases n) auto
  from Cons.IH [OF _ n(2)] Cons.prems q n(1) show ?case by (auto simp: ll_simps)
qed

section \<open>The interface: a queue of objects\<close>

text \<open>
  What the connection state needs of the list: add at the back, look at the front, remove
  the front, count. \<open>rep s ps\<close> says that the state \<open>s\<close> holds the elements \<open>ps\<close>; \<open>ok s a\<close>
  that the address \<open>a\<close> is free in \<open>s\<close>.
\<close>

locale fifo =
  fixes rep :: "'s \<Rightarrow> ll_nodes \<Rightarrow> bool"
    and ok :: "'s \<Rightarrow> ll_addr \<Rightarrow> bool"
    and enq :: "ll_addr \<Rightarrow> ll_obj \<Rightarrow> 's \<Rightarrow> 's res"
    and front :: "'s \<Rightarrow> ll_addr option res"
    and deq :: "'s \<Rightarrow> (ll_obj option \<times> 's) res"
    and size_of :: "'s \<Rightarrow> u32 res"
  assumes enq_rep: "rep s ps \<Longrightarrow> ok s a \<Longrightarrow> \<exists>s'. enq a x s = Inr s' \<and> rep s' (ps @ [(a, x)])"
    and front_rep: "rep s ps \<Longrightarrow> front s = Inr (map_option fst (find (\<lambda>_. True) ps))"
    and deq_rep: "rep s ((a, x) # ps) \<Longrightarrow> \<exists>s'. deq s = Inr (Some x, s') \<and> rep s' ps"
    and size_rep: "rep s ps \<Longrightarrow> size_of s = Inr (of_nat (length ps))"
begin

fun deq_n :: "nat \<Rightarrow> 's \<Rightarrow> (ll_obj option list \<times> 's) res" where
  "deq_n 0 s = Inr ([], s)"
| "deq_n (Suc n) s = bnd (deq s) (\<lambda>(x, s). bnd (deq_n n s) (\<lambda>(xs, s). Inr (x # xs, s)))"

lemma deq_n_rep:
  "rep s (ps @ qs) \<Longrightarrow> \<exists>s'. deq_n (length ps) s = Inr (map (\<lambda>p. Some (snd p)) ps, s') \<and> rep s' qs"
proof (induction ps arbitrary: s)
  case (Cons p ps)
  then obtain s1 where "deq s = Inr (Some (snd p), s1)" "rep s1 (ps @ qs)"
    using deq_rep [of s "fst p" "snd p" "ps @ qs"] by auto
  with Cons.IH show ?case by fastforce
qed simp

lemma enq_then_deq:
  assumes "rep s ps" "ok s a"
  shows "\<exists>s' s''. enq a x s = Inr s' \<and> deq_n (length ps) s' = Inr (map (\<lambda>p. Some (snd p)) ps, s'')
    \<and> front s'' = Inr (Some a) \<and> size_of s'' = Inr 1"
proof -
  obtain s' where s': "enq a x s = Inr s'" "rep s' (ps @ [(a, x)])" using enq_rep [OF assms] by blast
  obtain s'' where s'': "deq_n (length ps) s' = Inr (map (\<lambda>p. Some (snd p)) ps, s'')" "rep s'' [(a, x)]"
    using deq_n_rep [OF s'(2)] by blast
  show ?thesis using s' s'' front_rep [OF s''(2)] size_rep [OF s''(2)] by auto
qed

end

type_synonym ll_state = "ll_heap \<times> linked_list"

definition lls_rep :: "ll_state \<Rightarrow> ll_nodes \<Rightarrow> bool" where
  "lls_rep s ps \<longleftrightarrow> ll_rep (fst s) (snd s) ps"

definition lls_add :: "ll_addr \<Rightarrow> ll_obj \<Rightarrow> ll_state \<Rightarrow> ll_state res" where
  "lls_add a x s = bnd (ll_add a (fst s) (Some (snd s)) (Some x)) (\<lambda>(_, l, h).
     bnd (deref l) (\<lambda>l. Inr (h, l)))"

definition lls_pop :: "ll_state \<Rightarrow> (ll_obj option \<times> ll_state) res" where
  "lls_pop s = bnd (ll_front (Some (snd s))) (\<lambda>node.
     bnd (ll_remove (fst s) (Some (snd s)) node) (\<lambda>(x, l, h). bnd (deref l) (\<lambda>l. Inr (x, h, l))))"

interpretation llq: fifo lls_rep "\<lambda>s a. fst s a = None" lls_add "\<lambda>s. ll_front (Some (snd s))"
  lls_pop "\<lambda>s. ll_length (Some (snd s))"
proof unfold_locales
  fix s ps a x
  assume "lls_rep s ps" "fst s a = None"
  then show "\<exists>s'. lls_add a x s = Inr s' \<and> lls_rep s' (ps @ [(a, x)])"
    using ll_add_rep [of "fst s" "snd s" ps a x] by (auto simp: lls_rep_def lls_add_def)
next
  fix s ps
  assume "lls_rep s ps"
  then show "ll_front (Some (snd s)) = Inr (map_option fst (find (\<lambda>_. True) ps))"
    by (cases ps) (auto simp: lls_rep_def ll_front_def ll_rep_def)
next
  fix s a x ps
  assume r: "lls_rep s ((a, x) # ps)"
  then have "ll_front (Some (snd s)) = Inr (Some a)" by (simp add: lls_rep_def ll_front_def ll_rep_def)
  with r show "\<exists>s'. lls_pop s = Inr (Some x, s') \<and> lls_rep s' ps"
    using ll_remove_rep [of "fst s" "snd s" "[]" a x ps] by (auto simp: lls_rep_def lls_pop_def)
qed (simp add: lls_rep_def ll_length_def ll_rep_def)

section \<open>Properties\<close>

text \<open>
  C24. Removing a node: from a list whose nodes are \<open>us\<close>, the node \<open>b\<close> with object \<open>y\<close>, and
  \<open>vs\<close>, \<^verbatim>\<open>ll_remove\<close> returns \<open>y\<close>, frees exactly the node \<open>b\<close>, and leaves a proper doubly linked
  list of \<open>us\<close> and \<open>vs\<close>, wherever in the list the node was; no other list of the heap changes.
\<close>

theorem ll_remove_spec:
  assumes "ll_rep h l (us @ (b, y) # vs)"
  shows "\<exists>l' h'. ll_remove h (Some l) (Some b) = Inr (Some y, Some l', h')
    \<and> ll_rep h' l' (us @ vs) \<and> h' b = None
    \<and> (\<forall>c. c \<notin> fst ` set (us @ (b, y) # vs) \<longrightarrow> h' c = h c)"
  using assms by (rule ll_remove_rep)

text \<open>
  Adding: with a fresh node the three insertions put the object at the back, at the front
  and right after the given node, keep the list proper, and change no other node.
\<close>

theorem ll_add_spec:
  assumes "ll_rep h l (us @ (b, y) # vs)" "h a = None"
  defines "ps \<equiv> us @ (b, y) # vs"
  shows "(\<exists>l' h'. ll_add a h (Some l) (Some x) = Inr (Some a, Some l', h')
      \<and> ll_rep h' l' (ps @ [(a, x)]) \<and> (\<forall>c. c \<notin> insert a (fst ` set ps) \<longrightarrow> h' c = h c))
    \<and> (\<exists>l' h'. ll_add_front a h (Some l) (Some x) = Inr (Some a, Some l', h')
      \<and> ll_rep h' l' ((a, x) # ps) \<and> (\<forall>c. c \<notin> insert a (fst ` set ps) \<longrightarrow> h' c = h c))
    \<and> (\<exists>l' h'. ll_add_after a h (Some l) (Some b) (Some x) = Inr (Some a, Some l', h')
      \<and> ll_rep h' l' (us @ (b, y) # (a, x) # vs) \<and> (\<forall>c. c \<notin> insert a (fst ` set ps) \<longrightarrow> h' c = h c))"
  unfolding ps_def
  using ll_add_rep [OF assms(1,2)] ll_add_front_rep [OF assms(1,2)] ll_add_after_rep [OF assms(1,2)]
  by (intro conjI)

text \<open>
  Searching ends after at most one step more than the list has nodes, and returns the
  first node holding the object, NULL when no node does.
\<close>

theorem ll_find_spec:
  "ll_rep h l ps \<Longrightarrow> length ps < n \<Longrightarrow>
   ll_find n h (Some l) (Some x) = Inr (map_option fst (find (\<lambda>q. snd q = x) ps))"
  using ll_find_loop_chain [of h None ps n x] by (simp add: ll_find_def ll_rep_def)

text \<open>
  Destroying a list ends, frees all of its nodes, touches none twice, and leaves the
  rest of the heap alone.
\<close>

theorem ll_destroy_spec:
  assumes "ll_rep h l ps" "length ps < n"
  shows "ll_destroy n h (Some l) = Inr (\<lambda>b. if b \<in> fst ` set ps then None else h b)"
  using assms ll_destroy_loop_chain [of h None ps n] by (auto simp: ll_destroy_def ll_rep_def)

text \<open>
  C25. First in, first out: an object added behind \<open>ps\<close> reaches the front exactly when as many
  removals of the front as \<open>ps\<close> has elements have returned these, in order.
\<close>

theorem ll_fifo:
  assumes "ll_rep h l ps" "h a = None"
  shows "\<exists>s' h'' l''. lls_add a x (h, l) = Inr s'
    \<and> llq.deq_n (length ps) s' = Inr (map (\<lambda>p. Some (snd p)) ps, h'', l'')
    \<and> ll_front (Some l'') = Inr (Some a) \<and> ll_length (Some l'') = Inr 1"
  using llq.enq_then_deq [of "(h, l)" ps a x] assms by (auto simp: lls_rep_def)

section \<open>Witnesses\<close>

definition two_heap :: ll_heap where
  "two_heap = (\<lambda>_. None)(1 := Some \<lparr> ll_next = Some 2, ll_prev = None, ll_object = Some 10 \<rparr>,
     2 := Some \<lparr> ll_next = None, ll_prev = Some 1, ll_object = Some 20 \<rparr>)"

definition two_list :: linked_list where
  "two_list = \<lparr> ll_head = Some 1, ll_tail = Some 2, ll_len = 2 \<rparr>"

lemma two_rep: "ll_rep two_heap two_list [(1, 10), (2, 20)]"
  by (simp add: ll_rep_def two_heap_def two_list_def)

theorem ll_remove_spec_witness:
  "\<exists>l' h'. ll_remove two_heap (Some two_list) (Some 1) = Inr (Some 10, Some l', h') \<and> ll_rep h' l' [(2, 20)]"
  using ll_remove_spec [of two_heap two_list "[]" 1 10 "[(2, 20)]"] two_rep by auto

theorem ll_add_spec_witness:
  "\<exists>l' h'. ll_add_after 3 two_heap (Some two_list) (Some 1) (Some 30) = Inr (Some 3, Some l', h')
    \<and> ll_rep h' l' [(1, 10), (3, 30), (2, 20)]"
proof -
  have "two_heap 3 = None" by (simp add: two_heap_def)
  from ll_add_spec [of two_heap two_list "[]" 1 10 "[(2, 20)]" 3 30, OF _ this] two_rep show ?thesis by auto
qed

theorem ll_find_spec_witness: "ll_find 3 two_heap (Some two_list) (Some 20) = Inr (Some 2)"
  by (subst ll_find_spec [OF two_rep]) simp_all

theorem ll_destroy_spec_witness: "ll_destroy 3 two_heap (Some two_list) = Inr (\<lambda>_. None)"
  by (subst ll_destroy_spec [OF two_rep]) (auto simp: two_heap_def)

theorem ll_fifo_witness:
  "\<exists>s' h'' l''. lls_add 3 30 (two_heap, two_list) = Inr s' \<and>
    llq.deq_n 2 s' = Inr ([Some 10, Some 20], h'', l'') \<and> ll_front (Some l'') = Inr (Some 3)"
proof -
  have "two_heap 3 = None" by (simp add: two_heap_def)
  from ll_fifo [OF two_rep this, of 30] show ?thesis by (auto simp: numeral_2_eq_2)
qed

end
