(* ===== verification/Fp.thy ===== *)
theory Fp
  imports Complex_Main Prelude "HOL-Library.Log_Nat" "HOL-Library.Signed_Division"
begin

text \<open>
  The floating-point arithmetic of C that the congestion control uses: \<^verbatim>\<open>float\<close> and
  \<^verbatim>\<open>double\<close> are binary formats with significands of 24 and 53 bits, every operation returns the
  exact result rounded to the nearest value of the format, ties to even. A finite value is the
  rational number it stands for; the two zeros are one value, and the exponent is unbounded,
  as the program never leaves the range of the exponents: its values lie between
  \<open>2 ^ -64\<close> and \<open>2 ^ 127\<close>. Infinities and not-a-number are values, as
  the program divides by zero; converting them, or a number beyond 64 bits, to \<^verbatim>\<open>long\<close> is the
  fault \<open>BadConversion\<close>.

  The lemmas show that rounding is exact on the integers of the significand's width and never
  crosses one.
\<close>

datatype fp = Fin rat | PInf | NInf | NaN

abbreviation SINGLE :: nat where "SINGLE \<equiv> 24"
abbreviation DOUBLE :: nat where "DOUBLE \<equiv> 53"

section \<open>Rounding\<close>

text \<open>The exponent \<open>e\<close> with \<open>2 powi e \<le> x < 2 powi (e + 1)\<close>.\<close>

definition ilog2 :: "rat \<Rightarrow> int" where
  "ilog2 x = (if 1 \<le> x then int (floorlog 2 (nat \<lfloor>x\<rfloor>)) - 1
              else - int (floorlog 2 (nat (\<lceil>1 / x\<rceil> - 1))))"

definition round_even :: "rat \<Rightarrow> int" where
  "round_even x =
     (let f = \<lfloor>x\<rfloor>; r = x - of_int f
      in if r < 1 / 2 then f else if r > 1 / 2 then f + 1 else if even f then f else f + 1)"

definition rnd :: "nat \<Rightarrow> rat \<Rightarrow> rat" where
  "rnd p x = (if x = 0 then 0
     else let e = ilog2 \<bar>x\<bar> - int p + 1 in of_int (round_even (x / 2 powi e)) * 2 powi e)"

section \<open>Operations\<close>

definition f_of_int :: "nat \<Rightarrow> int \<Rightarrow> fp" where
  "f_of_int p n = Fin (rnd p (of_int n))"

definition f_inf :: "bool \<Rightarrow> fp" where
  "f_inf positive = (if positive then PInf else NInf)"

fun f_neg :: "fp \<Rightarrow> bool" where
  "f_neg (Fin a) = (a < 0)"
| "f_neg NInf = True"
| "f_neg _ = False"

fun f_mul :: "nat \<Rightarrow> fp \<Rightarrow> fp \<Rightarrow> fp" where
  "f_mul p NaN y = NaN"
| "f_mul p x NaN = NaN"
| "f_mul p (Fin a) (Fin b) = Fin (rnd p (a * b))"
| "f_mul p (Fin a) y = (if a = 0 then NaN else f_inf ((a < 0) = f_neg y))"
| "f_mul p x (Fin b) = (if b = 0 then NaN else f_inf (f_neg x = (b < 0)))"
| "f_mul p x y = f_inf (f_neg x = f_neg y)"

fun f_div :: "nat \<Rightarrow> fp \<Rightarrow> fp \<Rightarrow> fp" where
  "f_div p NaN y = NaN"
| "f_div p x NaN = NaN"
| "f_div p (Fin a) (Fin b) =
     (if b = 0 then (if a = 0 then NaN else f_inf (0 < a)) else Fin (rnd p (a / b)))"
| "f_div p (Fin a) y = Fin 0"
| "f_div p x (Fin b) = f_inf (f_neg x = (b < 0))"
| "f_div p x y = NaN"

fun f_add :: "nat \<Rightarrow> fp \<Rightarrow> fp \<Rightarrow> fp" where
  "f_add p NaN y = NaN"
| "f_add p x NaN = NaN"
| "f_add p (Fin a) (Fin b) = Fin (rnd p (a + b))"
| "f_add p (Fin a) y = y"
| "f_add p x (Fin b) = x"
| "f_add p x y = (if x = y then x else NaN)"

fun f_less :: "fp \<Rightarrow> fp \<Rightarrow> bool" where
  "f_less NaN y = False"
| "f_less x NaN = False"
| "f_less (Fin a) (Fin b) = (a < b)"
| "f_less x PInf = (x \<noteq> PInf)"
| "f_less NInf y = (y \<noteq> NInf)"
| "f_less x y = False"

fun f_le :: "fp \<Rightarrow> fp \<Rightarrow> bool" where
  "f_le NaN y = False"
| "f_le x NaN = False"
| "f_le x y = (\<not> f_less y x)"

definition f_is_zero :: "fp \<Rightarrow> bool" where
  "f_is_zero x \<longleftrightarrow> x = Fin 0"

definition trunc :: "rat \<Rightarrow> int" where
  "trunc r = (if 0 \<le> r then \<lfloor>r\<rfloor> else \<lceil>r\<rceil>)"

definition to_long :: "fp \<Rightarrow> int res" where
  "to_long x = (case x of
      Fin r \<Rightarrow> if -(2 ^ 63) \<le> trunc r \<and> trunc r < 2 ^ 63 then Inr (trunc r) else Inl BadConversion
    | _ \<Rightarrow> Inl BadConversion)"

section \<open>Lemmas: rounding\<close>

lemma floorlog_rat:
  assumes "0 < n"
  shows "2 ^ (floorlog 2 n - 1) \<le> n \<and> n < 2 ^ floorlog 2 n"
  using floorlog_bounds [of n 2] assms by simp

lemma rat_Suc_le_power: "n < 2 ^ k \<Longrightarrow> of_nat n + 1 \<le> (2 :: rat) ^ k"
proof -
  assume "n < 2 ^ k"
  then have "of_nat (Suc n) \<le> (of_nat (2 ^ k) :: rat)" by (simp only: of_nat_le_iff Suc_le_eq)
  then show ?thesis by simp
qed

lemma rat_power_le: "2 ^ k \<le> n \<Longrightarrow> (2 :: rat) ^ k \<le> of_nat n"
proof -
  assume "2 ^ k \<le> n"
  then have "of_nat (2 ^ k) \<le> (of_nat n :: rat)" by (simp only: of_nat_le_iff)
  then show ?thesis by simp
qed

lemma ilog2_bounds:
  assumes "0 < x"
  shows "2 powi ilog2 x \<le> x \<and> x < 2 powi (ilog2 x + 1)"
proof (cases "1 \<le> x")
  case True
  let ?n = "nat \<lfloor>x\<rfloor>"
  let ?k = "floorlog 2 ?n"
  have n: "0 < ?n" using True by (simp add: le_floor_iff zero_less_nat_eq)
  then have k: "0 < ?k" by (simp add: floorlog_def)
  have b: "2 ^ (?k - 1) \<le> ?n" "?n < 2 ^ ?k" using floorlog_rat [OF n] by auto
  have r: "(of_nat ?n :: rat) = of_int \<lfloor>x\<rfloor>" using n by simp
  have "(2 :: rat) ^ (?k - 1) \<le> of_nat ?n" by (rule rat_power_le [OF b(1)])
  then have lo: "(2 :: rat) ^ (?k - 1) \<le> x" using r of_int_floor_le [of x] by linarith
  have "of_nat ?n + 1 \<le> (2 :: rat) ^ ?k"
    by (rule rat_Suc_le_power [OF b(2)])
  then have hi: "x < (2 :: rat) ^ ?k" using r floor_less_iff [of x "\<lfloor>x\<rfloor> + 1"] by linarith
  have e: "ilog2 x = int (?k - 1)" "ilog2 x + 1 = int ?k" using True k by (auto simp: ilog2_def)
  show ?thesis unfolding e(2) using lo hi unfolding e(1) by (simp add: power_int_of_nat)
next
  case False
  let ?y = "1 / x"
  let ?n = "nat (\<lceil>?y\<rceil> - 1)"
  let ?k = "floorlog 2 ?n"
  have y: "1 < ?y" using False assms by simp
  then have n: "0 < ?n" by (simp add: less_ceiling_iff)
  then have k: "0 < ?k" by (simp add: floorlog_def)
  have b: "2 ^ (?k - 1) \<le> ?n" "?n < 2 ^ ?k" using floorlog_rat [OF n] by auto
  have "int ?n = \<lceil>?y\<rceil> - 1" using n by linarith
  then have r: "(of_nat ?n :: rat) = of_int \<lceil>?y\<rceil> - 1" by (metis of_int_1 of_int_diff of_int_of_nat_eq)
  have "(2 :: rat) ^ (?k - 1) \<le> of_nat ?n" by (rule rat_power_le [OF b(1)])
  then have lo: "(2 :: rat) ^ (?k - 1) < ?y" using r ceiling_correct [of ?y] by linarith
  have "of_nat ?n + 1 \<le> (2 :: rat) ^ ?k"
    by (rule rat_Suc_le_power [OF b(2)])
  then have hi: "?y \<le> (2 :: rat) ^ ?k" using r le_of_int_ceiling [of ?y] by linarith
  have e: "ilog2 x = - int ?k" "ilog2 x + 1 = - int (?k - 1)" using False k by (auto simp: ilog2_def)
  have "inverse ((2 :: rat) ^ ?k) \<le> x" using hi assms by (simp add: field_simps)
  moreover have "x < inverse ((2 :: rat) ^ (?k - 1))" using lo assms by (simp add: field_simps)
  ultimately show ?thesis unfolding e(2) unfolding e(1) by (simp add: power_int_minus power_int_of_nat)
qed

lemma round_even_ge: "of_int m \<le> y \<Longrightarrow> m \<le> round_even y"
  by (simp add: round_even_def Let_def le_floor_iff) linarith

lemma round_even_le: "y \<le> of_int m \<Longrightarrow> round_even y \<le> m"
proof -
  assume y: "y \<le> of_int m"
  then have f: "\<lfloor>y\<rfloor> \<le> m" by (simp add: floor_le_iff)
  show "round_even y \<le> m"
  proof (cases "\<lfloor>y\<rfloor> = m")
    case True
    then have "y = of_int m" using y of_int_floor_le [of y] by simp
    then show ?thesis by (simp add: round_even_def)
  qed (use f in \<open>auto simp: round_even_def Let_def\<close>)
qed

lemma round_even_int [simp]: "round_even (of_int m) = m"
  by (simp add: round_even_def)


lemma powi_split: "(2 :: rat) powi (a + b) = 2 powi a * 2 powi b"
  by (simp add: power_int_add)

lemma rnd_pos:
  assumes "0 < x" "0 < p"
  obtains e where "e = ilog2 x - int p + 1" "rnd p x = of_int (round_even (x / 2 powi e)) * 2 powi e"
    "2 powi (int p - 1) \<le> x / 2 powi e" "2 powi (int p - 1) * 2 powi e = (2 :: rat) powi ilog2 x"
proof -
  let ?e = "ilog2 x - int p + 1"
  have s: "(2 :: rat) powi (int p - 1) * 2 powi ?e = 2 powi ilog2 x"
    using powi_split [of "int p - 1" ?e] by simp
  moreover have "2 powi ilog2 x \<le> x" using ilog2_bounds [OF assms(1)] by simp
  ultimately have "2 powi (int p - 1) \<le> x / 2 powi ?e" by (simp add: field_simps)
  with s that assms(1) show thesis by (simp add: rnd_def Let_def)
qed

lemma powi_neg_scale:
  assumes "e \<le> 0"
  shows "(of_int n :: rat) = of_int (n * 2 ^ nat (- e)) * 2 powi e"
proof -
  have "(2 :: rat) ^ nat (- e) = 2 powi (- e)" using assms by (simp add: power_int_def)
  then have "(2 :: rat) ^ nat (- e) * 2 powi e = 1" using powi_split [of "- e" e] by simp
  then show ?thesis by (simp add: mult.assoc)
qed

text \<open>Rounding does not cross an integer that the format represents.\<close>

lemma rnd_ge_int:
  assumes "of_int n \<le> x" "0 \<le> x" "0 < p" "n \<le> 2 ^ p"
  shows "of_int n \<le> rnd p x"
proof (cases "x = 0")
  case True then show ?thesis using assms(1) by (simp add: rnd_def)
next
  case False
  then have x: "0 < x" using assms(2) by simp
  obtain e where e: "rnd p x = of_int (round_even (x / 2 powi e)) * 2 powi e" "e = ilog2 x - int p + 1"
    "2 powi (int p - 1) \<le> x / 2 powi e" "2 powi (int p - 1) * 2 powi e = (2 :: rat) powi ilog2 x"
    using rnd_pos [OF x assms(3)] by metis
  show ?thesis
  proof (cases "e \<le> 0")
    case True
    let ?m = "n * 2 ^ nat (- e)"
    have n: "of_int n = of_int ?m * (2 :: rat) powi e" by (rule powi_neg_scale [OF True])
    then have "of_int ?m \<le> x / 2 powi e" using assms(1) by (simp only: pos_le_divide_eq zero_less_power_int zero_less_numeral)
    then have "?m \<le> round_even (x / 2 powi e)" by (rule round_even_ge)
    then have "(of_int ?m :: rat) \<le> of_int (round_even (x / 2 powi e))" by (simp only: of_int_le_iff)
    then show ?thesis unfolding e(1) n by (intro mult_right_mono) auto
  next
    case False
    have "(2 :: rat) powi (int p - 1) = of_int (2 ^ (p - 1))"
      using assms(3) by (simp add: power_int_def nat_diff_distrib)
    then have "2 ^ (p - 1) \<le> round_even (x / 2 powi e)" using round_even_ge e(3) by simp
    then have "(of_int (2 ^ (p - 1)) :: rat) \<le> of_int (round_even (x / 2 powi e))" by (simp only: of_int_le_iff)
    then have "(2 :: rat) powi (int p - 1) * 2 powi e \<le> rnd p x"
      unfolding e(1) \<open>(2 :: rat) powi (int p - 1) = of_int (2 ^ (p - 1))\<close> by (intro mult_right_mono) auto
    moreover have "(2 :: rat) powi int p \<le> 2 powi ilog2 x"
      using False e(2) by (intro power_int_increasing) auto
    moreover have "(of_int n :: rat) \<le> 2 powi int p"
      using assms(4) by (simp add: power_int_of_nat)
    ultimately show ?thesis using e(4) by linarith
  qed
qed

lemma rnd_le_int:
  assumes "x \<le> of_int n" "0 \<le> x" "0 < p" "n \<le> 2 ^ p"
  shows "rnd p x \<le> of_int n"
proof (cases "x = 0")
  case True then show ?thesis using assms(1) by (simp add: rnd_def)
next
  case False
  then have x: "0 < x" using assms(2) by simp
  obtain e where e: "rnd p x = of_int (round_even (x / 2 powi e)) * 2 powi e" "e = ilog2 x - int p + 1"
    "2 powi (int p - 1) * 2 powi e = (2 :: rat) powi ilog2 x"
    using rnd_pos [OF x assms(3)] by metis
  have np: "(of_int n :: rat) \<le> 2 powi int p"
    using assms(4) by (simp add: power_int_of_nat)
  then have lp: "2 powi ilog2 x \<le> (2 :: rat) powi int p" using ilog2_bounds [OF x] assms(1) by linarith
  have ip: "ilog2 x \<le> int p"
  proof (rule ccontr, unfold not_le)
    assume "int p < ilog2 x"
    then have "(2 :: rat) powi (int p + 1) \<le> 2 powi ilog2 x" by (intro power_int_increasing) auto
    with lp have "(2 :: rat) powi (int p + 1) \<le> 2 powi int p" by (rule order_trans [rotated])
    then have "(2 :: rat) ^ p * 2 \<le> 2 ^ p" by (simp add: power_int_add)
    moreover have "(0 :: rat) < 2 ^ p" by simp
    ultimately show False by linarith
  qed
  show ?thesis
  proof (cases "e \<le> 0")
    case True
    let ?m = "n * 2 ^ nat (- e)"
    have n: "of_int n = of_int ?m * (2 :: rat) powi e" by (rule powi_neg_scale [OF True])
    then have "x / 2 powi e \<le> of_int ?m" using assms(1) by (simp only: pos_divide_le_eq zero_less_power_int zero_less_numeral)
    then have "round_even (x / 2 powi e) \<le> ?m" by (rule round_even_le)
    then have "(of_int (round_even (x / 2 powi e)) :: rat) \<le> of_int ?m" by (simp only: of_int_le_iff)
    then show ?thesis unfolding e(1) n by (intro mult_right_mono) auto
  next
    case False
    then have i: "ilog2 x = int p" "e = 1" using ip e(2) by auto
    then have "2 powi int p \<le> x" using ilog2_bounds [OF x] by simp
    then have "x = 2 powi int p" using np assms(1) by linarith
    then have "x / 2 powi e = of_int (2 ^ (p - 1))" using e(3) i assms(3)
      by (cases p) (auto simp: power_int_of_nat)
    then have "rnd p x = of_int (2 ^ (p - 1)) * 2 powi e" unfolding e(1) by (simp only: round_even_int)
    also have "\<dots> = x" using i \<open>x = 2 powi int p\<close> assms(3) by (cases p) (auto simp: power_int_of_nat power_int_add)
    finally show ?thesis using assms(1) by simp
  qed
qed

lemma rnd_int [simp]: "0 \<le> n \<Longrightarrow> n \<le> 2 ^ p \<Longrightarrow> 0 < p \<Longrightarrow> rnd p (of_int n) = of_int n"
  by (intro antisym rnd_le_int rnd_ge_int) auto

lemma rnd_nonneg [simp]: "0 \<le> x \<Longrightarrow> 0 < p \<Longrightarrow> 0 \<le> rnd p x"
  using rnd_ge_int [of 0 x p] by simp

lemma rnd_0 [simp]: "rnd p 0 = 0"
  by (simp add: rnd_def)

lemma f_of_int_small: "0 \<le> n \<Longrightarrow> n \<le> 2 ^ p \<Longrightarrow> 0 < p \<Longrightarrow> f_of_int p n = Fin (of_int n)"
  by (simp add: f_of_int_def)

lemma trunc_int [simp]: "trunc (of_int n) = n"
  by (simp add: trunc_def)

lemma trunc_ge: "of_int n \<le> r \<Longrightarrow> 0 \<le> n \<Longrightarrow> n \<le> trunc r"
  by (auto simp: trunc_def le_floor_iff)

lemma to_long_Inr: "to_long x = Inr n \<longleftrightarrow> (\<exists>r. x = Fin r \<and> n = trunc r \<and> -(2 ^ 63) \<le> n \<and> n < 2 ^ 63)"
  by (cases x) (auto simp: to_long_def)

text \<open>Rounding commutes with scaling by a power of two.\<close>

lemma powi_le_D: "(2 :: rat) powi a < 2 powi (b + 1) \<Longrightarrow> a \<le> b"
proof (rule ccontr)
  assume "(2 :: rat) powi a < 2 powi (b + 1)" "\<not> a \<le> b"
  moreover from this(2) have "(2 :: rat) powi (b + 1) \<le> 2 powi a" by (intro power_int_increasing) auto
  ultimately show False by simp
qed

lemma ilog2_unique:
  assumes "0 < x" "2 powi k \<le> x" "x < 2 powi (k + 1)"
  shows "ilog2 x = k"
proof -
  have "(2 :: rat) powi k < 2 powi (ilog2 x + 1)" "(2 :: rat) powi ilog2 x < 2 powi (k + 1)"
    using ilog2_bounds [OF assms(1)] assms(2,3) by linarith+
  then show ?thesis using powi_le_D by (simp add: antisym)
qed

lemma rnd_scale:
  assumes "0 \<le> x" shows "rnd p (x * 2 powi k) = rnd p x * 2 powi k"
proof (cases "x = 0")
  case False
  then have x: "0 < x" using assms by simp
  have b: "2 powi ilog2 x \<le> x" "x < 2 powi (ilog2 x + 1)" using ilog2_bounds [OF x] by auto
  have p: "(0 :: rat) < 2 powi k" by simp
  have "ilog2 (x * 2 powi k) = ilog2 x + k"
  proof (rule ilog2_unique)
    show "0 < x * 2 powi k" using x p by simp
    show "2 powi (ilog2 x + k) \<le> x * 2 powi k"
      unfolding powi_split using b(1) p by (intro mult_right_mono) auto
    have "x * 2 powi k < 2 powi (ilog2 x + 1) * 2 powi k" using b(2) p by (rule mult_strict_right_mono)
    then show "x * 2 powi k < 2 powi (ilog2 x + k + 1)"
      by (metis add.commute add.left_commute powi_split)
  qed
  moreover have "x * 2 powi k / 2 powi (ilog2 x + k - int p + 1) = x / 2 powi (ilog2 x - int p + 1)"
    using powi_split [of "ilog2 x - int p + 1" k] p by (simp add: field_simps)
  ultimately show ?thesis
    using x p powi_split [of "ilog2 x - int p + 1" k]
    by (simp add: rnd_def Let_def abs_mult mult.assoc algebra_simps)
qed simp

lemma rnd_ge_powi:
  assumes "2 powi k \<le> x" "0 < p" shows "2 powi k \<le> rnd p x"
proof -
  have pos: "(0 :: rat) < 2 powi k" by simp
  have "1 \<le> x / 2 powi k" using assms(1) pos by (simp only: pos_le_divide_eq mult_1)
  then have "0 \<le> x / 2 powi k" by linarith
  with \<open>1 \<le> x / 2 powi k\<close> have "1 \<le> rnd p (x / 2 powi k)"
    using rnd_ge_int [of 1 "x / 2 powi k" p] assms(2) by simp
  moreover have "rnd p x = rnd p (x / 2 powi k) * 2 powi k"
    using rnd_scale [OF \<open>0 \<le> x / 2 powi k\<close>, of p k] pos by simp
  ultimately show ?thesis using pos by simp
qed

lemma ratio_bounds:
  assumes "0 \<le> d" "d \<le> n" "1 \<le> t"
  shows "0 \<le> (of_int d :: rat) / of_int t \<and> (of_int d :: rat) / of_int t \<le> of_int n"
proof -
  have "n * 1 \<le> n * t" using assms by (intro mult_left_mono) auto
  then have "d \<le> n * t" using assms(2) by simp
  then have "(of_int d :: rat) \<le> of_int (n * t)" by (simp only: of_int_le_iff)
  then show ?thesis using assms by (simp add: pos_divide_le_eq)
qed

end
