(* ===== verification/Segment.thy ===== *)
theory Segment
  imports Cksum
begin

text \<open>
  The cTCP segment of \<^verbatim>\<open>ctcp_sys.h\<close>: its fields as they are stored, in network order where the
  code puts them so, and its bytes as the compiler lays the structure out on a 64-bit
  little-endian host: two bytes of padding before \<^verbatim>\<open>flags\<close>, four before \<^verbatim>\<open>sendtime\<close>, 48 bytes in
  all, then the data. Segments are allocated with \<^verbatim>\<open>calloc\<close>, so the padding is zero. The
  checksum of a segment is over these bytes.
\<close>

definition MAX_SEG_DATA_SIZE :: nat where [simp]: "MAX_SEG_DATA_SIZE = 1440"
definition RETRANSMIT_LIMIT :: int where [simp]: "RETRANSMIT_LIMIT = 5"
definition FILTER_SIZE :: nat where [simp]: "FILTER_SIZE = 10"

definition TH_FIN :: u32 where [simp]: "TH_FIN = 0x01"
definition TH_SYN :: u32 where [simp]: "TH_SYN = 0x02"
definition TH_RST :: u32 where [simp]: "TH_RST = 0x04"
definition TH_ACK :: u32 where [simp]: "TH_ACK = 0x10"

text \<open>The flags in host order, as \<^verbatim>\<open>ctcp.h\<close> defines them.\<close>

definition SYN :: u32 where "SYN = ntohl TH_SYN"
definition ACK :: u32 where "ACK = ntohl TH_ACK"
definition FIN :: u32 where "FIN = ntohl TH_FIN"

record ctcp_segment =
  sg_seqno :: u32
  sg_ackno :: u32
  sg_len :: u16
  sg_flags :: u32
  sg_window :: u16
  sg_cksum :: u16
  sg_sendtime :: int
  sg_delivered :: int
  sg_delivered_time :: int
  sg_data :: bytes

definition sizeof_segment :: nat where [simp]: "sizeof_segment = 48"

definition seg_hdr :: "ctcp_segment \<Rightarrow> bytes" where
  "seg_hdr s = bytes32 (sg_seqno s) @ bytes32 (sg_ackno s) @ bytes16 (sg_len s) @ [0, 0]
     @ bytes32 (sg_flags s) @ bytes16 (sg_window s) @ bytes16 (sg_cksum s) @ [0, 0, 0, 0]
     @ bytes64 (word_of_int (sg_sendtime s)) @ bytes64 (word_of_int (sg_delivered s))
     @ bytes64 (word_of_int (sg_delivered_time s))"

definition seg_bytes :: "ctcp_segment \<Rightarrow> bytes" where
  "seg_bytes s = seg_hdr s @ sg_data s"

definition le64 :: "bytes \<Rightarrow> u64" where
  "le64 b = foldr (\<lambda>x a. ucast x OR push_bit 8 a) b 0"

text \<open>Reading the structure back out of memory.\<close>

definition seg_of :: "bytes \<Rightarrow> ctcp_segment res" where
  "seg_of b =
     (if length b < sizeof_segment then Inl OutOfBounds else Inr
      \<lparr> sg_seqno = le32 (b ! 0) (b ! 1) (b ! 2) (b ! 3),
        sg_ackno = le32 (b ! 4) (b ! 5) (b ! 6) (b ! 7),
        sg_len = le16 (b ! 8) (b ! 9),
        sg_flags = le32 (b ! 12) (b ! 13) (b ! 14) (b ! 15),
        sg_window = le16 (b ! 16) (b ! 17),
        sg_cksum = le16 (b ! 18) (b ! 19),
        sg_sendtime = sint (le64 (take 8 (drop 24 b))),
        sg_delivered = sint (le64 (take 8 (drop 32 b))),
        sg_delivered_time = sint (le64 (take 8 (drop 40 b))),
        sg_data = drop 48 b \<rparr>)"

text \<open>\<^verbatim>\<open>calloc\<close> of a segment with room for \<open>n\<close> bytes of data.\<close>

definition seg_calloc :: "nat \<Rightarrow> ctcp_segment" where
  "seg_calloc n = \<lparr> sg_seqno = 0, sg_ackno = 0, sg_len = 0, sg_flags = 0, sg_window = 0, sg_cksum = 0,
     sg_sendtime = 0, sg_delivered = 0, sg_delivered_time = 0, sg_data = calloc n \<rparr>"

text \<open>\<^verbatim>\<open>cksum(seg, n)\<close>: of the first \<open>n\<close> bytes of the segment's memory.\<close>

definition seg_cksum :: "ctcp_segment \<Rightarrow> nat \<Rightarrow> u16 res" where
  "seg_cksum s n = bnd (read_bytes (seg_bytes s) 0 n) (\<lambda>b. Inr (cksum b))"

definition check_cksum :: "ctcp_segment \<Rightarrow> (bool \<times> ctcp_segment) res" where
  "check_cksum sgm =
     (let pre_cksum = ntohs (sg_cksum sgm); sgm = sgm\<lparr> sg_cksum := htons 0 \<rparr> in
      bnd (seg_cksum sgm (unat (ntohs (sg_len sgm)))) (\<lambda>c.
        let sgm = sgm\<lparr> sg_cksum := c \<rparr> in Inr (pre_cksum = ntohs (sg_cksum sgm), sgm)))"

text \<open>The printer, by the numbers and flags it prints.\<close>

definition print_hdr_ctcp :: "ctcp_segment \<Rightarrow> (u32 \<times> u32 \<times> u16) \<times> (bool \<times> bool \<times> bool) \<times> u16 \<times> u16" where
  "print_hdr_ctcp s =
     ((ntohl (sg_seqno s), ntohl (sg_ackno s), ntohs (sg_len s)),
      (sg_flags s AND TH_SYN \<noteq> 0, sg_flags s AND TH_ACK \<noteq> 0, sg_flags s AND TH_FIN \<noteq> 0),
      ntohs (sg_window s), sg_cksum s)"

section \<open>Lemmas\<close>

lemma length_seg_hdr [simp]: "length (seg_hdr s) = 48"
  by (simp add: seg_hdr_def)

lemma length_seg_bytes [simp]: "length (seg_bytes s) = 48 + length (sg_data s)"
  by (simp add: seg_bytes_def)

lemma bit_le64: "bit (le64 b) n \<longleftrightarrow> n < 64 \<and> n div 8 < length b \<and> bit (b ! (n div 8)) (n mod 8)"
proof (induction b arbitrary: n)
  case Nil then show ?case by (simp add: le64_def)
next
  case (Cons x b)
  have "le64 (x # b) = ucast x OR push_bit 8 (le64 b)" by (simp add: le64_def)
  moreover have "bit (x :: byte) n \<Longrightarrow> n < 8" using bit_imp_le_length [of x n] by simp
  ultimately have e: "bit (le64 (x # b)) n \<longleftrightarrow>
      n < 64 \<and> (if n < 8 then bit x n else bit (le64 b) (n - 8))" by (auto simp: bit_simps)
  show ?case
  proof (cases "n < 8")
    case True then show ?thesis by (simp add: e)
  next
    case False
    then obtain m where n: "n = m + 8" by (metis le_add_diff_inverse2 not_less)
    have d: "(m + 8) div 8 = Suc (m div 8)" "(m + 8) mod 8 = m mod 8" by simp_all
    show ?thesis using e Cons.IH [of m] unfolding n d by auto
  qed
qed

lemma le64_bytes64 [simp, byte_simps]: "le64 (bytes64 w) = w"
proof (rule bit_word_eqI)
  fix n assume "n < LENGTH(64)"
  then have n: "n < 64" by simp
  then have "n div 8 < 8" by simp
  then have "bytes64 w ! (n div 8) = ucast (drop_bit (8 * (n div 8)) w)" by (simp add: bytes64_def)
  then show "bit (le64 (bytes64 w)) n = bit w n"
    using n \<open>n div 8 < 8\<close> by (simp add: bit_le64 bit_simps)
qed

lemma le_bytes [simp]:
  "le32 (bytes32 v ! 0) (bytes32 v ! Suc 0) (bytes32 v ! 2) (bytes32 v ! 3) = v"
  "le16 (bytes16 w ! 0) (bytes16 w ! Suc 0) = w"
  by (simp_all add: bytes32_def bytes16_def)

definition long_ok :: "int \<Rightarrow> bool" where
  "long_ok t \<longleftrightarrow> -(2 ^ 63) \<le> t \<and> t < 2 ^ 63"

lemma sint_long [simp]: "long_ok t \<Longrightarrow> sint (word_of_int t :: u64) = t"
  by (simp add: long_ok_def signed_of_int signed_take_bit_int_eq_self)

lemma seg_of_bytes:
  assumes "long_ok (sg_sendtime s)" "long_ok (sg_delivered s)" "long_ok (sg_delivered_time s)"
  shows "seg_of (seg_bytes s) = Inr s"
  using assms by (simp add: seg_of_def seg_bytes_def seg_hdr_def nth_append drop_append take_append)

end
