(* ===== verification/Bbr.thy ===== *)
theory Bbr
  imports Fp Segment
begin

text \<open>
  The congestion control block of cTCP, \<^verbatim>\<open>ctcp_bbr.c\<close> with \<^verbatim>\<open>ctcp_bbr.h\<close>: the mode machine,
  the two window filters for the minimal round-trip time and the maximal delivery rate, the pacing
  and window gains. \<^verbatim>\<open>long\<close> and \<^verbatim>\<open>int\<close> are integers, \<^verbatim>\<open>float\<close> and \<^verbatim>\<open>double\<close> are \<open>fp\<close> with
  the rounding of their width; the clock \<open>now\<close> is a parameter, constant while a segment is
  handled. The gains are initialised by integer divisions, written out as the C code has them.
  \<^verbatim>\<open>bbr_send\<close>, which sends segments, is in the theory \<open>Ctcp\<close>.
\<close>

datatype bbr_mode = BBR_STARTUP | BBR_DRAIN | BBR_PROBE_BW | BBR_PROBE_RTT

record ctcp_bbr =
  bbr_mode_of :: bbr_mode
  pacing_gain :: fp
  cwnd_gain :: fp
  RTpropFilter :: "int list"
  min_rtt_us :: int
  min_rtt_stamp :: int
  b_delivered :: int
  b_delivered_time :: int
  deliveryRate :: fp
  BtlBwFilter :: "int list"
  max_btlbw :: fp
  max_btlbw_stamp :: int
  btlbw_not_incre_cnt :: int
  max_btlbw_last :: fp
  inflight :: int
  nextSendTime :: int
  ProbeBW_index :: int

definition ProbeBW_pacing :: "fp list" where
  "ProbeBW_pacing = map (f_of_int SINGLE) [5 div 4, 3 div 4, 1, 1, 1, 1, 1, 1]"

section \<open>Operations\<close>

text \<open>The block as \<^verbatim>\<open>calloc\<close> leaves it.\<close>

definition bbr_calloc :: ctcp_bbr where
  "bbr_calloc = \<lparr> bbr_mode_of = BBR_STARTUP, pacing_gain = Fin 0, cwnd_gain = Fin 0,
     RTpropFilter = replicate FILTER_SIZE 0, min_rtt_us = 0, min_rtt_stamp = 0, b_delivered = 0,
     b_delivered_time = 0, deliveryRate = Fin 0, BtlBwFilter = replicate FILTER_SIZE 0,
     max_btlbw = Fin 0, max_btlbw_stamp = 0, btlbw_not_incre_cnt = 0, max_btlbw_last = Fin 0,
     inflight = 0, nextSendTime = 0, ProbeBW_index = 0 \<rparr>"

definition init_bbr :: "int \<Rightarrow> ctcp_bbr \<Rightarrow> ctcp_bbr" where
  "init_bbr now bbr = bbr\<lparr> bbr_mode_of := BBR_STARTUP, deliveryRate := Fin 0,
     pacing_gain := f_of_int SINGLE (2885 div 1000), cwnd_gain := Fin 0, b_delivered := 0,
     b_delivered_time := now, max_btlbw := Fin 0, max_btlbw_last := Fin 0, inflight := 0,
     nextSendTime := 0, btlbw_not_incre_cnt := 0, ProbeBW_index := 0,
     RTpropFilter := replicate FILTER_SIZE 0x7fffffff \<rparr>"

definition ctcp_bbr_startup :: "ctcp_bbr \<Rightarrow> ctcp_bbr" where
  "ctcp_bbr_startup bbr = bbr\<lparr> pacing_gain := f_of_int SINGLE (2885 div 1000),
     cwnd_gain := f_of_int SINGLE (2885 div 1000) \<rparr>"

definition ctcp_bbr_drain :: "ctcp_bbr \<Rightarrow> ctcp_bbr" where
  "ctcp_bbr_drain bbr = bbr\<lparr> pacing_gain := f_of_int SINGLE (1000 div 2885) \<rparr>"

definition ctcp_bbr_probe_bw :: "ctcp_bbr \<Rightarrow> ctcp_bbr res" where
  "ctcp_bbr_probe_bw bbr =
     (let i = ProbeBW_index bbr smod 8 in
      if 0 \<le> i \<and> nat i < length ProbeBW_pacing
      then Inr (bbr\<lparr> pacing_gain := ProbeBW_pacing ! nat i, ProbeBW_index := i + 1 \<rparr>)
      else Inl OutOfBounds)"

definition ctcp_bbr_probe_rtt :: "ctcp_bbr \<Rightarrow> ctcp_bbr" where
  "ctcp_bbr_probe_rtt bbr = bbr"

text \<open>The two filter loops: from index \<open>i\<close>, \<open>k\<close> more steps.\<close>

fun min_filter_loop :: "nat \<Rightarrow> nat \<Rightarrow> int list \<Rightarrow> int \<Rightarrow> int list \<times> int" where
  "min_filter_loop i 0 F m = (F, m)"
| "min_filter_loop i (Suc k) F m =
     (let F = F[i := F ! (i + 1)] in min_filter_loop (i + 1) k F (if m > F ! i then F ! i else m))"

definition update_min_filter :: "int \<Rightarrow> ctcp_bbr \<Rightarrow> int \<Rightarrow> ctcp_bbr" where
  "update_min_filter now bbr rtt =
     (let (F, m) = min_filter_loop 0 (FILTER_SIZE - 1) (RTpropFilter bbr) rtt
      in bbr\<lparr> min_rtt_us := m, RTpropFilter := F[FILTER_SIZE - 1 := rtt], min_rtt_stamp := now \<rparr>)"

fun max_filter_loop :: "nat \<Rightarrow> nat \<Rightarrow> int list \<Rightarrow> fp \<Rightarrow> int list \<times> fp" where
  "max_filter_loop i 0 F m = (F, m)"
| "max_filter_loop i (Suc k) F m =
     (let F = F[i := F ! (i + 1)]; x = f_of_int DOUBLE (F ! i)
      in max_filter_loop (i + 1) k F (if f_less m x then x else m))"

definition update_max_filter :: "int \<Rightarrow> ctcp_bbr \<Rightarrow> fp \<Rightarrow> ctcp_bbr res" where
  "update_max_filter now bbr rate =
     (let (F, m) = max_filter_loop 0 (FILTER_SIZE - 1) (BtlBwFilter bbr) rate
      in bnd (to_long rate) (\<lambda>r.
        Inr (bbr\<lparr> max_btlbw := m, BtlBwFilter := F[FILTER_SIZE - 1 := r], max_btlbw_stamp := now \<rparr>)))"

text \<open>The state machine of \<^verbatim>\<open>bbr_onAck\<close>, before the measurements are taken.\<close>

definition bbr_switch :: "ctcp_bbr \<Rightarrow> ctcp_bbr res" where
  "bbr_switch bbr =
     (case bbr_mode_of bbr of
        BBR_STARTUP \<Rightarrow>
          (let bbr = ctcp_bbr_startup bbr;
               bbr = (if f_less (max_btlbw bbr) (f_mul DOUBLE (max_btlbw_last bbr) (Fin (5 / 4)))
                      then bbr\<lparr> btlbw_not_incre_cnt := btlbw_not_incre_cnt bbr + 1 \<rparr> else bbr)
           in Inr (if btlbw_not_incre_cnt bbr = 3
                   then ctcp_bbr_drain (bbr\<lparr> bbr_mode_of := BBR_DRAIN, btlbw_not_incre_cnt := 0 \<rparr>)
                   else bbr))
      | BBR_DRAIN \<Rightarrow>
          (let bbr = ctcp_bbr_drain bbr in
           if f_le (f_of_int DOUBLE (inflight bbr))
                (f_mul DOUBLE (max_btlbw bbr) (f_of_int DOUBLE (min_rtt_us bbr)))
           then ctcp_bbr_probe_bw (bbr\<lparr> bbr_mode_of := BBR_PROBE_BW, ProbeBW_index := 0 \<rparr>)
           else Inr bbr)
      | BBR_PROBE_BW \<Rightarrow> ctcp_bbr_probe_bw bbr
      | BBR_PROBE_RTT \<Rightarrow> Inr (ctcp_bbr_probe_rtt bbr))"

definition bbr_onAck :: "int \<Rightarrow> ctcp_bbr \<Rightarrow> ctcp_segment \<Rightarrow> ctcp_bbr res" where
  "bbr_onAck now bbr sgm =
     bnd (bbr_switch bbr) (\<lambda>bbr.
     let rtt = now - sg_delivered_time sgm;
         bbr = update_min_filter now bbr rtt;
         pkt_size = int (unat (ntohs (sg_len sgm))) - int sizeof_segment;
         bbr = bbr\<lparr> b_delivered := b_delivered bbr + pkt_size, b_delivered_time := now \<rparr>;
         bbr = bbr\<lparr> deliveryRate := f_div SINGLE (f_of_int SINGLE (b_delivered bbr - sg_delivered sgm))
                                     (f_of_int SINGLE (now - sg_delivered_time sgm)) \<rparr>;
         bbr = bbr\<lparr> max_btlbw_last := max_btlbw bbr \<rparr>
     in if f_less (max_btlbw bbr) (deliveryRate bbr)
        then update_max_filter now bbr (deliveryRate bbr) else Inr bbr)"

text \<open>The bandwidth-delay product, stored in a \<^verbatim>\<open>long\<close>.\<close>

definition bbr_bdp :: "ctcp_bbr \<Rightarrow> int res" where
  "bbr_bdp bbr = to_long (f_mul DOUBLE (max_btlbw bbr) (f_of_int DOUBLE (min_rtt_us bbr)))"

text \<open>The window test and the pacing deadline of \<^verbatim>\<open>bbr_send\<close>.\<close>

definition bbr_window_full :: "ctcp_bbr \<Rightarrow> int \<Rightarrow> bool" where
  "bbr_window_full bbr bdp \<longleftrightarrow>
     f_less (f_mul SINGLE (cwnd_gain bbr) (f_of_int SINGLE bdp)) (f_of_int SINGLE (inflight bbr))"

definition bbr_next_send :: "int \<Rightarrow> ctcp_bbr \<Rightarrow> int \<Rightarrow> int res" where
  "bbr_next_send now bbr data_bytes =
     (let rate = f_mul DOUBLE (pacing_gain bbr) (max_btlbw bbr) in
      if f_is_zero rate then Inr now
      else to_long (f_add DOUBLE (f_of_int DOUBLE now) (f_div DOUBLE (f_of_int DOUBLE data_bytes) rate)))"


section \<open>Lemmas: the filters\<close>

lemma min_filter_loop_eq:
  "length F = i + k + 1 \<Longrightarrow>
   min_filter_loop i k F m = (take i F @ drop (i + 1) F @ [last F], fold min (drop (i + 1) F) m)"
proof (induction k arbitrary: i F m)
  case 0
  then have "F = take i F @ [last F]" by (cases F rule: rev_cases) auto
  then show ?case using 0 by simp
next
  case (Suc k)
  let ?F = "F[i := F ! (i + 1)]"
  have d: "drop (i + 1) F = F ! (i + 1) # drop (i + 2) F"
    using Suc.prems Cons_nth_drop_Suc [of "i + 1" F] by simp
  have l: "last ?F = last F" using Suc.prems by (subst last_list_update) auto
  have t: "take (i + 1) ?F = take i F @ [F ! (i + 1)]"
    using Suc.prems by (simp add: take_Suc_conv_app_nth)
  have "?F ! i = F ! (i + 1)" "drop (i + 2) ?F = drop (i + 2) F" using Suc.prems by auto
  then show ?case using Suc.IH [of ?F "i + 1"] Suc.prems d l t
    by (simp add: Let_def min_def)
qed

lemma max_filter_loop_eq:
  "length F = i + k + 1 \<Longrightarrow>
   max_filter_loop i k F m = (take i F @ drop (i + 1) F @ [last F],
     fold (\<lambda>x m. if f_less m (f_of_int DOUBLE x) then f_of_int DOUBLE x else m) (drop (i + 1) F) m)"
proof (induction k arbitrary: i F m)
  case 0
  then have "F = take i F @ [last F]" by (cases F rule: rev_cases) auto
  then show ?case using 0 by simp
next
  case (Suc k)
  let ?F = "F[i := F ! (i + 1)]"
  have d: "drop (i + 1) F = F ! (i + 1) # drop (i + 2) F"
    using Suc.prems Cons_nth_drop_Suc [of "i + 1" F] by simp
  have l: "last ?F = last F" using Suc.prems by (subst last_list_update) auto
  have t: "take (i + 1) ?F = take i F @ [F ! (i + 1)]"
    using Suc.prems by (simp add: take_Suc_conv_app_nth)
  have "?F ! i = F ! (i + 1)" "drop (i + 2) ?F = drop (i + 2) F" using Suc.prems by auto
  then show ?case using Suc.IH [of ?F "i + 1"] Suc.prems d l t
    by (simp add: Let_def)
qed

lemma fold_min_Min: "fold min xs m = Min (insert (m :: int) (set xs))"
  using Min.set_eq_fold [of m xs] by simp

lemma window_shift: "length F = Suc n \<Longrightarrow> (tl F @ [y])[n := x] = tl F @ [x]"
  by (cases F) auto

lemma update_min_filter_eq:
  assumes "length (RTpropFilter bbr) = 10"
  shows "update_min_filter now bbr rtt = bbr\<lparr> min_rtt_us := Min (insert rtt (set (tl (RTpropFilter bbr)))),
     RTpropFilter := tl (RTpropFilter bbr) @ [rtt], min_rtt_stamp := now \<rparr>"
  using min_filter_loop_eq [of "RTpropFilter bbr" 0 9 rtt] assms
    window_shift [of "RTpropFilter bbr" 9 "last (RTpropFilter bbr)" rtt]
  by (simp add: update_min_filter_def fold_min_Min drop_Suc)

definition last10 :: "'a list \<Rightarrow> 'a list" where
  "last10 xs = drop (length xs - 10) xs"

lemma last10_snoc: "10 \<le> length xs \<Longrightarrow> last10 (xs @ [x]) = tl (last10 xs) @ [x]"
proof -
  assume "10 \<le> length xs"
  then have "length (xs @ [x]) - 10 = Suc (length xs - 10)" by simp
  with \<open>10 \<le> length xs\<close> show ?thesis by (simp add: last10_def drop_Suc tl_drop)
qed

lemma min_filter_run:
  assumes "length (RTpropFilter bbr) = 10"
  shows "RTpropFilter (fold (\<lambda>(t, r) b. update_min_filter t b r) rtts bbr) =
      last10 (RTpropFilter bbr @ map snd rtts)
    \<and> (rtts \<noteq> [] \<longrightarrow> min_rtt_us (fold (\<lambda>(t, r) b. update_min_filter t b r) rtts bbr) =
      Min (set (last10 (RTpropFilter bbr @ map snd rtts))))"
proof (induction rtts rule: rev_induct)
  case Nil then show ?case using assms by (simp add: last10_def)
next
  case (snoc x rtts)
  obtain t r where x: "x = (t, r)" by (cases x)
  let ?b = "fold (\<lambda>(t, r) b. update_min_filter t b r) rtts bbr"
  have F: "RTpropFilter ?b = last10 (RTpropFilter bbr @ map snd rtts)" using snoc.IH by simp
  then have "length (RTpropFilter ?b) = 10" using assms by (simp add: last10_def)
  from update_min_filter_eq [OF this, of t r]
  show ?case using assms F x last10_snoc [of "RTpropFilter bbr @ map snd rtts" r] by simp
qed

section \<open>Lemmas: the modes\<close>

fun startup_gains :: "bbr_mode \<Rightarrow> int \<Rightarrow> fp \<Rightarrow> bool" where
  "startup_gains BBR_STARTUP i g = (g = Fin 2)"
| "startup_gains BBR_DRAIN i g = (g = Fin 0)"
| "startup_gains BBR_PROBE_BW i g = (1 \<le> i \<and> g = (if i = 2 then Fin 0 else Fin 1))"
| "startup_gains BBR_PROBE_RTT i g = False"

definition bbr_inv :: "ctcp_bbr \<Rightarrow> bool" where
  "bbr_inv bbr \<longleftrightarrow> length (RTpropFilter bbr) = 10 \<and> length (BtlBwFilter bbr) = 10
     \<and> 0 \<le> ProbeBW_index bbr \<and> ProbeBW_index bbr \<le> 8
     \<and> 0 \<le> btlbw_not_incre_cnt bbr \<and> btlbw_not_incre_cnt bbr \<le> 2
     \<and> startup_gains (bbr_mode_of bbr) (ProbeBW_index bbr) (pacing_gain bbr)"

lemma f_of_int_gains [simp]: "f_of_int SINGLE 0 = Fin 0" "f_of_int SINGLE 1 = Fin 1" "f_of_int SINGLE 2 = Fin 2"
  using f_of_int_small [of 0 SINGLE] f_of_int_small [of 1 SINGLE] f_of_int_small [of 2 SINGLE] by simp_all

lemma ProbeBW_pacing_nth:
  assumes "n < 8" shows "ProbeBW_pacing ! n = (if n = 1 then Fin 0 else Fin 1)"
proof -
  have l: "ProbeBW_pacing = [Fin 1, Fin 0, Fin 1, Fin 1, Fin 1, Fin 1, Fin 1, Fin 1]"
    by (simp add: ProbeBW_pacing_def)
  show ?thesis using assms unfolding l by (auto simp: nth_Cons')
qed

lemma probe_bw_inv:
  assumes "0 \<le> ProbeBW_index bbr"
  shows "\<exists>g i. ctcp_bbr_probe_bw bbr = Inr (bbr\<lparr> pacing_gain := g, ProbeBW_index := i \<rparr>)
    \<and> 1 \<le> i \<and> i \<le> 8 \<and> i = ProbeBW_index bbr mod 8 + 1 \<and> g = (if i = 2 then Fin 0 else Fin 1)"
proof -
  have m: "ProbeBW_index bbr smod 8 = ProbeBW_index bbr mod 8" using assms
    by (cases "ProbeBW_index bbr = 0") (simp_all add: signed_modulo_int_def)
  have b: "0 \<le> ProbeBW_index bbr mod 8" "ProbeBW_index bbr mod 8 < 8" by simp_all
  then have "nat (ProbeBW_index bbr mod 8) < 8" by linarith
  with b show ?thesis
    using ProbeBW_pacing_nth [of "nat (ProbeBW_index bbr mod 8)"] 
    by (auto simp: ctcp_bbr_probe_bw_def m Let_def ProbeBW_pacing_def)
qed


text \<open>The switch of the state machine changes neither measurements nor accounting.\<close>

definition same_measure :: "ctcp_bbr \<Rightarrow> ctcp_bbr \<Rightarrow> bool" where
  "same_measure b b' \<longleftrightarrow> RTpropFilter b' = RTpropFilter b \<and> BtlBwFilter b' = BtlBwFilter b
     \<and> max_btlbw b' = max_btlbw b \<and> b_delivered b' = b_delivered b \<and> inflight b' = inflight b
     \<and> nextSendTime b' = nextSendTime b \<and> min_rtt_us b' = min_rtt_us b"

fun mode_next :: "bbr_mode \<Rightarrow> bbr_mode \<Rightarrow> bool" where
  "mode_next BBR_STARTUP m = (m = BBR_STARTUP \<or> m = BBR_DRAIN)"
| "mode_next BBR_DRAIN m = (m = BBR_DRAIN \<or> m = BBR_PROBE_BW)"
| "mode_next m m' = (m' = m)"

lemma bbr_switch_inv:
  assumes "bbr_inv bbr"
  shows "\<exists>b. bbr_switch bbr = Inr b \<and> bbr_inv b \<and> same_measure bbr b
    \<and> mode_next (bbr_mode_of bbr) (bbr_mode_of b)"
proof (cases "bbr_mode_of bbr")
  case BBR_STARTUP
  with assms show ?thesis
    by (simp add: bbr_switch_def ctcp_bbr_startup_def ctcp_bbr_drain_def bbr_inv_def Let_def same_measure_def)
next
  case BBR_DRAIN
  then show ?thesis
    using assms probe_bw_inv [of "bbr\<lparr> pacing_gain := Fin 0, bbr_mode_of := BBR_PROBE_BW, ProbeBW_index := 0 \<rparr>"]
    by (auto simp: bbr_switch_def ctcp_bbr_drain_def bbr_inv_def Let_def same_measure_def)
next
  case BBR_PROBE_BW
  then show ?thesis
    using assms probe_bw_inv [of bbr] by (auto simp: bbr_switch_def bbr_inv_def same_measure_def)
qed (use assms in \<open>simp add: bbr_inv_def\<close>)

section \<open>Lemmas: one acknowledgement\<close>

text \<open>
  The bandwidth filter: its entries never exceed the maximum, which is a number, so a new
  maximum displaces whatever the window held.
\<close>

definition bw_inv :: "ctcp_bbr \<Rightarrow> bool" where
  "bw_inv bbr \<longleftrightarrow> (\<exists>q. max_btlbw bbr = Fin q \<and> 0 \<le> q \<and> q < 2 ^ 53
     \<and> (\<forall>x\<in>set (BtlBwFilter bbr). 0 \<le> x \<and> of_int x \<le> q))"

lemma fold_max_dominated:
  assumes "\<forall>x\<in>set xs. 0 \<le> x \<and> of_int x \<le> q" "0 \<le> q" "q < 2 ^ 53"
  shows "fold (\<lambda>x m. if f_less m (f_of_int DOUBLE x) then f_of_int DOUBLE x else m) xs (Fin q) = Fin q"
  using assms(1)
proof (induction xs)
  case (Cons x xs)
  then have x: "0 \<le> x" "of_int x \<le> q" by auto
  then have "(of_int x :: rat) < of_int (2 ^ 53)" using assms(3) by simp
  then have "x < 2 ^ 53" by (simp only: of_int_less_iff)
  then have "x \<le> 2 ^ 53" by simp
  then have "f_of_int DOUBLE x = Fin (of_int x)" using x by (intro f_of_int_small) auto
  with Cons x show ?case by simp
qed simp

lemma update_max_filter_eq:
  assumes "length (BtlBwFilter bbr) = 10" "\<forall>x\<in>set (BtlBwFilter bbr). 0 \<le> x \<and> of_int x \<le> q"
    and "0 \<le> q" "q < 2 ^ 53"
  shows "update_max_filter now bbr (Fin q) = Inr (bbr\<lparr> max_btlbw := Fin q,
     BtlBwFilter := tl (BtlBwFilter bbr) @ [\<lfloor>q\<rfloor>], max_btlbw_stamp := now \<rparr>)"
proof -
  let ?F = "BtlBwFilter bbr"
  have t: "\<forall>x\<in>set (tl ?F). 0 \<le> x \<and> of_int x \<le> q" using assms(2) by (cases ?F) auto
  have "(of_int \<lfloor>q\<rfloor> :: rat) < of_int (2 ^ 53)" using assms(4) of_int_floor_le [of q] by simp
  then have "\<lfloor>q\<rfloor> < 2 ^ 53" by (simp only: of_int_less_iff)
  then have "to_long (Fin q) = Inr \<lfloor>q\<rfloor>" using assms(3) by (simp add: to_long_def trunc_def)
  then show ?thesis
    using max_filter_loop_eq [of ?F 0 9 "Fin q"] assms(1) fold_max_dominated [OF t assms(3,4)]
      window_shift [of ?F 9 "last ?F" "\<lfloor>q\<rfloor>"]
    by (simp add: update_max_filter_def drop_Suc)
qed


definition on_ack_rate :: "int \<Rightarrow> ctcp_bbr \<Rightarrow> ctcp_segment \<Rightarrow> rat" where
  "on_ack_rate now bbr sgm =
     rnd SINGLE (of_int (b_delivered bbr + int (unat (ntohs (sg_len sgm))) - 48 - sg_delivered sgm)
       / of_int (now - sg_delivered_time sgm))"

lemma on_ack_rate_bounds:
  assumes "0 \<le> b_delivered bbr + int (unat (ntohs (sg_len sgm))) - 48 - sg_delivered sgm"
    and "b_delivered bbr + int (unat (ntohs (sg_len sgm))) - 48 - sg_delivered sgm \<le> 2 ^ 24"
    and "sg_delivered_time sgm < now" "now - sg_delivered_time sgm \<le> 2 ^ 24"
  shows "0 \<le> on_ack_rate now bbr sgm" "on_ack_rate now bbr sgm \<le> of_int (2 ^ 24)"
    "on_ack_rate now bbr sgm = 0 \<or> 2 powi -24 \<le> on_ack_rate now bbr sgm"
proof -
  let ?d = "b_delivered bbr + int (unat (ntohs (sg_len sgm))) - 48 - sg_delivered sgm"
  let ?t = "now - sg_delivered_time sgm"
  have le: "(of_int ?d :: rat) / of_int ?t \<le> of_int (2 ^ 24)" "0 \<le> (of_int ?d :: rat) / of_int ?t"
    using ratio_bounds [of ?d "2 ^ 24" ?t] assms by auto
  show "0 \<le> on_ack_rate now bbr sgm" "on_ack_rate now bbr sgm \<le> of_int (2 ^ 24)"
    unfolding on_ack_rate_def by (rule rnd_nonneg, rule le(2), simp, rule rnd_le_int, use le in simp_all)
  show "on_ack_rate now bbr sgm = 0 \<or> 2 powi -24 \<le> on_ack_rate now bbr sgm"
  proof (cases "?d = 0")
    case True
    then show ?thesis unfolding on_ack_rate_def True by simp
  next
    case False
    then have d: "(1 :: rat) \<le> of_int ?d" using assms(1) by (simp only: of_int_1_le_iff)
    have "0 < ?t" using assms(3) by simp
    then have t: "(0 :: rat) < of_int ?t" "(of_int ?t :: rat) \<le> of_int (2 ^ 24)"
      using assms(4) by (simp only: of_int_0_less_iff, simp only: of_int_le_iff)
    have "2 powi -24 * of_int ?t \<le> 2 powi -24 * (of_int (2 ^ 24) :: rat)" using t(2) by (intro mult_left_mono) simp_all
    also have "\<dots> = 1" by (simp add: power_int_minus)
    finally have "2 powi -24 \<le> (of_int ?d :: rat) / of_int ?t" using d t(1) by (simp only: pos_le_divide_eq)
    then show ?thesis unfolding on_ack_rate_def by (intro disjI2 rnd_ge_powi) simp_all
  qed
qed

lemma bbr_onAck_ok:
  assumes inv: "bbr_inv bbr" "bw_inv bbr"
    and d: "0 \<le> b_delivered bbr + int (unat (ntohs (sg_len sgm))) - 48 - sg_delivered sgm"
      "b_delivered bbr + int (unat (ntohs (sg_len sgm))) - 48 - sg_delivered sgm \<le> 2 ^ 24"
    and t: "sg_delivered_time sgm < now" "now - sg_delivered_time sgm \<le> 2 ^ 24"
  shows "\<exists>b. bbr_onAck now bbr sgm = Inr b \<and> bbr_inv b \<and> bw_inv b
    \<and> mode_next (bbr_mode_of bbr) (bbr_mode_of b)
    \<and> RTpropFilter b = tl (RTpropFilter bbr) @ [now - sg_delivered_time sgm]
    \<and> min_rtt_us b = Min (set (RTpropFilter b))
    \<and> b_delivered b = b_delivered bbr + int (unat (ntohs (sg_len sgm))) - 48
    \<and> inflight b = inflight bbr \<and> nextSendTime b = nextSendTime bbr \<and> b_delivered_time b = now
    \<and> max_btlbw b = (if f_less (max_btlbw bbr) (Fin (on_ack_rate now bbr sgm))
        then Fin (on_ack_rate now bbr sgm) else max_btlbw bbr)"
proof -
  let ?d = "b_delivered bbr + int (unat (ntohs (sg_len sgm))) - 48 - sg_delivered sgm"
  let ?t = "now - sg_delivered_time sgm"
  let ?q = "on_ack_rate now bbr sgm"
  obtain b1 where b1: "bbr_switch bbr = Inr b1" "bbr_inv b1" "same_measure bbr b1"
    "mode_next (bbr_mode_of bbr) (bbr_mode_of b1)" using bbr_switch_inv [OF inv(1)] by blast
  note q = on_ack_rate_bounds(1,2) [OF d t]
  have rate: "f_div SINGLE (f_of_int SINGLE ?d) (f_of_int SINGLE ?t) = Fin ?q"
    using f_of_int_small [of ?d SINGLE] f_of_int_small [of ?t SINGLE] d t by (simp add: on_ack_rate_def)
  let ?b2 = "(update_min_filter now b1 ?t)\<lparr> b_delivered := b_delivered bbr + int (unat (ntohs (sg_len sgm))) - 48,
      b_delivered_time := now, deliveryRate := Fin ?q, max_btlbw_last := max_btlbw bbr \<rparr>"
  have len: "length (RTpropFilter b1) = 10" "length (BtlBwFilter bbr) = 10" using b1(2) inv by (auto simp: bbr_inv_def)
  note mf = update_min_filter_eq [OF len(1), of now ?t]
  have r: "bbr_onAck now bbr sgm = (if f_less (max_btlbw bbr) (Fin ?q)
      then update_max_filter now ?b2 (Fin ?q) else Inr ?b2)"
    using b1(3) rate unfolding bbr_onAck_def b1(1)
    by (simp add: Let_def mf same_measure_def add.commute add_diff_eq)
  obtain q0 where q0: "max_btlbw bbr = Fin q0" "0 \<le> q0" "q0 < 2 ^ 53"
    "\<forall>x\<in>set (BtlBwFilter bbr). 0 \<le> x \<and> of_int x \<le> q0" using inv(2) by (auto simp: bw_inv_def)
  have set: "set (RTpropFilter b1) = insert (hd (RTpropFilter b1)) (set (tl (RTpropFilter b1)))"
    using len(1) by (cases "RTpropFilter b1") auto
  show ?thesis
  proof (cases "q0 < ?q")
    case False
    have "bw_inv ?b2" "bbr_inv ?b2" using q0 b1 len by (auto simp: bw_inv_def bbr_inv_def mf same_measure_def)
    with False q0(1) b1 r show ?thesis by (simp add: mf same_measure_def)
  next
    case True
    then have "\<forall>x\<in>set (BtlBwFilter ?b2). 0 \<le> x \<and> of_int x \<le> ?q"
      using q0(4) b1(3) by (auto simp: mf same_measure_def intro: order_trans)
    moreover have "?q < 2 ^ 53" using q(2) by simp
    moreover have "length (BtlBwFilter ?b2) = 10" using len b1(3) by (simp add: mf same_measure_def)
    ultimately have u: "update_max_filter now ?b2 (Fin ?q) = Inr (?b2\<lparr> max_btlbw := Fin ?q,
        BtlBwFilter := tl (BtlBwFilter bbr) @ [\<lfloor>?q\<rfloor>], max_btlbw_stamp := now \<rparr>)"
      using update_max_filter_eq [of ?b2 ?q now] q(1) b1(3) by (simp add: mf same_measure_def)
    let ?b3 = "?b2\<lparr> max_btlbw := Fin ?q, BtlBwFilter := tl (BtlBwFilter bbr) @ [\<lfloor>?q\<rfloor>], max_btlbw_stamp := now \<rparr>"
    have "\<forall>x\<in>set (tl (BtlBwFilter bbr)). 0 \<le> x \<and> of_int x \<le> ?q"
      using q0(4) True by (cases "BtlBwFilter bbr") (auto intro: order_trans)
    then have "bw_inv ?b3" using q by (auto simp: bw_inv_def)
    moreover have "bbr_inv ?b3" using b1 len by (auto simp: bbr_inv_def mf same_measure_def)
    ultimately show ?thesis using True q0(1) b1 r u by (simp add: mf same_measure_def)
  qed
qed


section \<open>Runs\<close>

text \<open>What happens to the block between two acknowledgements is that sending changes the bytes in
  flight and the deadline.\<close>

inductive bbr_step :: "ctcp_bbr \<Rightarrow> ctcp_bbr \<Rightarrow> bool" where
  ack: "bbr_onAck now b sgm = Inr b' \<Longrightarrow> bbr_step b b'"
| transmit: "bbr_step b (b\<lparr> inflight := n, nextSendTime := t \<rparr>)"

inductive_cases bbr_stepE: "bbr_step b b'"

inductive bbr_reach :: "ctcp_bbr \<Rightarrow> bool" where
  start: "bbr_reach (init_bbr now bbr_calloc)"
| step: "bbr_reach b \<Longrightarrow> bbr_step b b' \<Longrightarrow> bbr_reach b'"

lemma update_max_filter_inv:
  assumes "update_max_filter now b rate = Inr b'" "bbr_inv b"
  shows "bbr_inv b'"
  using assms max_filter_loop_eq [of "BtlBwFilter b" 0 9 rate]
  by (auto simp: update_max_filter_def bbr_inv_def bnd_eq_Inr)

lemma bbr_onAck_inv:
  assumes "bbr_onAck now b sgm = Inr b'" "bbr_inv b"
  shows "bbr_inv b'"
proof -
  obtain b1 where b1: "bbr_switch b = Inr b1" "bbr_inv b1" using bbr_switch_inv [OF assms(2)] by blast
  then have len: "length (RTpropFilter b1) = 10" by (simp add: bbr_inv_def)
  let ?b2 = "update_min_filter now b1 (now - sg_delivered_time sgm)"
  have "bbr_inv (?b2\<lparr> b_delivered := x, b_delivered_time := y, deliveryRate := z, max_btlbw_last := w \<rparr>)" for x y z w
    using b1(2) update_min_filter_eq [OF len, of now] by (simp add: bbr_inv_def)
  then show ?thesis
    using assms(1) b1(1) update_max_filter_inv
    by (auto simp: bbr_onAck_def Let_def split: if_splits)
qed

lemma bbr_reach_inv: "bbr_reach b \<Longrightarrow> bbr_inv b"
proof (induction rule: bbr_reach.induct)
  case (start now) then show ?case by (simp add: init_bbr_def bbr_calloc_def bbr_inv_def)
next
  case (step b b')
  then show ?case by (auto elim!: bbr_stepE intro: bbr_onAck_inv) (simp add: bbr_inv_def)
qed

section \<open>Properties\<close>


text \<open>
  One acknowledgement, measured over at most \<open>2 ^ 24\<close> bytes and \<open>2 ^ 24\<close> milliseconds: it is handled
  without fault, the mode stays or advances by one, the round-trip time is the minimum over the
  last ten, the bytes delivered grow by the data of the segment, and the bandwidth becomes the larger
  of the old one and the rounded quotient of bytes and time. The bandwidth never decreases: the
  window of its filter has no effect.
\<close>

theorem bbr_onAck_spec:
  assumes "bbr_inv bbr" "bw_inv bbr"
    and "0 \<le> b_delivered bbr + int (unat (ntohs (sg_len sgm))) - 48 - sg_delivered sgm"
    and "b_delivered bbr + int (unat (ntohs (sg_len sgm))) - 48 - sg_delivered sgm \<le> 2 ^ 24"
    and "sg_delivered_time sgm < now" "now - sg_delivered_time sgm \<le> 2 ^ 24"
  shows "\<exists>b. bbr_onAck now bbr sgm = Inr b \<and> bbr_inv b \<and> bw_inv b
    \<and> mode_next (bbr_mode_of bbr) (bbr_mode_of b)
    \<and> RTpropFilter b = tl (RTpropFilter bbr) @ [now - sg_delivered_time sgm]
    \<and> min_rtt_us b = Min (set (RTpropFilter b))
    \<and> b_delivered b = b_delivered bbr + int (unat (ntohs (sg_len sgm))) - 48
    \<and> inflight b = inflight bbr \<and> nextSendTime b = nextSendTime bbr
    \<and> max_btlbw b = (if f_less (max_btlbw bbr) (Fin (on_ack_rate now bbr sgm))
        then Fin (on_ack_rate now bbr sgm) else max_btlbw bbr)"
  using bbr_onAck_ok [OF assms] by blast

text \<open>
  The filter of round-trip times is a sliding window: after any number of measurements it
  holds the last ten, and the estimate is their minimum.
\<close>

theorem update_min_filter_window:
  "RTpropFilter (fold (\<lambda>(t, r) b. update_min_filter t b r) (rtts @ [x]) (init_bbr now b0)) =
      last10 (replicate 10 0x7fffffff @ map snd (rtts @ [x]))
    \<and> min_rtt_us (fold (\<lambda>(t, r) b. update_min_filter t b r) (rtts @ [x]) (init_bbr now b0)) =
      Min (set (last10 (replicate 10 0x7fffffff @ map snd (rtts @ [x]))))"
  using min_filter_run [of "init_bbr now b0" "rtts @ [x]"] by (simp add: init_bbr_def)

text \<open>Adding a pause to the clock and truncating stays between now and now plus the pause's bound.\<close>

lemma deadline_bounds:
  assumes "0 \<le> x" "x \<le> of_int B" "0 \<le> now" "now \<le> 2 ^ 52" "B \<le> 2 ^ 48"
  shows "\<exists>t. to_long (Fin (rnd DOUBLE (of_int now + rnd DOUBLE x))) = Inr t \<and> now \<le> t \<and> t \<le> now + B"
proof -
  let ?y = "rnd DOUBLE x"
  have "(0 :: rat) \<le> of_int B" using assms(1,2) by (rule order_trans)
  then have B: "0 \<le> B" by (simp only: of_int_0_le_iff)
  have y: "0 \<le> ?y" "?y \<le> of_int B"
    by (rule rnd_nonneg, rule assms(1), simp, rule rnd_le_int, rule assms(2), rule assms(1), use assms(5) in simp_all)
  let ?z = "of_int now + ?y"
  have z: "of_int now \<le> ?z" "?z \<le> of_int (now + B)" "0 \<le> ?z" using y assms(3) by auto
  have rz1: "of_int now \<le> rnd DOUBLE ?z" by (rule rnd_ge_int [OF z(1,3)]) (use assms(4) in simp_all)
  have rz2: "rnd DOUBLE ?z \<le> of_int (now + B)"
    by (rule rnd_le_int [OF z(2,3)]) (use assms(4,5) in simp_all)
  have tr: "now \<le> trunc (rnd DOUBLE ?z)" using trunc_ge [OF rz1] assms(3) by simp
  have "of_int (trunc (rnd DOUBLE ?z)) \<le> rnd DOUBLE ?z"
    using rnd_nonneg [OF z(3)] by (simp add: trunc_def)
  then have "(of_int (trunc (rnd DOUBLE ?z)) :: rat) \<le> of_int (now + B)" using rz2 by linarith
  then have hi: "trunc (rnd DOUBLE ?z) \<le> now + B" by (simp only: of_int_le_iff)
  have "to_long (Fin (rnd DOUBLE ?z)) = Inr (trunc (rnd DOUBLE ?z))"
    using tr hi assms(3-5) by (simp add: to_long_def)
  with tr hi show ?thesis by blast
qed

lemma bbr_next_send_ok:
  assumes "pacing_gain b = Fin g" "g \<in> {0, 1, 2}"
    and "max_btlbw b = Fin q" "q = 0 \<or> 2 powi - int j \<le> q"
    and "0 \<le> n" "n * 2 ^ j \<le> 2 ^ 48" "0 \<le> now" "now \<le> 2 ^ 52"
  shows "\<exists>t. bbr_next_send now b n = Inr t \<and> now \<le> t \<and> t \<le> now + n * 2 ^ j \<and> (g = 0 \<longrightarrow> t = now)"
proof (cases "g = 0 \<or> q = 0")
  case True
  then have "f_is_zero (f_mul DOUBLE (pacing_gain b) (max_btlbw b))" using assms(1,3) by (auto simp: f_is_zero_def)
  then show ?thesis using assms(5) by (simp add: bbr_next_send_def Let_def)
next
  case False
  let ?r = "rnd DOUBLE (g * q)"
  have qb: "2 powi - int j \<le> q" using False assms(4) by blast
  have "(0 :: rat) \<le> 2 powi - int j" by simp
  then have "0 \<le> q" using qb by (rule order_trans)
  then have "1 * q \<le> g * q" using False assms(2) by (intro mult_right_mono) auto
  then have "2 powi - int j \<le> g * q" using qb by linarith
  then have r: "2 powi - int j \<le> ?r" by (intro rnd_ge_powi) simp_all
  then have r0: "0 < ?r" by (rule less_le_trans [rotated]) simp
  let ?x = "of_int n / ?r"
  have x: "0 \<le> ?x" "?x \<le> of_int (n * 2 ^ j)"
  proof -
    show "0 \<le> ?x" using r0 assms(5) by simp
    have "(of_int n :: rat) = of_int (n * 2 ^ j) * 2 powi - int j" by (simp add: power_int_minus)
    also have "\<dots> \<le> of_int (n * 2 ^ j) * ?r" using r assms(5) by (intro mult_left_mono) simp_all
    finally show "?x \<le> of_int (n * 2 ^ j)" using r0 by (simp only: pos_divide_le_eq)
  qed
  obtain t where t: "to_long (Fin (rnd DOUBLE (of_int now + rnd DOUBLE ?x))) = Inr t" "now \<le> t" "t \<le> now + n * 2 ^ j"
    using deadline_bounds [OF x assms(7,8,6)] by blast
  have "n * 1 \<le> n * 2 ^ j" using assms(5) by (intro mult_left_mono) simp_all
  then have "n \<le> 2 ^ 48" using assms(6) by simp
  then have "f_of_int DOUBLE n = Fin (of_int n)" "f_of_int DOUBLE now = Fin (of_int now)"
    using f_of_int_small [of n DOUBLE] f_of_int_small [of now DOUBLE] assms by simp_all
  then have "bbr_next_send now b n = Inr t"
    using assms(1,3) r0 t(1) by (simp add: bbr_next_send_def f_is_zero_def Let_def)
  then show ?thesis using t(2,3) False by auto
qed

text \<open>
  C23. Pacing: with a gain the modes use and a bandwidth of at least \<open>2 ^ -j\<close> bytes a
  millisecond, the next sending time exists, is not before now and at most \<open>2 ^ j\<close> milliseconds for each byte
  later; with gain 0, that is in drain and in the second probing phase, it is now: these phases,
  which should slow down, do not pace at all.
\<close>

theorem bbr_next_send_bounds:
  assumes "pacing_gain b = Fin g" "g \<in> {0, 1, 2}"
    and "max_btlbw b = Fin q" "q = 0 \<or> 2 powi - int j \<le> q"
    and "0 \<le> n" "n * 2 ^ j \<le> 2 ^ 48" "0 \<le> now" "now \<le> 2 ^ 52"
  shows "\<exists>t. bbr_next_send now b n = Inr t \<and> now \<le> t \<and> t \<le> now + n * 2 ^ j \<and> (g = 0 \<longrightarrow> t = now)"
  using assms by (rule bbr_next_send_ok)

text \<open>
  An acknowledgement that arrives in the millisecond its segment was stamped is divided by
  zero: the delivery rate is infinite, and storing it in the filter, an array of \<^verbatim>\<open>long\<close>, is
  undefined behaviour.
\<close>

theorem bbr_onAck_same_millisecond:
  assumes "bbr_inv bbr" "max_btlbw bbr = Fin q"
    and "sg_delivered sgm < b_delivered bbr + int (unat (ntohs (sg_len sgm))) - 48"
    and "b_delivered bbr + int (unat (ntohs (sg_len sgm))) - 48 - sg_delivered sgm \<le> 2 ^ 24"
  shows "bbr_onAck (sg_delivered_time sgm) bbr sgm = Inl BadConversion"
proof -
  let ?d = "b_delivered bbr + int (unat (ntohs (sg_len sgm))) - 48 - sg_delivered sgm"
  obtain b1 where b1: "bbr_switch bbr = Inr b1" "bbr_inv b1" "same_measure bbr b1"
    using bbr_switch_inv [OF assms(1)] by blast
  then have len: "length (RTpropFilter b1) = 10" by (simp add: bbr_inv_def)
  have "f_of_int SINGLE ?d = Fin (of_int ?d)" using f_of_int_small [of ?d SINGLE] assms(3,4) by simp
  moreover have "(0 :: rat) < of_int ?d" using assms(3) by (simp only: of_int_0_less_iff)
  ultimately have "f_div SINGLE (f_of_int SINGLE ?d) (Fin 0) = PInf" by (simp add: f_inf_def del: of_int_diff of_int_add)
  then show ?thesis
    using b1 assms(2) update_min_filter_eq [OF len, of "sg_delivered_time sgm" 0]
    unfolding bbr_onAck_def b1(1)
    by (simp add: Let_def same_measure_def update_max_filter_def to_long_def add_diff_eq split: prod.split)
qed

section \<open>Witnesses\<close>

definition sample_bbr :: ctcp_bbr where
  "sample_bbr = init_bbr 100 bbr_calloc"

definition sample_seg :: ctcp_segment where
  "sample_seg = (seg_calloc 52)\<lparr> sg_len := htons 100, sg_delivered_time := 100 \<rparr>"

lemma sample_bbr: "bbr_reach sample_bbr" "bbr_inv sample_bbr" "bw_inv sample_bbr"
proof -
  show "bbr_reach sample_bbr" unfolding sample_bbr_def by (rule bbr_reach.start)
  then show "bbr_inv sample_bbr" by (rule bbr_reach_inv)
qed (simp add: sample_bbr_def init_bbr_def bbr_calloc_def bw_inv_def)


theorem bbr_onAck_spec_witness:
  "\<exists>b. bbr_onAck 110 sample_bbr sample_seg = Inr b \<and> b_delivered b = 52 \<and> min_rtt_us b = 10"
proof -
  have f: "b_delivered sample_bbr = 0" "sg_delivered sample_seg = 0" "sg_delivered_time sample_seg = 100"
    "unat (ntohs (sg_len sample_seg)) = 100" "RTpropFilter sample_bbr = replicate 10 0x7fffffff"
    by (simp_all add: sample_bbr_def init_bbr_def bbr_calloc_def sample_seg_def seg_calloc_def)
  show ?thesis
    using bbr_onAck_spec [OF sample_bbr(2,3), of sample_seg 110] unfolding f
    by (auto simp: numeral_eq_Suc)
qed

theorem bbr_next_send_bounds_witness:
  "\<exists>t. bbr_next_send 1000 (bbr_calloc\<lparr> pacing_gain := Fin 2, max_btlbw := Fin (1 / 2) \<rparr>) 1440 = Inr t
    \<and> 1000 \<le> t \<and> t \<le> 3880"
proof -
  have "(2 :: rat) powi - int 1 \<le> 1 / 2" by (simp add: power_int_minus)
  then show ?thesis
    using bbr_next_send_bounds [of "bbr_calloc\<lparr> pacing_gain := Fin 2, max_btlbw := Fin (1 / 2) \<rparr>" 2 "1 / 2" 1 1440 1000] by auto
qed

theorem bbr_onAck_same_millisecond_witness: "bbr_onAck 100 sample_bbr sample_seg = Inl BadConversion"
proof -
  have "max_btlbw sample_bbr = Fin 0" by (simp add: sample_bbr_def init_bbr_def)
  from bbr_onAck_same_millisecond [OF sample_bbr(2) this, of sample_seg] show ?thesis
    by (simp add: sample_bbr_def init_bbr_def bbr_calloc_def sample_seg_def seg_calloc_def)
qed

end
