(* ===== verification/Conn.thy ===== *)
theory Conn
  imports Prelude
begin

text \<open>
  The connection object of the cTCP library (\<^verbatim>\<open>struct conn\<close> of \<^verbatim>\<open>ctcp_sys_internal.h\<close>) and what
  \<^verbatim>\<open>ctcp_sys_internal.c\<close> does with its input and output: \<^verbatim>\<open>conn_input\<close>, \<^verbatim>\<open>conn_output\<close> with the
  queue of chunks it keeps for a slow reader, \<^verbatim>\<open>conn_drain\<close>, \<^verbatim>\<open>conn_bufspace\<close>, \<^verbatim>\<open>conn_remove\<close>. The file
  descriptors are lists of the results that the coming \<^verbatim>\<open>read\<close> and \<^verbatim>\<open>write\<close> calls will have
  (an exhausted list blocks, \<^verbatim>\<open>EAGAIN\<close>), and the bytes written so far. Sequence numbers and sending are in
  the theory \<open>Tcp\<close>.

  The bytes a connection has taken, written or queued, are \<open>outs\<close>. The contract
  of an output, what is taken is appended and nothing is lost or reordered until the
  output is closed, is the locale \<open>byte_sink\<close>.
\<close>

datatype read_result = RData bytes | REof | RAgain | RErr
datatype write_result = WTake nat | WAgain | WErr

record chunk =
  ck_size :: nat
  ck_used :: nat
  ck_buf :: bytes

record conn =
  c_ip_addr :: u32
  c_port :: int
  c_init_seqno :: u32
  c_their_init_seqno :: u32
  c_seqno :: u32
  c_next_seqno :: u32
  c_ackno :: u32
  c_read_eof :: bool
  c_wrote_eof :: bool
  c_wrote_err :: bool
  c_delete_me :: bool
  c_out_queue :: "chunk list"
  c_pollout :: bool
  c_in :: "read_result list"
  c_wr :: "write_result list"
  c_out :: bytes
  c_net :: "bytes list"

definition MAX_BUF_SPACE :: nat where [simp]: "MAX_BUF_SPACE = 8192"

section \<open>The system calls\<close>

datatype wrote = Wrote nat | Eagain | Efail

definition c_write :: "conn \<Rightarrow> bytes \<Rightarrow> wrote \<times> conn" where
  "c_write c b = (case c_wr c of
      [] \<Rightarrow> (Eagain, c)
    | WTake n # ws \<Rightarrow> (let k = min n (length b) in (Wrote k, c\<lparr> c_wr := ws, c_out := c_out c @ take k b \<rparr>))
    | WAgain # ws \<Rightarrow> (Eagain, c\<lparr> c_wr := ws \<rparr>)
    | WErr # ws \<Rightarrow> (Efail, c\<lparr> c_wr := ws \<rparr>))"

definition c_read :: "conn \<Rightarrow> nat \<Rightarrow> read_result \<times> conn" where
  "c_read c n = (case c_in c of
      [] \<Rightarrow> (RAgain, c)
    | RData b # rs \<Rightarrow> (RData (take n b), c\<lparr> c_in := (if length b \<le> n then rs else RData (drop n b) # rs) \<rparr>)
    | r # rs \<Rightarrow> (r, c\<lparr> c_in := rs \<rparr>))"

section \<open>Operations\<close>

definition conn_bufspace :: "conn \<Rightarrow> nat" where
  "conn_bufspace c =
     (let used = sum_list (map (\<lambda>ck. ck_size ck - ck_used ck) (c_out_queue c))
      in if used > MAX_BUF_SPACE then 0 else MAX_BUF_SPACE - used)"

text \<open>The loop of \<^verbatim>\<open>conn_drain\<close>; the flag says whether anything was written.\<close>

fun drain_loop :: "conn \<Rightarrow> chunk list \<Rightarrow> bool \<Rightarrow> conn \<times> bool" where
  "drain_loop c [] outputted = (c\<lparr> c_out_queue := [] \<rparr>, outputted)"
| "drain_loop c (ck # q) outputted =
     (case c_write c (take (ck_size ck - ck_used ck) (drop (ck_used ck) (ck_buf ck))) of
        (Efail, c) \<Rightarrow> (c\<lparr> c_out_queue := ck # q, c_wrote_err := True \<rparr>, outputted)
      | (Eagain, c) \<Rightarrow> (c\<lparr> c_out_queue := ck # q \<rparr>, outputted)
      | (Wrote w, c) \<Rightarrow>
          (let ck = ck\<lparr> ck_used := ck_used ck + w \<rparr> in
           if ck_used ck < ck_size ck then (c\<lparr> c_out_queue := ck # q, c_pollout := True \<rparr>, True)
           else drain_loop c q True))"

text \<open>The result says whether \<^verbatim>\<open>ctcp_output\<close> is called back.\<close>

definition conn_drain :: "conn \<Rightarrow> conn \<times> bool" where
  "conn_drain c =
     (let c = c\<lparr> c_pollout := False \<rparr> in
      if c_wrote_err c then (c, False)
      else let (c, outputted) = drain_loop c (c_out_queue c) False;
               c = (if c_wrote_eof c \<and> \<not> c_wrote_err c \<and> c_out_queue c = []
                    then c\<lparr> c_wrote_err := True \<rparr> else c)
           in (c, outputted \<and> \<not> c_delete_me c))"

text \<open>
  Reading: the buffer that was filled, \<open>None\<close> for the result -1. \<open>all\<close> says that all \<open>n\<close> bytes of
  the buffer may be used (a program or a Unix socket), \<open>eof_char\<close> that the byte 0x1a is an end of file.
\<close>

definition conn_input :: "bool \<Rightarrow> bool \<Rightarrow> conn \<Rightarrow> nat \<Rightarrow> (bytes option \<times> conn) res" where
  "conn_input all eof_char c n =
     bnd (c_assert (\<not> c_delete_me c)) (\<lambda>_.
     if c_read_eof c then Inr (None, c)
     else let (r, c) = c_read c (if all then n else n - 1);
              eof = Inr (None, c\<lparr> c_read_eof := True \<rparr>)
          in case r of
               RData [] \<Rightarrow> eof | REof \<Rightarrow> eof | RErr \<Rightarrow> eof
             | RAgain \<Rightarrow> Inr (Some [], c)
             | RData (x # b) \<Rightarrow> if eof_char \<and> x = 0x1a then eof else Inr (Some (x # b), c))"

definition conn_remove :: "conn \<Rightarrow> conn" where
  "conn_remove c = c\<lparr> c_delete_me := True \<rparr>"

text \<open>Writing \<open>buf\<close>; writing nothing records the end of file.\<close>

definition conn_output :: "conn \<Rightarrow> bytes \<Rightarrow> (int \<times> conn) res" where
  "conn_output c buf =
     bnd (c_assert (\<not> c_delete_me c)) (\<lambda>_.
     if c_wrote_eof c then Inr (0, c)
     else if buf = [] then Inr (0, c\<lparr> c_wrote_eof := True \<rparr>)
     else if c_wrote_err c then Inr (-1, c)
     else if conn_bufspace c = 0 then Inr (0, c)
     else
       let (w, c) = (if c_out_queue c = [] then c_write c buf else (Wrote 0, c)) in
       if w = Efail then Inr (-1, c\<lparr> c_wrote_err := True \<rparr>)
       else
         let left = (case w of Wrote k \<Rightarrow> drop k buf | _ \<Rightarrow> buf);
             c = (if left = [] then c else
                  c\<lparr> c_out_queue := c_out_queue c @ [\<lparr> ck_size = length left, ck_used = 0, ck_buf = left \<rparr>] \<rparr>);
             c = (if c_out_queue c = [] then c else c\<lparr> c_pollout := True \<rparr>)
         in Inr (int (length buf), c))"

section \<open>What has been taken\<close>

definition pending :: "chunk list \<Rightarrow> bytes" where
  "pending q = concat (map (\<lambda>ck. drop (ck_used ck) (ck_buf ck)) q)"

definition outs :: "conn \<Rightarrow> bytes" where
  "outs c = c_out c @ pending (c_out_queue c)"

definition closed :: "conn \<Rightarrow> bool" where
  "closed c \<longleftrightarrow> c_wrote_eof c \<or> c_wrote_err c"

definition chunk_ok :: "chunk \<Rightarrow> bool" where
  "chunk_ok ck \<longleftrightarrow> length (ck_buf ck) = ck_size ck \<and> ck_used ck < ck_size ck"

definition queue_ok :: "conn \<Rightarrow> bool" where
  "queue_ok c \<longleftrightarrow> (\<forall>ck\<in>set (c_out_queue c). chunk_ok ck)"

text \<open>Everything of a connection that its output does not touch.\<close>

definition same_io :: "conn \<Rightarrow> conn \<Rightarrow> bool" where
  "same_io c c' \<longleftrightarrow> c_net c' = c_net c \<and> c_in c' = c_in c \<and> c_delete_me c' = c_delete_me c
     \<and> c_init_seqno c' = c_init_seqno c \<and> c_their_init_seqno c' = c_their_init_seqno c
     \<and> c_seqno c' = c_seqno c \<and> c_next_seqno c' = c_next_seqno c \<and> c_ackno c' = c_ackno c
     \<and> c_ip_addr c' = c_ip_addr c \<and> c_port c' = c_port c \<and> c_read_eof c' = c_read_eof c"

lemma pending_simps [simp]: "pending [] = []" "pending (ck # q) = drop (ck_used ck) (ck_buf ck) @ pending q"
  "pending (q @ r) = pending q @ pending r"
  by (simp_all add: pending_def)

lemma bufspace_pending: "queue_ok c \<Longrightarrow> conn_bufspace c = MAX_BUF_SPACE - length (pending (c_out_queue c))"
proof -
  assume "queue_ok c"
  then have "sum_list (map (\<lambda>ck. ck_size ck - ck_used ck) (c_out_queue c)) = length (pending (c_out_queue c))"
    by (auto simp: pending_def length_concat comp_def queue_ok_def chunk_ok_def intro!: arg_cong [of _ _ sum_list])
  then show ?thesis by (simp add: conn_bufspace_def Let_def)
qed

lemma same_io_refl [simp]: "same_io c c"
  by (simp add: same_io_def)

lemma c_write_cases:
  obtains (wrote) k ws where "c_write c b = (Wrote k, c\<lparr> c_wr := ws, c_out := c_out c @ take k b \<rparr>)" "k \<le> length b"
  | (again) ws where "c_write c b = (Eagain, c\<lparr> c_wr := ws \<rparr>)"
  | (fail) ws where "c_write c b = (Efail, c\<lparr> c_wr := ws \<rparr>)"
proof (cases "c_wr c")
  case Nil
  show ?thesis by (rule again [of "c_wr c"]) (simp add: c_write_def Nil)
next
  case (Cons w ws)
  show ?thesis
  proof (cases w)
    case (WTake n)
    show ?thesis by (rule wrote [of "min n (length b)" ws]) (simp_all add: c_write_def Cons WTake Let_def)
  next
    case WAgain
    show ?thesis by (rule again [of ws]) (simp add: c_write_def Cons WAgain)
  next
    case WErr
    show ?thesis by (rule fail [of ws]) (simp add: c_write_def Cons WErr)
  qed
qed

lemma drain_loop_outs:
  assumes "\<forall>ck\<in>set q. chunk_ok ck" "drain_loop c q b = (c', b')"
  shows "c_out c' @ pending (c_out_queue c') = c_out c @ pending q \<and> queue_ok c' \<and> same_io c c'
    \<and> c_wrote_eof c' = c_wrote_eof c \<and> (c_wrote_err c \<longrightarrow> c_wrote_err c')
    \<and> (\<exists>w. c_out c' = c_out c @ w)"
  using assms
proof (induction q arbitrary: c b)
  case Nil then show ?case by (auto simp: queue_ok_def same_io_def)
next
  case (Cons ck q)
  let ?b = "drop (ck_used ck) (ck_buf ck)"
  have ok: "chunk_ok ck" "\<forall>ck\<in>set q. chunk_ok ck" using Cons.prems(1) by auto
  then have t: "take (ck_size ck - ck_used ck) ?b = ?b" by (simp add: chunk_ok_def)
  show ?case
  proof (cases c ?b rule: c_write_cases)
    case (wrote k ws)
    show ?thesis
    proof (cases "ck_used ck + k < ck_size ck")
      case True
      then show ?thesis using Cons.prems wrote ok t
        by (auto simp: queue_ok_def same_io_def chunk_ok_def add.commute) (metis append_take_drop_id drop_drop add.commute)
    next
      case False
      then have k: "take k ?b = ?b" using wrote(2) ok(1) by (simp add: chunk_ok_def)
      let ?c = "c\<lparr> c_wr := ws, c_out := c_out c @ ?b \<rparr>"
      have "drain_loop ?c q True = (c', b')" using Cons.prems(2) wrote False t k by (simp add: Let_def)
      from Cons.IH [OF ok(2) this] show ?thesis by (auto simp: same_io_def)
    qed
  qed (use Cons.prems t ok in \<open>auto simp: queue_ok_def same_io_def\<close>)
qed


lemma conn_drain_outs:
  assumes "queue_ok c" "conn_drain c = (c', b)"
  shows "outs c' = outs c \<and> queue_ok c' \<and> same_io c c' \<and> (closed c \<longrightarrow> closed c')
    \<and> (\<exists>w. c_out c' = c_out c @ w)"
proof (cases "c_wrote_err c")
  case True
  with assms show ?thesis by (auto simp: conn_drain_def outs_def queue_ok_def same_io_def closed_def)
next
  case False
  let ?c = "c\<lparr> c_pollout := False \<rparr>"
  obtain c1 o1 where d: "drain_loop ?c (c_out_queue ?c) False = (c1, o1)" by fastforce
  then have d': "drain_loop ?c (c_out_queue c) False = (c1, o1)" by simp
  have ck: "\<forall>ck\<in>set (c_out_queue c). chunk_ok ck" using assms(1) by (simp add: queue_ok_def)
  note f = drain_loop_outs [OF ck d']
  have c': "c' = (if c_wrote_eof c1 \<and> \<not> c_wrote_err c1 \<and> c_out_queue c1 = []
      then c1\<lparr> c_wrote_err := True \<rparr> else c1)"
    using assms(2) False d' by (simp add: conn_drain_def Let_def)
  have "outs c' = outs c \<and> queue_ok c' \<and> same_io c c' \<and> (\<exists>w. c_out c' = c_out c @ w)"
    using f unfolding c'
    by (cases "c_out_queue c1 = []") (simp_all add: outs_def queue_ok_def same_io_def)
  moreover have "closed c \<longrightarrow> closed c'" using f unfolding c' by (simp add: closed_def)
  ultimately show ?thesis by simp
qed

lemma conn_output_outs:
  assumes "queue_ok c" "conn_output c b = Inr (n, c')"
  shows "queue_ok c' \<and> same_io c c' \<and> (closed c \<longrightarrow> closed c') \<and> (\<exists>w. c_out c' = c_out c @ w)
    \<and> (outs c' = outs c \<or> outs c' = outs c @ b)
    \<and> (\<not> closed c' \<and> length b \<le> conn_bufspace c \<longrightarrow> outs c' = outs c @ b)
    \<and> (closed c \<longrightarrow> outs c' = outs c)"
proof -
  have del: "\<not> c_delete_me c" using assms(2) by (cases "c_delete_me c") (simp_all add: conn_output_def)
  consider (eof) "c_wrote_eof c" | (mark) "\<not> c_wrote_eof c" "b = []"
    | (err) "\<not> c_wrote_eof c" "b \<noteq> []" "c_wrote_err c"
    | (full) "\<not> c_wrote_eof c" "b \<noteq> []" "\<not> c_wrote_err c" "conn_bufspace c = 0"
    | (behind) "\<not> c_wrote_eof c" "b \<noteq> []" "\<not> c_wrote_err c" "conn_bufspace c \<noteq> 0" "c_out_queue c \<noteq> []"
    | (put) "\<not> c_wrote_eof c" "b \<noteq> []" "\<not> c_wrote_err c" "conn_bufspace c \<noteq> 0" "c_out_queue c = []"
    by blast
  then show ?thesis
  proof cases
    case behind
    with assms del show ?thesis
      by (auto simp: conn_output_def Let_def outs_def queue_ok_def chunk_ok_def same_io_def closed_def)
  next
    case put
    then show ?thesis
    proof (cases c b rule: c_write_cases)
      case (wrote k ws)
      have k: "drop k b = [] \<Longrightarrow> take k b = b" by simp
      show ?thesis using assms del put wrote k
        by (cases "drop k b = []")
          (auto simp: conn_output_def Let_def outs_def queue_ok_def chunk_ok_def same_io_def closed_def)
    qed (use assms del put in \<open>auto simp: conn_output_def Let_def outs_def queue_ok_def chunk_ok_def same_io_def closed_def\<close>)
  qed (use assms del in \<open>auto simp: conn_output_def outs_def queue_ok_def same_io_def closed_def\<close>)
qed

lemma conn_output_total: "\<not> c_delete_me c \<Longrightarrow> \<exists>n c'. conn_output c b = Inr (n, c')"
  by (auto simp: conn_output_def Let_def split: prod.split)


section \<open>The contract\<close>

text \<open>
  An output with a bounded buffer: \<open>put s b\<close> offers bytes, \<open>flush\<close> is what happens when the reader takes
  some. While the output is open, bytes that fit the free space are appended; once it is
  closed, nothing is.
\<close>

locale byte_sink =
  fixes inv :: "'s \<Rightarrow> bool" and taken :: "'s \<Rightarrow> bytes" and shut :: "'s \<Rightarrow> bool"
    and space :: "'s \<Rightarrow> nat" and put :: "'s \<Rightarrow> bytes \<Rightarrow> 's \<Rightarrow> bool" and flush :: "'s \<Rightarrow> 's \<Rightarrow> bool"
  assumes put_inv: "inv s \<Longrightarrow> put s b s' \<Longrightarrow> inv s'"
    and put_shut: "inv s \<Longrightarrow> put s b s' \<Longrightarrow> shut s \<Longrightarrow> shut s' \<and> taken s' = taken s"
    and put_open: "inv s \<Longrightarrow> put s b s' \<Longrightarrow> length b \<le> space s \<Longrightarrow> \<not> shut s' \<Longrightarrow> taken s' = taken s @ b"
    and put_some: "inv s \<Longrightarrow> put s b s' \<Longrightarrow> taken s' = taken s \<or> taken s' = taken s @ b"
    and flush_inv: "inv s \<Longrightarrow> flush s s' \<Longrightarrow> inv s' \<and> taken s' = taken s \<and> (shut s \<longrightarrow> shut s')"
begin

text \<open>
  A sink follows a stream: what it has taken is a prefix of what it was offered, and all of
  it as long as it is open.
\<close>

definition follows :: "'s \<Rightarrow> bytes \<Rightarrow> bool" where
  "follows s stream \<longleftrightarrow> inv s \<and> (\<exists>r. stream = taken s @ r) \<and> (\<not> shut s \<longrightarrow> taken s = stream)"

lemma follows_put:
  assumes "follows s stream" "put s b s'" "length b \<le> space s"
  shows "follows s' (stream @ b)"
proof (cases "shut s")
  case True
  then show ?thesis using assms put_inv put_shut unfolding follows_def by fastforce
next
  case False
  then have "taken s = stream" "inv s" using assms(1) by (auto simp: follows_def)
  then show ?thesis
    using assms(2,3) put_inv put_open put_some unfolding follows_def by fastforce
qed

lemma follows_flush: "follows s stream \<Longrightarrow> flush s s' \<Longrightarrow> follows s' stream"
  using flush_inv unfolding follows_def by fastforce

lemma follows_mark:
  assumes "follows s stream" "put s [] s'" shows "follows s' stream"
  using follows_put [OF assms(1,2)] by simp

end

definition conn_put :: "conn \<Rightarrow> bytes \<Rightarrow> conn \<Rightarrow> bool" where
  "conn_put c b c' \<longleftrightarrow> (\<exists>n. conn_output c b = Inr (n, c'))"

definition conn_flush :: "conn \<Rightarrow> conn \<Rightarrow> bool" where
  "conn_flush c c' \<longleftrightarrow> (\<exists>b. conn_drain c = (c', b))"

interpretation sink: byte_sink queue_ok outs closed conn_bufspace conn_put conn_flush
proof unfold_locales
  fix s b s' assume "queue_ok s" "conn_put s b s'"
  then show "queue_ok s'" using conn_output_outs unfolding conn_put_def by blast
next
  fix s b s' assume "queue_ok s" "conn_put s b s'" "closed s"
  then show "closed s' \<and> outs s' = outs s" using conn_output_outs unfolding conn_put_def by blast
next
  fix s b s' assume "queue_ok s" "conn_put s b s'" "length b \<le> conn_bufspace s" "\<not> closed s'"
  then show "outs s' = outs s @ b" using conn_output_outs unfolding conn_put_def by blast
next
  fix s b s' assume "queue_ok s" "conn_put s b s'"
  then show "outs s' = outs s \<or> outs s' = outs s @ b" using conn_output_outs unfolding conn_put_def by blast
next
  fix s s' assume "queue_ok s" "conn_flush s s'"
  then show "queue_ok s' \<and> outs s' = outs s \<and> (closed s \<longrightarrow> closed s')"
    using conn_drain_outs unfolding conn_flush_def by blast
qed

section \<open>Input and output do not schedule a connection for removal\<close>

lemma conn_input_del: "conn_input all ec c n = Inr (r, c') \<Longrightarrow> c_delete_me c' = c_delete_me c"
  by (auto simp: conn_input_def c_read_def Let_def bnd_eq_Inr split: if_splits prod.splits list.splits read_result.splits)

lemma c_write_del: "c_write c b = (w, c') \<Longrightarrow> c_delete_me c' = c_delete_me c"
  by (rule c_write_cases [of c b]) auto

lemma conn_output_del: "conn_output c b = Inr (r, c') \<Longrightarrow> c_delete_me c' = c_delete_me c"
  by (auto simp: conn_output_def Let_def bnd_eq_Inr split: if_splits prod.splits wrote.splits dest!: c_write_del)

lemma drain_loop_del: "drain_loop c q o' = (c', b) \<Longrightarrow> c_delete_me c' = c_delete_me c"
proof (induction q arbitrary: c o')
  case (Cons ck q)
  then show ?case by (auto simp: Let_def split: prod.splits wrote.splits if_splits dest!: c_write_del)
qed auto

lemma conn_drain_del: "conn_drain c = (c', b) \<Longrightarrow> c_delete_me c' = c_delete_me c"
  by (auto simp: conn_drain_def Let_def split: prod.splits if_splits dest!: drain_loop_del)

end
