(* ===== verification/Tcp.thy ===== *)
theory Tcp
  imports Conn Segment Proto
begin

text \<open>
  The translation between cTCP segments and TCP packets in \<^verbatim>\<open>ctcp_sys_internal.c\<close>: building an
  IP packet with a TCP header around a segment, the TCP checksum, the translation of sequence
  numbers by the initial sequence numbers of the connection, the checksum difference that
  carries an error of the segment's checksum over to the packet and back, and
  \<^verbatim>\<open>conn_send\<close> with its deliberate unreliability. Packets are lists of bytes; \<^verbatim>\<open>struct iphdr\<close>
  has the layout of \<open>sr_ip_hdr\<close>, \<^verbatim>\<open>struct tcphdr\<close> is the record \<open>tcphdr\<close>.
\<close>

record tcphdr =
  th_sport :: u16
  th_dport :: u16
  th_seq :: u32
  th_ack :: u32
  th_off :: "4 word"
  th_x2 :: "4 word"
  th_flags :: byte
  th_win :: u16
  th_sum :: u16
  th_urp :: u16

record sys_config =
  my_ip :: u32
  my_port :: int
  cfg_recv_window :: u16
  cfg_send_window :: u16
  cfg_rt_timeout :: int
  run_program :: bool
  unix_socket :: bool
  eof_char_mode :: bool

definition IP_HDR_SIZE :: nat where [simp]: "IP_HDR_SIZE = 20"
definition TCP_HDR_SIZE :: nat where [simp]: "TCP_HDR_SIZE = 20"
definition FULL_HDR_SIZE :: nat where [simp]: "FULL_HDR_SIZE = 40"
definition TCP_PSEUDOHDR_SIZE :: nat where [simp]: "TCP_PSEUDOHDR_SIZE = 32"
definition MAX_PACKET_SIZE :: nat where [simp]: "MAX_PACKET_SIZE = 1480"
definition IPPROTO_TCP :: byte where [simp]: "IPPROTO_TCP = 6"
definition DEFAULT_TTL :: byte where [simp]: "DEFAULT_TTL = 64"
definition IP_ID :: u16 where [simp]: "IP_ID = 144"

definition tcp_bytes :: "tcphdr \<Rightarrow> bytes" where
  "tcp_bytes h = bytes16 (th_sport h) @ bytes16 (th_dport h) @ bytes32 (th_seq h) @ bytes32 (th_ack h)
     @ [push_bit 4 (ucast (th_off h)) OR ucast (th_x2 h), th_flags h]
     @ bytes16 (th_win h) @ bytes16 (th_sum h) @ bytes16 (th_urp h)"

definition tcp_of :: "bytes \<Rightarrow> tcphdr" where
  "tcp_of b = \<lparr> th_sport = le16 (b ! 0) (b ! 1), th_dport = le16 (b ! 2) (b ! 3),
     th_seq = le32 (b ! 4) (b ! 5) (b ! 6) (b ! 7), th_ack = le32 (b ! 8) (b ! 9) (b ! 10) (b ! 11),
     th_off = ucast (drop_bit 4 (b ! 12)), th_x2 = ucast (b ! 12), th_flags = b ! 13,
     th_win = le16 (b ! 14) (b ! 15), th_sum = le16 (b ! 16) (b ! 17), th_urp = le16 (b ! 18) (b ! 19) \<rparr>"

definition load_tcp :: "bytes \<Rightarrow> nat \<Rightarrow> tcphdr res" where
  "load_tcp d off = bnd (read_bytes d off TCP_HDR_SIZE) (\<lambda>b. Inr (tcp_of b))"

section \<open>Packets\<close>

text \<open>The sum over the pseudo header, the TCP header and the data.\<close>

definition cksum_tcp :: "bytes \<Rightarrow> u16 \<Rightarrow> u16 res" where
  "cksum_tcp packet len =
     bnd (load_ip packet 0) (\<lambda>ip.
     bnd (read_bytes packet IP_HDR_SIZE (TCP_HDR_SIZE + unat len)) (\<lambda>seg.
       let phdr = bytes32 (ip_src ip) @ bytes32 (ip_dst ip) @ [0, IPPROTO_TCP]
                    @ bytes16 (htons (of_nat TCP_HDR_SIZE + len)) @ seg
       in bnd (read_bytes phdr 0 (unat (len + of_nat TCP_PSEUDOHDR_SIZE))) (\<lambda>b. Inr (cksum b))))"

definition create_datagram :: "u32 \<Rightarrow> u32 \<Rightarrow> u16 \<Rightarrow> bytes res" where
  "create_datagram src_ip dst_ip len =
     (let total_len = of_nat IP_HDR_SIZE + len;
          ip_hdr = \<lparr> ip_hl = 5, ip_v = 4, ip_tos = 0, ip_len = htons total_len, ip_id = htons IP_ID,
            ip_off = 0, ip_ttl = DEFAULT_TTL, ip_p = IPPROTO_TCP, ip_sum = 0, ip_src = src_ip, ip_dst = dst_ip \<rparr>;
          ip_hdr = ip_hdr\<lparr> ip_sum := cksum (ip_bytes ip_hdr) \<rparr>
      in write_bytes (calloc (unat total_len)) 0 (ip_bytes ip_hdr))"

definition create_tcp_rst :: "sys_config \<Rightarrow> u32 \<Rightarrow> u16 \<Rightarrow> u16 \<Rightarrow> u32 \<Rightarrow> bytes res" where
  "create_tcp_rst cfg dst_ip port_src port_dst seqno =
     bnd (create_datagram (my_ip cfg) dst_ip (of_nat TCP_HDR_SIZE)) (\<lambda>d.
     let h = \<lparr> th_sport = port_src, th_dport = port_dst, th_seq = seqno, th_ack = 0, th_off = 5, th_x2 = 0,
               th_flags = ucast TH_RST, th_win = 0, th_sum = 0, th_urp = 0 \<rparr>
     in bnd (write_bytes d IP_HDR_SIZE (tcp_bytes h)) (\<lambda>d. bnd (cksum_tcp d 0) (\<lambda>s.
          write_bytes d IP_HDR_SIZE (tcp_bytes (h\<lparr> th_sum := s \<rparr>)))))"

text \<open>A segment of the handshake; the sequence numbers of the connection advance.\<close>

definition create_tcp_seg :: "sys_config \<Rightarrow> conn \<Rightarrow> byte \<Rightarrow> bytes \<Rightarrow> (bytes \<times> conn) res" where
  "create_tcp_seg cfg dst flags buf =
     (let len = of_nat (length buf) :: u16; tcp_seg_len = of_nat TCP_HDR_SIZE + len in
      bnd (create_datagram (my_ip cfg) (c_ip_addr dst) tcp_seg_len) (\<lambda>d.
      bnd (if len > 0 then write_bytes d FULL_HDR_SIZE (take (unat len) buf) else Inr d) (\<lambda>d.
      let window = (if flags AND ucast TH_RST = 0 then htons (cfg_recv_window cfg) else 0);
          h = \<lparr> th_sport = htons (of_int (my_port cfg)), th_dport = htons (of_int (c_port dst)),
                th_seq = htonl (c_next_seqno dst), th_ack = htonl (c_ackno dst), th_off = 5, th_x2 = 0,
                th_flags = flags, th_win = window, th_sum = 0, th_urp = 0 \<rparr>
      in bnd (write_bytes d IP_HDR_SIZE (tcp_bytes h)) (\<lambda>d. bnd (cksum_tcp d len) (\<lambda>s.
         bnd (write_bytes d IP_HDR_SIZE (tcp_bytes (h\<lparr> th_sum := s \<rparr>))) (\<lambda>d.
           Inr (d, dst\<lparr> c_seqno := c_next_seqno dst, c_next_seqno := c_next_seqno dst + ucast len \<rparr>)))))))"

text \<open>From a received packet, the whole receive buffer \<open>d\<close>, to a segment.\<close>

definition convert_to_ctcp :: "conn \<Rightarrow> bytes \<Rightarrow> ctcp_segment res" where
  "convert_to_ctcp src d =
     bnd (load_ip d 0) (\<lambda>ip. bnd (load_tcp d IP_HDR_SIZE) (\<lambda>tcp.
     let data_len = ntohs (ip_len ip) - of_nat FULL_HDR_SIZE; len = data_len + of_nat sizeof_segment in
     bnd (if unat len < sizeof_segment + unat data_len then Inl OutOfBounds else Inr ()) (\<lambda>_.
     bnd (if data_len > 0 then read_bytes d FULL_HDR_SIZE (unat data_len) else Inr []) (\<lambda>payload.
     let segment = (seg_calloc 0)\<lparr> sg_seqno := htonl (ntohl (th_seq tcp) - c_their_init_seqno src),
           sg_ackno := htonl (ntohl (th_ack tcp) - c_init_seqno src), sg_len := htons len,
           sg_flags := ucast (th_flags tcp), sg_window := th_win tcp, sg_cksum := 0, sg_data := payload \<rparr> in
     bnd (seg_cksum segment (unat len)) (\<lambda>c.
     let sum = th_sum tcp in
     bnd (write_bytes d IP_HDR_SIZE (tcp_bytes (tcp\<lparr> th_sum := 0 \<rparr>))) (\<lambda>d.
     bnd (cksum_tcp d data_len) (\<lambda>correct_sum.
       Inr (segment\<lparr> sg_cksum := c + (correct_sum - sum) \<rparr>))))))))"

definition convert_to_datagram :: "sys_config \<Rightarrow> conn \<Rightarrow> ctcp_segment \<Rightarrow> int \<Rightarrow> bytes res" where
  "convert_to_datagram cfg dst segment len =
     (let tcp_pkt_len = of_int (len - int sizeof_segment + int TCP_HDR_SIZE) :: u16;
          data_len = of_int (len - int sizeof_segment) :: u16 in
      bnd (create_datagram (my_ip cfg) (c_ip_addr dst) tcp_pkt_len) (\<lambda>d.
      bnd (if data_len > 0 then bnd (read_bytes (sg_data segment) 0 (unat data_len)) (write_bytes d FULL_HDR_SIZE)
           else Inr d) (\<lambda>d.
      let flags = ucast (sg_flags segment);
          h = \<lparr> th_sport = htons (of_int (my_port cfg)), th_dport = htons (of_int (c_port dst)),
                th_seq = htonl (ntohl (sg_seqno segment) + c_init_seqno dst),
                th_ack = htonl (ntohl (sg_ackno segment) + c_their_init_seqno dst), th_off = 5, th_x2 = 0,
                th_flags = (if \<not> run_program cfg \<and> \<not> unix_socket cfg then flags OR ucast TH_ACK else flags),
                th_win = sg_window segment, th_sum = 0, th_urp = 0 \<rparr> in
      bnd (write_bytes d IP_HDR_SIZE (tcp_bytes h)) (\<lambda>d.
      let sum = sg_cksum segment in
      bnd (seg_cksum (segment\<lparr> sg_cksum := 0 \<rparr>) (unat (of_int len :: u16))) (\<lambda>correct_sum.
      bnd (cksum_tcp d data_len) (\<lambda>s.
        write_bytes d IP_HDR_SIZE (tcp_bytes (h\<lparr> th_sum := s + (correct_sum - sum) \<rparr>))))))))"

section \<open>Sending\<close>

text \<open>
  The unreliability of \<^verbatim>\<open>conn_send\<close>: for each process (0 the caller, a forked one has a higher
  number) the outcome of the random choices, the bit to flip, and whether the system call
  fails. A duplicated or delayed segment is sent by a forked process; when it arrives is up
  to the network.
\<close>

datatype send_fault = FDrop | FDuplicate | FDelay | FCorrupt

record send_env =
  se_fault :: "nat \<Rightarrow> send_fault \<Rightarrow> bool"
  se_rand :: "nat \<Rightarrow> nat"
  se_fails :: "nat \<Rightarrow> bool"

definition conn_transmit :: "sys_config \<Rightarrow> send_env \<Rightarrow> bytes \<Rightarrow> nat \<Rightarrow> conn \<Rightarrow> (int \<times> conn) res" where
  "conn_transmit cfg env copy level c =
     (let len = length copy;
          data_length = of_nat len - of_nat sizeof_segment + 4 :: u16;
          rand_bit = se_rand env level mod (unat data_length * 8 - 1) + (sizeof_segment - 4) * 8 in
      bnd (if se_fault env level FCorrupt then flipbit copy rand_bit else Inr copy) (\<lambda>copy.
      bnd (seg_of copy) (\<lambda>seg. bnd (convert_to_datagram cfg c seg (int len)) (\<lambda>pkt.
      let total_len = of_nat FULL_HDR_SIZE + (of_nat len - of_nat sizeof_segment) :: u16 in
      if se_fails env level then Inr (-1, c)
      else bnd (read_bytes pkt 0 (unat total_len)) (\<lambda>out.
        Inr (if TCP_HDR_SIZE \<le> unat total_len then int (unat total_len) - 40 + int sizeof_segment
             else int (unat total_len), c\<lparr> c_net := c_net c @ [out] \<rparr>))))))"

definition conn_branch :: "sys_config \<Rightarrow> send_env \<Rightarrow> bytes \<Rightarrow> nat \<Rightarrow> conn \<Rightarrow> (int \<times> conn) res" where
  "conn_branch cfg env copy level c =
     (if se_fault env level FDelay
      then bnd (conn_transmit cfg env copy (level + 1) c) (\<lambda>(_, c). Inr (int (length copy), c))
      else conn_transmit cfg env copy level c)"

definition conn_send :: "sys_config \<Rightarrow> send_env \<Rightarrow> conn \<Rightarrow> ctcp_segment \<Rightarrow> nat \<Rightarrow> (int \<times> conn) res" where
  "conn_send cfg env c segment len =
     bnd (c_assert (\<not> c_delete_me c)) (\<lambda>_.
     bnd (read_bytes (seg_bytes segment) 0 len) (\<lambda>copy.
     if se_fault env 0 FDrop then Inr (int len, c)
     else bnd (conn_branch cfg env copy 0 c) (\<lambda>(r, c).
       if se_fault env 0 FDuplicate
       then bnd (conn_branch cfg env copy 1 c) (\<lambda>(_, c). Inr (r, c)) else Inr (r, c))))"

section \<open>Lemmas: the packet a segment becomes\<close>

lemma length_tcp_bytes [simp]: "length (tcp_bytes h) = 20"
  by (simp add: tcp_bytes_def)

lemma tcp_of_bytes [simp]: "tcp_of (tcp_bytes h) = h"
  by (cases h) (simp add: tcp_of_def tcp_bytes_def bytes16_def bytes32_def)

lemma unat_u16 [simp]: "n < 65536 \<Longrightarrow> unat (of_nat n :: u16) = n"
  by (simp add: unsigned_of_nat take_bit_nat_eq_self)

definition pkt_ip :: "u32 \<Rightarrow> u32 \<Rightarrow> nat \<Rightarrow> bytes" where
  "pkt_ip src dst n =
     (let h = \<lparr> ip_hl = 5, ip_v = 4, ip_tos = 0, ip_len = htons (of_nat (40 + n)), ip_id = htons IP_ID,
        ip_off = 0, ip_ttl = DEFAULT_TTL, ip_p = IPPROTO_TCP, ip_sum = 0, ip_src = src, ip_dst = dst \<rparr>
      in ip_bytes (h\<lparr> ip_sum := cksum (ip_bytes h) \<rparr>))"

lemma length_pkt_ip [simp]: "length (pkt_ip s d n) = 20"
  by (simp add: pkt_ip_def Let_def)

lemma create_datagram_eq:
  assumes "n \<le> 1440"
  shows "create_datagram src dst (of_nat (20 + n)) = Inr (pkt_ip src dst n @ calloc (20 + n))"
proof -
  have "(of_nat IP_HDR_SIZE + of_nat (20 + n) :: u16) = of_nat (40 + n)" by simp
  moreover have "unat (of_nat (40 + n) :: u16) = 40 + n" using assms by (intro unat_u16) simp
  ultimately show ?thesis
    by (simp add: create_datagram_def pkt_ip_def Let_def write_bytes_0 calloc_def del: of_nat_add of_nat_numeral)
qed


lemma load_pkt_ip [simp]:
  "load_ip (pkt_ip src dst n @ r) 0 = Inr (ip_of (pkt_ip src dst n))"
  "ip_src (ip_of (pkt_ip src dst n)) = src" "ip_dst (ip_of (pkt_ip src dst n)) = dst"
  "ip_len (ip_of (pkt_ip src dst n)) = htons (of_nat (40 + n))"
  by (simp_all add: load_ip_def read_bytes_def pkt_ip_def Let_def ip_of_bytes del: of_nat_add)

definition tcp_sum :: "u32 \<Rightarrow> u32 \<Rightarrow> tcphdr \<Rightarrow> bytes \<Rightarrow> u16" where
  "tcp_sum src dst h payload = cksum (bytes32 src @ bytes32 dst @ [0, IPPROTO_TCP]
     @ bytes16 (htons (of_nat (20 + length payload))) @ tcp_bytes h @ payload)"

lemma cksum_tcp_eq:
  assumes "length payload \<le> 1440"
  shows "cksum_tcp (pkt_ip src dst n @ tcp_bytes h @ payload @ r) (of_nat (length payload)) =
    Inr (tcp_sum src dst h payload)"
proof -
  have u: "unat (of_nat (length payload) :: u16) = length payload" using assms by (intro unat_u16) simp
  have v: "unat (of_nat (length payload) + of_nat TCP_PSEUDOHDR_SIZE :: u16) = length payload + 32"
  proof -
    have "(of_nat (length payload) + of_nat TCP_PSEUDOHDR_SIZE :: u16) = of_nat (length payload + 32)" by simp
    moreover have "unat (of_nat (length payload + 32) :: u16) = length payload + 32" using assms by (intro unat_u16) simp
    ultimately show ?thesis by (simp only:)
  qed
  have r: "read_bytes (pkt_ip src dst n @ tcp_bytes h @ payload @ r) 20 (20 + length payload) = Inr (tcp_bytes h @ payload)"
    by (simp add: read_bytes_def)
  show ?thesis
    by (simp add: cksum_tcp_def u v [simplified] r tcp_sum_def Let_def del: of_nat_add) (simp add: add.commute)
qed

definition pkt_tcp :: "sys_config \<Rightarrow> conn \<Rightarrow> ctcp_segment \<Rightarrow> tcphdr" where
  "pkt_tcp cfg dst segment = \<lparr> th_sport = htons (of_int (my_port cfg)), th_dport = htons (of_int (c_port dst)),
     th_seq = htonl (ntohl (sg_seqno segment) + c_init_seqno dst),
     th_ack = htonl (ntohl (sg_ackno segment) + c_their_init_seqno dst), th_off = 5, th_x2 = 0,
     th_flags = (if \<not> run_program cfg \<and> \<not> unix_socket cfg then ucast (sg_flags segment) OR ucast TH_ACK
                 else ucast (sg_flags segment)),
     th_win = sg_window segment, th_sum = 0, th_urp = 0 \<rparr>"

definition seg_sum :: "ctcp_segment \<Rightarrow> u16" where
  "seg_sum segment = cksum (seg_bytes (segment\<lparr> sg_cksum := 0 \<rparr>))"

definition pkt_of :: "sys_config \<Rightarrow> conn \<Rightarrow> ctcp_segment \<Rightarrow> bytes" where
  "pkt_of cfg dst segment = (let h = pkt_tcp cfg dst segment; p = sg_data segment in
     pkt_ip (my_ip cfg) (c_ip_addr dst) (length p)
     @ tcp_bytes (h\<lparr> th_sum := tcp_sum (my_ip cfg) (c_ip_addr dst) h p
         + (seg_sum segment - sg_cksum segment) \<rparr>) @ p)"

lemma seg_cksum_eq:
  "n = 48 + length (sg_data s) \<Longrightarrow> seg_cksum s n = Inr (cksum (seg_bytes s))"
  by (simp add: seg_cksum_def)

lemma write_tcp:
  "length b = 20 \<Longrightarrow> length h = 20 \<Longrightarrow> length p = 20 \<Longrightarrow> write_bytes (p @ b @ r) 20 h = Inr (p @ h @ r)"
  by (simp add: write_bytes_def)

lemma convert_to_datagram_eq:
  assumes "length (sg_data segment) \<le> 1440"
  shows "convert_to_datagram cfg dst segment (48 + int (length (sg_data segment))) = Inr (pkt_of cfg dst segment)"
proof -
  let ?n = "length (sg_data segment)" and ?p = "sg_data segment"
  let ?ip = "pkt_ip (my_ip cfg) (c_ip_addr dst) ?n" and ?h = "pkt_tcp cfg dst segment"
  have l1: "of_int (48 + int ?n - int sizeof_segment + int TCP_HDR_SIZE) = (of_nat (20 + ?n) :: u16)" by simp
  have l2: "of_int (48 + int ?n - int sizeof_segment) = (of_nat ?n :: u16)" by simp
  have u: "unat (of_nat ?n :: u16) = ?n" using assms by (intro unat_u16) simp
  have l3: "unat (of_int (48 + int ?n) :: u16) = 48 + ?n"
  proof -
    have "(of_int (48 + int ?n) :: u16) = of_nat (48 + ?n)" by simp
    moreover have "unat (of_nat (48 + ?n) :: u16) = 48 + ?n" using assms by (intro unat_u16) simp
    ultimately show ?thesis by (simp only:)
  qed
  have gt: "(of_nat ?n :: u16) > 0 \<longleftrightarrow> ?p \<noteq> []" using u by (simp add: word_less_nat_alt)
  have c: "calloc (20 + ?n) = calloc 20 @ calloc ?n" by (simp add: calloc_def replicate_add)
  have w: "(if (of_nat ?n :: u16) > 0 then bnd (read_bytes ?p 0 ?n) (write_bytes (?ip @ calloc (20 + ?n)) FULL_HDR_SIZE)
      else Inr (?ip @ calloc (20 + ?n))) = Inr (?ip @ calloc 20 @ ?p)"
    by (simp add: gt c write_bytes_def)
  have s: "cksum_tcp (?ip @ tcp_bytes h @ ?p) (of_nat ?n) = Inr (tcp_sum (my_ip cfg) (c_ip_addr dst) h ?p)" for h
    using cksum_tcp_eq [OF assms, of "my_ip cfg" "c_ip_addr dst" ?n h "[]"] by simp
  have q: "seg_cksum (segment\<lparr> sg_cksum := 0 \<rparr>) (48 + ?n) = Inr (seg_sum segment)"
    by (simp add: seg_cksum_eq seg_sum_def)
  show ?thesis
    unfolding convert_to_datagram_def l1 l2 Let_def create_datagram_eq [OF assms] bnd_Inr u w l3
    by (simp add: write_tcp s q pkt_of_def Let_def pkt_tcp_def [symmetric] calloc_def del: of_nat_add)
qed


text \<open>The segment that a packet is read as.\<close>

definition seg_of_pkt :: "conn \<Rightarrow> u32 \<Rightarrow> u32 \<Rightarrow> tcphdr \<Rightarrow> bytes \<Rightarrow> ctcp_segment" where
  "seg_of_pkt src sip dip h p =
     (let s = (seg_calloc 0)\<lparr> sg_seqno := htonl (ntohl (th_seq h) - c_their_init_seqno src),
        sg_ackno := htonl (ntohl (th_ack h) - c_init_seqno src), sg_len := htons (of_nat (48 + length p)),
        sg_flags := ucast (th_flags h), sg_window := th_win h, sg_cksum := 0, sg_data := p \<rparr>
      in s\<lparr> sg_cksum := seg_sum s + (tcp_sum sip dip (h\<lparr> th_sum := 0 \<rparr>) p - th_sum h) \<rparr>)"

lemma convert_to_ctcp_eq:
  assumes "length p \<le> 1440"
  shows "convert_to_ctcp src (pkt_ip sip dip (length p) @ tcp_bytes h @ p @ pad) = Inr (seg_of_pkt src sip dip h p)"
proof -
  let ?n = "length p" and ?d = "pkt_ip sip dip (length p) @ tcp_bytes h @ p @ pad"
  let ?s = "(seg_calloc 0)\<lparr> sg_seqno := htonl (ntohl (th_seq h) - c_their_init_seqno src),
        sg_ackno := htonl (ntohl (th_ack h) - c_init_seqno src), sg_len := htons (of_nat (48 + ?n)),
        sg_flags := ucast (th_flags h), sg_window := th_win h, sg_cksum := 0, sg_data := p \<rparr>"
  have n: "(of_nat (40 + ?n) - of_nat FULL_HDR_SIZE :: u16) = of_nat ?n" by simp
  have m: "(of_nat ?n + of_nat sizeof_segment :: u16) = of_nat (48 + ?n)" by simp
  have u: "unat (of_nat ?n :: u16) = ?n" "unat (of_nat (48 + ?n) :: u16) = 48 + ?n"
    using assms by (intro unat_u16, simp)+
  have gt: "(of_nat ?n :: u16) > 0 \<longleftrightarrow> p \<noteq> []" using u(1) by (simp add: word_less_nat_alt)
  have t: "load_tcp ?d IP_HDR_SIZE = Inr h" by (simp add: load_tcp_def read_bytes_def)
  have rd: "(if (of_nat ?n :: u16) > 0 then read_bytes ?d FULL_HDR_SIZE ?n else Inr []) = Inr p"
    by (simp add: gt read_bytes_def)
  have "?s\<lparr> sg_cksum := 0 \<rparr> = ?s" by simp
  then have q: "seg_cksum ?s (48 + ?n) = Inr (seg_sum ?s)"
    unfolding seg_sum_def by (simp only: seg_cksum_eq) (rule seg_cksum_eq, simp)
  have w: "write_bytes ?d 20 (tcp_bytes k) = Inr (pkt_ip sip dip ?n @ tcp_bytes k @ p @ pad)" for k
    by (simp add: write_bytes_def)
  show ?thesis
    unfolding convert_to_ctcp_def load_pkt_ip bnd_Inr t Let_def htons_htons n m u rd
    by (simp add: q w cksum_tcp_eq [OF assms] seg_of_pkt_def Let_def del: of_nat_add)
qed

text \<open>The two ends of a connection agree on the initial sequence numbers.\<close>

definition peers :: "conn \<Rightarrow> conn \<Rightarrow> bool" where
  "peers c d \<longleftrightarrow> c_their_init_seqno c = c_init_seqno d \<and> c_init_seqno c = c_their_init_seqno d"

definition no_times :: "ctcp_segment \<Rightarrow> ctcp_segment" where
  "no_times s = s\<lparr> sg_sendtime := 0, sg_delivered := 0, sg_delivered_time := 0 \<rparr>"

definition wire_ok :: "ctcp_segment \<Rightarrow> bool" where
  "wire_ok s \<longleftrightarrow> length (sg_data s) \<le> 1440 \<and> sg_len s = htons (of_nat (48 + length (sg_data s)))
     \<and> ucast (ucast (sg_flags s) :: byte) = sg_flags s"

text \<open>A host that runs no program and is not a Unix socket marks every packet as an acknowledgement.\<close>

definition wire_flags :: "sys_config \<Rightarrow> u32 \<Rightarrow> u32" where
  "wire_flags cfg f = (if \<not> run_program cfg \<and> \<not> unix_socket cfg then f OR TH_ACK else f)"

definition wire_seg :: "sys_config \<Rightarrow> ctcp_segment \<Rightarrow> ctcp_segment" where
  "wire_seg cfg s = (let t = (no_times s)\<lparr> sg_flags := wire_flags cfg (sg_flags s) \<rparr>
     in t\<lparr> sg_cksum := sg_cksum s + (seg_sum t - seg_sum s) \<rparr>)"

lemma ucast_flags:
  assumes "ucast (ucast f :: byte) = (f :: u32)"
  shows "ucast (if \<not> run_program cfg \<and> \<not> unix_socket cfg then ucast f OR ucast TH_ACK else ucast f :: byte)
    = wire_flags cfg f"
proof -
  have "ucast (ucast f OR ucast TH_ACK :: byte) = (ucast (ucast f :: byte) :: u32) OR TH_ACK"
    by (simp only: unsigned_or_eq) simp
  then show ?thesis using assms by (simp add: wire_flags_def)
qed

lemma wire_roundtrip:
  assumes "wire_ok s" "peers src dst"
  shows "convert_to_ctcp src (pkt_of cfg dst s @ pad) = Inr (wire_seg cfg s)"
proof -
  let ?h = "pkt_tcp cfg dst s" and ?p = "sg_data s" and ?T = "tcp_sum (my_ip cfg) (c_ip_addr dst) (pkt_tcp cfg dst s) (sg_data s)"
  let ?k = "?h\<lparr> th_sum := ?T + (seg_sum s - sg_cksum s) \<rparr>" and ?t = "(no_times s)\<lparr> sg_flags := wire_flags cfg (sg_flags s) \<rparr>"
  have l: "length ?p \<le> 1440" "sg_len s = htons (of_nat (48 + length ?p))"
    and f: "ucast (ucast (sg_flags s) :: byte) = sg_flags s"
    using assms(1) by (auto simp: wire_ok_def)
  have fl: "ucast (th_flags ?h) = wire_flags cfg (sg_flags s)"
    using ucast_flags [OF f] by (simp add: pkt_tcp_def)
  have e: "(seg_calloc 0)\<lparr> sg_seqno := htonl (ntohl (th_seq ?h) - c_their_init_seqno src),
      sg_ackno := htonl (ntohl (th_ack ?h) - c_init_seqno src), sg_len := htons (of_nat (48 + length ?p)),
      sg_flags := ucast (th_flags ?h), sg_window := th_win ?h, sg_cksum := 0, sg_data := ?p \<rparr>
      = ?t\<lparr> sg_cksum := 0 \<rparr>"
    using assms(2) l(2) unfolding fl
    by (cases s) (simp add: peers_def pkt_tcp_def seg_calloc_def no_times_def del: of_nat_add)
  have z: "?h\<lparr> th_sum := x, th_sum := 0 \<rparr> = ?h" for x by (simp add: pkt_tcp_def)
  have s: "seg_sum (?t\<lparr> sg_cksum := x \<rparr>) = seg_sum ?t" for x by (simp add: seg_sum_def)
  have "pkt_of cfg dst s @ pad = pkt_ip (my_ip cfg) (c_ip_addr dst) (length ?p) @ tcp_bytes ?k @ ?p @ pad"
    by (simp add: pkt_of_def Let_def)
  then have "convert_to_ctcp src (pkt_of cfg dst s @ pad) = Inr (seg_of_pkt src (my_ip cfg) (c_ip_addr dst) ?k ?p)"
    using convert_to_ctcp_eq [OF l(1), of src "my_ip cfg" "c_ip_addr dst" ?k pad] by simp
  also have "seg_of_pkt src (my_ip cfg) (c_ip_addr dst) ?k ?p =
      ?t\<lparr> sg_cksum := 0, sg_cksum := seg_sum (?t\<lparr> sg_cksum := 0 \<rparr>)
        + (?T - (?T + (seg_sum s - sg_cksum s))) \<rparr>"
    unfolding seg_of_pkt_def Let_def z e [symmetric] by simp
  also have "\<dots> = wire_seg cfg s" by (simp add: s wire_seg_def Let_def)
  finally show ?thesis .
qed

section \<open>Lemmas: sending\<close>

text \<open>A segment in memory: the times are stored modulo \<open>2 ^ 64\<close>.\<close>

definition stored :: "ctcp_segment \<Rightarrow> ctcp_segment" where
  "stored s = s\<lparr> sg_sendtime := sint (word_of_int (sg_sendtime s) :: u64),
     sg_delivered := sint (word_of_int (sg_delivered s) :: u64),
     sg_delivered_time := sint (word_of_int (sg_delivered_time s) :: u64) \<rparr>"

lemma seg_of_stored: "seg_of (seg_bytes s) = Inr (stored s)"
  by (simp add: seg_of_def seg_bytes_def seg_hdr_def nth_append drop_append take_append stored_def)

lemma seg_bytes_stored: "seg_bytes ((stored s)\<lparr> sg_cksum := x \<rparr>) = seg_bytes (s\<lparr> sg_cksum := x \<rparr>)"
  by (simp add: stored_def seg_bytes_def seg_hdr_def)

lemma pkt_of_stored: "pkt_of cfg c (stored s) = pkt_of cfg c s" "sg_data (stored s) = sg_data s"
proof -
  have "seg_sum (stored s) = seg_sum s" by (simp add: seg_sum_def seg_bytes_stored)
  then show "pkt_of cfg c (stored s) = pkt_of cfg c s" by (simp add: pkt_of_def pkt_tcp_def stored_def Let_def)
qed (simp add: stored_def)

definition no_corrupt :: "send_env \<Rightarrow> bool" where
  "no_corrupt env \<longleftrightarrow> (\<forall>l. \<not> se_fault env l FCorrupt)"

lemma length_pkt_of [simp]: "length (pkt_of cfg dst s) = 40 + length (sg_data s)"
  by (simp add: pkt_of_def Let_def)

lemma conn_transmit_eq:
  assumes "length (sg_data s) \<le> 1440" "\<not> se_fault env l FCorrupt"
  shows "conn_transmit cfg env (seg_bytes s) l c = Inr (if se_fails env l then (-1, c)
    else (48 + int (length (sg_data s)), c\<lparr> c_net := c_net c @ [pkt_of cfg c s] \<rparr>))"
proof -
  have t: "(of_nat FULL_HDR_SIZE + (of_nat (length (seg_bytes s)) - of_nat sizeof_segment) :: u16) =
      of_nat (40 + length (sg_data s))" by simp
  have u: "unat (of_nat (40 + length (sg_data s)) :: u16) = 40 + length (sg_data s)"
    using assms(1) by (intro unat_u16) simp
  have "convert_to_datagram cfg c (stored s) (int (length (seg_bytes s))) = Inr (pkt_of cfg c s)"
    using convert_to_datagram_eq [of "stored s"] assms(1) by (simp add: pkt_of_stored)
  then show ?thesis
    unfolding conn_transmit_def Let_def t u
    using assms(2) seg_of_stored [of s] by (simp del: of_nat_add length_seg_bytes)
qed

text \<open>
  What one call of \<^verbatim>\<open>conn_send\<close> puts on the network: copies of one packet, none when it is dropped
  or the system call fails, more than one when it is duplicated.
\<close>

definition sends :: "sys_config \<Rightarrow> conn \<Rightarrow> ctcp_segment \<Rightarrow> conn \<Rightarrow> bool" where
  "sends cfg c s c' \<longleftrightarrow> c' \<in> {c, c\<lparr> c_net := c_net c @ [pkt_of cfg c s] \<rparr>,
     c\<lparr> c_net := c_net c @ [pkt_of cfg c s, pkt_of cfg c s] \<rparr>}"

lemma pkt_of_net [simp]: "pkt_of cfg (c\<lparr> c_net := x \<rparr>) s = pkt_of cfg c s"
  by (simp add: pkt_of_def pkt_tcp_def)

lemma conn_branch_sends:
  assumes "length (sg_data s) \<le> 1440" "no_corrupt env"
  shows "\<exists>r b. conn_branch cfg env (seg_bytes s) l c =
    Inr (r, if b then c else c\<lparr> c_net := c_net c @ [pkt_of cfg c s] \<rparr>)"
proof -
  have n: "\<not> se_fault env m FCorrupt" for m using assms(2) by (simp add: no_corrupt_def)
  note t = conn_transmit_eq [OF assms(1) n]
  show ?thesis
  proof (cases "se_fault env l FDelay")
    case True
    then show ?thesis unfolding conn_branch_def t
      by (intro exI [of _ "int (length (seg_bytes s))"] exI [of _ "se_fails env (l + 1)"]) simp
  next
    case False
    then show ?thesis unfolding conn_branch_def t
      by (intro exI [of _ "if se_fails env l then -1 else 48 + int (length (sg_data s))"] exI [of _ "se_fails env l"]) simp
  qed
qed

lemma conn_send_sends:
  assumes "n = 48 + length (sg_data s)" "length (sg_data s) \<le> 1440" "no_corrupt env" "\<not> c_delete_me c"
  shows "\<exists>r c'. conn_send cfg env c s n = Inr (r, c') \<and> sends cfg c s c'"
proof -
  have rd: "read_bytes (seg_bytes s) 0 n = Inr (seg_bytes s)" using assms(1) by simp
  obtain r b where 1: "conn_branch cfg env (seg_bytes s) 0 c =
      Inr (r, if b then c else c\<lparr> c_net := c_net c @ [pkt_of cfg c s] \<rparr>)"
    using conn_branch_sends [OF assms(2,3)] by blast
  let ?c = "if b then c else c\<lparr> c_net := c_net c @ [pkt_of cfg c s] \<rparr>"
  obtain r' b' where 2: "conn_branch cfg env (seg_bytes s) 1 ?c =
      Inr (r', if b' then ?c else ?c\<lparr> c_net := c_net ?c @ [pkt_of cfg ?c s] \<rparr>)"
    using conn_branch_sends [OF assms(2,3)] by blast
  consider "se_fault env 0 FDrop" | "\<not> se_fault env 0 FDrop" "se_fault env 0 FDuplicate"
    | "\<not> se_fault env 0 FDrop" "\<not> se_fault env 0 FDuplicate" by blast
  then show ?thesis
  proof cases
    case 1
    then show ?thesis using assms(4) rd by (simp add: conn_send_def sends_def)
  next
    case c: 2
    have "conn_send cfg env c s n = Inr (r, if b' then ?c else ?c\<lparr> c_net := c_net ?c @ [pkt_of cfg ?c s] \<rparr>)"
      using c assms(4) rd 1 2 by (simp add: conn_send_def)
    moreover have "sends cfg c s (if b' then ?c else ?c\<lparr> c_net := c_net ?c @ [pkt_of cfg ?c s] \<rparr>)"
      by (simp add: sends_def)
    ultimately show ?thesis by blast
  next
    case c: 3
    have "conn_send cfg env c s n = Inr (r, ?c)" using c assms(4) rd 1 by (simp add: conn_send_def)
    moreover have "sends cfg c s ?c" by (simp add: sends_def)
    ultimately show ?thesis by blast
  qed
qed

end
