(* ===== verification/Ctcp.thy ===== *)
theory Ctcp
  imports Bbr Tcp
begin

text \<open>
  The cTCP transport, \<^verbatim>\<open>ctcp.c\<close>, with \<^verbatim>\<open>bbr_send\<close> of \<^verbatim>\<open>ctcp_bbr.c\<close>. A connection state and its
  connection object form an \<open>endpoint\<close>, together with the file \<^verbatim>\<open>bdp.txt\<close>, the global \<^verbatim>\<open>fp\<close>: the pairs
  printed so far, \<open>None\<close> once it is closed. The queue of unacknowledged segments
  is a HOL list: the operations the code uses on it, \<^verbatim>\<open>ll_add\<close>, \<^verbatim>\<open>ll_front\<close>, \<^verbatim>\<open>ll_remove\<close> of the
  front, \<^verbatim>\<open>ll_length\<close>, are those of the interface \<open>fifo\<close> that the theory \<open>LinkedList\<close> provides.
  Segments in the queue are written in place when they are retransmitted.

  The clock is constant during a handler. The static list of states, and the handlers that work on it, are in the
  theory \<open>Session\<close>.
\<close>

record ctcp_state =
  st_segments :: "ctcp_segment list"
  st_seqno :: u32
  st_next_seqno :: u32
  st_ackno :: u32
  st_recv_window :: u16
  st_send_window :: u16
  st_rt_timeout :: int
  st_read_finish :: int
  st_output :: "bytes option"
  st_output_len :: int
  st_current_time :: int
  st_FIN_received :: int
  st_FIN_sent :: int
  st_get_all_ack :: int
  st_all_recv_output :: int
  st_retrans_count :: int
  st_bbr :: ctcp_bbr

record endpoint =
  e_st :: ctcp_state
  e_conn :: conn
  e_fp :: "(int \<times> int) list option"
  e_sends :: nat

text \<open>What a handler runs in: the configuration, the fate of each send, the time.\<close>

record ctx =
  x_cfg :: sys_config
  x_env :: "nat \<Rightarrow> send_env"
  x_now :: int

abbreviation st_upd :: "(ctcp_state \<Rightarrow> ctcp_state) \<Rightarrow> endpoint \<Rightarrow> endpoint" where
  "st_upd f ep \<equiv> ep\<lparr> e_st := f (e_st ep) \<rparr>"

section \<open>Sending segments\<close>

definition ep_send :: "ctx \<Rightarrow> endpoint \<Rightarrow> ctcp_segment \<Rightarrow> nat \<Rightarrow> endpoint res" where
  "ep_send x ep seg len =
     bnd (conn_send (x_cfg x) (x_env x (e_sends ep)) (e_conn ep) seg len) (\<lambda>(r, c).
       Inr (ep\<lparr> e_conn := c, e_sends := Suc (e_sends ep) \<rparr>))"

text \<open>\<^verbatim>\<open>fprintf(fp, ...)\<close>: the time and eight times the bandwidth-delay product.\<close>

definition log_bdp :: "ctx \<Rightarrow> endpoint \<Rightarrow> endpoint res" where
  "log_bdp x ep =
     bnd (bbr_bdp (st_bbr (e_st ep))) (\<lambda>bdp. case e_fp ep of
        None \<Rightarrow> Inl UseAfterFree
      | Some l \<Rightarrow> Inr (ep\<lparr> e_fp := Some (l @ [(x_now x, bdp * 8)]) \<rparr>))"

text \<open>A segment with its header filled in and its checksum computed.\<close>

definition make_seg :: "u32 \<Rightarrow> u32 \<Rightarrow> u32 \<Rightarrow> u16 \<Rightarrow> bytes \<Rightarrow> ctcp_segment res" where
  "make_seg ackno seqno flag window buf =
     (let seg = (seg_calloc 0)\<lparr> sg_ackno := htonl ackno, sg_seqno := htonl seqno, sg_flags := 0 OR htonl flag,
        sg_len := htons (of_nat (sizeof_segment + length buf)), sg_window := htons window,
        sg_cksum := htons 0, sg_data := buf \<rparr>
      in bnd (seg_cksum seg (unat (ntohs (sg_len seg)))) (\<lambda>c. Inr (seg\<lparr> sg_cksum := c \<rparr>)))"

definition ctcp_send_fin :: "ctx \<Rightarrow> endpoint \<Rightarrow> endpoint res" where
  "ctcp_send_fin x ep =
     (let s = e_st ep in
      bnd (make_seg (st_ackno s) (st_next_seqno s) FIN (st_recv_window s) []) (\<lambda>fin_seg.
      let fin_seg = fin_seg\<lparr> sg_delivered_time := x_now x \<rparr>;
          ep = st_upd (\<lambda>s. s\<lparr> st_segments := st_segments s @ [fin_seg], st_get_all_ack := 0 \<rparr>) ep
      in ep_send x ep fin_seg sizeof_segment))"

definition ctcp_send_ack :: "ctx \<Rightarrow> endpoint \<Rightarrow> endpoint res" where
  "ctcp_send_ack x ep =
     (let s = e_st ep in
      bnd (make_seg (st_ackno s) (st_next_seqno s) ACK (st_recv_window s) []) (\<lambda>ack_seg.
        ep_send x ep ack_seg (unat (ntohs (sg_len ack_seg)))))"

text \<open>The data is copied into the 1440 bytes behind the header.\<close>

definition make_data_seg :: "ctcp_state \<Rightarrow> bytes \<Rightarrow> ctcp_segment res" where
  "make_data_seg s buf =
     bnd (if length buf \<le> MAX_SEG_DATA_SIZE then Inr () else Inl OutOfBounds) (\<lambda>_.
       make_seg (st_ackno s) (st_next_seqno s) ACK (st_send_window s) buf)"

text \<open>\<^verbatim>\<open>next_seqno\<close> advances, and the segment joins the queue.\<close>

definition enqueue_data :: "ctcp_segment \<Rightarrow> nat \<Rightarrow> ctcp_state \<Rightarrow> ctcp_state" where
  "enqueue_data seg n s = s\<lparr> st_next_seqno := st_next_seqno s + of_nat n,
     st_segments := st_segments s @ [seg], st_get_all_ack := 0 \<rparr>"

definition ctcp_send_data :: "ctx \<Rightarrow> endpoint \<Rightarrow> bytes \<Rightarrow> int \<Rightarrow> int \<Rightarrow> int \<Rightarrow> endpoint res" where
  "ctcp_send_data x ep buf sendtime delivered delivered_time =
     (let ep = st_upd (\<lambda>s. s\<lparr> st_bbr := (st_bbr s)\<lparr> inflight := inflight (st_bbr s) + int (length buf) \<rparr> \<rparr>) ep in
      bnd (log_bdp x ep) (\<lambda>ep.
      bnd (make_data_seg (e_st ep) buf) (\<lambda>data_seg.
      let data_seg = data_seg\<lparr> sg_sendtime := sendtime, sg_delivered := delivered, sg_delivered_time := delivered_time \<rparr>;
          ep = st_upd (enqueue_data data_seg (length buf)) ep
      in ep_send x ep data_seg (unat (ntohs (sg_len data_seg))))))"

definition bbr_send :: "ctx \<Rightarrow> endpoint \<Rightarrow> bytes \<Rightarrow> endpoint res" where
  "bbr_send x ep buf =
     (let now = x_now x; bbr = st_bbr (e_st ep) in
      bnd (bbr_bdp bbr) (\<lambda>bdp.
      if bbr_window_full bbr bdp then
        bnd (make_data_seg (e_st ep) buf) (\<lambda>data_seg.
        let data_seg = data_seg\<lparr> sg_delivered_time := b_delivered_time bbr \<rparr>
        in Inr (st_upd (enqueue_data data_seg (length buf)) ep))
      else if now > nextSendTime bbr then
        bnd (ctcp_send_data x ep buf now (b_delivered bbr) (b_delivered_time bbr)) (\<lambda>ep.
        bnd (bbr_next_send now (st_bbr (e_st ep)) (int (length buf))) (\<lambda>t.
          Inr (st_upd (\<lambda>s. s\<lparr> st_bbr := (st_bbr s)\<lparr> nextSendTime := t \<rparr> \<rparr>) ep)))
      else Inr ep))"

section \<open>The handlers\<close>

definition ctcp_read :: "ctx \<Rightarrow> endpoint \<Rightarrow> endpoint res" where
  "ctcp_read x ep =
     (let s = e_st ep; cfg = x_cfg x in
      if st_read_finish s = 1 then Inr ep
      else if x_now x \<le> nextSendTime (st_bbr s) then Inr ep
      else if st_next_seqno s \<ge> st_seqno s + ucast (st_send_window s) then Inr ep
      else bnd (conn_input (run_program cfg \<or> unix_socket cfg) (eof_char_mode cfg) (e_conn ep) MAX_SEG_DATA_SIZE) (\<lambda>(r, c).
        let ep = ep\<lparr> e_conn := c \<rparr> in
        case r of
          None \<Rightarrow> Inr (st_upd (\<lambda>s. s\<lparr> st_read_finish := 1 \<rparr>) ep)
        | Some [] \<Rightarrow> Inr ep
        | Some (b # bs) \<Rightarrow> bbr_send x ep (b # bs)))"

definition ctcp_output :: "endpoint \<Rightarrow> endpoint res" where
  "ctcp_output ep =
     (let s = e_st ep; buf_space = int (conn_bufspace (e_conn ep)) in
      if buf_space \<ge> st_output_len s then
        bnd (if st_output_len s = 0 then Inr [] else bnd (deref (st_output s)) (\<lambda>b. read_bytes b 0 (nat (st_output_len s)))) (\<lambda>buf.
        bnd (conn_output (e_conn ep) buf) (\<lambda>(r, c).
          Inr (st_upd (\<lambda>s. s\<lparr> st_output := None, st_output_len := 0 \<rparr>) (ep\<lparr> e_conn := c \<rparr>))))
      else Inr ep)"

text \<open>Data: the first part of \<^verbatim>\<open>ctcp_receive\<close>; \<open>None\<close> is an early return.\<close>

definition receive_data :: "ctx \<Rightarrow> endpoint \<Rightarrow> ctcp_segment \<Rightarrow> int \<Rightarrow> (endpoint \<times> bool) res" where
  "receive_data x ep segment data_len =
     (let s = e_st ep; seqno = ntohl (sg_seqno segment) in
      if data_len \<le> 0 then Inr (ep, True)
      else if seqno < st_ackno s then Inr (ep, False)
      else if seqno > st_ackno s + ucast (st_recv_window s) then Inr (ep, False)
      else if seqno = st_ackno s \<and> int (conn_bufspace (e_conn ep)) \<ge> data_len then
        bnd (read_bytes (sg_data segment) 0 (nat data_len)) (\<lambda>b.
        bnd (ctcp_output (st_upd (\<lambda>s. s\<lparr> st_output := Some b, st_output_len := data_len,
          st_ackno := st_ackno s + of_int data_len \<rparr>) ep)) (\<lambda>ep.
        bnd (ctcp_send_ack x ep) (\<lambda>ep. Inr (ep, True))))
      else bnd (ctcp_send_ack x ep) (\<lambda>ep. Inr (ep, True)))"

definition front_seg :: "endpoint \<Rightarrow> ctcp_segment option" where
  "front_seg ep = (case st_segments (e_st ep) of [] \<Rightarrow> None | sgm # _ \<Rightarrow> Some sgm)"

text \<open>\<^verbatim>\<open>free(node->object); ll_remove(state->segments, node)\<close> for the front node, NULL when the queue is empty.\<close>

definition remove_front :: "endpoint \<Rightarrow> endpoint res" where
  "remove_front ep = bnd (deref (front_seg ep)) (\<lambda>_.
     Inr (st_upd (\<lambda>s. s\<lparr> st_segments := tl (st_segments s), st_retrans_count := 0 \<rparr>) ep))"

definition receive_ack :: "ctx \<Rightarrow> endpoint \<Rightarrow> ctcp_segment \<Rightarrow> (endpoint \<times> bool) res" where
  "receive_ack x ep segment =
     (let s = e_st ep; ackno = ntohl (sg_ackno segment) in
      if ntohl (sg_flags segment) AND ACK = 0 then Inr (ep, True)
      else if st_FIN_sent s = 1 \<and> ackno = st_seqno s + 1 then
        bnd (remove_front (st_upd (\<lambda>s. s\<lparr> st_FIN_received := 1 \<rparr>) ep)) (\<lambda>ep. Inr (ep, False))
      else (case front_seg ep of None \<Rightarrow> Inr (ep, True) | Some sgm \<Rightarrow>
        (let data_len = ntohs (sg_len sgm) - of_nat sizeof_segment;
             expected_ackno = ntohl (sg_seqno sgm) + ucast data_len;
             less_inflight = (\<lambda>ep. st_upd (\<lambda>s. s\<lparr> st_bbr := (st_bbr s)\<lparr> inflight := inflight (st_bbr s) - int (unat data_len) \<rparr> \<rparr>) ep)
         in
         if expected_ackno = ackno then
           let ep = less_inflight ep in
           bnd (bbr_onAck (x_now x) (st_bbr (e_st ep)) sgm) (\<lambda>bbr.
           bnd (remove_front (st_upd (\<lambda>s. s\<lparr> st_bbr := bbr \<rparr>) ep)) (\<lambda>ep.
             Inr (st_upd (\<lambda>s. s\<lparr> st_seqno := expected_ackno, st_send_window := ntohs (sg_window segment) \<rparr>) ep, True)))
         else if expected_ackno < ackno then
           bnd (remove_front (less_inflight ep)) (\<lambda>ep.
             Inr (st_upd (\<lambda>s. s\<lparr> st_seqno := expected_ackno \<rparr>) ep, True))
         else
           bnd (ep_send x ep sgm (unat (ntohs (sg_len sgm)))) (\<lambda>ep. Inr (ep, True)))))"

definition receive_fin :: "ctx \<Rightarrow> endpoint \<Rightarrow> ctcp_segment \<Rightarrow> endpoint res" where
  "receive_fin x ep segment =
     (if ntohl (sg_flags segment) AND FIN = 0 then Inr ep
      else let ep = st_upd (\<lambda>s. s\<lparr> st_FIN_received := 1 \<rparr>) ep in
        if ntohl (sg_seqno segment) = st_ackno (e_st ep) then
          bnd (ctcp_send_ack x (st_upd (\<lambda>s. s\<lparr> st_ackno := st_ackno s + 1 \<rparr>) ep)) (\<lambda>ep.
          bnd (conn_output (e_conn ep) []) (\<lambda>(r, c).
            Inr (st_upd (\<lambda>s. s\<lparr> st_all_recv_output := 1 \<rparr>) (ep\<lparr> e_conn := c \<rparr>))))
        else Inr ep)"

definition ctcp_receive :: "ctx \<Rightarrow> endpoint \<Rightarrow> ctcp_segment \<Rightarrow> nat \<Rightarrow> endpoint res" where
  "ctcp_receive x ep segment len =
     bnd (receive_data x ep segment (int len - int sizeof_segment)) (\<lambda>(ep, go).
     if \<not> go then Inr ep else
     bnd (receive_ack x ep segment) (\<lambda>(ep, go).
     if \<not> go then Inr ep else receive_fin x ep segment))"

text \<open>
  The timer for the connection at the head of the list. The flag of the result says that the
  connection is to be destroyed. \<^verbatim>\<open>fclose\<close> of a closed file is undefined.
\<close>

definition timer_fin :: "ctx \<Rightarrow> endpoint \<Rightarrow> endpoint res" where
  "timer_fin x ep =
     (let s = e_st ep in
      if st_read_finish s = 1 \<and> st_get_all_ack s = 1 \<and> st_FIN_sent s = 0 then
        bnd (ctcp_send_fin x ep) (\<lambda>ep. case e_fp ep of None \<Rightarrow> Inl UseAfterFree
          | Some _ \<Rightarrow> Inr (st_upd (\<lambda>s. s\<lparr> st_FIN_sent := 1 \<rparr>) (ep\<lparr> e_fp := None \<rparr>)))
      else Inr ep)"

definition timer_retransmit :: "ctx \<Rightarrow> endpoint \<Rightarrow> endpoint res" where
  "timer_retransmit x ep =
     (let now = x_now x;
          ep = st_upd (\<lambda>s. s\<lparr> st_retrans_count := st_retrans_count s + 1, st_current_time := now \<rparr>) ep in
      bnd (deref (front_seg ep)) (\<lambda>sgm.
      let bbr = st_bbr (e_st ep);
          sgm = sgm\<lparr> sg_sendtime := now, sg_delivered := b_delivered bbr, sg_delivered_time := b_delivered_time bbr \<rparr>;
          ep = st_upd (\<lambda>s. s\<lparr> st_segments := sgm # tl (st_segments s) \<rparr>) ep in
      bnd (ep_send x ep sgm (unat (ntohs (sg_len sgm)))) (\<lambda>ep.
      bnd (log_bdp x ep) (\<lambda>ep.
        Inr (st_upd (\<lambda>s. s\<lparr> st_bbr := (st_bbr s)\<lparr> inflight := inflight (st_bbr s) + int (unat (ntohs (sg_len sgm))) \<rparr> \<rparr>) ep)))))"

definition timer_ep :: "ctx \<Rightarrow> endpoint \<Rightarrow> (endpoint \<times> bool) res" where
  "timer_ep x ep =
     bnd (timer_fin x ep) (\<lambda>ep.
     let s = e_st ep in
     if st_FIN_received s = 1 \<and> st_FIN_sent s = 1 \<and> st_read_finish s = 1 \<and> st_get_all_ack s = 1
        \<and> st_all_recv_output s = 1 then Inr (ep, True)
     else if st_segments s = [] then Inr (st_upd (\<lambda>s. s\<lparr> st_get_all_ack := 1 \<rparr>) ep, False)
     else if x_now x - st_current_time s > st_rt_timeout s then
       if st_retrans_count s \<le> RETRANSMIT_LIMIT
       then bnd (timer_retransmit x ep) (\<lambda>ep. Inr (ep, False))
       else Inr (ep, True)
     else Inr (ep, False))"

section \<open>A new state\<close>

definition ctcp_init_state :: "sys_config \<Rightarrow> int \<Rightarrow> ctcp_state" where
  "ctcp_init_state cfg now = \<lparr> st_segments = [], st_seqno = 1, st_next_seqno = 1, st_ackno = 1,
     st_recv_window = cfg_recv_window cfg, st_send_window = cfg_send_window cfg,
     st_rt_timeout = cfg_rt_timeout cfg, st_read_finish = 0, st_output = None, st_output_len = 0,
     st_current_time = now, st_FIN_received = 0, st_FIN_sent = 0, st_get_all_ack = 0,
     st_all_recv_output = 0, st_retrans_count = 0, st_bbr = init_bbr now bbr_calloc \<rparr>"

section \<open>The event loop, for one connection\<close>

text \<open>Output is possible: drain the queue, then \<^verbatim>\<open>ctcp_output\<close> when it asks for it.\<close>

definition ep_drain :: "endpoint \<Rightarrow> endpoint res" where
  "ep_drain ep = (let (c, call) = conn_drain (e_conn ep); ep = ep\<lparr> e_conn := c \<rparr>
     in if call then ctcp_output ep else Inr ep)"

text \<open>A packet of an established connection, in the receive buffer that is zero behind it.\<close>

definition ep_packet :: "ctx \<Rightarrow> endpoint \<Rightarrow> bytes \<Rightarrow> endpoint res" where
  "ep_packet x ep d =
     bnd (convert_to_ctcp (e_conn ep) (d @ calloc (MAX_PACKET_SIZE - length d))) (\<lambda>segment.
       ctcp_receive x ep segment (length d - FULL_HDR_SIZE + sizeof_segment))"

end
