(* ===== verification/ByteStream.thy ===== *)
theory ByteStream
  imports Ctcp
begin

text \<open>
  End-to-end correctness of cTCP: two endpoints exchange packets over a network that may
  lose, duplicate, delay and reorder them, but does not alter them. What a host outputs is always
  a prefix of what the other host read from its input. The sender's half of the invariant, \<open>snd_inv\<close>,
  says that every segment in the queue or on the network carries the bytes of the stream at the
  place its sequence number names; the receiver's half, \<open>rcv_inv\<close>, that the acknowledgement number counts the
  bytes accepted, and that the output follows them. Each handler keeps both halves, whatever
  it receives in the other direction.
\<close>

section \<open>Streams and segments\<close>

fun in_bytes :: "read_result list \<Rightarrow> bytes" where
  "in_bytes [] = []"
| "in_bytes (RData b # rs) = b @ in_bytes rs"
| "in_bytes (_ # rs) = in_bytes rs"

text \<open>A segment of the sender of stream \<open>S\<close>; \<open>fin\<close> says that the stream is complete.\<close>

definition carries :: "bytes \<Rightarrow> bool \<Rightarrow> ctcp_segment \<Rightarrow> bool" where
  "carries S fin s \<longleftrightarrow> length (sg_data s) \<le> 1440 \<and> sg_len s = htons (of_nat (48 + length (sg_data s)))
     \<and> (if sg_flags s = TH_FIN then fin \<and> sg_data s = [] \<and> ntohl (sg_seqno s) = of_nat (length S + 1)
        else sg_flags s = TH_ACK \<and> (sg_data s = [] \<or>
          (\<exists>k. k + length (sg_data s) \<le> length S \<and> sg_data s = take (length (sg_data s)) (drop k S)
            \<and> ntohl (sg_seqno s) = of_nat (k + 1))))"

definition ids :: "conn \<Rightarrow> u32 \<times> int \<times> u32 \<times> u32" where
  "ids c = (c_ip_addr c, c_port c, c_init_seqno c, c_their_init_seqno c)"

definition net_ok :: "sys_config \<Rightarrow> conn \<Rightarrow> bytes \<Rightarrow> bool \<Rightarrow> bool" where
  "net_ok cfg c S fin \<longleftrightarrow> (\<forall>p\<in>set (c_net c). \<exists>s. p = pkt_of cfg c s \<and> carries S fin s)"

definition snd_inv :: "sys_config \<Rightarrow> bytes \<Rightarrow> endpoint \<Rightarrow> bytes \<Rightarrow> bool" where
  "snd_inv cfg input ep S \<longleftrightarrow>
     (let s = e_st ep; c = e_conn ep; fin = (st_read_finish s = 1) in
      unat (st_next_seqno s) = length S + 1
      \<and> (\<exists>rest. input = S @ rest \<and> (\<not> fin \<longrightarrow> rest = in_bytes (c_in c)))
      \<and> net_ok cfg c S fin \<and> (\<forall>g\<in>set (st_segments s). carries S fin g))"

definition rcv_inv :: "endpoint \<Rightarrow> bytes \<Rightarrow> bool" where
  "rcv_inv ep T \<longleftrightarrow> st_output_len (e_st ep) = 0 \<and> (\<exists>d \<le> length T. sink.follows (e_conn ep) (take d T)
     \<and> (if st_all_recv_output (e_st ep) = 1 then d = length T \<and> unat (st_ackno (e_st ep)) = length T + 2
        else unat (st_ackno (e_st ep)) = d + 1))"

text \<open>What the receiver's half depends on.\<close>

definition rcv_part :: "endpoint \<Rightarrow> u32 \<times> int \<times> int \<times> bytes \<times> chunk list \<times> bool \<times> bool" where
  "rcv_part ep = (st_ackno (e_st ep), st_all_recv_output (e_st ep), st_output_len (e_st ep), c_out (e_conn ep), c_out_queue (e_conn ep),
     c_wrote_eof (e_conn ep), c_wrote_err (e_conn ep))"

lemma follows_conn:
  "sink.follows c T \<longleftrightarrow> queue_ok c \<and> (\<exists>r. T = outs c @ r) \<and> (\<not> closed c \<longrightarrow> outs c = T)"
  by (simp add: sink.follows_def)

lemma rcv_inv_cong: "rcv_part ep' = rcv_part ep \<Longrightarrow> rcv_inv ep' T = rcv_inv ep T"
  by (simp add: rcv_part_def rcv_inv_def follows_conn queue_ok_def outs_def closed_def)

lemma pkt_of_ids: "ids c' = ids c \<Longrightarrow> pkt_of cfg c' s = pkt_of cfg c s"
  by (simp add: ids_def pkt_of_def pkt_tcp_def)

lemma net_ok_cong: "c_net c' = c_net c \<Longrightarrow> ids c' = ids c \<Longrightarrow> net_ok cfg c' S fin = net_ok cfg c S fin"
  by (simp add: net_ok_def pkt_of_ids [of c' c])

lemma take_drop_append: "k + n \<le> length S \<Longrightarrow> take n (drop k (S @ b)) = take n (drop k S)"
  by simp

lemma carries_more:
  assumes "carries S False s" shows "carries (S @ b) fin s"
proof -
  have f: "sg_flags s \<noteq> TH_FIN" "sg_flags s = TH_ACK" "length (sg_data s) \<le> 1440"
      "sg_len s = htons (of_nat (48 + length (sg_data s)))"
    using assms by (auto simp: carries_def split: if_splits)
  show ?thesis
  proof (cases "sg_data s = []")
    case True with f show ?thesis by (simp add: carries_def)
  next
    case False
    with assms f obtain k where k: "k + length (sg_data s) \<le> length S" "sg_data s = take (length (sg_data s)) (drop k S)"
      "ntohl (sg_seqno s) = of_nat (k + 1)" unfolding carries_def by auto
    then have "k + length (sg_data s) \<le> length (S @ b)" "sg_data s = take (length (sg_data s)) (drop k (S @ b))"
      using take_drop_append [OF k(1)] by (simp, simp only:)
    then show ?thesis using f k(3) unfolding carries_def by auto
  qed
qed

lemma carries_fin: "carries S f s \<Longrightarrow> f \<longrightarrow> g \<Longrightarrow> carries S g s"
  by (auto simp: carries_def)

lemma carries_times: "carries S f (s\<lparr> sg_sendtime := a, sg_delivered := b, sg_delivered_time := c \<rparr>) = carries S f s"
  by (simp add: carries_def)

lemma seq_of: "unat (w :: u32) = n \<Longrightarrow> w = of_nat n"
  by (metis of_nat_unat ucast_id)

lemma carries_wire_ok: "carries S f s \<Longrightarrow> wire_ok s"
  by (auto simp: carries_def wire_ok_def split: if_splits)

lemma unat_len_seg: "carries S f s \<Longrightarrow> unat (ntohs (sg_len s)) = 48 + length (sg_data s)"
  unfolding carries_def by (simp only: htons_htons) (intro unat_u16, simp)

lemma len_of_seg: "length b \<le> 1440 \<Longrightarrow> sg_len g = htons (of_nat (48 + length b)) \<Longrightarrow> unat (ntohs (sg_len g)) = 48 + length b"
  by (simp only: htons_htons) (intro unat_u16, simp)

lemma snd_invI:
  assumes "unat (st_next_seqno (e_st ep)) = length S + 1" "input = S @ rest"
    "st_read_finish (e_st ep) \<noteq> 1 \<Longrightarrow> rest = in_bytes (c_in (e_conn ep))"
    "net_ok cfg (e_conn ep) S (st_read_finish (e_st ep) = 1)"
    "\<And>g. g \<in> set (st_segments (e_st ep)) \<Longrightarrow> carries S (st_read_finish (e_st ep) = 1) g"
  shows "snd_inv cfg input ep S"
  using assms unfolding snd_inv_def Let_def by blast

lemma snd_invE:
  assumes "snd_inv cfg input ep S"
  obtains rest where "unat (st_next_seqno (e_st ep)) = length S + 1" "input = S @ rest"
    "st_read_finish (e_st ep) \<noteq> 1 \<Longrightarrow> rest = in_bytes (c_in (e_conn ep))"
    "net_ok cfg (e_conn ep) S (st_read_finish (e_st ep) = 1)"
    "\<And>g. g \<in> set (st_segments (e_st ep)) \<Longrightarrow> carries S (st_read_finish (e_st ep) = 1) g"
  using assms unfolding snd_inv_def Let_def by blast

text \<open>What the sender's half depends on.\<close>

definition snd_part where
  "snd_part ep = (st_next_seqno (e_st ep), st_read_finish (e_st ep), st_segments (e_st ep),
     c_in (e_conn ep), c_net (e_conn ep), ids (e_conn ep))"

lemma snd_inv_cong: "snd_part ep' = snd_part ep \<Longrightarrow> snd_inv cfg input ep' S = snd_inv cfg input ep S"
  using net_ok_cong [of "e_conn ep'" "e_conn ep"] by (simp add: snd_part_def snd_inv_def Let_def)

section \<open>Lemmas: sending\<close>

lemma ep_send_conn:
  assumes "ep_send x ep g n = Inr ep'" "n = 48 + length (sg_data g)" "length (sg_data g) \<le> 1440"
    "\<forall>i. no_corrupt (x_env x i)"
  shows "\<exists>c'. ep' = ep\<lparr> e_conn := c', e_sends := Suc (e_sends ep) \<rparr> \<and> sends (x_cfg x) (e_conn ep) g c'"
proof -
  have "\<not> c_delete_me (e_conn ep)" using assms(1) by (cases "c_delete_me (e_conn ep)") (simp_all add: ep_send_def conn_send_def)
  then obtain r c' where "conn_send (x_cfg x) (x_env x (e_sends ep)) (e_conn ep) g n = Inr (r, c')"
    "sends (x_cfg x) (e_conn ep) g c'"
    using conn_send_sends [OF assms(2,3)] assms(4) by blast
  with assms(1) show ?thesis by (auto simp: ep_send_def)
qed

lemma sends_net:
  assumes "sends cfg c g c'"
  shows "set (c_net c') \<subseteq> insert (pkt_of cfg c' g) (set (c_net c)) \<and> ids c' = ids c \<and> c_in c' = c_in c
    \<and> c_out c' = c_out c \<and> c_out_queue c' = c_out_queue c \<and> c_wrote_eof c' = c_wrote_eof c \<and> c_wrote_err c' = c_wrote_err c"
  using assms by (auto simp: sends_def ids_def)

lemma net_ok_sends:
  assumes "net_ok cfg c S fin" "sends cfg c g c'" "carries S fin g"
  shows "net_ok cfg c' S fin"
  unfolding net_ok_def
proof
  fix p assume "p \<in> set (c_net c')"
  then have "p = pkt_of cfg c' g \<or> p \<in> set (c_net c)" using sends_net [OF assms(2)] by blast
  then show "\<exists>s. p = pkt_of cfg c' s \<and> carries S fin s"
    using assms sends_net [OF assms(2)] pkt_of_ids [of c' c] unfolding net_ok_def by auto
qed

definition same_part :: "endpoint \<Rightarrow> endpoint \<Rightarrow> bool" where
  "same_part ep ep' \<longleftrightarrow> rcv_part ep' = rcv_part ep \<and> ids (e_conn ep') = ids (e_conn ep)
     \<and> c_in (e_conn ep') = c_in (e_conn ep)"

lemma ep_send_inv:
  assumes "ep_send x ep g (48 + length (sg_data g)) = Inr ep'" "\<forall>i. no_corrupt (x_env x i)"
    and "snd_inv (x_cfg x) input ep S" "carries S (st_read_finish (e_st ep) = 1) g"
  shows "snd_inv (x_cfg x) input ep' S \<and> same_part ep ep' \<and> e_st ep' = e_st ep"
proof -
  have "length (sg_data g) \<le> 1440" using assms(4) by (simp add: carries_def)
  from ep_send_conn [OF assms(1) refl this assms(2)] obtain c'
    where c': "ep' = ep\<lparr> e_conn := c', e_sends := Suc (e_sends ep) \<rparr>" "sends (x_cfg x) (e_conn ep) g c'" by blast
  then have e: "e_st ep' = e_st ep" "e_conn ep' = c'" by simp_all
  from assms(3) obtain rest where r: "unat (st_next_seqno (e_st ep)) = length S + 1" "input = S @ rest"
    "st_read_finish (e_st ep) \<noteq> 1 \<Longrightarrow> rest = in_bytes (c_in (e_conn ep))"
    "net_ok (x_cfg x) (e_conn ep) S (st_read_finish (e_st ep) = 1)"
    "\<And>g. g \<in> set (st_segments (e_st ep)) \<Longrightarrow> carries S (st_read_finish (e_st ep) = 1) g"
    by (rule snd_invE) blast
  note n = sends_net [OF c'(2)]
  have "snd_inv (x_cfg x) input ep' S"
  proof (rule snd_invI, unfold e)
    show "net_ok (x_cfg x) c' S (st_read_finish (e_st ep) = 1)" by (rule net_ok_sends [OF r(4) c'(2) assms(4)])
    show "input = S @ rest" by (rule r(2))
  qed (use r n in simp_all)
  moreover have "same_part ep ep'" using n by (simp add: same_part_def rcv_part_def e)
  ultimately show ?thesis using e by simp
qed

lemma make_seg_eq:
  assumes "length b \<le> 1440"
  shows "\<exists>g. make_seg a q f w b = Inr g \<and> sg_data g = b \<and> sg_len g = htons (of_nat (48 + length b))
    \<and> sg_flags g = htonl f \<and> ntohl (sg_seqno g) = q \<and> ntohl (sg_ackno g) = a \<and> sg_delivered g = 0
    \<and> sg_window g = htons w"
proof -
  have u: "unat (of_nat (48 + length b) :: u16) = 48 + length b" using assms by (intro unat_u16) simp
  show ?thesis
    by (simp add: make_seg_def Let_def seg_cksum_eq u seg_calloc_def del: of_nat_add)
qed

lemma ACK_FIN [simp]: "htonl ACK = TH_ACK" "htonl FIN = TH_FIN" "htonl TH_ACK = ACK" "htonl TH_FIN = FIN"
  by (simp_all add: ACK_def FIN_def del: TH_ACK_def TH_FIN_def)

lemma ctcp_send_ack_inv:
  assumes "ctcp_send_ack x ep = Inr ep'" "\<forall>i. no_corrupt (x_env x i)" "snd_inv (x_cfg x) input ep S"
  shows "snd_inv (x_cfg x) input ep' S \<and> same_part ep ep' \<and> e_st ep' = e_st ep"
proof -
  obtain g where g: "make_seg (st_ackno (e_st ep)) (st_next_seqno (e_st ep)) ACK (st_recv_window (e_st ep)) [] = Inr g"
    "sg_data g = []" "sg_len g = htons (of_nat (48 + length []))" "sg_flags g = TH_ACK"
    using make_seg_eq [of "[]"] by fastforce
  then have c: "carries S (st_read_finish (e_st ep) = 1) g" by (simp add: carries_def)
  have "ep_send x ep g (48 + length (sg_data g)) = Inr ep'"
    using assms(1) g(1) unat_len_seg [OF c] by (simp add: ctcp_send_ack_def Let_def)
  from ep_send_inv [OF this assms(2,3) c] show ?thesis .
qed

section \<open>Lemmas: reading\<close>

lemma read_case: "(case r of None \<Rightarrow> Inr e | Some [] \<Rightarrow> Inr f | Some (b # bs) \<Rightarrow> g b bs) = Inr ep' \<Longrightarrow>
    e = ep' \<or> f = ep' \<or> (\<exists>b bs. g b bs = Inr ep')"
  by (auto split: option.splits list.splits)

lemma conn_input_frame:
  assumes "conn_input all ec c n = Inr (r, c')"
  shows "c_out c' = c_out c \<and> c_out_queue c' = c_out_queue c \<and> c_wrote_eof c' = c_wrote_eof c
    \<and> c_wrote_err c' = c_wrote_err c \<and> c_net c' = c_net c \<and> ids c' = ids c
    \<and> (\<forall>b. r = Some b \<longrightarrow> in_bytes (c_in c) = b @ in_bytes (c_in c') \<and> length b \<le> n)"
proof -
  have rd: "\<exists>i. snd (c_read c m) = c\<lparr> c_in := i \<rparr>" for m
    by (rule exI [of _ "c_in (snd (c_read c m))"]) (simp add: c_read_def Let_def split: list.split read_result.split)
  have rb: "c_read c m = (RData b, d) \<Longrightarrow> in_bytes (c_in c) = b @ in_bytes (c_in d) \<and> length b \<le> m" for m b d
    by (auto simp: c_read_def Let_def split: list.splits read_result.splits)
  have ra: "c_read c m = (RAgain, d) \<Longrightarrow> in_bytes (c_in c) = in_bytes (c_in d)" for m d
    by (auto simp: c_read_def Let_def split: list.splits read_result.splits)
  let ?m = "if all then n else n - 1"
  obtain x d where x: "c_read c ?m = (x, d)" by fastforce
  with rd [of ?m] obtain i where d: "d = c\<lparr> c_in := i \<rparr>" by auto
  have del: "\<not> c_delete_me c" using assms by (cases "c_delete_me c") (simp_all add: conn_input_def)
  show ?thesis
  proof (cases "c_read_eof c")
    case True
    with assms del show ?thesis by (auto simp: conn_input_def)
  next
    case False
    have *: "conn_input all ec c n = (let eof = Inr (None, d\<lparr> c_read_eof := True \<rparr>) in case x of
        RData [] \<Rightarrow> eof | REof \<Rightarrow> eof | RErr \<Rightarrow> eof | RAgain \<Rightarrow> Inr (Some [], d)
      | RData (y # b) \<Rightarrow> if ec \<and> y = 0x1a then eof else Inr (Some (y # b), d))"
      using False del x by (simp add: conn_input_def Let_def)
    show ?thesis
    proof (cases x)
      case (RData b)
      with rb [of ?m b d] x have "in_bytes (c_in c) = b @ in_bytes (c_in d) \<and> length b \<le> ?m" by simp
      moreover have "?m \<le> n" by simp
      ultimately show ?thesis using assms * RData d by (cases b) (auto simp: Let_def ids_def split: if_splits)
    next
      case RAgain
      with ra [of ?m d] x have "in_bytes (c_in c) = in_bytes (c_in d)" by simp
      then show ?thesis using assms * RAgain d by (auto simp: ids_def)
    qed (use assms * d in \<open>auto simp: ids_def\<close>)
  qed
qed

text \<open>Bytes that have been read and are not yet in a segment.\<close>

definition snd_mid :: "sys_config \<Rightarrow> bytes \<Rightarrow> endpoint \<Rightarrow> bytes \<Rightarrow> bytes \<Rightarrow> bool" where
  "snd_mid cfg input ep S b \<longleftrightarrow> unat (st_next_seqno (e_st ep)) = length S + 1
     \<and> input = S @ b @ in_bytes (c_in (e_conn ep)) \<and> st_read_finish (e_st ep) \<noteq> 1
     \<and> net_ok cfg (e_conn ep) S False \<and> (\<forall>g\<in>set (st_segments (e_st ep)). carries S False g)
     \<and> b \<noteq> [] \<and> length b \<le> 1440"

lemma snd_mid_cong: "snd_part ep' = snd_part ep \<Longrightarrow> snd_mid cfg input ep' S b = snd_mid cfg input ep S b"
  using net_ok_cong [of "e_conn ep'" "e_conn ep"] by (simp add: snd_part_def snd_mid_def)

lemma net_ok_more: "net_ok cfg c S False \<Longrightarrow> net_ok cfg c (S @ b) fin"
  unfolding net_ok_def using carries_more by blast

lemma make_data_seg_eq:
  assumes "length b \<le> 1440"
  shows "\<exists>g. make_data_seg s b = Inr g \<and> sg_data g = b \<and> sg_len g = htons (of_nat (48 + length b))
    \<and> sg_flags g = TH_ACK \<and> ntohl (sg_seqno g) = st_next_seqno s \<and> ntohl (sg_ackno g) = st_ackno s \<and> sg_delivered g = 0"
  using make_seg_eq [OF assms, of "st_ackno s" "st_next_seqno s" ACK "st_send_window s"] assms
  by (auto simp: make_data_seg_def)

lemma enqueue_inv:
  assumes "snd_mid cfg input ep S b" "length input + 2 < 2 ^ 32"
    and g: "sg_data g = b" "sg_len g = htons (of_nat (48 + length b))" "sg_flags g = TH_ACK"
      "ntohl (sg_seqno g) = st_next_seqno (e_st ep)"
  shows "snd_inv cfg input (st_upd (enqueue_data g (length b)) ep) (S @ b) \<and> carries (S @ b) False g"
proof -
  note m = assms(1) [unfolded snd_mid_def]
  have seq: "st_next_seqno (e_st ep) = of_nat (length S + 1)"
    by (rule seq_of) (use m in simp)
  have c: "carries (S @ b) False g"
    unfolding carries_def using g m by (auto simp: seq intro!: exI [of _ "length S"])
  have len: "length S + 1 + length b < 2 ^ 32" using m assms(2) by simp
  have "unat (st_next_seqno (e_st ep) + of_nat (length b)) = length (S @ b) + 1"
  proof -
    have "(st_next_seqno (e_st ep) + of_nat (length b)) = of_nat (length S + 1 + length b)" using seq by simp
    moreover have "unat (of_nat (length S + 1 + length b) :: u32) = length S + 1 + length b"
      using len by (simp add: unsigned_of_nat take_bit_nat_eq_self del: of_nat_add of_nat_Suc)
    ultimately show ?thesis by (simp add: add.assoc)
  qed
  moreover have "\<not> st_read_finish (e_st ep) = 1" using m by blast
  ultimately have "snd_inv cfg input (st_upd (enqueue_data g (length b)) ep) (S @ b)"
    using m c by (intro snd_invI [where rest = "in_bytes (c_in (e_conn ep))"])
      (auto simp: enqueue_data_def intro: carries_more net_ok_more)
  with c show ?thesis by blast
qed

lemma same_part_trans: "same_part a b \<Longrightarrow> same_part b c \<Longrightarrow> same_part a c"
  by (simp add: same_part_def)

lemma enqueue_same_part: "same_part ep (st_upd (enqueue_data g n) ep)"
  by (simp add: same_part_def rcv_part_def enqueue_data_def)

lemma log_bdp_eq: "log_bdp x ep = Inr ep' \<Longrightarrow> \<exists>l. ep' = ep\<lparr> e_fp := l \<rparr>"
  by (auto simp: log_bdp_def bnd_eq_Inr split: option.splits)

lemma ctcp_send_data_inv:
  assumes "ctcp_send_data x ep b t1 t2 t3 = Inr ep'" "\<forall>i. no_corrupt (x_env x i)"
    and "snd_mid (x_cfg x) input ep S b" "length input + 2 < 2 ^ 32"
  shows "snd_inv (x_cfg x) input ep' (S @ b) \<and> same_part ep ep' \<and> st_read_finish (e_st ep') = st_read_finish (e_st ep)"
proof -
  let ?a = "st_upd (\<lambda>s. s\<lparr> st_bbr := (st_bbr s)\<lparr> inflight := inflight (st_bbr s) + int (length b) \<rparr> \<rparr>) ep"
  obtain e1 where e1: "log_bdp x ?a = Inr e1"
    using assms(1) by (auto simp: ctcp_send_data_def Let_def bnd_eq_Inr)
  then obtain l where l: "e1 = ?a\<lparr> e_fp := l \<rparr>" using log_bdp_eq by blast
  have mid: "snd_mid (x_cfg x) input e1 S b"
    using assms(3) snd_mid_cong [of e1 ep] by (simp add: l snd_part_def)
  then obtain g0 where g0: "make_data_seg (e_st e1) b = Inr g0" "sg_data g0 = b"
      "sg_len g0 = htons (of_nat (48 + length b))" "sg_flags g0 = TH_ACK" "ntohl (sg_seqno g0) = st_next_seqno (e_st e1)"
    using make_data_seg_eq [of b "e_st e1"] by (auto simp: snd_mid_def)
  let ?g = "g0\<lparr> sg_sendtime := t1, sg_delivered := t2, sg_delivered_time := t3 \<rparr>"
  let ?e = "st_upd (enqueue_data ?g (length b)) e1"
  have q: "snd_inv (x_cfg x) input ?e (S @ b)" "carries (S @ b) False ?g"
    using enqueue_inv [OF mid assms(4), of ?g] g0 by simp_all
  have "ep_send x ?e ?g (unat (ntohs (sg_len ?g))) = Inr ep'"
    using assms(1) e1 g0(1) by (simp add: ctcp_send_data_def Let_def)
  then have s: "ep_send x ?e ?g (48 + length (sg_data ?g)) = Inr ep'"
    using unat_len_seg [OF q(2)] by simp
  from ep_send_inv [OF s assms(2) q(1) carries_fin [OF q(2)]]
  have r: "snd_inv (x_cfg x) input ep' (S @ b)" "same_part ?e ep'" "e_st ep' = e_st ?e" by simp_all
  have "same_part ep e1" by (simp add: l same_part_def rcv_part_def)
  then have "same_part ep ep'" using r(2) enqueue_same_part same_part_trans by blast
  then show ?thesis using r by (simp add: l enqueue_data_def)
qed

lemma bbr_send_inv:
  assumes "bbr_send x ep b = Inr ep'" "\<forall>i. no_corrupt (x_env x i)" "x_now x > nextSendTime (st_bbr (e_st ep))"
    and "snd_mid (x_cfg x) input ep S b" "length input + 2 < 2 ^ 32"
  shows "snd_inv (x_cfg x) input ep' (S @ b) \<and> same_part ep ep' \<and> st_read_finish (e_st ep') = st_read_finish (e_st ep)"
proof -
  let ?bbr = "st_bbr (e_st ep)"
  obtain bdp where bdp: "bbr_bdp ?bbr = Inr bdp"
    using assms(1) by (auto simp: bbr_send_def Let_def bnd_eq_Inr)
  show ?thesis
  proof (cases "bbr_window_full ?bbr bdp")
    case True
    obtain g0 where g0: "make_data_seg (e_st ep) b = Inr g0" "sg_data g0 = b"
      "sg_len g0 = htons (of_nat (48 + length b))" "sg_flags g0 = TH_ACK" "ntohl (sg_seqno g0) = st_next_seqno (e_st ep)"
      using make_data_seg_eq [of b "e_st ep"] assms(4) by (auto simp: snd_mid_def)
    let ?g = "g0\<lparr> sg_delivered_time := b_delivered_time ?bbr \<rparr>"
    have "ep' = st_upd (enqueue_data ?g (length b)) ep"
      using assms(1) bdp True g0(1) by (simp add: bbr_send_def Let_def)
    then show ?thesis using enqueue_inv [OF assms(4,5), of ?g] g0 enqueue_same_part [of ep ?g "length b"]
      by (simp add: enqueue_data_def [of _ _ "e_st ep"])
  next
    case False
    obtain e1 t where e: "ctcp_send_data x ep b (x_now x) (b_delivered ?bbr) (b_delivered_time ?bbr) = Inr e1"
      "ep' = st_upd (\<lambda>s. s\<lparr> st_bbr := (st_bbr s)\<lparr> nextSendTime := t \<rparr> \<rparr>) e1"
      using assms(1,3) bdp False by (auto simp: bbr_send_def Let_def bnd_eq_Inr)
    have "snd_part ep' = snd_part e1" "same_part e1 ep'" "st_read_finish (e_st ep') = st_read_finish (e_st e1)"
      by (simp_all add: e(2) snd_part_def same_part_def rcv_part_def)
    then show ?thesis
      using ctcp_send_data_inv [OF e(1) assms(2,4,5)] snd_inv_cong [of ep' e1] same_part_trans by metis
  qed
qed

text \<open>Reading extends the stream, or ends it.\<close>

lemma ctcp_read_inv:
  assumes "ctcp_read x ep = Inr ep'" "\<forall>i. no_corrupt (x_env x i)"
    and "snd_inv (x_cfg x) input ep S" "length input + 2 < 2 ^ 32"
  shows "(\<exists>b. snd_inv (x_cfg x) input ep' (S @ b) \<and> (st_read_finish (e_st ep) = 1 \<longrightarrow> b = []))
    \<and> rcv_part ep' = rcv_part ep \<and> ids (e_conn ep') = ids (e_conn ep)
    \<and> (st_read_finish (e_st ep) = 1 \<longrightarrow> st_read_finish (e_st ep') = 1)"
proof (cases "st_read_finish (e_st ep) = 1 \<or> x_now x \<le> nextSendTime (st_bbr (e_st ep))
    \<or> st_next_seqno (e_st ep) \<ge> st_seqno (e_st ep) + ucast (st_send_window (e_st ep))")
  case True
  then have "ctcp_read x ep = Inr ep" by (elim disjE) (simp_all add: ctcp_read_def Let_def)
  then have "ep' = ep" using assms(1) by simp
  moreover have "snd_inv (x_cfg x) input ep (S @ [])" using assms(3) by simp
  ultimately show ?thesis by blast
next
  case False
  then have nf: "st_read_finish (e_st ep) \<noteq> 1" and t: "x_now x > nextSendTime (st_bbr (e_st ep))" by auto
  let ?all = "run_program (x_cfg x) \<or> unix_socket (x_cfg x)"
  obtain r c where rc: "conn_input ?all (eof_char_mode (x_cfg x)) (e_conn ep) MAX_SEG_DATA_SIZE = Inr (r, c)"
    using assms(1) False by (auto simp: ctcp_read_def Let_def bnd_eq_Inr)
  note f = conn_input_frame [OF rc]
  let ?e = "ep\<lparr> e_conn := c \<rparr>"
  have ep': "(case r of None \<Rightarrow> Inr (st_upd (\<lambda>s. s\<lparr> st_read_finish := 1 \<rparr>) ?e)
      | Some [] \<Rightarrow> Inr ?e | Some (b # bs) \<Rightarrow> bbr_send x ?e (b # bs)) = Inr ep'"
    using assms(1) False rc by (simp add: ctcp_read_def Let_def)
  have rp: "rcv_part ?e = rcv_part ep" "ids c = ids (e_conn ep)" using f by (simp_all add: rcv_part_def)
  have n: "net_ok (x_cfg x) c S' fin = net_ok (x_cfg x) (e_conn ep) S' fin" for S' fin
    using f by (intro net_ok_cong) simp_all
  from assms(3) nf have i: "unat (st_next_seqno (e_st ep)) = length S + 1"
    "input = S @ in_bytes (c_in (e_conn ep))" "net_ok (x_cfg x) (e_conn ep) S False"
    "\<And>g. g \<in> set (st_segments (e_st ep)) \<Longrightarrow> carries S False g"
    by (auto elim!: snd_invE)
  show ?thesis
  proof (cases r)
    case None
    let ?f = "st_upd (\<lambda>s. s\<lparr> st_read_finish := 1 \<rparr>) ?e"
    have "ep' = ?f" using ep' None by simp
    moreover have "snd_inv (x_cfg x) input ?f S"
    proof (rule snd_invI)
      show "input = S @ in_bytes (c_in (e_conn ep))" by (rule i(2))
      show "net_ok (x_cfg x) (e_conn ?f) S (st_read_finish (e_st ?f) = 1)"
        using i(3) n [of S] net_ok_more [of "x_cfg x" "e_conn ep" S "[]" True] by simp
    qed (use i(1,4) carries_more [of S _ "[]" True] in simp_all)
    moreover have "rcv_part ?f = rcv_part ep" using rp by (simp add: rcv_part_def)
    ultimately show ?thesis using rp(2) by (intro conjI exI [of _ "[]"]) simp_all
  next
    case (Some b)
    then have ib: "in_bytes (c_in (e_conn ep)) = b @ in_bytes (c_in c)" "length b \<le> MAX_SEG_DATA_SIZE" using f by auto
    show ?thesis
    proof (cases b)
      case Nil
      have "ep' = ?e" using ep' Some Nil by simp
      moreover have "snd_inv (x_cfg x) input ?e S"
        by (rule snd_invI [where rest = "in_bytes (c_in c)"]) (use i ib nf n [of S False] Nil in simp_all)
      ultimately show ?thesis using rp nf by (intro conjI exI [of _ "[]"]) simp_all
    next
      case (Cons y ys)
      have "bbr_send x ?e b = Inr ep'" using ep' Some Cons by simp
      moreover have "snd_mid (x_cfg x) input ?e S b"
        using i ib nf n [of S False] Cons by (simp add: snd_mid_def)
      ultimately have "snd_inv (x_cfg x) input ep' (S @ b) \<and> same_part ?e ep'"
        using bbr_send_inv [of x ?e b ep' input S] assms(2,4) t by simp
      then show ?thesis using rp nf unfolding same_part_def by auto
    qed
  qed
qed

section \<open>Lemmas: receiving\<close>

text \<open>What no handler but \<^verbatim>\<open>ctcp_read\<close> changes.\<close>

definition keeps :: "endpoint \<Rightarrow> endpoint \<Rightarrow> bool" where
  "keeps ep ep' \<longleftrightarrow> ids (e_conn ep') = ids (e_conn ep) \<and> st_read_finish (e_st ep') = st_read_finish (e_st ep)"

lemma keeps_refl [simp]: "keeps ep ep" by (simp add: keeps_def)

lemma keeps_trans: "keeps a b \<Longrightarrow> keeps b c \<Longrightarrow> keeps a c" by (simp add: keeps_def)

lemma rcv_invE:
  assumes "rcv_inv ep T"
  obtains d where "d \<le> length T" "sink.follows (e_conn ep) (take d T)"
    "st_all_recv_output (e_st ep) = 1 \<longrightarrow> d = length T \<and> unat (st_ackno (e_st ep)) = length T + 2"
    "st_all_recv_output (e_st ep) \<noteq> 1 \<longrightarrow> unat (st_ackno (e_st ep)) = d + 1"
proof -
  from assms obtain d where "d \<le> length T" "sink.follows (e_conn ep) (take d T)"
     "if st_all_recv_output (e_st ep) = 1 then d = length T \<and> unat (st_ackno (e_st ep)) = length T + 2
      else unat (st_ackno (e_st ep)) = d + 1" unfolding rcv_inv_def by blast
  with that show thesis by presburger
qed

lemma rcv_inv_same: "same_part ep ep' \<Longrightarrow> rcv_inv ep' T = rcv_inv ep T"
  by (rule rcv_inv_cong) (simp add: same_part_def)

lemma same_io_ids: "same_io c c' \<Longrightarrow> ids c' = ids c \<and> c_net c' = c_net c \<and> c_in c' = c_in c"
  by (simp add: same_io_def ids_def)

lemma follows_queue: "sink.follows c T \<Longrightarrow> queue_ok c"
  by (simp add: follows_conn)

lemma ctcp_output_put:
  assumes "ctcp_output ep = Inr ep'" "st_output_len (e_st ep) = int (length b)" "length b \<le> conn_bufspace (e_conn ep)"
    and "b \<noteq> [] \<Longrightarrow> st_output (e_st ep) = Some b"
  shows "\<exists>c'. ep' = ep\<lparr> e_st := (e_st ep)\<lparr> st_output := None, st_output_len := 0 \<rparr>, e_conn := c' \<rparr>
    \<and> conn_put (e_conn ep) b c'"
proof -
  have "(if st_output_len (e_st ep) = 0 then Inr []
      else bnd (deref (st_output (e_st ep))) (\<lambda>b. read_bytes b 0 (nat (st_output_len (e_st ep))))) = Inr b"
    using assms(2,4) by (cases "b = []") simp_all
  then obtain r c' where "conn_output (e_conn ep) b = Inr (r, c')"
      "ep' = ep\<lparr> e_st := (e_st ep)\<lparr> st_output := None, st_output_len := 0 \<rparr>, e_conn := c' \<rparr>"
    using assms(1-3) by (auto simp: ctcp_output_def Let_def bnd_eq_Inr)
  then show ?thesis unfolding conn_put_def by blast
qed

lemma conn_put_same: "queue_ok c \<Longrightarrow> conn_put c b c' \<Longrightarrow> same_io c c'"
  unfolding conn_put_def using conn_output_outs by blast

text \<open>
  What a received segment may hold: \<open>n\<close> bytes of the stream at the place its sequence number names, and
  a FIN only behind all of a complete stream.
\<close>

definition arrives :: "bytes \<Rightarrow> bool \<Rightarrow> ctcp_segment \<Rightarrow> bool" where
  "arrives T fin sg \<longleftrightarrow>
     (sg_data sg \<noteq> [] \<longrightarrow> (\<exists>k. k + length (sg_data sg) \<le> length T
        \<and> sg_data sg = take (length (sg_data sg)) (drop k T) \<and> ntohl (sg_seqno sg) = of_nat (k + 1)))
     \<and> (ntohl (sg_flags sg) AND FIN \<noteq> 0 \<longrightarrow> fin \<and> ntohl (sg_seqno sg) = of_nat (length T + 1))"

lemma carries_arrives: "carries T fin s \<Longrightarrow> arrives T fin (wire_seg cfg s)"
proof -
  assume c: "carries T fin s"
  have w: "sg_data (wire_seg cfg s) = sg_data s" "sg_seqno (wire_seg cfg s) = sg_seqno s"
    "sg_flags (wire_seg cfg s) = wire_flags cfg (sg_flags s)" by (simp_all add: wire_seg_def no_times_def Let_def)
  have "wire_flags cfg TH_ACK = TH_ACK" by (simp add: wire_flags_def)
  moreover have "ntohl TH_ACK AND FIN = 0" by (simp add: FIN_def) code_simp
  ultimately show ?thesis using c unfolding arrives_def w carries_def by (auto split: if_splits)
qed

lemma unat_of_small: "n < 2 ^ 32 \<Longrightarrow> unat (of_nat n :: u32) = n"
  by (simp add: unsigned_of_nat take_bit_nat_eq_self)

lemma receive_data_inv:
  assumes "receive_data x ep sg (int (length (sg_data sg))) = Inr (ep', go)" "\<forall>i. no_corrupt (x_env x i)"
    and "snd_inv (x_cfg x) input ep S" "rcv_inv ep T" "arrives T fin sg" "length T + 2 < 2 ^ 32"
  shows "snd_inv (x_cfg x) input ep' S \<and> rcv_inv ep' T \<and> keeps ep ep'
    \<and> st_all_recv_output (e_st ep') = st_all_recv_output (e_st ep)"
proof -
  let ?n = "length (sg_data sg)" and ?s = "e_st ep" and ?c = "e_conn ep"
  let ?seq = "ntohl (sg_seqno sg)"
  have ack: "snd_inv (x_cfg x) input e' S \<and> rcv_inv e' T \<and> keeps e e'
      \<and> st_all_recv_output (e_st e') = st_all_recv_output (e_st e)"
    if "ctcp_send_ack x e = Inr e'" "snd_inv (x_cfg x) input e S" "rcv_inv e T" for e e'
    using ctcp_send_ack_inv [OF that(1) assms(2) that(2)] rcv_inv_same [of e e'] that(3)
    by (simp add: keeps_def same_part_def)
  consider (none) "sg_data sg = [] \<or> ?seq < st_ackno ?s \<or> ?seq > st_ackno ?s + ucast (st_recv_window ?s)"
    | (take) "sg_data sg \<noteq> []" "?seq = st_ackno ?s" "conn_bufspace ?c \<ge> ?n" "\<not> ?seq < st_ackno ?s"
      "\<not> ?seq > st_ackno ?s + ucast (st_recv_window ?s)"
    | (ask) "sg_data sg \<noteq> []" "\<not> ?seq < st_ackno ?s" "\<not> ?seq > st_ackno ?s + ucast (st_recv_window ?s)"
      "\<not> (?seq = st_ackno ?s \<and> int (conn_bufspace ?c) \<ge> int ?n)" by fastforce
  then show ?thesis
  proof cases
    case none
    then have "ep' = ep" using assms(1) by (auto simp: receive_data_def Let_def split: if_splits)
    then show ?thesis using assms by simp
  next
    case ask
    then have "ctcp_send_ack x ep = Inr ep'" using assms(1) by (auto simp: receive_data_def Let_def bnd_eq_Inr)
    then show ?thesis using ack assms(3,4) by blast
  next
    case take
    let ?e = "st_upd (\<lambda>s. s\<lparr> st_output := Some (sg_data sg), st_output_len := int ?n, st_ackno := st_ackno s + of_int (int ?n) \<rparr>) ep"
    obtain e1 where e1: "ctcp_output ?e = Inr e1" "ctcp_send_ack x e1 = Inr ep'"
      using assms(1) take by (auto simp: receive_data_def Let_def bnd_eq_Inr)
    obtain c' where c': "e1 = ?e\<lparr> e_st := (e_st ?e)\<lparr> st_output := None, st_output_len := 0 \<rparr>, e_conn := c' \<rparr>"
        "conn_put ?c (sg_data sg) c'"
      using ctcp_output_put [OF e1(1), of "sg_data sg"] take by auto
    obtain d where d: "d \<le> length T" "sink.follows ?c (take d T)"
        "st_all_recv_output ?s = 1 \<longrightarrow> d = length T \<and> unat (st_ackno ?s) = length T + 2"
        "st_all_recv_output ?s \<noteq> 1 \<longrightarrow> unat (st_ackno ?s) = d + 1"
      by (rule rcv_invE [OF assms(4)])
    obtain k where k: "k + ?n \<le> length T" "sg_data sg = take ?n (drop k T)" "?seq = of_nat (k + 1)"
      using assms(5) take(1) unfolding arrives_def by blast
    have u: "unat (st_ackno ?s) = k + 1"
      using k(1,3) assms(6) take(2) unat_of_small [of "k + 1"] by simp
    have na: "st_all_recv_output ?s \<noteq> 1" using d(3) u k(1) by auto
    have kd: "k = d" using u d(4) na by simp
    have st: "take d T @ sg_data sg = take (d + ?n) T" using k(2) kd by (metis take_add)
    have "sink.follows c' (take (d + ?n) T)"
      using sink.follows_put [OF d(2) c'(2)] take(3) st by simp
    moreover have "unat (st_ackno ?s + of_int (int ?n)) = d + ?n + 1"
    proof -
      have "st_ackno ?s + of_int (int ?n) = of_nat (d + ?n + 1)" using take(2) k(3) kd by simp
      then show ?thesis using k(1) kd assms(6) unat_of_small [of "d + ?n + 1"] by (simp only:)
    qed
    ultimately have r: "rcv_inv e1 T"
      using k(1) kd na unfolding rcv_inv_def c'(1) by (auto intro!: exI [of _ "d + ?n"])
    note io = same_io_ids [OF conn_put_same [OF follows_queue [OF d(2)] c'(2)]]
    have "snd_part e1 = snd_part ep" using io by (simp add: snd_part_def c'(1))
    then have "snd_inv (x_cfg x) input e1 S" using snd_inv_cong assms(3) by blast
    moreover have "keeps ep e1" "st_all_recv_output (e_st e1) = st_all_recv_output ?s" using io by (simp_all add: keeps_def c'(1))
    ultimately show ?thesis using ack [OF e1(2) _ r] keeps_trans by metis
  qed
qed

text \<open>A step that leaves the stream that is sent and the receiver alone.\<close>

definition calm :: "sys_config \<Rightarrow> bytes \<Rightarrow> bytes \<Rightarrow> endpoint \<Rightarrow> endpoint \<Rightarrow> bool" where
  "calm cfg input S ep ep' \<longleftrightarrow> (snd_inv cfg input ep S \<longrightarrow>
     snd_inv cfg input ep' S \<and> same_part ep ep' \<and> st_read_finish (e_st ep') = st_read_finish (e_st ep))"

lemma calm_refl [simp]: "calm cfg input S ep ep"
  by (simp add: calm_def same_part_def)

lemma calm_trans: "calm cfg input S a b \<Longrightarrow> calm cfg input S b c \<Longrightarrow> calm cfg input S a c"
  unfolding calm_def using same_part_trans by metis

lemma calm_parts: "snd_part ep' = snd_part ep \<Longrightarrow> rcv_part ep' = rcv_part ep \<Longrightarrow> calm cfg input S ep ep'"
  using snd_inv_cong [of ep' ep] by (simp add: calm_def same_part_def snd_part_def)

lemma calm_upd [intro]:
  assumes "snd_part (st_upd f ep) = snd_part ep" "rcv_part (st_upd f ep) = rcv_part ep"
  shows "calm cfg input S ep (st_upd f ep)"
  by (rule calm_parts [OF assms])

lemma calm_send:
  assumes "ep_send x ep g (unat (ntohs (sg_len g))) = Inr ep'" "\<forall>i. no_corrupt (x_env x i)"
    "g \<in> set (st_segments (e_st ep))"
  shows "calm (x_cfg x) input S ep ep'"
  unfolding calm_def
proof
  assume i: "snd_inv (x_cfg x) input ep S"
  then have c: "carries S (st_read_finish (e_st ep) = 1) g" using assms(3) by (auto elim: snd_invE)
  then have "ep_send x ep g (48 + length (sg_data g)) = Inr ep'" using assms(1) unat_len_seg by simp
  from ep_send_inv [OF this assms(2) i c]
  show "snd_inv (x_cfg x) input ep' S \<and> same_part ep ep' \<and> st_read_finish (e_st ep') = st_read_finish (e_st ep)" by simp
qed

lemma snd_inv_segments:
  assumes "snd_inv cfg input ep S" "\<And>g. g \<in> set gs \<Longrightarrow> carries S (st_read_finish (e_st ep) = 1) g"
    and "e_conn ep' = e_conn ep" "st_next_seqno (e_st ep') = st_next_seqno (e_st ep)"
    "st_read_finish (e_st ep') = st_read_finish (e_st ep)" "st_segments (e_st ep') = gs"
  shows "snd_inv cfg input ep' S"
  using assms unfolding snd_inv_def Let_def by simp

lemma calm_remove:
  assumes "remove_front ep = Inr ep'" shows "calm cfg input S ep ep'"
  unfolding calm_def
proof
  assume i: "snd_inv cfg input ep S"
  have ep': "ep' = st_upd (\<lambda>s. s\<lparr> st_segments := tl (st_segments s), st_retrans_count := 0 \<rparr>) ep"
    using assms by (auto simp: remove_front_def bnd_eq_Inr)
  have "snd_inv cfg input ep' S"
  proof (rule snd_inv_segments [OF i])
    show "carries S (st_read_finish (e_st ep) = 1) g" if "g \<in> set (tl (st_segments (e_st ep)))" for g
      using i that list.set_sel(2) [of "st_segments (e_st ep)" g] by (cases "st_segments (e_st ep)") (auto elim: snd_invE)
  qed (simp_all add: ep')
  then show "snd_inv cfg input ep' S \<and> same_part ep ep' \<and> st_read_finish (e_st ep') = st_read_finish (e_st ep)"
    by (simp add: ep' same_part_def rcv_part_def)
qed

lemma receive_ack_calm:
  assumes "receive_ack x ep sg = Inr (ep', go)" "\<forall>i. no_corrupt (x_env x i)"
  shows "calm (x_cfg x) input S ep ep'"
proof -
  have upd: "calm (x_cfg x) input S e e'"
    if "e_conn e' = e_conn e" "st_next_seqno (e_st e') = st_next_seqno (e_st e)" "st_read_finish (e_st e') = st_read_finish (e_st e)"
      "st_segments (e_st e') = st_segments (e_st e)" "st_ackno (e_st e') = st_ackno (e_st e)"
      "st_all_recv_output (e_st e') = st_all_recv_output (e_st e)" "st_output_len (e_st e') = st_output_len (e_st e)" for e e'
    using that by (intro calm_parts) (simp_all add: snd_part_def rcv_part_def)
  let ?ackno = "ntohl (sg_ackno sg)"
  consider (no) "ntohl (sg_flags sg) AND ACK = 0"
    | (fin) "ntohl (sg_flags sg) AND ACK \<noteq> 0" "st_FIN_sent (e_st ep) = 1 \<and> ?ackno = st_seqno (e_st ep) + 1"
    | (empty) "ntohl (sg_flags sg) AND ACK \<noteq> 0" "\<not> (st_FIN_sent (e_st ep) = 1 \<and> ?ackno = st_seqno (e_st ep) + 1)"
        "st_segments (e_st ep) = []"
    | (seg) sgm q where "ntohl (sg_flags sg) AND ACK \<noteq> 0" "\<not> (st_FIN_sent (e_st ep) = 1 \<and> ?ackno = st_seqno (e_st ep) + 1)"
        "st_segments (e_st ep) = sgm # q" by (cases "st_segments (e_st ep)") blast+
  then show ?thesis
  proof cases
    case no
    then have "ep' = ep" using assms(1) by (simp add: receive_ack_def Let_def)
    then show ?thesis by simp
  next
    case fin
    then have "remove_front (st_upd (\<lambda>s. s\<lparr> st_FIN_received := 1 \<rparr>) ep) = Inr ep'"
      using assms(1) by (auto simp: receive_ack_def Let_def bnd_eq_Inr)
    then show ?thesis by (intro calm_trans [OF upd calm_remove]) simp_all
  next
    case empty
    then have "receive_ack x ep sg = Inr (ep, True)" by (auto simp: receive_ack_def Let_def front_seg_def)
    then have "ep' = ep" using assms(1) by simp
    then show ?thesis by simp
  next
    case seg
    let ?dl = "ntohs (sg_len sgm) - of_nat sizeof_segment"
    let ?exp = "ntohl (sg_seqno sgm) + ucast ?dl"
    let ?e = "st_upd (\<lambda>s. s\<lparr> st_bbr := (st_bbr s)\<lparr> inflight := inflight (st_bbr s) - int (unat ?dl) \<rparr> \<rparr>) ep"
    have r: "receive_ack x ep sg =
        (if ?exp = ?ackno then bnd (bbr_onAck (x_now x) (st_bbr (e_st ?e)) sgm) (\<lambda>b.
            bnd (remove_front (st_upd (\<lambda>s. s\<lparr> st_bbr := b \<rparr>) ?e)) (\<lambda>ep.
              Inr (st_upd (\<lambda>s. s\<lparr> st_seqno := ?exp, st_send_window := ntohs (sg_window sg) \<rparr>) ep, True)))
         else if ?exp < ?ackno then bnd (remove_front ?e) (\<lambda>ep. Inr (st_upd (\<lambda>s. s\<lparr> st_seqno := ?exp \<rparr>) ep, True))
         else bnd (ep_send x ep sgm (unat (ntohs (sg_len sgm)))) (\<lambda>ep. Inr (ep, True)))"
      unfolding receive_ack_def Let_def if_not_P [OF seg(1)] if_not_P [OF seg(2)] front_seg_def seg(3)
      by (simp only: list.case option.case)
    consider (hit) b e1 where "remove_front (st_upd (\<lambda>s. s\<lparr> st_bbr := b \<rparr>) ?e) = Inr e1"
        "ep' = st_upd (\<lambda>s. s\<lparr> st_seqno := ?exp, st_send_window := ntohs (sg_window sg) \<rparr>) e1"
      | (larger) e1 where "remove_front ?e = Inr e1" "ep' = st_upd (\<lambda>s. s\<lparr> st_seqno := ?exp \<rparr>) e1"
      | (smaller) "ep_send x ep sgm (unat (ntohs (sg_len sgm))) = Inr ep'"
    proof (cases "?exp = ?ackno")
      case True
      then show thesis using assms(1) that(1) unfolding r if_P [OF True] by (auto simp only: bnd_eq_Inr sum.inject prod.inject)
    next
      case ne: False
      show thesis
      proof (cases "?exp < ?ackno")
        case True
        then show thesis using assms(1) that(2) unfolding r if_not_P [OF ne] if_P [OF True]
          by (auto simp only: bnd_eq_Inr sum.inject prod.inject)
      next
        case False
        then show thesis using assms(1) that(3) unfolding r if_not_P [OF ne] if_not_P [OF False]
          by (auto simp only: bnd_eq_Inr sum.inject prod.inject)
      qed
    qed
    then show ?thesis
    proof cases
      case hit
      have "calm (x_cfg x) input S ep (st_upd (\<lambda>s. s\<lparr> st_bbr := b \<rparr>) ?e)" by (rule upd) simp_all
      moreover have "calm (x_cfg x) input S e1 ep'" unfolding hit(2) by (rule upd) simp_all
      ultimately show ?thesis using calm_remove [OF hit(1)] calm_trans by blast
    next
      case larger
      have "calm (x_cfg x) input S ep ?e" by (rule upd) simp_all
      moreover have "calm (x_cfg x) input S e1 ep'" unfolding larger(2) by (rule upd) simp_all
      ultimately show ?thesis using calm_remove [OF larger(1)] calm_trans by blast
    next
      case smaller
      then show ?thesis using calm_send assms(2) seg(3) by fastforce
    qed
  qed
qed

lemma calmD:
  assumes "calm cfg input S ep ep'" "snd_inv cfg input ep S" "rcv_inv ep T"
  shows "snd_inv cfg input ep' S \<and> rcv_inv ep' T \<and> keeps ep ep'
    \<and> st_all_recv_output (e_st ep') = st_all_recv_output (e_st ep)"
  using assms rcv_inv_same [of ep ep'] unfolding calm_def
  by (simp add: keeps_def same_part_def rcv_part_def)

lemma receive_fin_inv:
  assumes "receive_fin x ep sg = Inr ep'" "\<forall>i. no_corrupt (x_env x i)"
    and "snd_inv (x_cfg x) input ep S" "rcv_inv ep T" "arrives T fin sg" "length T + 2 < 2 ^ 32"
  shows "snd_inv (x_cfg x) input ep' S \<and> rcv_inv ep' T \<and> keeps ep ep'
    \<and> (st_all_recv_output (e_st ep') = 1 \<longrightarrow> st_all_recv_output (e_st ep) = 1 \<or> fin)"
proof (cases "ntohl (sg_flags sg) AND FIN = 0")
  case True
  then show ?thesis using assms by (simp add: receive_fin_def)
next
  case False
  then have a: "fin" "ntohl (sg_seqno sg) = of_nat (length T + 1)" using assms(5) unfolding arrives_def by blast+
  let ?e = "st_upd (\<lambda>s. s\<lparr> st_FIN_received := 1 \<rparr>) ep"
  have e: "calm (x_cfg x) input S ep ?e" by (rule calm_parts) (simp_all add: snd_part_def rcv_part_def)
  show ?thesis
  proof (cases "ntohl (sg_seqno sg) = st_ackno (e_st ep)")
    case no: False
    then have "ep' = ?e" using assms(1) False by (simp add: receive_fin_def)
    then show ?thesis using calmD [OF e assms(3,4)] by metis
  next
    case yes: True
    let ?f = "st_upd (\<lambda>s. s\<lparr> st_ackno := st_ackno s + 1 \<rparr>) ?e"
    obtain e1 r c where e1: "ctcp_send_ack x ?f = Inr e1" "conn_output (e_conn e1) [] = Inr (r, c)"
        "ep' = st_upd (\<lambda>s. s\<lparr> st_all_recv_output := 1 \<rparr>) (e1\<lparr> e_conn := c \<rparr>)"
      using assms(1) False yes by (auto simp: receive_fin_def Let_def bnd_eq_Inr)
    obtain d where d: "d \<le> length T" "sink.follows (e_conn ep) (take d T)"
        "st_all_recv_output (e_st ep) = 1 \<longrightarrow> d = length T \<and> unat (st_ackno (e_st ep)) = length T + 2"
        "st_all_recv_output (e_st ep) \<noteq> 1 \<longrightarrow> unat (st_ackno (e_st ep)) = d + 1"
      by (rule rcv_invE [OF assms(4)])
    have u: "unat (st_ackno (e_st ep)) = length T + 1"
      using yes a(2) assms(6) unat_of_small [of "length T + 1"] by simp
    have dT: "d = length T" using u d(3,4) by (cases "st_all_recv_output (e_st ep) = 1") auto
    have "snd_inv (x_cfg x) input ?f S"
      using assms(3) snd_inv_cong [of ?f ep] by (simp add: snd_part_def)
    from ctcp_send_ack_inv [OF e1(1) assms(2) this]
    have s1: "snd_inv (x_cfg x) input e1 S" "same_part ?f e1" "e_st e1 = e_st ?f" by simp_all
    have "sink.follows (e_conn e1) T"
      using d(2) dT s1(2) by (simp add: same_part_def rcv_part_def follows_conn queue_ok_def outs_def closed_def)
    moreover have p: "conn_put (e_conn e1) [] c" using e1(2) unfolding conn_put_def by blast
    ultimately have fo: "sink.follows c T" "queue_ok (e_conn e1)" using sink.follows_mark follows_queue by blast+
    note io = same_io_ids [OF conn_put_same [OF fo(2) p]]
    have "unat (st_ackno (e_st ep) + 1) = length T + 2"
    proof -
      have "st_ackno (e_st ep) + 1 = of_nat (length T + 2)" using yes a(2) by simp
      then show ?thesis using assms(6) unat_of_small [of "length T + 2"] by (simp only:)
    qed
    moreover have "st_output_len (e_st ep) = 0" using assms(4) by (simp add: rcv_inv_def)
    ultimately have "rcv_inv ep' T"
      using fo(1) s1(3) unfolding rcv_inv_def e1(3) by (auto intro!: exI [of _ "length T"])
    moreover have "snd_inv (x_cfg x) input ep' S"
      using s1(1) snd_inv_cong [of ep' e1] io by (simp add: e1(3) snd_part_def)
    moreover have "keeps ep ep'" using io s1(2,3) by (simp add: e1(3) keeps_def same_part_def)
    ultimately show ?thesis using a(1) by blast
  qed
qed

lemma ctcp_receive_inv:
  assumes "ctcp_receive x ep sg (48 + length (sg_data sg)) = Inr ep'" "\<forall>i. no_corrupt (x_env x i)"
    and "snd_inv (x_cfg x) input ep S" "rcv_inv ep T" "arrives T fin sg" "length T + 2 < 2 ^ 32"
  shows "snd_inv (x_cfg x) input ep' S \<and> rcv_inv ep' T \<and> keeps ep ep'
    \<and> (st_all_recv_output (e_st ep') = 1 \<longrightarrow> st_all_recv_output (e_st ep) = 1 \<or> fin)"
proof -
  have n: "int (48 + length (sg_data sg)) - int sizeof_segment = int (length (sg_data sg))" by simp
  obtain e1 g1 where e1: "receive_data x ep sg (int (length (sg_data sg))) = Inr (e1, g1)"
      "(if \<not> g1 then Inr e1 else bnd (receive_ack x e1 sg) (\<lambda>(ep, go).
         if \<not> go then Inr ep else receive_fin x ep sg)) = Inr ep'"
    using assms(1) unfolding ctcp_receive_def n by (auto simp: bnd_eq_Inr)
  note i1 = receive_data_inv [OF e1(1) assms(2-6)]
  show ?thesis
  proof (cases g1)
    case False
    with e1(2) i1 show ?thesis by simp
  next
    case True
    then obtain e2 g2 where e2: "receive_ack x e1 sg = Inr (e2, g2)" "(if \<not> g2 then Inr e2 else receive_fin x e2 sg) = Inr ep'"
      using e1(2) by (auto simp: bnd_eq_Inr)
    have i2: "snd_inv (x_cfg x) input e2 S \<and> rcv_inv e2 T \<and> keeps e1 e2
        \<and> st_all_recv_output (e_st e2) = st_all_recv_output (e_st e1)"
      using calmD [OF receive_ack_calm [OF e2(1) assms(2)]] i1 by blast
    show ?thesis
    proof (cases g2)
      case False
      then have "ep' = e2" using e2(2) by simp
      then show ?thesis using i1 i2 keeps_trans by metis
    next
      case True
      then have "receive_fin x e2 sg = Inr ep'" using e2(2) by simp
      from receive_fin_inv [OF this assms(2) _ _ assms(5,6)] i1 i2 show ?thesis using keeps_trans by metis
    qed
  qed
qed

section \<open>Lemmas: the timer and the output\<close>

lemma timer_fin_calm:
  assumes "timer_fin x ep = Inr ep'" "\<forall>i. no_corrupt (x_env x i)"
  shows "calm (x_cfg x) input S ep ep'"
proof (cases "st_read_finish (e_st ep) = 1 \<and> st_get_all_ack (e_st ep) = 1 \<and> st_FIN_sent (e_st ep) = 0")
  case False
  have "timer_fin x ep = Inr ep" unfolding timer_fin_def Let_def if_not_P [OF False] ..
  then show ?thesis using assms(1) by simp
next
  case True
  obtain e1 l where e1: "ctcp_send_fin x ep = Inr e1" "ep' = st_upd (\<lambda>s. s\<lparr> st_FIN_sent := 1 \<rparr>) (e1\<lparr> e_fp := l \<rparr>)"
    using assms(1) unfolding timer_fin_def Let_def if_P [OF True] by (auto simp: bnd_eq_Inr split: option.splits)
  obtain g0 where g0: "make_seg (st_ackno (e_st ep)) (st_next_seqno (e_st ep)) FIN (st_recv_window (e_st ep)) [] = Inr g0"
      "sg_data g0 = []" "sg_len g0 = htons (of_nat (48 + length []))" "sg_flags g0 = TH_FIN"
      "ntohl (sg_seqno g0) = st_next_seqno (e_st ep)"
    using make_seg_eq [of "[]"] by fastforce
  let ?g = "g0\<lparr> sg_delivered_time := x_now x \<rparr>"
  let ?e = "st_upd (\<lambda>s. s\<lparr> st_segments := st_segments s @ [?g], st_get_all_ack := 0 \<rparr>) ep"
  have s: "ep_send x ?e ?g (48 + length (sg_data ?g)) = Inr e1"
    using e1(1) g0(1,2) by (simp add: ctcp_send_fin_def Let_def)
  show ?thesis unfolding calm_def
  proof
    assume i: "snd_inv (x_cfg x) input ep S"
    have c: "carries S True ?g"
    proof -
      have "unat (st_next_seqno (e_st ep)) = length S + 1" using i by (auto elim: snd_invE)
      then have "st_next_seqno (e_st ep) = of_nat (length S + 1)" by (rule seq_of)
      then show ?thesis using g0 by (simp add: carries_def)
    qed
    have "snd_inv (x_cfg x) input ?e S"
    proof (rule snd_inv_segments [OF i])
      show "carries S (st_read_finish (e_st ep) = 1) g" if "g \<in> set (st_segments (e_st ep) @ [?g])" for g
        using i that c True by (auto elim: snd_invE)
    qed simp_all
    from ep_send_inv [OF s assms(2) this] c True
    have r: "snd_inv (x_cfg x) input e1 S" "same_part ?e e1" "e_st e1 = e_st ?e" by simp_all
    have "snd_inv (x_cfg x) input ep' S" using r(1) snd_inv_cong [of ep' e1] by (simp add: e1(2) snd_part_def)
    then show "snd_inv (x_cfg x) input ep' S \<and> same_part ep ep' \<and> st_read_finish (e_st ep') = st_read_finish (e_st ep)"
      using r(2,3) by (simp add: e1(2) same_part_def rcv_part_def)
  qed
qed

lemma timer_retransmit_calm:
  assumes "timer_retransmit x ep = Inr ep'" "\<forall>i. no_corrupt (x_env x i)"
  shows "calm (x_cfg x) input S ep ep'"
proof -
  let ?a = "st_upd (\<lambda>s. s\<lparr> st_retrans_count := st_retrans_count s + 1, st_current_time := x_now x \<rparr>) ep"
  obtain g0 q where g0: "st_segments (e_st ep) = g0 # q"
    using assms(1) by (cases "st_segments (e_st ep)") (auto simp: timer_retransmit_def Let_def front_seg_def)
  let ?g = "g0\<lparr> sg_sendtime := x_now x, sg_delivered := b_delivered (st_bbr (e_st ep)),
    sg_delivered_time := b_delivered_time (st_bbr (e_st ep)) \<rparr>"
  let ?e = "st_upd (\<lambda>s. s\<lparr> st_segments := ?g # tl (st_segments s) \<rparr>) ?a"
  obtain e1 e2 where e: "ep_send x ?e ?g (unat (ntohs (sg_len ?g))) = Inr e1" "log_bdp x e1 = Inr e2"
      "ep' = st_upd (\<lambda>s. s\<lparr> st_bbr := (st_bbr s)\<lparr> inflight := inflight (st_bbr s) + int (unat (ntohs (sg_len ?g))) \<rparr> \<rparr>) e2"
    using assms(1) g0 by (auto simp: timer_retransmit_def Let_def front_seg_def bnd_eq_Inr)
  have 1: "calm (x_cfg x) input S ep ?e" unfolding calm_def
  proof
    assume i: "snd_inv (x_cfg x) input ep S"
    have "snd_inv (x_cfg x) input ?e S"
    proof (rule snd_inv_segments [OF i])
      show "carries S (st_read_finish (e_st ep) = 1) g" if "g \<in> set (?g # q)" for g
      proof -
        have "carries S (st_read_finish (e_st ep) = 1) g0" using i g0 by (auto elim: snd_invE)
        then have "carries S (st_read_finish (e_st ep) = 1) ?g" by (simp only: carries_times)
        then show ?thesis using i that g0 by (auto elim: snd_invE)
      qed
    qed (simp_all add: g0)
    then show "snd_inv (x_cfg x) input ?e S \<and> same_part ep ?e \<and> st_read_finish (e_st ?e) = st_read_finish (e_st ep)"
      by (simp add: same_part_def rcv_part_def)
  qed
  have 2: "calm (x_cfg x) input S ?e e1" using calm_send [OF e(1) assms(2)] by simp
  obtain l where "e2 = e1\<lparr> e_fp := l \<rparr>" using log_bdp_eq [OF e(2)] by blast
  then have 3: "calm (x_cfg x) input S e1 ep'"
    unfolding e(3) by (intro calm_parts) (simp_all add: snd_part_def rcv_part_def)
  show ?thesis using calm_trans [OF 1 calm_trans [OF 2 3]] .
qed

lemma timer_ep_calm:
  assumes "timer_ep x ep = Inr (ep', dead)" "\<forall>i. no_corrupt (x_env x i)"
  shows "calm (x_cfg x) input S ep ep'"
proof -
  obtain e1 where e1: "timer_fin x ep = Inr e1" using assms(1) by (auto simp: timer_ep_def bnd_eq_Inr)
  have "ep' = e1 \<or> ep' = st_upd (\<lambda>s. s\<lparr> st_get_all_ack := 1 \<rparr>) e1 \<or> timer_retransmit x e1 = Inr ep'"
    using assms(1) e1 by (auto simp: timer_ep_def Let_def bnd_eq_Inr split: if_splits)
  moreover have "calm (x_cfg x) input S e1 (st_upd (\<lambda>s. s\<lparr> st_get_all_ack := 1 \<rparr>) e1)"
    by (rule calm_parts) (simp_all add: snd_part_def rcv_part_def)
  ultimately have "calm (x_cfg x) input S e1 ep'" using timer_retransmit_calm assms(2) calm_refl by metis
  then show ?thesis using timer_fin_calm [OF e1 assms(2)] calm_trans by blast
qed

lemma ep_drain_inv:
  assumes "ep_drain ep = Inr ep'" "snd_inv cfg input ep S" "rcv_inv ep T"
  shows "snd_inv cfg input ep' S \<and> rcv_inv ep' T \<and> keeps ep ep'
    \<and> st_all_recv_output (e_st ep') = st_all_recv_output (e_st ep)"
proof -
  obtain c b where cb: "conn_drain (e_conn ep) = (c, b)" by fastforce
  let ?e = "ep\<lparr> e_conn := c \<rparr>"
  obtain d where d: "d \<le> length T" "sink.follows (e_conn ep) (take d T)"
        "st_all_recv_output (e_st ep) = 1 \<longrightarrow> d = length T \<and> unat (st_ackno (e_st ep)) = length T + 2"
        "st_all_recv_output (e_st ep) \<noteq> 1 \<longrightarrow> unat (st_ackno (e_st ep)) = d + 1"
      by (rule rcv_invE [OF assms(3)])
  have o0: "st_output_len (e_st ep) = 0" using assms(3) by (simp add: rcv_inv_def)
  have rcv: "rcv_inv e T" if "sink.follows (e_conn e) (take d T)" "st_output_len (e_st e) = 0"
    "st_all_recv_output (e_st e) = st_all_recv_output (e_st ep)" "st_ackno (e_st e) = st_ackno (e_st ep)" for e
    using that d unfolding rcv_inv_def by (auto intro!: exI [of _ d])
  have f: "sink.follows c (take d T)" using sink.follows_flush [OF d(2)] cb unfolding conn_flush_def by blast
  have "same_io (e_conn ep) c" using conn_drain_outs [OF follows_queue [OF d(2)] cb] by blast
  note io = same_io_ids [OF this]
  show ?thesis
  proof (cases b)
    case False
    then have ep': "ep' = ?e" using assms(1) cb by (simp add: ep_drain_def)
    have "snd_inv cfg input ?e S" using assms(2) snd_inv_cong [of ?e ep] io by (simp add: snd_part_def)
    moreover have "rcv_inv ?e T" by (rule rcv) (use f o0 in simp_all)
    ultimately show ?thesis using io by (simp add: ep' keeps_def)
  next
    case True
    then have "ctcp_output ?e = Inr ep'" using assms(1) cb by (simp add: ep_drain_def)
    from ctcp_output_put [OF this, of "[]"] o0 obtain c' where
      c': "ep' = ?e\<lparr> e_st := (e_st ?e)\<lparr> st_output := None, st_output_len := 0 \<rparr>, e_conn := c' \<rparr>" "conn_put c [] c'" by auto
    note io' = same_io_ids [OF conn_put_same [OF follows_queue [OF f] c'(2)]]
    have "sink.follows c' (take d T)" using sink.follows_mark [OF f c'(2)] .
    then have "rcv_inv ep' T" by (intro rcv) (simp_all add: c'(1))
    moreover have "snd_inv cfg input ep' S"
      using assms(2) snd_inv_cong [of ep' ep] io io' by (simp add: snd_part_def c'(1))
    ultimately show ?thesis using io io' by (simp add: c'(1) keeps_def)
  qed
qed

end
