(* ===== verification/Exchange.thy ===== *)
theory Exchange
  imports ByteStream
begin

text \<open>
  Two cTCP hosts and the network between them. \<open>host_step\<close> is one turn of a host's event loop: input is
  ready, the timer fires, the output is ready, a packet arrives. A packet that arrives is any of those
  the other host has put on the network, so it may be late, repeated, or out of order, and
  one that never arrives is lost. The unreliability of \<^verbatim>\<open>conn_send\<close> is switched on, all but the corruption.
\<close>

inductive host_step :: "sys_config \<Rightarrow> bytes list \<Rightarrow> endpoint \<Rightarrow> endpoint \<Rightarrow> bool"
  for cfg :: sys_config and net :: "bytes list" and ep :: endpoint where
  input: "ctcp_read x ep = Inr ep' \<Longrightarrow> x_cfg x = cfg \<Longrightarrow> \<forall>i. no_corrupt (x_env x i) \<Longrightarrow> host_step cfg net ep ep'"
| timer: "timer_ep x ep = Inr (ep', False) \<Longrightarrow> x_cfg x = cfg \<Longrightarrow> \<forall>i. no_corrupt (x_env x i) \<Longrightarrow> host_step cfg net ep ep'"
| drain: "ep_drain ep = Inr ep' \<Longrightarrow> host_step cfg net ep ep'"
| packet: "ep_packet x ep p = Inr ep' \<Longrightarrow> p \<in> set net \<Longrightarrow> x_cfg x = cfg \<Longrightarrow> \<forall>i. no_corrupt (x_env x i)
    \<Longrightarrow> host_step cfg net ep ep'"

inductive exchange :: "sys_config \<Rightarrow> sys_config \<Rightarrow> endpoint \<Rightarrow> endpoint \<Rightarrow> endpoint \<Rightarrow> endpoint \<Rightarrow> bool"
  for cA cB :: sys_config and a0 b0 :: endpoint where
  start: "exchange cA cB a0 b0 a0 b0"
| left: "exchange cA cB a0 b0 a b \<Longrightarrow> host_step cA (c_net (e_conn b)) a a' \<Longrightarrow> exchange cA cB a0 b0 a' b"
| right: "exchange cA cB a0 b0 a b \<Longrightarrow> host_step cB (c_net (e_conn a)) b b' \<Longrightarrow> exchange cA cB a0 b0 a b'"

text \<open>A connection that \<^verbatim>\<open>ctcp_init\<close> has just set up.\<close>

definition fresh_conn :: "conn \<Rightarrow> bool" where
  "fresh_conn c \<longleftrightarrow> c_out c = [] \<and> c_out_queue c = [] \<and> c_net c = [] \<and> \<not> closed c"

definition opened :: "sys_config \<Rightarrow> int \<Rightarrow> conn \<Rightarrow> endpoint" where
  "opened cfg now c = \<lparr> e_st = ctcp_init_state cfg now, e_conn = c, e_fp = Some [], e_sends = 0 \<rparr>"

section \<open>The invariant\<close>

text \<open>One turn of a host that sends \<open>S\<close> and receives \<open>T\<close>, of which \<open>fin\<close> says that it is complete.\<close>

lemma host_step_inv:
  assumes "host_step cfg net ep ep'" "snd_inv cfg input ep S" "rcv_inv ep T"
    and net: "\<forall>p\<in>set net. \<exists>s. p = pkt_of cfg' c s \<and> carries T fin s" "peers (e_conn ep) c"
    and "length input + 2 < 2 ^ 32" "length T + 2 < 2 ^ 32"
  shows "\<exists>b. snd_inv cfg input ep' (S @ b) \<and> rcv_inv ep' T \<and> ids (e_conn ep') = ids (e_conn ep)
    \<and> (st_read_finish (e_st ep) = 1 \<longrightarrow> b = [] \<and> st_read_finish (e_st ep') = 1)
    \<and> (st_all_recv_output (e_st ep') = 1 \<longrightarrow> st_all_recv_output (e_st ep) = 1 \<or> fin)"
  using assms(1)
proof cases
  case (input x)
  from ctcp_read_inv [OF input(1,3)] input(2) assms(2,6) obtain b where
    b: "snd_inv cfg input ep' (S @ b)" "st_read_finish (e_st ep) = 1 \<longrightarrow> b = []" "rcv_part ep' = rcv_part ep"
      "ids (e_conn ep') = ids (e_conn ep)" "st_read_finish (e_st ep) = 1 \<longrightarrow> st_read_finish (e_st ep') = 1"
    by metis
  then have "rcv_inv ep' T" using rcv_inv_cong assms(3) by blast
  moreover have "st_all_recv_output (e_st ep') = st_all_recv_output (e_st ep)" using b(3) by (simp add: rcv_part_def)
  ultimately show ?thesis using b by (intro exI [of _ b]) simp
next
  case (timer x)
  have "calm cfg input S ep ep'" using timer_ep_calm [OF timer(1,3)] timer(2) by simp
  from calmD [OF this assms(2,3)] show ?thesis by (intro exI [of _ "[]"]) (simp add: keeps_def)
next
  case drain
  from ep_drain_inv [OF drain assms(2,3)] show ?thesis by (intro exI [of _ "[]"]) (simp add: keeps_def)
next
  case (packet x p)
  then obtain s where s: "p = pkt_of cfg' c s" "carries T fin s" using net(1) by blast
  let ?sg = "wire_seg cfg' s"
  have "convert_to_ctcp (e_conn ep) (p @ calloc (MAX_PACKET_SIZE - length p)) = Inr ?sg"
    unfolding s(1) by (rule wire_roundtrip [OF carries_wire_ok [OF s(2)] net(2)])
  moreover have "length p - FULL_HDR_SIZE + sizeof_segment = 48 + length (sg_data ?sg)"
    by (simp add: s(1) wire_seg_def no_times_def Let_def)
  ultimately have "ctcp_receive x ep ?sg (48 + length (sg_data ?sg)) = Inr ep'"
    using packet(1) by (simp add: ep_packet_def add.commute)
  from ctcp_receive_inv [OF this packet(4) _ assms(3) carries_arrives [OF s(2)] assms(7)] packet(3) assms(2)
  show ?thesis by (intro exI [of _ "[]"]) (simp add: keeps_def)
qed

definition exchange_inv where
  "exchange_inv cA cB inA inB a b \<longleftrightarrow> (\<exists>S T. snd_inv cA inA a S \<and> rcv_inv b S \<and> snd_inv cB inB b T \<and> rcv_inv a T
     \<and> (st_all_recv_output (e_st b) = 1 \<longrightarrow> st_read_finish (e_st a) = 1)
     \<and> (st_all_recv_output (e_st a) = 1 \<longrightarrow> st_read_finish (e_st b) = 1)
     \<and> peers (e_conn a) (e_conn b) \<and> peers (e_conn b) (e_conn a))"

lemma exchange_inv_sym: "exchange_inv cA cB inA inB a b \<longleftrightarrow> exchange_inv cB cA inB inA b a"
  unfolding exchange_inv_def by blast

lemma rcv_inv_more:
  assumes "rcv_inv ep S" "st_all_recv_output (e_st ep) \<noteq> 1" shows "rcv_inv ep (S @ b)"
  using assms by (auto simp: rcv_inv_def)

lemma snd_inv_length: "snd_inv cfg input ep S \<Longrightarrow> length S \<le> length input"
  by (auto elim!: snd_invE)

lemma exchange_inv_step:
  assumes "exchange_inv cA cB inA inB a b" "host_step cA (c_net (e_conn b)) a a'"
    "length inA + 2 < 2 ^ 32" "length inB + 2 < 2 ^ 32"
  shows "exchange_inv cA cB inA inB a' b"
proof -
  from assms(1) obtain S T where i: "snd_inv cA inA a S" "rcv_inv b S" "snd_inv cB inB b T" "rcv_inv a T"
    "st_all_recv_output (e_st b) = 1 \<longrightarrow> st_read_finish (e_st a) = 1"
    "st_all_recv_output (e_st a) = 1 \<longrightarrow> st_read_finish (e_st b) = 1"
    "peers (e_conn a) (e_conn b)" "peers (e_conn b) (e_conn a)" unfolding exchange_inv_def by blast
  have net: "\<forall>p\<in>set (c_net (e_conn b)). \<exists>s. p = pkt_of cB (e_conn b) s \<and> carries T (st_read_finish (e_st b) = 1) s"
    using i(3) by (auto elim: snd_invE simp: net_ok_def)
  have "length T + 2 < 2 ^ 32" using snd_inv_length [OF i(3)] assms(4) by simp
  from host_step_inv [OF assms(2) i(1,4) net i(7) assms(3) this] obtain r where
    r: "snd_inv cA inA a' (S @ r)" "rcv_inv a' T" "ids (e_conn a') = ids (e_conn a)"
      "st_read_finish (e_st a) = 1 \<longrightarrow> r = [] \<and> st_read_finish (e_st a') = 1"
      "st_all_recv_output (e_st a') = 1 \<longrightarrow> st_all_recv_output (e_st a) = 1 \<or> st_read_finish (e_st b) = 1" by blast
  have "rcv_inv b (S @ r)"
  proof (cases "st_all_recv_output (e_st b) = 1")
    case True then show ?thesis using i(2,5) r(4) by simp
  next
    case False then show ?thesis using rcv_inv_more i(2) by blast
  qed
  moreover have "peers (e_conn a') (e_conn b)" "peers (e_conn b) (e_conn a')"
    using i(7,8) r(3) by (simp_all add: peers_def ids_def)
  ultimately show ?thesis unfolding exchange_inv_def using r i by blast
qed

lemma exchange_reach_inv:
  assumes "exchange cA cB a0 b0 a b" "exchange_inv cA cB inA inB a0 b0"
    "length inA + 2 < 2 ^ 32" "length inB + 2 < 2 ^ 32"
  shows "exchange_inv cA cB inA inB a b"
  using assms(1)
proof induction
  case start then show ?case using assms(2) .
next
  case (left a b a')
  then show ?case using exchange_inv_step assms(3,4) by blast
next
  case (right a b b')
  then show ?case using exchange_inv_step [of cB cA inB inA b a b'] assms(3,4) exchange_inv_sym by metis
qed

lemma fresh_sides:
  assumes "fresh_conn (e_conn ep)" "e_st ep = ctcp_init_state cfg' t"
  shows "snd_inv cfg (in_bytes (c_in (e_conn ep))) ep []" "rcv_inv ep []"
proof -
  show "snd_inv cfg (in_bytes (c_in (e_conn ep))) ep []"
    by (rule snd_invI [where rest = "in_bytes (c_in (e_conn ep))"])
      (use assms in \<open>simp_all add: ctcp_init_state_def net_ok_def fresh_conn_def\<close>)
  show "rcv_inv ep []"
    using assms by (simp add: rcv_inv_def ctcp_init_state_def fresh_conn_def follows_conn queue_ok_def outs_def)
qed

lemma opened_inv:
  assumes "fresh_conn cA" "fresh_conn cB" "peers cA cB" "peers cB cA"
  shows "exchange_inv cfgA cfgB (in_bytes (c_in cA)) (in_bytes (c_in cB)) (opened cfgA tA cA) (opened cfgB tB cB)"
proof -
  have o: "e_conn (opened cfg t c) = c" "e_st (opened cfg t c) = ctcp_init_state cfg t" for cfg t c by (simp_all add: opened_def)
  note s = fresh_sides [of "opened cfgA tA cA", unfolded o, OF assms(1) refl] fresh_sides [of "opened cfgB tB cB", unfolded o, OF assms(2) refl]
  have "st_all_recv_output (ctcp_init_state cfg t) = 0" for cfg t by (simp add: ctcp_init_state_def)
  then show ?thesis unfolding exchange_inv_def using s assms by (intro exI [of _ "[]"]) (simp add: o)
qed

lemma rcv_inv_outputs:
  assumes "rcv_inv ep S" shows "\<exists>r. S = c_out (e_conn ep) @ r"
proof -
  from assms obtain d where "sink.follows (e_conn ep) (take d S)" by (auto elim!: rcv_invE)
  then obtain q where "take d S = outs (e_conn ep) @ q" unfolding follows_conn by blast
  then have "S = c_out (e_conn ep) @ pending (c_out_queue (e_conn ep)) @ q @ drop d S"
    by (metis append.assoc append_take_drop_id outs_def)
  then show ?thesis by blast
qed

lemma exchange_outputs:
  assumes "exchange_inv cA cB inA inB a b"
  shows "\<exists>r. inA = c_out (e_conn b) @ r"
proof -
  from assms obtain S r where "rcv_inv b S" "inA = S @ r" unfolding exchange_inv_def by (auto elim!: snd_invE)
  then show ?thesis using rcv_inv_outputs by fastforce
qed

section \<open>Delivery when nothing goes wrong\<close>

definition no_fault :: "send_env \<Rightarrow> bool" where
  "no_fault env \<longleftrightarrow> (\<forall>l f. \<not> se_fault env l f) \<and> (\<forall>l. \<not> se_fails env l)"

lemma no_fault_corrupt: "no_fault env \<Longrightarrow> no_corrupt env"
  by (simp add: no_fault_def no_corrupt_def)

lemma ep_send_clean:
  assumes "length (sg_data g) \<le> 1440" "no_fault (x_env x (e_sends ep))" "\<not> c_delete_me (e_conn ep)"
  shows "ep_send x ep g (48 + length (sg_data g)) = Inr (ep\<lparr> e_conn := (e_conn ep)\<lparr> c_net := c_net (e_conn ep) @
    [pkt_of (x_cfg x) (e_conn ep) g] \<rparr>, e_sends := Suc (e_sends ep) \<rparr>)"
  using assms conn_transmit_eq [of g "x_env x (e_sends ep)" 0]
  by (simp add: ep_send_def conn_send_def conn_branch_def no_fault_def)

lemma unat_add_small:
  assumes "unat a + n < 2 ^ 32" shows "unat (a + of_nat n :: u32) = unat a + n"
proof -
  have "unat (of_nat n :: u32) = n" using assms by (intro unat_of_small) simp
  then show ?thesis using assms by (subst unat_plus_simple [THEN iffD1]) (simp_all add: word_le_nat_alt unat_word_ariths)
qed

lemma window_opens:
  assumes "unat (a :: u32) + 2 ^ 16 \<le> 2 ^ 32" "(w :: u16) \<noteq> 0" shows "a < a + ucast w"
proof -
  have w: "unat w < 2 ^ 16" "unat w \<noteq> 0" using unsigned_less [of w] assms(2) by (simp_all add: unat_eq_0)
  then have "unat (a + of_nat (unat w)) = unat a + unat w" using assms(1) by (intro unat_add_small) simp
  then show ?thesis using w(2) by (simp add: word_less_nat_alt)
qed

text \<open>A message at the head of the input goes to \<^verbatim>\<open>bbr_send\<close> when the time and the window allow it, and leaves in one packet.\<close>

lemma read_message:
  assumes c: "c_in (e_conn ep) = RData msg # rs" "msg \<noteq> []" "length msg \<le> 1439" "\<not> c_delete_me (e_conn ep)" "\<not> c_read_eof (e_conn ep)"
    and e: "eof_char_mode (x_cfg x) \<longrightarrow> hd msg \<noteq> 0x1a"
    and s: "st_read_finish (e_st ep) = 0" "nextSendTime (st_bbr (e_st ep)) < x_now x"
      "st_next_seqno (e_st ep) < st_seqno (e_st ep) + ucast (st_send_window (e_st ep))"
  shows "ctcp_read x ep = bbr_send x (ep\<lparr> e_conn := (e_conn ep)\<lparr> c_in := rs \<rparr> \<rparr>) msg"
proof -
  obtain y ys where y: "msg = y # ys" using c(2) by (cases msg) auto
  have "conn_input all (eof_char_mode (x_cfg x)) (e_conn ep) MAX_SEG_DATA_SIZE = Inr (Some msg, (e_conn ep)\<lparr> c_in := rs \<rparr>)" for all
    using c e y by (simp add: conn_input_def c_read_def Let_def)
  moreover have "\<not> st_seqno (e_st ep) + ucast (st_send_window (e_st ep)) \<le> st_next_seqno (e_st ep)" using s(3) by simp
  ultimately show ?thesis using s(1,2) y by (simp add: ctcp_read_def Let_def)
qed

lemma clean_read:
  assumes c: "c_in (e_conn ep) = RData msg # rs" "msg \<noteq> []" "length msg \<le> 1439" "\<not> c_delete_me (e_conn ep)" "\<not> c_read_eof (e_conn ep)"
    and e: "\<forall>i. no_fault (x_env x i)" "eof_char_mode (x_cfg x) \<longrightarrow> hd msg \<noteq> 0x1a"
    and s: "st_read_finish (e_st ep) = 0" "nextSendTime b < x_now x" "st_next_seqno (e_st ep) < st_seqno (e_st ep) + ucast (st_send_window (e_st ep))"
    and b: "st_bbr (e_st ep) = b" "bbr_bdp b = Inr bdp" "\<not> bbr_window_full b bdp"
      "bbr_next_send (x_now x) (b\<lparr> inflight := inflight b + int (length msg) \<rparr>) (int (length msg)) = Inr t"
    and fp: "e_fp ep = Some l"
  shows "\<exists>g. ctcp_read x ep = Inr \<lparr> e_st = (e_st ep)\<lparr> st_segments := st_segments (e_st ep) @ [g],
          st_next_seqno := st_next_seqno (e_st ep) + of_nat (length msg), st_get_all_ack := 0,
          st_bbr := b\<lparr> inflight := inflight b + int (length msg), nextSendTime := t \<rparr> \<rparr>,
        e_conn = (e_conn ep)\<lparr> c_in := rs, c_net := c_net (e_conn ep) @ [pkt_of (x_cfg x) (e_conn ep) g] \<rparr>,
        e_fp = Some (l @ [(x_now x, bdp * 8)]), e_sends = Suc (e_sends ep) \<rparr>
    \<and> sg_len g = htons (of_nat (48 + length msg)) \<and> sg_data g = msg \<and> ntohl (sg_seqno g) = st_next_seqno (e_st ep)
    \<and> sg_flags g = TH_ACK \<and> ntohl (sg_ackno g) = st_ackno (e_st ep) \<and> sg_delivered g = b_delivered b \<and> sg_delivered_time g = b_delivered_time b"
proof -
  let ?c = "(e_conn ep)\<lparr> c_in := rs \<rparr>" and ?b = "b\<lparr> inflight := inflight b + int (length msg) \<rparr>"
  let ?o = "ep\<lparr> e_conn := ?c \<rparr>"
  have late: "nextSendTime b < x_now x" using s(2) .
  have rd: "ctcp_read x ep = bbr_send x ?o msg"
    by (rule read_message [OF c e(2) s(1) _ s(3)]) (use s(2) b(1) in simp)
  let ?i = "?o\<lparr> e_st := (e_st ?o)\<lparr> st_bbr := ?b \<rparr>, e_fp := Some (l @ [(x_now x, bdp * 8)]) \<rparr>"
  have lg: "log_bdp x (st_upd (\<lambda>s. s\<lparr> st_bbr := (st_bbr s)\<lparr> inflight := inflight (st_bbr s) + int (length msg) \<rparr> \<rparr>) ?o) = Inr ?i"
    using b(1,2) fp by (simp add: log_bdp_def bbr_bdp_def)
  obtain g0 where g0: "make_data_seg (e_st ?i) msg = Inr g0" "sg_data g0 = msg" "sg_len g0 = htons (of_nat (48 + length msg))"
      "sg_flags g0 = TH_ACK" "ntohl (sg_seqno g0) = st_next_seqno (e_st ep)" "ntohl (sg_ackno g0) = st_ackno (e_st ep)"
    using make_data_seg_eq [of msg "e_st ?i"] c(3) by auto
  let ?g = "g0\<lparr> sg_sendtime := x_now x, sg_delivered := b_delivered b, sg_delivered_time := b_delivered_time b \<rparr>"
  let ?q = "st_upd (enqueue_data ?g (length msg)) ?i"
  let ?s = "?q\<lparr> e_conn := (e_conn ?q)\<lparr> c_net := c_net (e_conn ?q) @ [pkt_of (x_cfg x) (e_conn ?q) ?g] \<rparr>, e_sends := Suc (e_sends ?q) \<rparr>"
  have len: "unat (ntohs (sg_len ?g)) = 48 + length msg" using len_of_seg [OF _ g0(3)] c(3) by simp
  have "ep_send x ?q ?g (48 + length (sg_data ?g)) = Inr ?s"
    by (rule ep_send_clean) (use c e g0 in simp_all)
  then have snd: "ep_send x ?q ?g (48 + length msg) = Inr ?s" using g0(2) by simp
  have dat: "ctcp_send_data x ?o msg (x_now x) (b_delivered b) (b_delivered_time b) = Inr ?s"
    unfolding ctcp_send_data_def Let_def lg bnd_Inr g0(1) len snd ..
  have nx: "bbr_next_send (x_now x) (st_bbr (e_st ?s)) (int (length msg)) = Inr t"
    using b(4) by (simp add: enqueue_data_def)
  have o: "st_bbr (e_st ?o) = b" using b(1) by simp
  have "bbr_send x ?o msg = Inr (st_upd (\<lambda>s. s\<lparr> st_bbr := (st_bbr s)\<lparr> nextSendTime := t \<rparr> \<rparr>) ?s)"
    unfolding bbr_send_def Let_def o b(2) bnd_Inr if_not_P [OF b(3)] if_P [OF late] dat nx ..
  moreover have "pkt_of (x_cfg x) ?c ?g = pkt_of (x_cfg x) (e_conn ep) ?g" using pkt_of_ids [of ?c "e_conn ep"] by (simp add: ids_def)
  ultimately have "ctcp_read x ep = Inr \<lparr> e_st = (e_st ep)\<lparr> st_segments := st_segments (e_st ep) @ [?g],
          st_next_seqno := st_next_seqno (e_st ep) + of_nat (length msg), st_get_all_ack := 0,
          st_bbr := b\<lparr> inflight := inflight b + int (length msg), nextSendTime := t \<rparr> \<rparr>,
        e_conn = (e_conn ep)\<lparr> c_in := rs, c_net := c_net (e_conn ep) @ [pkt_of (x_cfg x) (e_conn ep) ?g] \<rparr>,
        e_fp = Some (l @ [(x_now x, bdp * 8)]), e_sends = Suc (e_sends ep) \<rparr>"
    unfolding rd by (cases "e_st ep") (simp add: enqueue_data_def)
  then show ?thesis using g0 by (intro exI [of _ ?g]) simp
qed


text \<open>The peer writes it and acknowledges.\<close>

lemma wire_plain:
  assumes "sg_flags g = TH_ACK"
  shows "ntohl (sg_flags (wire_seg cfg g)) AND FIN = 0" "ntohl (sg_flags (wire_seg cfg g)) AND ACK \<noteq> 0"
    "sg_data (wire_seg cfg g) = sg_data g" "sg_seqno (wire_seg cfg g) = sg_seqno g" "sg_ackno (wire_seg cfg g) = sg_ackno g"
    "sg_window (wire_seg cfg g) = sg_window g"
proof -
  have "sg_flags (wire_seg cfg g) = TH_ACK" using assms by (simp add: wire_seg_def no_times_def Let_def wire_flags_def)
  moreover have "ntohl TH_ACK AND FIN = 0" "ntohl TH_ACK AND ACK \<noteq> 0" by (simp_all add: FIN_def ACK_def) code_simp+
  ultimately show "ntohl (sg_flags (wire_seg cfg g)) AND FIN = 0" "ntohl (sg_flags (wire_seg cfg g)) AND ACK \<noteq> 0" by simp_all
qed (simp_all add: wire_seg_def no_times_def Let_def)

lemma packet_received:
  assumes "carries S fin g" "peers (e_conn ep) d"
  shows "ep_packet x ep (pkt_of cfg d g) = ctcp_receive x ep (wire_seg cfg g) (48 + length (sg_data g))"
  using wire_roundtrip [OF carries_wire_ok [OF assms(1)] assms(2)] by (simp add: ep_packet_def add.commute)

lemma clean_receive:
  assumes c: "c_out_queue (e_conn ep) = []" "\<not> closed (e_conn ep)" "\<not> c_delete_me (e_conn ep)" "c_wr (e_conn ep) = WTake n # ws"
    and s: "st_segments (e_st ep) = []" "st_FIN_sent (e_st ep) = 0" "unat (st_ackno (e_st ep)) + 2 ^ 16 \<le> 2 ^ 32"
    and g: "carries S fin g" "sg_data g \<noteq> []" "length (sg_data g) \<le> n" "ntohl (sg_seqno g) = st_ackno (e_st ep)" "sg_flags g = TH_ACK"
    and e: "peers (e_conn ep) d" "\<forall>i. no_fault (x_env x i)"
  shows "\<exists>h. ep_packet x ep (pkt_of cfg d g) = Inr \<lparr> e_st = (e_st ep)\<lparr> st_output := None, st_output_len := 0,
          st_ackno := st_ackno (e_st ep) + of_nat (length (sg_data g)) \<rparr>,
        e_conn = (e_conn ep)\<lparr> c_wr := ws, c_out := c_out (e_conn ep) @ sg_data g, c_net := c_net (e_conn ep) @ [pkt_of (x_cfg x) (e_conn ep) h] \<rparr>,
        e_fp = e_fp ep, e_sends = Suc (e_sends ep) \<rparr>
    \<and> carries [] False h \<and> sg_data h = [] \<and> sg_flags h = TH_ACK \<and> sg_window h = htons (st_recv_window (e_st ep))
    \<and> ntohl (sg_ackno h) = st_ackno (e_st ep) + of_nat (length (sg_data g))"
proof -
  let ?sg = "wire_seg cfg g" and ?msg = "sg_data g"
  note sg = wire_plain [OF g(5), of cfg]
  have l: "length ?msg \<le> 1440" using g(1) by (simp add: carries_def)
  let ?e = "st_upd (\<lambda>s. s\<lparr> st_output := Some ?msg, st_output_len := int (length ?msg), st_ackno := st_ackno s + of_int (int (length ?msg)) \<rparr>) ep"
  let ?c = "(e_conn ep)\<lparr> c_wr := ws, c_out := c_out (e_conn ep) @ ?msg \<rparr>"
  let ?e1 = "?e\<lparr> e_st := (e_st ?e)\<lparr> st_output := None, st_output_len := 0 \<rparr>, e_conn := ?c \<rparr>"
  have space: "conn_bufspace (e_conn ep) = 8192" using c(1) by (simp add: conn_bufspace_def)
  have out: "conn_output (e_conn ep) ?msg = Inr (int (length ?msg), ?c)"
    using c g(2,3) space by (simp add: conn_output_def closed_def c_write_def Let_def min_def)
  have o: "e_conn ?e = e_conn ep" "st_output_len (e_st ?e) = int (length ?msg)" "st_output (e_st ?e) = Some ?msg" by simp_all
  have co: "ctcp_output ?e = Inr ?e1"
    unfolding ctcp_output_def Let_def o using space l g(2) out by simp
  obtain h where h: "make_seg (st_ackno (e_st ?e1)) (st_next_seqno (e_st ?e1)) ACK (st_recv_window (e_st ?e1)) [] = Inr h"
    "sg_data h = []" "sg_len h = htons (of_nat (48 + length []))" "sg_flags h = TH_ACK" "sg_window h = htons (st_recv_window (e_st ep))"
    "ntohl (sg_ackno h) = st_ackno (e_st ep) + of_nat (length ?msg)"
    using make_seg_eq [of "[]" "st_ackno (e_st ?e1)" "st_next_seqno (e_st ?e1)" ACK "st_recv_window (e_st ?e1)"] by auto
  then have ch: "carries [] False h" by (simp add: carries_def)
  let ?b = "?e1\<lparr> e_conn := ?c\<lparr> c_net := c_net (e_conn ep) @ [pkt_of (x_cfg x) ?c h] \<rparr>, e_sends := Suc (e_sends ep) \<rparr>"
  have "ep_send x ?e1 h (48 + length (sg_data h)) = Inr (?e1\<lparr> e_conn := (e_conn ?e1)\<lparr> c_net := c_net (e_conn ?e1) @
    [pkt_of (x_cfg x) (e_conn ?e1) h] \<rparr>, e_sends := Suc (e_sends ?e1) \<rparr>)"
    by (rule ep_send_clean) (use c(3) e(2) h(2) in simp_all)
  then have ack: "ctcp_send_ack x ?e1 = Inr ?b"
    using h(1) unat_len_seg [OF ch] by (simp add: ctcp_send_ack_def Let_def)
  have win: "\<not> st_ackno (e_st ep) + ucast (st_recv_window (e_st ep)) < st_ackno (e_st ep)"
    using window_opens [OF s(3), of "st_recv_window (e_st ep)"] by (cases "st_recv_window (e_st ep) = 0") simp_all
  have rd: "receive_data x ep ?sg (int (length ?msg)) = Inr (?b, True)"
    using g(2,4) sg(3,4) space l win co ack by (simp add: receive_data_def Let_def)
  have "receive_ack x ?b ?sg = Inr (?b, True)" using s(1,2) by (simp add: receive_ack_def Let_def front_seg_def)
  moreover have "receive_fin x ?b ?sg = Inr ?b" using sg(1) by (simp add: receive_fin_def)
  ultimately have "ctcp_receive x ep ?sg (48 + length ?msg) = Inr ?b" using rd by (simp add: ctcp_receive_def)
  moreover have "pkt_of (x_cfg x) ?c h = pkt_of (x_cfg x) (e_conn ep) h" using pkt_of_ids [of ?c "e_conn ep"] by (simp add: ids_def)
  ultimately show ?thesis using packet_received [OF g(1) e(1)] ch h(2,4-6)
    by (intro exI [of _ h]) (cases "e_st ep", simp)
qed


text \<open>Both for new connections.\<close>

lemma fresh_read:
  assumes "fresh_conn c" "c_in c = RData msg # rs" "msg \<noteq> []" "length msg \<le> 1439" "\<not> c_delete_me c" "\<not> c_read_eof c"
    and "\<forall>i. no_fault (x_env x i)" "x_now x > 0" "cfg_send_window (x_cfg x) \<noteq> 0"
    and "eof_char_mode (x_cfg x) \<longrightarrow> hd msg \<noteq> 0x1a"
  shows "\<exists>a g. ctcp_read x (opened (x_cfg x) t c) = Inr a \<and> c_net (e_conn a) = [pkt_of (x_cfg x) c g]
    \<and> carries msg False g \<and> sg_data g = msg \<and> ntohl (sg_seqno g) = 1 \<and> sg_flags g = TH_ACK \<and> ntohl (sg_ackno g) = 1"
proof -
  let ?b = "init_bbr t bbr_calloc" and ?o = "opened (x_cfg x) t c"
  have o: "e_conn ?o = c" "st_bbr (e_st ?o) = ?b" "e_fp ?o = Some []" "st_read_finish (e_st ?o) = 0"
    "st_next_seqno (e_st ?o) = 1" "st_seqno (e_st ?o) = 1" "st_send_window (e_st ?o) = cfg_send_window (x_cfg x)" "st_ackno (e_st ?o) = 1"
    by (simp_all add: opened_def ctcp_init_state_def)
  have w: "st_next_seqno (e_st ?o) < st_seqno (e_st ?o) + ucast (st_send_window (e_st ?o))"
    unfolding o by (rule window_opens) (use assms(9) in simp_all)
  have "bbr_bdp ?b = Inr 0" "\<not> bbr_window_full ?b 0"
    using f_of_int_small [of 0 DOUBLE] f_of_int_small [of 0 SINGLE]
    by (simp_all add: bbr_bdp_def bbr_window_full_def init_bbr_def bbr_calloc_def to_long_def trunc_def)
  moreover have "bbr_next_send (x_now x) (?b\<lparr> inflight := i \<rparr>) n = Inr (x_now x)" for n i
    using f_of_int_small [of 2 SINGLE] by (simp add: bbr_next_send_def init_bbr_def Let_def f_is_zero_def)
  moreover have "nextSendTime ?b < x_now x" using assms(8) by (simp add: init_bbr_def)
  ultimately obtain g a where a: "ctcp_read x ?o = Inr a" "c_net (e_conn a) = c_net c @ [pkt_of (x_cfg x) c g]"
    and g: "sg_len g = htons (of_nat (48 + length msg))" "sg_data g = msg" "ntohl (sg_seqno g) = 1" "sg_flags g = TH_ACK" "ntohl (sg_ackno g) = 1"
    using clean_read [of ?o msg rs x ?b 0 "x_now x" "[]"] assms w by (auto simp: o)
  have "carries msg False g" using g assms(4) by (auto simp: carries_def intro!: exI [of _ 0])
  then show ?thesis using a g assms(1) by (intro exI [of _ a] exI [of _ g]) (simp add: fresh_conn_def)
qed

lemma fresh_receive:
  assumes "fresh_conn c" "c_wr c = WTake n # ws" "length msg \<le> n" "msg \<noteq> []" "\<not> c_delete_me c"
    and "\<forall>i. no_fault (x_env x i)"
    and g: "carries msg False g" "sg_data g = msg" "ntohl (sg_seqno g) = 1" "sg_flags g = TH_ACK" and "peers c d"
  shows "\<exists>b. ep_packet x (opened cfg t c) (pkt_of cfg' d g) = Inr b \<and> c_out (e_conn b) = msg
    \<and> st_ackno (e_st b) = 1 + of_nat (length msg)
    \<and> (\<exists>h. c_net (e_conn b) = [pkt_of (x_cfg x) c h] \<and> carries [] False h \<and> sg_data h = [])"
proof -
  let ?o = "opened cfg t c"
  have o: "e_conn ?o = c" "st_segments (e_st ?o) = []" "st_FIN_sent (e_st ?o) = 0" "st_ackno (e_st ?o) = 1"
    by (simp_all add: opened_def ctcp_init_state_def)
  have c: "c_out_queue c = []" "\<not> closed c" "c_net c = []" "c_out c = []" using assms(1) by (simp_all add: fresh_conn_def)
  then show ?thesis
    using clean_receive [of ?o n ws msg False g d x cfg'] assms by (auto simp: o)
qed

section \<open>The properties\<close>

text \<open>
  C3. Nothing but the other host's input is ever output: two hosts are connected, each has up to
  \<open>2 ^ 32 - 3\<close> bytes of input, in whatever pieces it comes and whenever it ends; packets may be
  dropped, duplicated, delayed and reordered at will, timers fire and outputs block at
  any time. Then at every moment, what a host has written is a prefix of what the other
  was given to send: nothing is lost in between, repeated, reordered or invented.
\<close>

theorem ctcp_output_prefix:
  assumes "exchange cA cB (opened cA tA connA) (opened cB tB connB) a b"
    "fresh_conn connA" "fresh_conn connB" "peers connA connB" "peers connB connA"
    "length (in_bytes (c_in connA)) + 2 < 2 ^ 32" "length (in_bytes (c_in connB)) + 2 < 2 ^ 32"
  shows "(\<exists>r. in_bytes (c_in connA) = c_out (e_conn b) @ r) \<and> (\<exists>r. in_bytes (c_in connB) = c_out (e_conn a) @ r)"
  using exchange_reach_inv [OF assms(1) opened_inv [OF assms(2-5)] assms(6,7)]
  by (meson exchange_outputs exchange_inv_sym)

section \<open>Witnesses\<close>

text \<open>A host reads two bytes, the packet arrives at the other, and is written.\<close>

definition ex_cfg :: sys_config where
  "ex_cfg = \<lparr> my_ip = 0x0100007f, my_port = 9999, cfg_recv_window = 1440, cfg_send_window = 1440,
     cfg_rt_timeout = 200, run_program = False, unix_socket = False, eof_char_mode = False \<rparr>"

definition ex_conn :: "u32 \<Rightarrow> u32 \<Rightarrow> read_result list \<Rightarrow> conn" where
  "ex_conn mine theirs i = \<lparr> c_ip_addr = 0x0100007f, c_port = 8888, c_init_seqno = mine, c_their_init_seqno = theirs,
     c_seqno = 0, c_next_seqno = 0, c_ackno = 0, c_read_eof = False, c_wrote_eof = False, c_wrote_err = False,
     c_delete_me = False, c_out_queue = [], c_pollout = False, c_in = i, c_wr = [WTake 5], c_out = [], c_net = [] \<rparr>"

definition ex_ctx :: ctx where
  "ex_ctx = \<lparr> x_cfg = ex_cfg, x_env = (\<lambda>_. \<lparr> se_fault = (\<lambda>_ _. False), se_rand = (\<lambda>_. 0), se_fails = (\<lambda>_. False) \<rparr>), x_now = 1000 \<rparr>"

definition ex_a :: conn where "ex_a = ex_conn 7 100 [RData [104, 105]]"
definition ex_b :: conn where "ex_b = ex_conn 100 7 []"

lemma ex_conns:
  "fresh_conn ex_a" "fresh_conn ex_b" "peers ex_a ex_b" "peers ex_b ex_a" "\<not> c_delete_me ex_a" "\<not> c_delete_me ex_b"
  "\<not> c_read_eof ex_a" "c_in ex_a = [RData [104, 105]]" "c_in ex_b = []" "c_wr ex_b = [WTake 5]"
  by (simp_all add: ex_a_def ex_b_def ex_conn_def fresh_conn_def peers_def closed_def)

lemma ex_env: "\<forall>i. no_fault (x_env ex_ctx i)" "\<forall>i. no_corrupt (x_env ex_ctx i)" "0 < x_now ex_ctx"
  "x_cfg ex_ctx = ex_cfg" "cfg_send_window ex_cfg \<noteq> 0" "\<not> eof_char_mode ex_cfg"
  by (simp_all add: ex_ctx_def ex_cfg_def no_fault_def no_corrupt_def)

lemma ex_exchange:
  "\<exists>a b. exchange ex_cfg ex_cfg (opened ex_cfg 990 ex_a) (opened ex_cfg 990 ex_b) a b \<and> c_out (e_conn b) = [104, 105]"
proof -
  obtain a g where a: "ctcp_read ex_ctx (opened ex_cfg 990 ex_a) = Inr a" "c_net (e_conn a) = [pkt_of ex_cfg ex_a g]"
    and g: "carries [104, 105] False g" "sg_data g = [104, 105]" "ntohl (sg_seqno g) = 1" "sg_flags g = TH_ACK"
    using fresh_read [OF ex_conns(1,8) _ _ ex_conns(5,7) ex_env(1,3), of 990] ex_env(4-6) by auto
  obtain b where b: "ep_packet ex_ctx (opened ex_cfg 990 ex_b) (pkt_of ex_cfg ex_a g) = Inr b" "c_out (e_conn b) = [104, 105]"
    using fresh_receive [OF ex_conns(2,10) _ _ ex_conns(6) ex_env(1) g ex_conns(4), of ex_cfg 990 ex_cfg] by auto
  have "host_step ex_cfg (c_net (e_conn (opened ex_cfg 990 ex_b))) (opened ex_cfg 990 ex_a) a"
    by (rule host_step.input [OF a(1) ex_env(4,2)])
  then have "exchange ex_cfg ex_cfg (opened ex_cfg 990 ex_a) (opened ex_cfg 990 ex_b) a (opened ex_cfg 990 ex_b)"
    by (rule exchange.left [OF exchange.start])
  moreover have "host_step ex_cfg (c_net (e_conn a)) (opened ex_cfg 990 ex_b) b"
    by (rule host_step.packet [OF b(1) _ ex_env(4,2)]) (simp add: a(2))
  ultimately show ?thesis using exchange.right b(2) by blast
qed

theorem ctcp_output_prefix_witness:
  "\<exists>a b r. exchange ex_cfg ex_cfg (opened ex_cfg 990 ex_a) (opened ex_cfg 990 ex_b) a b
    \<and> c_out (e_conn b) = [104, 105] \<and> in_bytes (c_in ex_a) = c_out (e_conn b) @ r"
proof -
  obtain a b where ab: "exchange ex_cfg ex_cfg (opened ex_cfg 990 ex_a) (opened ex_cfg 990 ex_b) a b"
    "c_out (e_conn b) = [104, 105]" using ex_exchange by blast
  have "\<exists>r. in_bytes (c_in ex_a) = c_out (e_conn b) @ r"
    using ctcp_output_prefix [OF ab(1) ex_conns(1-4)] by (simp add: ex_conns ab(2))
  with ab show ?thesis by blast
qed

end
