(* ===== verification/CtcpSpec.thy ===== *)
theory CtcpSpec
  imports Exchange
begin

text \<open>
  Properties of the parts of cTCP beside the exchange of a stream: the translation of segments
  to packets and back, the output of a connection over any use, and what the code does where it goes
  wrong, or gives up.
\<close>

section \<open>The translation\<close>


lemma pkt_tcp_sum: "(pkt_tcp cfg dst s)\<lparr> th_sum := x, th_sum := 0 \<rparr> = pkt_tcp cfg dst s"
  by (simp add: pkt_tcp_def)

text \<open>
  C33. The TCP checksum of the packet is right exactly when the checksum of the segment is. \<^verbatim>\<open>ctcp_send_data\<close>
  and \<^verbatim>\<open>ctcp_send_fin\<close> compute the latter before they fill in the times, which it covers.
\<close>

theorem wire_cksum_right:
  assumes "length (sg_data s) \<le> 1440"
  shows "\<exists>p h. convert_to_datagram cfg dst s (48 + int (length (sg_data s))) = Inr p \<and> load_tcp p IP_HDR_SIZE = Inr h
    \<and> (cksum_tcp (take 20 p @ tcp_bytes (h\<lparr> th_sum := 0 \<rparr>) @ drop 40 p) (of_nat (length (sg_data s))) = Inr (th_sum h)
       \<longleftrightarrow> sg_cksum s = cksum (seg_bytes (s\<lparr> sg_cksum := 0 \<rparr>)))"
proof -
  let ?p = "pkt_of cfg dst s" and ?base = "pkt_tcp cfg dst s"
  let ?T = "tcp_sum (my_ip cfg) (c_ip_addr dst) ?base (sg_data s)"
  let ?h = "?base\<lparr> th_sum := ?T + (seg_sum s - sg_cksum s) \<rparr>"
  have w: "T = T + (a - b) \<longleftrightarrow> b = a" for T a b :: u16 by auto
  have p: "?p = pkt_ip (my_ip cfg) (c_ip_addr dst) (length (sg_data s)) @ tcp_bytes ?h @ sg_data s" by (simp add: pkt_of_def Let_def)
  have l: "load_tcp ?p IP_HDR_SIZE = Inr ?h" unfolding p by (simp add: load_tcp_def read_bytes_def)
  have e: "take 20 ?p @ tcp_bytes (?h\<lparr> th_sum := 0 \<rparr>) @ drop 40 ?p =
      pkt_ip (my_ip cfg) (c_ip_addr dst) (length (sg_data s)) @ tcp_bytes ?base @ sg_data s @ []"
    unfolding pkt_tcp_sum by (simp add: p)
  have "cksum_tcp (take 20 ?p @ tcp_bytes (?h\<lparr> th_sum := 0 \<rparr>) @ drop 40 ?p) (of_nat (length (sg_data s))) = Inr ?T"
    unfolding e by (rule cksum_tcp_eq [OF assms])
  then have "cksum_tcp (take 20 ?p @ tcp_bytes (?h\<lparr> th_sum := 0 \<rparr>) @ drop 40 ?p) (of_nat (length (sg_data s))) = Inr (th_sum ?h)
      \<longleftrightarrow> sg_cksum s = seg_sum s" by (simp add: w eq_commute [of "sg_cksum s"])
  then show ?thesis using convert_to_datagram_eq [OF assms] l unfolding seg_sum_def by blast
qed

section \<open>The output of a connection\<close>

text \<open>
  Any use of an output: \<open>offered\<close> is what \<^verbatim>\<open>conn_output\<close> was called with, each time no more than
  \<^verbatim>\<open>conn_bufspace\<close> had announced, between calls of \<^verbatim>\<open>conn_drain\<close>.
\<close>

inductive conn_run :: "conn \<Rightarrow> bytes \<Rightarrow> conn \<Rightarrow> bool" for c0 :: conn where
  start: "conn_run c0 [] c0"
| put: "conn_run c0 offered c \<Longrightarrow> length b \<le> conn_bufspace c \<Longrightarrow> conn_output c b = Inr (n, c') \<Longrightarrow> conn_run c0 (offered @ b) c'"
| drain: "conn_run c0 offered c \<Longrightarrow> conn_drain c = (c', call) \<Longrightarrow> conn_run c0 offered c'"

lemma conn_run_follows: "conn_run c0 offered c \<Longrightarrow> fresh_conn c0 \<Longrightarrow> sink.follows c offered"
proof (induction rule: conn_run.induct)
  case start
  then have "queue_ok c0" "outs c0 = []" by (simp_all add: fresh_conn_def queue_ok_def outs_def)
  then show ?case by (simp add: follows_conn)
next
  case (put offered c b n c')
  then have "conn_put c b c'" unfolding conn_put_def by blast
  then show ?case using sink.follows_put put by blast
next
  case (drain offered c c' call)
  then have "conn_flush c c'" unfolding conn_flush_def by blast
  then show ?case using sink.follows_flush drain by blast
qed

text \<open>
  C13. The output of a connection is a stream: however the calls of \<^verbatim>\<open>conn_output\<close> and
  \<^verbatim>\<open>conn_drain\<close> interleave and however much each \<^verbatim>\<open>write\<close> takes, what has been written is a prefix of what was
  offered; as long as no error and no end of file closed the output, the rest is what
  the queue holds, so \<^verbatim>\<open>conn_bufspace\<close> and the bytes still to be written add up to the limit of 8192.
\<close>

theorem conn_output_stream:
  assumes "conn_run c0 offered c" "fresh_conn c0"
  shows "(\<exists>r. offered = c_out c @ r \<and> (\<not> closed c \<longrightarrow> r = concat (map (\<lambda>ck. drop (ck_used ck) (ck_buf ck)) (c_out_queue c))
    \<and> (length r \<le> 8192 \<longrightarrow> conn_bufspace c + length r = 8192)))"
proof -
  note f = conn_run_follows [OF assms]
  then obtain r where r: "offered = outs c @ r" "\<not> closed c \<longrightarrow> r = []" "queue_ok c" by (auto simp: follows_conn)
  then show ?thesis
    using bufspace_pending [OF r(3)]
    by (intro exI [of _ "pending (c_out_queue c) @ r"]) (auto simp: outs_def pending_def)
qed

section \<open>Closing\<close>

definition pure_ack :: "ctcp_segment \<Rightarrow> bool" where
  "pure_ack sg \<longleftrightarrow> sg_data sg = [] \<and> ntohl (sg_flags sg) AND ACK \<noteq> 0"

lemma receive_fin_ack:
  assumes "pure_ack sg" "st_FIN_sent (e_st ep) = 1" "ntohl (sg_ackno sg) = st_seqno (e_st ep) + 1"
  shows "ctcp_receive x ep sg 48 = bnd (remove_front (st_upd (\<lambda>s. s\<lparr> st_FIN_received := 1 \<rparr>) ep)) Inr"
proof -
  have "receive_data x ep sg 0 = Inr (ep, True)" by (simp add: receive_data_def Let_def)
  then show ?thesis using assms
    by (cases "remove_front (st_upd (\<lambda>s. s\<lparr> st_FIN_received := 1 \<rparr>) ep)")
      (simp_all add: ctcp_receive_def receive_ack_def Let_def pure_ack_def)
qed

text \<open>
  A duplicated acknowledgement of the FIN is fatal: the first takes the FIN, the last
  segment, off the queue; the second finds the same flags and the same numbers, and dereferences the front of the
  empty list.
\<close>

theorem ctcp_receive_second_fin_ack:
  assumes "pure_ack sg" "st_FIN_sent (e_st ep) = 1" "ntohl (sg_ackno sg) = st_seqno (e_st ep) + 1"
    and "st_segments (e_st ep) = [fin_seg]"
  shows "\<exists>ep'. ctcp_receive x ep sg 48 = Inr ep' \<and> st_segments (e_st ep') = [] \<and> st_FIN_received (e_st ep') = 1
    \<and> ctcp_receive y ep' sg 48 = Inl NullDeref"
proof -
  let ?ep = "st_upd (\<lambda>s. s\<lparr> st_segments := tl (st_segments s), st_retrans_count := 0 \<rparr>)
    (st_upd (\<lambda>s. s\<lparr> st_FIN_received := 1 \<rparr>) ep)"
  have 1: "ctcp_receive x ep sg 48 = Inr ?ep"
    unfolding receive_fin_ack [OF assms(1-3)] using assms(4) by (simp add: remove_front_def front_seg_def)
  have "ctcp_receive y ?ep sg 48 = Inl NullDeref"
  proof -
    have "st_FIN_sent (e_st ?ep) = 1" "ntohl (sg_ackno sg) = st_seqno (e_st ?ep) + 1" using assms by simp_all
    note r = receive_fin_ack [OF assms(1) this]
    show ?thesis unfolding r using assms(4) by (simp add: remove_front_def front_seg_def)
  qed
  with 1 assms(4) show ?thesis by (intro exI [of _ ?ep]) simp
qed

text \<open>When the timer has nothing to close and something is outstanding, all depends on the timeout.\<close>

definition outstanding :: "endpoint \<Rightarrow> bool" where
  "outstanding ep \<longleftrightarrow> st_segments (e_st ep) \<noteq> [] \<and> st_get_all_ack (e_st ep) = 0 \<and> \<not> c_delete_me (e_conn ep)
     \<and> (\<forall>s\<in>set (st_segments (e_st ep)). length (sg_data s) \<le> 1440 \<and> sg_len s = htons (of_nat (48 + length (sg_data s))))"

definition timed_out :: "ctx \<Rightarrow> endpoint \<Rightarrow> bool" where
  "timed_out x ep \<longleftrightarrow> x_now x - st_current_time (e_st ep) > st_rt_timeout (e_st ep)"

lemma timer_outstanding:
  assumes "outstanding ep" "timed_out x ep"
  shows "timer_ep x ep = (if st_retrans_count (e_st ep) \<le> RETRANSMIT_LIMIT
    then bnd (timer_retransmit x ep) (\<lambda>ep. Inr (ep, False)) else Inr (ep, True))"
  using assms by (simp add: timer_ep_def timer_fin_def Let_def outstanding_def timed_out_def)

text \<open>A retransmission, as far as the next one is concerned.\<close>

lemma timer_retransmit_sent:
  assumes "outstanding ep" "\<forall>i. no_corrupt (x_env x i)" "bbr_bdp (st_bbr (e_st ep)) = Inr bdp"
  shows "\<exists>c g i. let s = e_st ep; ep' = ep\<lparr> e_st := s\<lparr> st_retrans_count := st_retrans_count s + 1, st_current_time := x_now x,
        st_segments := g # tl (st_segments s) \<rparr>, e_conn := c, e_sends := Suc (e_sends ep) \<rparr> in
      sends (x_cfg x) (e_conn ep) g c \<and> sg_data g = sg_data (hd (st_segments s)) \<and> sg_seqno g = sg_seqno (hd (st_segments s))
      \<and> sg_len g = sg_len (hd (st_segments s)) \<and> timer_retransmit x ep = (case e_fp ep of None \<Rightarrow> Inl UseAfterFree
        | Some l \<Rightarrow> Inr (st_upd (\<lambda>s. s\<lparr> st_bbr := (st_bbr s)\<lparr> inflight := i \<rparr> \<rparr>) (ep'\<lparr> e_fp := Some (l @ [(x_now x, bdp * 8)]) \<rparr>)))"
proof -
  let ?s = "e_st ep"
  obtain h q where hq: "st_segments ?s = h # q" using assms(1) by (cases "st_segments ?s") (auto simp: outstanding_def)
  let ?g = "h\<lparr> sg_sendtime := x_now x, sg_delivered := b_delivered (st_bbr ?s), sg_delivered_time := b_delivered_time (st_bbr ?s) \<rparr>"
  have l: "length (sg_data ?g) \<le> 1440" "sg_len ?g = htons (of_nat (48 + length (sg_data ?g)))" "\<not> c_delete_me (e_conn ep)"
    using assms(1) hq by (auto simp: outstanding_def)
  let ?e = "ep\<lparr> e_st := ?s\<lparr> st_retrans_count := st_retrans_count ?s + 1, st_current_time := x_now x, st_segments := ?g # q \<rparr> \<rparr>"
  obtain r c where c: "conn_send (x_cfg x) (x_env x (e_sends ep)) (e_conn ep) ?g (48 + length (sg_data ?g)) = Inr (r, c)"
    "sends (x_cfg x) (e_conn ep) ?g c"
    using conn_send_sends [OF refl l(1) _ l(3), of "x_env x (e_sends ep)"] assms(2) by blast
  have s: "ep_send x ?e ?g (unat (ntohs (sg_len ?g))) = Inr (?e\<lparr> e_conn := c, e_sends := Suc (e_sends ep) \<rparr>)"
    unfolding len_of_seg [OF l(1,2)] using c(1) by (simp add: ep_send_def)
  show ?thesis
    using c(2) hq s assms(3)
    by (intro exI [of _ c] exI [of _ ?g] exI [of _ "inflight (st_bbr ?s) + int (unat (ntohs (sg_len ?g)))"])
      (simp add: Let_def timer_retransmit_def front_seg_def log_bdp_def split: option.split)
qed

lemma timer_fin_sent:
  assumes "st_read_finish (e_st ep) = 1" "st_get_all_ack (e_st ep) = 1" "st_FIN_sent (e_st ep) = 0"
    and "st_segments (e_st ep) = []" "\<not> c_delete_me (e_conn ep)" "\<forall>i. no_corrupt (x_env x i)" "e_fp ep = Some l"
  shows "\<exists>c g. timer_fin x ep = Inr (ep\<lparr> e_st := (e_st ep)\<lparr> st_segments := [g], st_get_all_ack := 0, st_FIN_sent := 1 \<rparr>,
      e_conn := c, e_fp := None, e_sends := Suc (e_sends ep) \<rparr>) \<and> sends (x_cfg x) (e_conn ep) g c
      \<and> sg_data g = [] \<and> sg_len g = htons 48"
proof -
  obtain h where h: "make_seg (st_ackno (e_st ep)) (st_next_seqno (e_st ep)) FIN (st_recv_window (e_st ep)) [] = Inr h"
      "sg_data h = []" "sg_len h = htons (of_nat (48 + length []))"
    using make_seg_eq [of "[]"] by fastforce
  let ?g = "h\<lparr> sg_delivered_time := x_now x \<rparr>"
  obtain r c where c: "conn_send (x_cfg x) (x_env x (e_sends ep)) (e_conn ep) ?g 48 = Inr (r, c)" "sends (x_cfg x) (e_conn ep) ?g c"
    using conn_send_sends [of 48 ?g "x_env x (e_sends ep)" "e_conn ep" "x_cfg x"] assms(5,6) h(2) by auto
  show ?thesis
    using assms h c by (intro exI [of _ c] exI [of _ ?g]) (simp add: timer_fin_def ctcp_send_fin_def ep_send_def Let_def)
qed

text \<open>
  Closing a connection that is older than the retransmission timeout: the call of the timer that sends
  the FIN and closes the log file goes on to retransmit the FIN at once, because the time it measures from is that of
  the last retransmission, and prints the bandwidth-delay product into the closed file.
\<close>

theorem ctcp_timer_prints_after_close:
  assumes "st_read_finish (e_st ep) = 1" "st_get_all_ack (e_st ep) = 1" "st_FIN_sent (e_st ep) = 0"
    and "st_segments (e_st ep) = []" "\<not> c_delete_me (e_conn ep)" "\<forall>i. no_corrupt (x_env x i)"
    and "x_now x - st_current_time (e_st ep) > st_rt_timeout (e_st ep)" "st_retrans_count (e_st ep) \<le> 5"
    and "bbr_bdp (st_bbr (e_st ep)) = Inr bdp" "e_fp ep = Some l"
  shows "\<exists>ep'. timer_fin x ep = Inr ep' \<and> st_FIN_sent (e_st ep') = 1 \<and> timer_ep x ep = Inl UseAfterFree"
proof -
  obtain c g where t: "timer_fin x ep = Inr (ep\<lparr> e_st := (e_st ep)\<lparr> st_segments := [g], st_get_all_ack := 0, st_FIN_sent := 1 \<rparr>,
      e_conn := c, e_fp := None, e_sends := Suc (e_sends ep) \<rparr>)" and c: "sends (x_cfg x) (e_conn ep) g c"
    and g: "sg_data g = []" "sg_len g = htons 48" using timer_fin_sent [OF assms(1-6,10)] by blast
  let ?e = "ep\<lparr> e_st := (e_st ep)\<lparr> st_segments := [g], st_get_all_ack := 0, st_FIN_sent := 1 \<rparr>,
      e_conn := c, e_fp := None, e_sends := Suc (e_sends ep) \<rparr>"
  have "c_delete_me c = c_delete_me (e_conn ep)" using c by (auto simp: sends_def)
  then have o: "outstanding ?e" using g assms(5) by (simp add: outstanding_def)
  have "timer_fin x ?e = Inr ?e" by (simp add: timer_fin_def)
  then have "timer_ep x ep = timer_ep x ?e" using t by (simp add: timer_ep_def)
  also have "\<dots> = bnd (timer_retransmit x ?e) (\<lambda>ep. Inr (ep, False))"
    using timer_outstanding [OF o, of x] assms(7,8) by (simp add: timed_out_def)
  also have "\<dots> = Inl UseAfterFree"
    using timer_retransmit_sent [OF o assms(6), of bdp] assms(9) by (auto simp: Let_def)
  finally show ?thesis using t by simp
qed

section \<open>Giving up\<close>

text \<open>The timer fires at the times of \<open>xs\<close>, until the connection is destroyed.\<close>

fun timer_run :: "ctx list \<Rightarrow> endpoint \<Rightarrow> (endpoint \<times> bool) res" where
  "timer_run [] ep = Inr (ep, False)"
| "timer_run (x # xs) ep = bnd (timer_ep x ep) (\<lambda>(ep, dead). if dead then Inr (ep, True) else timer_run xs ep)"

fun spaced :: "int \<Rightarrow> int \<Rightarrow> ctx list \<Rightarrow> bool" where
  "spaced d t [] \<longleftrightarrow> True"
| "spaced d t (x # xs) \<longleftrightarrow> x_now x - t > d \<and> spaced d (x_now x) xs"

lemma timer_retransmits:
  assumes "outstanding ep" "\<forall>i. no_corrupt (x_env x i)" "bbr_bdp (st_bbr (e_st ep)) = Inr bdp" "e_fp ep = Some l"
    and "timed_out x ep" "st_retrans_count (e_st ep) \<le> 5"
  shows "\<exists>ep' l'. timer_ep x ep = Inr (ep', False) \<and> outstanding ep' \<and> bbr_bdp (st_bbr (e_st ep')) = Inr bdp
    \<and> e_fp ep' = Some l' \<and> st_retrans_count (e_st ep') = st_retrans_count (e_st ep) + 1
    \<and> st_current_time (e_st ep') = x_now x \<and> st_rt_timeout (e_st ep') = st_rt_timeout (e_st ep)
    \<and> map sg_data (st_segments (e_st ep')) = map sg_data (st_segments (e_st ep))"
proof -
  let ?s = "e_st ep"
  obtain h q where hq: "st_segments ?s = h # q" using assms(1) by (cases "st_segments ?s") (auto simp: outstanding_def)
  obtain c g i where g: "sends (x_cfg x) (e_conn ep) g c" "sg_data g = sg_data h" "sg_len g = sg_len h"
    and r: "timer_retransmit x ep = Inr (st_upd (\<lambda>s. s\<lparr> st_bbr := (st_bbr s)\<lparr> inflight := i \<rparr> \<rparr>)
      (ep\<lparr> e_st := ?s\<lparr> st_retrans_count := st_retrans_count ?s + 1, st_current_time := x_now x, st_segments := g # q \<rparr>,
        e_conn := c, e_sends := Suc (e_sends ep), e_fp := Some (l @ [(x_now x, bdp * 8)]) \<rparr>))" (is "_ = Inr ?e")
    using timer_retransmit_sent [OF assms(1-3)] assms(4) hq by (auto simp: Let_def)
  have "timer_ep x ep = Inr (?e, False)"
    using timer_outstanding [OF assms(1,5)] assms(6) r by simp
  moreover have "c_delete_me c = c_delete_me (e_conn ep)" using g(1) by (auto simp: sends_def)
  then have "outstanding ?e" using assms(1) hq g by (simp add: outstanding_def)
  moreover have "bbr_bdp (st_bbr (e_st ?e)) = Inr bdp" using assms(3) by (simp add: bbr_bdp_def)
  ultimately show ?thesis using hq g(2) by (intro exI [of _ ?e]) simp
qed

lemma timer_run_steps:
  assumes "outstanding ep" "\<forall>x\<in>set xs. \<forall>i. no_corrupt (x_env x i)" "bbr_bdp (st_bbr (e_st ep)) = Inr bdp" "e_fp ep = Some l"
    and "spaced (st_rt_timeout (e_st ep)) (st_current_time (e_st ep)) xs"
    and "st_retrans_count (e_st ep) = int k" "k \<le> 6"
  shows "\<exists>ep'. timer_run xs ep = Inr (ep', k + length xs > 6) \<and> st_retrans_count (e_st ep') = int (min 6 (k + length xs))
    \<and> map sg_data (st_segments (e_st ep')) = map sg_data (st_segments (e_st ep))"
  using assms
proof (induction xs arbitrary: ep k l)
  case Nil then show ?case by simp
next
  case (Cons x xs)
  have t: "timed_out x ep" using Cons.prems(5) by (simp add: timed_out_def)
  show ?case
  proof (cases "k = 6")
    case True
    then have "timer_ep x ep = Inr (ep, True)"
      using timer_outstanding [OF Cons.prems(1) t] Cons.prems(6) by simp
    then show ?thesis using True Cons.prems(6) by simp
  next
    case False
    then have k: "st_retrans_count (e_st ep) \<le> 5" using Cons.prems(6,7) by simp
    have nc: "\<forall>i. no_corrupt (x_env x i)" using Cons.prems(2) by simp
    from timer_retransmits [OF Cons.prems(1) nc Cons.prems(3,4) t k] obtain e1 l1 where
      e1: "timer_ep x ep = Inr (e1, False)" "outstanding e1" "bbr_bdp (st_bbr (e_st e1)) = Inr bdp" "e_fp e1 = Some l1"
        "st_retrans_count (e_st e1) = st_retrans_count (e_st ep) + 1" "st_current_time (e_st e1) = x_now x"
        "st_rt_timeout (e_st e1) = st_rt_timeout (e_st ep)"
        "map sg_data (st_segments (e_st e1)) = map sg_data (st_segments (e_st ep))" by blast
    have "\<exists>ep'. timer_run xs e1 = Inr (ep', Suc k + length xs > 6) \<and> st_retrans_count (e_st ep') = int (min 6 (Suc k + length xs))
        \<and> map sg_data (st_segments (e_st ep')) = map sg_data (st_segments (e_st e1))"
      by (rule Cons.IH [OF e1(2) _ e1(3,4)]) (use Cons.prems e1 False in simp_all)
    then show ?thesis using e1(1,8) by simp
  qed
qed


section \<open>A slow reader\<close>

lemma drain_loop_outputted: "snd (drain_loop c q True)"
proof (induction q arbitrary: c)
  case (Cons ck q)
  then show ?case by (simp add: Let_def split: prod.split wrote.split)
qed simp

lemma conn_drain_calls:
  assumes "queue_ok c" "c_out_queue c \<noteq> []" "c_wr c = WTake n # ws" "0 < n" "\<not> closed c" "\<not> c_delete_me c"
  shows "snd (conn_drain c)"
proof -
  let ?c = "c\<lparr> c_pollout := False \<rparr>"
  obtain ck q where q: "c_out_queue c = ck # q" using assms(2) by (cases "c_out_queue c") auto
  obtain d b where d: "drain_loop ?c (c_out_queue c) False = (d, b)" by fastforce
  have "same_io ?c d" using drain_loop_outs [OF _ d] assms(1) by (simp add: queue_ok_def)
  then have del: "\<not> c_delete_me d" using assms(6) by (simp add: same_io_def)
  have "b"
  proof -
    have "snd (drain_loop ?c (ck # q) False)"
      using assms(3) drain_loop_outputted by (simp add: c_write_def Let_def)
    then show ?thesis using d q by simp
  qed
  then show ?thesis using d del assms(5) by (simp add: conn_drain_def Let_def closed_def)
qed

lemma conn_output_eof: "\<not> c_delete_me c \<Longrightarrow> \<exists>n c'. conn_output c [] = Inr (n, c') \<and> c_wrote_eof c' \<and> outs c' = outs c \<and> same_io c c'"
  by (cases "c_wrote_eof c") (simp_all add: conn_output_def outs_def same_io_def)

lemma ctcp_send_ack_total:
  assumes "\<forall>i. no_corrupt (x_env x i)" "\<not> c_delete_me (e_conn ep)"
  shows "\<exists>ep'. ctcp_send_ack x ep = Inr ep' \<and> e_st ep' = e_st ep \<and> outs (e_conn ep') = outs (e_conn ep)"
proof -
  obtain g where g: "make_seg (st_ackno (e_st ep)) (st_next_seqno (e_st ep)) ACK (st_recv_window (e_st ep)) [] = Inr g"
    "sg_data g = []" "sg_len g = htons (of_nat (48 + length []))"
    using make_seg_eq [of "[]"] by fastforce
  obtain r c where c: "conn_send (x_cfg x) (x_env x (e_sends ep)) (e_conn ep) g 48 = Inr (r, c)" "sends (x_cfg x) (e_conn ep) g c"
    using conn_send_sends [of 48 g "x_env x (e_sends ep)" "e_conn ep" "x_cfg x"] assms g(2) by auto
  moreover have "outs c = outs (e_conn ep)" using c(2) by (auto simp: sends_def outs_def)
  ultimately show ?thesis using g by (simp add: ctcp_send_ack_def ep_send_def Let_def)
qed

text \<open>
  C40. A slow reader loses data: as soon as the queue of a blocked output can be drained a little, \<^verbatim>\<open>conn_drain\<close>
  calls \<^verbatim>\<open>ctcp_output\<close>, which has nothing to write and so records an end of file. From then on
  segments that arrive in order are acknowledged, and what they carry is dropped.
\<close>

theorem ctcp_slow_reader_loses_data:
  assumes "queue_ok (e_conn ep)" "c_out_queue (e_conn ep) \<noteq> []" "c_wr (e_conn ep) = WTake n # ws" "0 < n"
    and "\<not> closed (e_conn ep)" "\<not> c_delete_me (e_conn ep)" "st_output_len (e_st ep) = 0"
  shows "\<exists>ep'. ep_drain ep = Inr ep' \<and> st_ackno (e_st ep') = st_ackno (e_st ep)
    \<and> (\<forall>x sg. (\<forall>i. no_corrupt (x_env x i)) \<longrightarrow> sg_data sg \<noteq> [] \<longrightarrow> ntohl (sg_seqno sg) = st_ackno (e_st ep)
       \<longrightarrow> \<not> st_ackno (e_st ep) > st_ackno (e_st ep) + ucast (st_recv_window (e_st ep))
       \<longrightarrow> length (sg_data sg) \<le> conn_bufspace (e_conn ep') \<longrightarrow>
       (\<exists>ep''. receive_data x ep' sg (int (length (sg_data sg))) = Inr (ep'', True)
         \<and> st_ackno (e_st ep'') = st_ackno (e_st ep) + of_nat (length (sg_data sg)) \<and> outs (e_conn ep'') = outs (e_conn ep)))"
proof -
  let ?c = "e_conn ep"
  obtain c where c: "conn_drain ?c = (c, True)"
    using conn_drain_calls [OF assms(1-6)] by (metis prod.collapse)
  have f: "outs c = outs ?c" "same_io ?c c" using conn_drain_outs [OF assms(1) c] by simp_all
  then have del: "\<not> c_delete_me c" using assms(6) by (simp add: same_io_def)
  then obtain k d where d: "conn_output c [] = Inr (k, d)" "c_wrote_eof d" "outs d = outs c" "same_io c d"
    using conn_output_eof by blast
  let ?e = "ep\<lparr> e_st := (e_st ep)\<lparr> st_output := None, st_output_len := 0 \<rparr>, e_conn := d \<rparr>"
  have dr: "ep_drain ep = Inr ?e" using c d(1) assms(7) by (simp add: ep_drain_def ctcp_output_def Let_def)
  have dd: "\<not> c_delete_me d" using del d(4) by (simp add: same_io_def)
  have "\<exists>ep''. receive_data x ?e sg (int (length (sg_data sg))) = Inr (ep'', True)
         \<and> st_ackno (e_st ep'') = st_ackno (e_st ep) + of_nat (length (sg_data sg)) \<and> outs (e_conn ep'') = outs ?c"
    if h: "\<forall>i. no_corrupt (x_env x i)" "sg_data sg \<noteq> []" "ntohl (sg_seqno sg) = st_ackno (e_st ep)"
       "\<not> st_ackno (e_st ep) > st_ackno (e_st ep) + ucast (st_recv_window (e_st ep))"
       "length (sg_data sg) \<le> conn_bufspace d" for x sg
  proof -
    let ?n = "length (sg_data sg)"
    let ?f = "st_upd (\<lambda>s. s\<lparr> st_output := Some (sg_data sg), st_output_len := int ?n, st_ackno := st_ackno s + of_int (int ?n) \<rparr>) ?e"
    let ?g = "?f\<lparr> e_st := (e_st ?f)\<lparr> st_output := None, st_output_len := 0 \<rparr> \<rparr>"
    have "conn_output d (sg_data sg) = Inr (0, d)" using d(2) dd by (simp add: conn_output_def)
    then have o: "ctcp_output ?f = Inr ?g" using h(2,5) by (simp add: ctcp_output_def Let_def)
    have "\<not> c_delete_me (e_conn ?g)" using dd by simp
    from ctcp_send_ack_total [OF h(1) this] obtain ep'' where
      a: "ctcp_send_ack x ?g = Inr ep''" "e_st ep'' = e_st ?g" "outs (e_conn ep'') = outs (e_conn ?g)" by blast
    have "receive_data x ?e sg (int ?n) = Inr (ep'', True)"
      using h(2-5) o a(1) by (simp add: receive_data_def Let_def)
    then show ?thesis using a(2,3) d(3) f(1) by simp
  qed
  then show ?thesis using dr by (intro exI [of _ ?e]) simp
qed

section \<open>Witnesses\<close>

definition ex_seg :: ctcp_segment where
  "ex_seg = (seg_calloc 0)\<lparr> sg_len := htons 50, sg_flags := TH_ACK, sg_data := [1, 2] \<rparr>"

lemma ex_seg: "wire_ok ex_seg" "sg_data ex_seg = [1, 2]" "sg_len ex_seg = htons 50"
  by (simp_all add: wire_ok_def ex_seg_def)


theorem wire_cksum_right_witness:
  "\<exists>p h. convert_to_datagram ex_cfg ex_b ex_seg 50 = Inr p \<and> load_tcp p IP_HDR_SIZE = Inr h
    \<and> (cksum_tcp (take 20 p @ tcp_bytes (h\<lparr> th_sum := 0 \<rparr>) @ drop 40 p) 2 = Inr (th_sum h)
      \<longleftrightarrow> sg_cksum ex_seg = cksum (seg_bytes (ex_seg\<lparr> sg_cksum := 0 \<rparr>)))"
  using wire_cksum_right [of ex_seg ex_cfg ex_b] by (simp add: ex_seg(2))

lemma ex_run: "\<exists>c. conn_run ex_b [1, 2, 3, 4, 5, 6, 7] c \<and> c_out c = [1, 2, 3, 4, 5] \<and> \<not> closed c"
proof -
  let ?c = "ex_b\<lparr> c_wr := [], c_out := [1, 2, 3, 4, 5], c_out_queue := [\<lparr> ck_size = 2, ck_used = 0, ck_buf = [6, 7] \<rparr>], c_pollout := True \<rparr>"
  have "conn_output ex_b [1, 2, 3, 4, 5, 6, 7] = Inr (7, ?c)"
    by (simp add: ex_b_def ex_conn_def conn_output_def conn_bufspace_def c_write_def Let_def)
  moreover have "length [1, 2, 3, 4, 5, 6, 7 :: byte] \<le> conn_bufspace ex_b"
    by (simp add: ex_b_def ex_conn_def conn_bufspace_def)
  ultimately have "conn_run ex_b ([] @ [1, 2, 3, 4, 5, 6, 7]) ?c" using conn_run.put [OF conn_run.start] by blast
  moreover have "\<not> closed ?c" by (simp add: closed_def ex_b_def ex_conn_def)
  ultimately show ?thesis by (intro exI [of _ ?c]) simp
qed

theorem conn_output_stream_witness:
  "\<exists>c r. conn_run ex_b [1, 2, 3, 4, 5, 6, 7] c \<and> c_out c = [1, 2, 3, 4, 5] \<and> [1, 2, 3, 4, 5, 6, 7] = c_out c @ r
    \<and> conn_bufspace c + length r = 8192"
proof -
  obtain c where c: "conn_run ex_b [1, 2, 3, 4, 5, 6, 7] c" "c_out c = [1, 2, 3, 4, 5]" "\<not> closed c" using ex_run by blast
  from conn_output_stream [OF c(1) ex_conns(2)] obtain r where
    r: "[1, 2, 3, 4, 5, 6, 7] = c_out c @ r" "\<not> closed c \<longrightarrow>
      r = concat (map (\<lambda>ck. drop (ck_used ck) (ck_buf ck)) (c_out_queue c)) \<and> (length r \<le> 8192 \<longrightarrow> conn_bufspace c + length r = 8192)"
    by (elim exE conjE)
  have "r = [6, 7]" using r(1) c(2) by simp
  moreover have "length r \<le> 8192 \<longrightarrow> conn_bufspace c + length r = 8192" using mp [OF r(2) c(3)] by (rule conjunct2)
  ultimately have "conn_bufspace c + length r = 8192" by simp
  with c(1,2) r(1) show ?thesis by (intro exI [of _ c] exI [of _ r] conjI)
qed

definition ex_ep :: "ctcp_segment list \<Rightarrow> endpoint" where
  "ex_ep gs = (let ep = opened ex_cfg 100 ex_a in ep\<lparr> e_st := (e_st ep)\<lparr> st_segments := gs \<rparr> \<rparr>)"

lemma bdp_init: "bbr_bdp (init_bbr t bbr_calloc) = Inr 0"
  using f_of_int_small [of 0 DOUBLE] by (simp add: bbr_bdp_def init_bbr_def bbr_calloc_def to_long_def trunc_def)

lemma ex_ep: "st_segments (e_st (ex_ep gs)) = gs" "st_seqno (e_st (ex_ep gs)) = 1" "st_ackno (e_st (ex_ep gs)) = 1"
  "st_current_time (e_st (ex_ep gs)) = 100" "st_rt_timeout (e_st (ex_ep gs)) = 200" "st_retrans_count (e_st (ex_ep gs)) = 0"
  "st_get_all_ack (e_st (ex_ep gs)) = 0" "st_FIN_sent (e_st (ex_ep gs)) = 0" "e_fp (ex_ep gs) = Some []" "e_conn (ex_ep gs) = ex_a"
  "bbr_bdp (st_bbr (e_st (ex_ep gs))) = Inr 0" "st_output_len (e_st (ex_ep gs)) = 0" "st_recv_window (e_st (ex_ep gs)) = 1440"
  by (simp_all add: ex_ep_def opened_def ctcp_init_state_def ex_cfg_def bdp_init)

theorem ctcp_receive_second_fin_ack_witness:
  "\<exists>ep'. ctcp_receive ex_ctx ((ex_ep [ex_seg])\<lparr> e_st := (e_st (ex_ep [ex_seg]))\<lparr> st_FIN_sent := 1 \<rparr> \<rparr>)
      ((seg_calloc 0)\<lparr> sg_flags := TH_ACK, sg_ackno := htonl 2 \<rparr>) 48 = Inr ep'
    \<and> ctcp_receive ex_ctx ep' ((seg_calloc 0)\<lparr> sg_flags := TH_ACK, sg_ackno := htonl 2 \<rparr>) 48 = Inl NullDeref"
proof -
  let ?sg = "(seg_calloc 0)\<lparr> sg_flags := TH_ACK, sg_ackno := htonl 2 \<rparr>"
  let ?ep = "(ex_ep [ex_seg])\<lparr> e_st := (e_st (ex_ep [ex_seg]))\<lparr> st_FIN_sent := 1 \<rparr> \<rparr>"
  have "ntohl TH_ACK AND ACK \<noteq> 0" by (simp add: ACK_def)
  then have a: "pure_ack ?sg" by (simp add: pure_ack_def seg_calloc_def calloc_def)
  have "st_FIN_sent (e_st ?ep) = 1" "ntohl (sg_ackno ?sg) = st_seqno (e_st ?ep) + 1" "st_segments (e_st ?ep) = [ex_seg]"
    by (simp_all add: ex_ep)
  from ctcp_receive_second_fin_ack [OF a this, of ex_ctx ex_ctx] show ?thesis by blast
qed

theorem ctcp_timer_prints_after_close_witness:
  "timer_ep ex_ctx ((ex_ep [])\<lparr> e_st := (e_st (ex_ep []))\<lparr> st_read_finish := 1, st_get_all_ack := 1 \<rparr> \<rparr>) = Inl UseAfterFree"
proof -
  let ?ep = "(ex_ep [])\<lparr> e_st := (e_st (ex_ep []))\<lparr> st_read_finish := 1, st_get_all_ack := 1 \<rparr> \<rparr>"
  have now: "x_now ex_ctx = 1000" by (simp add: ex_ctx_def)
  have "\<exists>ep'. timer_fin ex_ctx ?ep = Inr ep' \<and> st_FIN_sent (e_st ep') = 1 \<and> timer_ep ex_ctx ?ep = Inl UseAfterFree"
    by (rule ctcp_timer_prints_after_close [where l = "[]" and bdp = 0]) (use ex_env(2) in \<open>simp_all add: ex_ep ex_conns now\<close>)
  then show ?thesis by blast
qed

lemma ex_outstanding: "outstanding (ex_ep [ex_seg])"
  by (simp add: outstanding_def ex_ep ex_conns ex_seg)


theorem ctcp_slow_reader_loses_data_witness:
  "\<exists>ep' ep''. ep_drain ((ex_ep [])\<lparr> e_conn := ex_b\<lparr> c_out_queue := [\<lparr> ck_size = 2, ck_used = 0, ck_buf = [6, 7] \<rparr>] \<rparr> \<rparr>) = Inr ep'
    \<and> receive_data ex_ctx ep' (ex_seg\<lparr> sg_seqno := htonl 1 \<rparr>) 2 = Inr (ep'', True)
    \<and> st_ackno (e_st ep'') = 3 \<and> outs (e_conn ep'') = [6, 7]"
proof -
  let ?c = "ex_b\<lparr> c_out_queue := [\<lparr> ck_size = 2, ck_used = 0, ck_buf = [6, 7] \<rparr>] \<rparr>"
  let ?ep = "(ex_ep [])\<lparr> e_conn := ?c \<rparr>" and ?sg = "ex_seg\<lparr> sg_seqno := htonl 1 \<rparr>"
  have q: "queue_ok ?c" "outs ?c = [6, 7]" by (simp_all add: queue_ok_def chunk_ok_def outs_def ex_b_def ex_conn_def)
  have "closed ?c = closed ex_b" by (simp add: closed_def)
  then have n: "\<not> closed ?c" using ex_conns(2) by (simp add: fresh_conn_def)
  have w: "\<not> (1 :: u32) > 1 + ucast (1440 :: u16)" by simp
  obtain ep' where dr: "ep_drain ?ep = Inr ep'" and a: "\<And>x sg. \<forall>i. no_corrupt (x_env x i) \<Longrightarrow> sg_data sg \<noteq> []
      \<Longrightarrow> ntohl (sg_seqno sg) = st_ackno (e_st ?ep) \<Longrightarrow> \<not> st_ackno (e_st ?ep) > st_ackno (e_st ?ep) + ucast (st_recv_window (e_st ?ep))
      \<Longrightarrow> length (sg_data sg) \<le> conn_bufspace (e_conn ep') \<Longrightarrow>
       \<exists>ep''. receive_data x ep' sg (int (length (sg_data sg))) = Inr (ep'', True)
         \<and> st_ackno (e_st ep'') = st_ackno (e_st ?ep) + of_nat (length (sg_data sg)) \<and> outs (e_conn ep'') = outs (e_conn ?ep)"
    using ctcp_slow_reader_loses_data [of ?ep 5 "[]"] q n by (auto simp: ex_conns ex_ep)
  have "conn_bufspace (e_conn ep') = 8192"
    using dr by (auto simp: ep_drain_def conn_drain_def c_write_def ctcp_output_def conn_output_def conn_bufspace_def
      ex_b_def ex_conn_def ex_ep Let_def)
  then show ?thesis
    using dr a [of ex_ctx ?sg] ex_env(2) q(2) w by (simp add: ex_ep ex_seg)
qed

end
