(* ===== verification/CtcpSafe.thy ===== *)
theory CtcpSafe
  imports CtcpSpec
begin

text \<open>
  That the transport does not get stuck. The properties of \<open>Exchange\<close> are about handlers that return; here
  it is shown when they do: until a host sends its FIN, and as long as its handlers run in different
  milliseconds, none of them commits a memory fault, prints to a closed file or converts a number that has no
  integer value. The congestion control stays in the range where its floating-point arithmetic is defined.
\<close>

section \<open>The range of the congestion control\<close>

definition rate_ok :: "ctcp_bbr \<Rightarrow> bool" where
  "rate_ok b \<longleftrightarrow> bbr_inv b \<and> bw_inv b \<and> (\<exists>q. max_btlbw b = Fin q \<and> (q = 0 \<or> 2 powi -24 \<le> q) \<and> q \<le> 2 ^ 24)
     \<and> 0 \<le> min_rtt_us b \<and> min_rtt_us b \<le> 2 ^ 24 \<and> (\<forall>r\<in>set (RTpropFilter b). 0 \<le> r)"

lemma rate_ok_upd [simp]: "rate_ok (b\<lparr> inflight := n \<rparr>) = rate_ok b" "rate_ok (b\<lparr> nextSendTime := t \<rparr>) = rate_ok b"
  by (simp_all add: rate_ok_def bbr_inv_def bw_inv_def)

lemma rate_ok_init: "rate_ok (init_bbr now bbr_calloc)"
  using bbr_reach_inv [OF bbr_reach.start]
  by (simp add: rate_ok_def bw_inv_def init_bbr_def bbr_calloc_def)

lemma rate_ok_bdp:
  assumes "rate_ok b" shows "\<exists>n. bbr_bdp b = Inr n \<and> 0 \<le> n"
proof -
  obtain q where q: "max_btlbw b = Fin q" "0 \<le> q" "q \<le> 2 ^ 24" using assms by (auto simp: rate_ok_def bw_inv_def)
  have m: "0 \<le> min_rtt_us b" "min_rtt_us b \<le> 2 ^ 24" using assms by (simp_all add: rate_ok_def)
  have "f_of_int DOUBLE (min_rtt_us b) = Fin (of_int (min_rtt_us b))" using m f_of_int_small [of "min_rtt_us b" DOUBLE] by simp
  moreover have "(of_int (min_rtt_us b) :: rat) \<le> of_int (2 ^ 24)" using m(2) by (simp only: of_int_le_iff)
  then have "q * of_int (min_rtt_us b) \<le> 2 ^ 24 * of_int (2 ^ 24)" using q m(1) by (intro mult_mono) simp_all
  then have r: "rnd DOUBLE (q * of_int (min_rtt_us b)) \<le> of_int (2 ^ 48)"
    using q(2) m(1) by (intro rnd_le_int) simp_all
  have "0 \<le> rnd DOUBLE (q * of_int (min_rtt_us b))" using q(2) m(1) by simp
  then have "0 \<le> trunc (rnd DOUBLE (q * of_int (min_rtt_us b)))" "trunc (rnd DOUBLE (q * of_int (min_rtt_us b))) \<le> 2 ^ 48"
    using r by (simp_all add: trunc_def floor_le_iff)
  ultimately show ?thesis using q(1) by (simp add: bbr_bdp_def to_long_def)
qed

lemma rate_ok_next_send:
  assumes "rate_ok b" "0 \<le> n" "n \<le> 2 ^ 24" "0 \<le> now" "now \<le> 2 ^ 52"
  shows "\<exists>t. bbr_next_send now b n = Inr t"
proof -
  obtain q where q: "max_btlbw b = Fin q" "q = 0 \<or> 2 powi -24 \<le> q" "q \<le> 2 ^ 24" using assms(1) by (auto simp: rate_ok_def)
  have "\<exists>g. pacing_gain b = Fin g \<and> g \<in> {0, 1, 2}"
    using assms(1) by (cases "bbr_mode_of b") (auto simp: rate_ok_def bbr_inv_def split: if_splits)
  moreover have "2 powi - int 24 = (2 powi -24 :: rat)" "n * 2 ^ 24 \<le> 2 ^ 48" using assms(3) by simp_all
  ultimately show ?thesis using bbr_next_send_ok [of b _ q 24] q assms(2,4,5) by metis
qed

lemma rate_ok_onAck:
  assumes "rate_ok b"
    and d: "0 \<le> b_delivered b + int (unat (ntohs (sg_len g))) - 48 - sg_delivered g"
      "b_delivered b + int (unat (ntohs (sg_len g))) - 48 - sg_delivered g \<le> 2 ^ 24"
    and t: "sg_delivered_time g < now" "now - sg_delivered_time g \<le> 2 ^ 24"
  shows "\<exists>b'. bbr_onAck now b g = Inr b' \<and> rate_ok b' \<and> b_delivered b' = b_delivered b + int (unat (ntohs (sg_len g))) - 48
    \<and> b_delivered_time b' = now \<and> inflight b' = inflight b \<and> nextSendTime b' = nextSendTime b
    \<and> max_btlbw b' = (if f_less (max_btlbw b) (Fin (on_ack_rate now b g)) then Fin (on_ack_rate now b g) else max_btlbw b)"
proof -
  have inv: "bbr_inv b" "bw_inv b" using assms(1) by (simp_all add: rate_ok_def)
  from bbr_onAck_ok [OF inv d t] obtain b' where b': "bbr_onAck now b g = Inr b'" "bbr_inv b'" "bw_inv b'"
    "RTpropFilter b' = tl (RTpropFilter b) @ [now - sg_delivered_time g]" "min_rtt_us b' = Min (set (RTpropFilter b'))"
    "b_delivered b' = b_delivered b + int (unat (ntohs (sg_len g))) - 48" "inflight b' = inflight b" "nextSendTime b' = nextSendTime b"
    "b_delivered_time b' = now"
    "max_btlbw b' = (if f_less (max_btlbw b) (Fin (on_ack_rate now b g)) then Fin (on_ack_rate now b g) else max_btlbw b)" by blast
  note r = on_ack_rate_bounds [OF d t]
  have f: "\<forall>r\<in>set (RTpropFilter b'). 0 \<le> r"
    using assms(1) t(1) unfolding b'(4) by (cases "RTpropFilter b") (auto simp: rate_ok_def)
  have "now - sg_delivered_time g \<in> set (RTpropFilter b')" by (simp add: b'(4))
  then have "min_rtt_us b' \<le> 2 ^ 24" "0 \<le> min_rtt_us b'"
    using f t(2) unfolding b'(5) by (auto intro: order_trans [OF Min_le]) (subst Min_ge_iff, auto)
  moreover have "\<exists>q. max_btlbw b' = Fin q \<and> (q = 0 \<or> 2 powi -24 \<le> q) \<and> q \<le> 2 ^ 24"
    using assms(1) r(2,3) unfolding b'(10) by (auto simp: rate_ok_def)
  ultimately show ?thesis using b' f by (intro exI [of _ b']) (simp add: rate_ok_def)
qed

section \<open>The condition on an endpoint\<close>

text \<open>
  At time \<open>t\<close>, for a connection opened at \<open>t0\<close>: the log file is open, the bytes counted as delivered and those in the queue
  have all been read, and the stamps of the queue are not from the future.
\<close>

definition stamped :: "int \<Rightarrow> int \<Rightarrow> ctcp_bbr \<Rightarrow> ctcp_segment \<Rightarrow> bool" where
  "stamped t0 t b g \<longleftrightarrow> 0 \<le> sg_delivered g \<and> sg_delivered g \<le> b_delivered b \<and> t0 \<le> sg_delivered_time g \<and> sg_delivered_time g \<le> t"

definition queued :: "ctcp_segment list \<Rightarrow> int" where
  "queued gs = sum_list (map (\<lambda>g. int (length (sg_data g))) gs)"

definition paced :: "int \<Rightarrow> int \<Rightarrow> endpoint \<Rightarrow> bool" where
  "paced t0 t ep \<longleftrightarrow> \<not> c_delete_me (e_conn ep) \<and> e_fp ep \<noteq> None \<and> st_FIN_sent (e_st ep) = 0
     \<and> rate_ok (st_bbr (e_st ep)) \<and> t0 \<le> b_delivered_time (st_bbr (e_st ep)) \<and> b_delivered_time (st_bbr (e_st ep)) \<le> t
     \<and> 0 \<le> b_delivered (st_bbr (e_st ep)) \<and> (\<forall>g\<in>set (st_segments (e_st ep)). stamped t0 t (st_bbr (e_st ep)) g)
     \<and> b_delivered (st_bbr (e_st ep)) + queued (st_segments (e_st ep)) < int (unat (st_next_seqno (e_st ep)))"

lemma queued_simps [simp]: "queued [] = 0" "queued (g # gs) = int (length (sg_data g)) + queued gs" "queued (gs @ hs) = queued gs + queued hs"
  by (simp_all add: queued_def)

lemma queued_nonneg [simp]: "0 \<le> queued gs"
  by (induction gs) simp_all

lemma paced_cong:
  assumes "c_delete_me (e_conn ep') = c_delete_me (e_conn ep)" "e_fp ep' = e_fp ep" "st_FIN_sent (e_st ep') = st_FIN_sent (e_st ep)"
    "st_bbr (e_st ep') = st_bbr (e_st ep)" "st_segments (e_st ep') = st_segments (e_st ep)" "st_next_seqno (e_st ep') = st_next_seqno (e_st ep)"
  shows "paced t0 t ep' = paced t0 t ep"
  by (simp add: paced_def assms)

lemma paced_later: "paced t0 t ep \<Longrightarrow> t \<le> u \<Longrightarrow> paced t0 u ep"
  by (fastforce simp: paced_def stamped_def)

section \<open>The senders return\<close>

definition timely :: "int \<Rightarrow> int \<Rightarrow> ctx \<Rightarrow> bool" where
  "timely t0 t x \<longleftrightarrow> (\<forall>i. no_corrupt (x_env x i)) \<and> t < x_now x \<and> x_now x \<le> t0 + 2 ^ 24 \<and> 0 \<le> t0 \<and> x_now x \<le> 2 ^ 52"

lemma ep_send_ok:
  assumes "timely t0 t x" "\<not> c_delete_me (e_conn ep)" "length (sg_data g) \<le> 1440" "n = 48 + length (sg_data g)"
  shows "\<exists>ep'. ep_send x ep g n = Inr ep' \<and> e_st ep' = e_st ep \<and> e_fp ep' = e_fp ep \<and> \<not> c_delete_me (e_conn ep')
    \<and> (\<forall>u. paced t0 u ep' = paced t0 u ep)"
proof -
  have "no_corrupt (x_env x (e_sends ep))" using assms(1) by (simp add: timely_def)
  from conn_send_sends [OF assms(4,3) this assms(2)] obtain r c where
    c: "conn_send (x_cfg x) (x_env x (e_sends ep)) (e_conn ep) g n = Inr (r, c)" "sends (x_cfg x) (e_conn ep) g c" by blast
  have d: "c_delete_me c = c_delete_me (e_conn ep)" using c(2) by (auto simp: sends_def)
  let ?e = "ep\<lparr> e_conn := c, e_sends := Suc (e_sends ep) \<rparr>"
  have "paced t0 u ?e = paced t0 u ep" for u by (rule paced_cong) (simp_all add: d)
  then show ?thesis using c(1) d assms(2) by (intro exI [of _ ?e]) (simp add: ep_send_def)
qed

lemma ctcp_send_ack_ok:
  assumes "timely t0 t x" "\<not> c_delete_me (e_conn ep)"
  shows "\<exists>ep'. ctcp_send_ack x ep = Inr ep' \<and> e_st ep' = e_st ep \<and> e_fp ep' = e_fp ep \<and> \<not> c_delete_me (e_conn ep')
    \<and> (\<forall>u. paced t0 u ep' = paced t0 u ep)"
proof -
  obtain g where g: "make_seg (st_ackno (e_st ep)) (st_next_seqno (e_st ep)) ACK (st_recv_window (e_st ep)) [] = Inr g"
    "sg_data g = []" "sg_len g = htons (of_nat (48 + length []))"
    using make_seg_eq [of "[]"] by fastforce
  have "unat (ntohs (sg_len g)) = 48 + length (sg_data g)" unfolding g(2,3) htons_htons by (simp add: unat_u16)
  with ep_send_ok [OF assms, of g] g show ?thesis by (simp add: ctcp_send_ack_def Let_def)
qed

lemma log_bdp_ok:
  assumes "rate_ok (st_bbr (e_st ep))" "e_fp ep \<noteq> None"
  shows "\<exists>l. log_bdp x ep = Inr (ep\<lparr> e_fp := Some l \<rparr>)"
  using rate_ok_bdp [OF assms(1)] assms(2) by (auto simp: log_bdp_def)

text \<open>A segment that is put into the queue holds bytes that have just been read.\<close>

lemma enqueue_paced:
  assumes "paced t0 t ep" "length b \<le> 1440" "unat (st_next_seqno (e_st ep)) + length b < 2 ^ 32"
    and g: "sg_data g = b" "stamped t0 t (st_bbr (e_st ep)) g" and e: "e_st ep' = enqueue_data g (length b) s"
    and s: "st_FIN_sent s = 0" "st_segments s = st_segments (e_st ep)" "st_next_seqno s = st_next_seqno (e_st ep)" "rate_ok (st_bbr s)"
      "b_delivered (st_bbr s) = b_delivered (st_bbr (e_st ep))" "b_delivered_time (st_bbr s) = b_delivered_time (st_bbr (e_st ep))"
    and c: "\<not> c_delete_me (e_conn ep')" "e_fp ep' \<noteq> None"
  shows "paced t0 t ep'"
proof -
  have "unat (st_next_seqno (e_st ep) + of_nat (length b)) = unat (st_next_seqno (e_st ep)) + length b"
    using assms(2,3) unat_of_small [of "length b"] by (subst unat_plus_simple [THEN iffD1]) (simp_all add: word_le_nat_alt unat_word_ariths)
  then show ?thesis using assms(1) g c s unfolding paced_def e by (auto simp: enqueue_data_def stamped_def)
qed

lemma ctcp_send_data_ok:
  assumes "paced t0 t ep" "timely t0 t x" "length b \<le> 1440" "unat (st_next_seqno (e_st ep)) + length b < 2 ^ 32"
  shows "\<exists>ep'. ctcp_send_data x ep b now (b_delivered (st_bbr (e_st ep))) (b_delivered_time (st_bbr (e_st ep))) = Inr ep' \<and> paced t0 t ep'"
proof -
  let ?b = "st_bbr (e_st ep)"
  let ?a = "st_upd (\<lambda>s. s\<lparr> st_bbr := (st_bbr s)\<lparr> inflight := inflight (st_bbr s) + int (length b) \<rparr> \<rparr>) ep"
  note p = assms(1) [unfolded paced_def]
  obtain l where l: "log_bdp x ?a = Inr (?a\<lparr> e_fp := Some l \<rparr>)" using log_bdp_ok [of ?a x] p by auto
  let ?e = "?a\<lparr> e_fp := Some l \<rparr>"
  obtain g where g: "make_data_seg (e_st ?e) b = Inr g" "sg_data g = b" "sg_len g = htons (of_nat (48 + length b))"
    using make_data_seg_eq [OF assms(3), of "e_st ?e"] by blast
  let ?g = "g\<lparr> sg_sendtime := now, sg_delivered := b_delivered ?b, sg_delivered_time := b_delivered_time ?b \<rparr>"
  let ?q = "st_upd (enqueue_data ?g (length b)) ?e"
  have q: "paced t0 t ?q"
    by (rule enqueue_paced [OF assms(1,3,4), of ?g _ "e_st ?e"]) (use g p in \<open>simp_all add: stamped_def\<close>)
  have n: "unat (ntohs (sg_len ?g)) = 48 + length (sg_data ?g)" using len_of_seg [OF assms(3) g(3)] g(2) by simp
  have "\<not> c_delete_me (e_conn ?q)" using p by simp
  from ep_send_ok [OF assms(2) this _ n] obtain r where "ep_send x ?q ?g (unat (ntohs (sg_len ?g))) = Inr r" "paced t0 t r"
    using q assms(3) g(2) by auto
  then show ?thesis unfolding ctcp_send_data_def Let_def l bnd_Inr g(1) by blast
qed

lemma bbr_send_ok:
  assumes "paced t0 t ep" "timely t0 t x" "length b \<le> 1440" "unat (st_next_seqno (e_st ep)) + length b < 2 ^ 32"
  shows "\<exists>ep'. bbr_send x ep b = Inr ep' \<and> paced t0 t ep'"
proof -
  let ?b = "st_bbr (e_st ep)"
  note p = assms(1) [unfolded paced_def]
  obtain bdp where bdp: "bbr_bdp ?b = Inr bdp" using rate_ok_bdp p by blast
  consider (full) "bbr_window_full ?b bdp" | (go) "\<not> bbr_window_full ?b bdp" "x_now x > nextSendTime ?b"
    | (wait) "\<not> bbr_window_full ?b bdp" "\<not> x_now x > nextSendTime ?b" by blast
  then show ?thesis
  proof cases
    case full
    obtain g where g: "make_data_seg (e_st ep) b = Inr g" "sg_data g = b" "sg_delivered g = 0"
      using make_data_seg_eq [OF assms(3), of "e_st ep"] by blast
    let ?g = "g\<lparr> sg_delivered_time := b_delivered_time ?b \<rparr>"
    have "paced t0 t (st_upd (enqueue_data ?g (length b)) ep)"
      by (rule enqueue_paced [OF assms(1,3,4), of ?g]) (use g p in \<open>simp_all add: stamped_def\<close>)
    then show ?thesis using bdp full g(1) by (simp add: bbr_send_def Let_def)
  next
    case go
    from ctcp_send_data_ok [OF assms, of "x_now x"] obtain e where
      e: "ctcp_send_data x ep b (x_now x) (b_delivered ?b) (b_delivered_time ?b) = Inr e" "paced t0 t e" by blast
    then have "rate_ok (st_bbr (e_st e))" by (simp add: paced_def)
    moreover have "0 \<le> x_now x" "x_now x \<le> 2 ^ 52" using assms(1,2) by (auto simp: timely_def paced_def)
    ultimately obtain d where d: "bbr_next_send (x_now x) (st_bbr (e_st e)) (int (length b)) = Inr d"
      using rate_ok_next_send [of "st_bbr (e_st e)" "int (length b)"] assms(3) by auto
    have "paced t0 t (st_upd (\<lambda>s. s\<lparr> st_bbr := (st_bbr s)\<lparr> nextSendTime := d \<rparr> \<rparr>) e)"
      using e(2) by (simp add: paced_def stamped_def)
    then show ?thesis using bdp go e(1) d by (simp add: bbr_send_def Let_def)
  next
    case wait
    then show ?thesis using bdp assms(1) by (simp add: bbr_send_def Let_def)
  qed
qed

lemma conn_input_ok: "\<not> c_delete_me c \<Longrightarrow> \<exists>r c'. conn_input all ec c n = Inr (r, c')"
  by (auto simp: conn_input_def Let_def split: prod.split read_result.split list.split)

lemma ctcp_read_ok:
  assumes "paced t0 t ep" "timely t0 t x" "snd_inv (x_cfg x) input ep S" "length input + 2 < 2 ^ 32"
  shows "\<exists>ep'. ctcp_read x ep = Inr ep' \<and> paced t0 t ep'"
proof (cases "st_read_finish (e_st ep) = 1 \<or> x_now x \<le> nextSendTime (st_bbr (e_st ep))
    \<or> st_next_seqno (e_st ep) \<ge> st_seqno (e_st ep) + ucast (st_send_window (e_st ep))")
  case True
  then have "ctcp_read x ep = Inr ep" by (elim disjE) (simp_all add: ctcp_read_def Let_def)
  then show ?thesis using assms(1) by blast
next
  case False
  note p = assms(1) [unfolded paced_def]
  let ?all = "run_program (x_cfg x) \<or> unix_socket (x_cfg x)"
  obtain r c where rc: "conn_input ?all (eof_char_mode (x_cfg x)) (e_conn ep) MAX_SEG_DATA_SIZE = Inr (r, c)"
    using conn_input_ok p by blast
  let ?e = "ep\<lparr> e_conn := c \<rparr>"
  have e: "ctcp_read x ep = (case r of None \<Rightarrow> Inr (st_upd (\<lambda>s. s\<lparr> st_read_finish := 1 \<rparr>) ?e)
      | Some [] \<Rightarrow> Inr ?e | Some (b # bs) \<Rightarrow> bbr_send x ?e (b # bs))"
    using False rc by (simp add: ctcp_read_def Let_def)
  have d: "c_delete_me c = c_delete_me (e_conn ep)" by (rule conn_input_del [OF rc])
  have pe: "paced t0 t ?e" using assms(1) paced_cong [of ?e ep] d by simp
  show ?thesis
  proof (cases r)
    case None
    have "paced t0 t (st_upd (\<lambda>s. s\<lparr> st_read_finish := 1 \<rparr>) ?e) = paced t0 t ?e" by (rule paced_cong) simp_all
    then show ?thesis using e None pe by simp
  next
    case (Some b)
    show ?thesis
    proof (cases b)
      case Nil
      then show ?thesis using e Some pe by simp
    next
      case (Cons y ys)
      have b: "in_bytes (c_in (e_conn ep)) = b @ in_bytes (c_in c)" "length b \<le> 1440" using conn_input_frame [OF rc] Some by auto
      from assms(3) False have "unat (st_next_seqno (e_st ep)) = length S + 1" "input = S @ in_bytes (c_in (e_conn ep))"
        by (auto elim!: snd_invE)
      then have "unat (st_next_seqno (e_st ?e)) + length b < 2 ^ 32" using b(1) assms(4) by simp
      from bbr_send_ok [OF pe assms(2) b(2) this] show ?thesis using e Some Cons by simp
    qed
  qed
qed

section \<open>The receivers return\<close>

lemma conn_output_ok: "\<not> c_delete_me c \<Longrightarrow> \<exists>r c'. conn_output c b = Inr (r, c')"
  by (auto simp: conn_output_def Let_def split: prod.split)

lemma conn_put_deleted: "conn_put c b c' \<Longrightarrow> c_delete_me c' = c_delete_me c"
  by (auto simp: conn_put_def dest: conn_output_del)

lemma ctcp_output_ok:
  assumes "\<not> c_delete_me (e_conn ep)" "st_output_len (e_st ep) = int (length b)" "length b \<le> conn_bufspace (e_conn ep)"
    and "b \<noteq> [] \<Longrightarrow> st_output (e_st ep) = Some b"
  shows "\<exists>ep'. ctcp_output ep = Inr ep' \<and> (\<forall>u. paced t0 u ep' = paced t0 u ep) \<and> \<not> c_delete_me (e_conn ep')
    \<and> st_next_seqno (e_st ep') = st_next_seqno (e_st ep) \<and> st_FIN_sent (e_st ep') = st_FIN_sent (e_st ep)"
proof -
  have "(if st_output_len (e_st ep) = 0 then Inr []
      else bnd (deref (st_output (e_st ep))) (\<lambda>b. read_bytes b 0 (nat (st_output_len (e_st ep))))) = Inr b"
    using assms(2,4) by (cases "b = []") simp_all
  then have "\<exists>ep'. ctcp_output ep = Inr ep'"
    using conn_output_ok [OF assms(1), of b] assms(2,3) by (auto simp: ctcp_output_def Let_def)
  then obtain ep' where ep': "ctcp_output ep = Inr ep'" by blast
  from ctcp_output_put [OF this assms(2-4)] obtain c where
    c: "ep' = ep\<lparr> e_st := (e_st ep)\<lparr> st_output := None, st_output_len := 0 \<rparr>, e_conn := c \<rparr>" "conn_put (e_conn ep) b c" by blast
  have d: "c_delete_me c = c_delete_me (e_conn ep)" by (rule conn_put_deleted [OF c(2)])
  have "paced t0 u ep' = paced t0 u ep" for u by (rule paced_cong) (simp_all add: c(1) d)
  then show ?thesis using ep' d assms(1) by (simp add: c(1))
qed

lemma receive_data_ok:
  assumes "paced t0 t ep" "timely t0 t x" "st_output_len (e_st ep) = 0"
  shows "\<exists>ep' go. receive_data x ep sg (int (length (sg_data sg))) = Inr (ep', go) \<and> paced t0 t ep'"
proof -
  let ?n = "length (sg_data sg)" and ?s = "e_st ep" and ?c = "e_conn ep" and ?seq = "ntohl (sg_seqno sg)"
  have d: "\<not> c_delete_me ?c" using assms(1) by (simp add: paced_def)
  consider (none) "sg_data sg = [] \<or> ?seq < st_ackno ?s \<or> ?seq > st_ackno ?s + ucast (st_recv_window ?s)"
    | (take) "sg_data sg \<noteq> []" "?seq = st_ackno ?s" "conn_bufspace ?c \<ge> ?n" "\<not> ?seq < st_ackno ?s"
      "\<not> ?seq > st_ackno ?s + ucast (st_recv_window ?s)"
    | (ask) "sg_data sg \<noteq> []" "\<not> ?seq < st_ackno ?s" "\<not> ?seq > st_ackno ?s + ucast (st_recv_window ?s)"
      "\<not> (?seq = st_ackno ?s \<and> int (conn_bufspace ?c) \<ge> int ?n)" by fastforce
  then show ?thesis
  proof cases
    case none
    then show ?thesis using assms(1) by (auto simp: receive_data_def Let_def)
  next
    case ask
    from ctcp_send_ack_ok [OF assms(2) d] obtain r where "ctcp_send_ack x ep = Inr r" "paced t0 t r" using assms(1) by blast
    then show ?thesis using ask by (auto simp: receive_data_def Let_def)
  next
    case take
    let ?e = "st_upd (\<lambda>s. s\<lparr> st_output := Some (sg_data sg), st_output_len := int ?n, st_ackno := st_ackno s + of_int (int ?n) \<rparr>) ep"
    have e: "paced t0 t ?e" using assms(1) paced_cong [of ?e ep] by simp
    have "\<not> c_delete_me (e_conn ?e)" "st_output_len (e_st ?e) = int (length (sg_data sg))" "length (sg_data sg) \<le> conn_bufspace (e_conn ?e)"
      using take d by simp_all
    from ctcp_output_ok [OF this, of t0] obtain o1 where o1: "ctcp_output ?e = Inr o1" "paced t0 t o1" "\<not> c_delete_me (e_conn o1)"
      using e by auto
    from ctcp_send_ack_ok [OF assms(2) o1(3)] obtain r where "ctcp_send_ack x o1 = Inr r" "paced t0 t r" using o1(2) by blast
    then show ?thesis using take o1(1) by (intro exI [of _ r] exI [of _ True]) (simp add: receive_data_def Let_def)
  qed
qed

lemma seg_data_len:
  assumes "length (sg_data g) \<le> 1440" "sg_len g = htons (of_nat (48 + length (sg_data g)))"
  shows "unat (ntohs (sg_len g) - of_nat sizeof_segment) = length (sg_data g)"
proof -
  have u: "unat (ntohs (sg_len g)) = 48 + length (sg_data g)" by (rule len_of_seg [OF assms])
  have "(of_nat sizeof_segment :: u16) \<le> ntohs (sg_len g)" unfolding word_le_nat_alt u by simp
  then show ?thesis using u by (subst unat_sub) simp_all
qed

text \<open>The front of the queue leaves; \<open>b\<close> is the state of the congestion control then.\<close>

lemma remove_front_paced:
  assumes "paced t0 t ep" "st_segments (e_st ep) = g # q" "rate_ok b" "t0 \<le> b_delivered_time b" "b_delivered_time b \<le> u" "t \<le> u"
    and "b_delivered (st_bbr (e_st ep)) \<le> b_delivered b" "b_delivered b \<le> b_delivered (st_bbr (e_st ep)) + int (length (sg_data g))"
  shows "\<exists>ep'. remove_front (st_upd (\<lambda>s. s\<lparr> st_bbr := b \<rparr>) ep) = Inr ep' \<and> paced t0 u ep'"
  using assms by (fastforce simp: remove_front_def front_seg_def paced_def stamped_def)

lemma paced_window [simp]: "paced t0 t (st_upd (\<lambda>s. s\<lparr> st_seqno := n, st_send_window := w \<rparr>) ep) = paced t0 t ep"
  "paced t0 t (st_upd (\<lambda>s. s\<lparr> st_seqno := n \<rparr>) ep) = paced t0 t ep"
  by (rule paced_cong; simp)+

lemma receive_ack_ok:
  assumes "paced t0 t ep" "timely t0 t x" "snd_inv cfg input ep S" "length input \<le> 2 ^ 24"
  shows "\<exists>ep' go. receive_ack x ep sg = Inr (ep', go) \<and> paced t0 (x_now x) ep'"
proof -
  let ?ackno = "ntohl (sg_ackno sg)"
  have now: "t \<le> x_now x" using assms(2) by (simp add: timely_def)
  have later: "paced t0 (x_now x) ep" by (rule paced_later [OF assms(1) now])
  have nf: "st_FIN_sent (e_st ep) = 0" using assms(1) by (simp add: paced_def)
  show ?thesis
  proof (cases "ntohl (sg_flags sg) AND ACK = 0 \<or> st_segments (e_st ep) = []")
    case True
    then have "receive_ack x ep sg = Inr (ep, True)" using nf by (auto simp: receive_ack_def Let_def front_seg_def)
    then show ?thesis using later by blast
  next
    case False
    then obtain g q where gq: "st_segments (e_st ep) = g # q" by (cases "st_segments (e_st ep)") auto
    let ?b = "st_bbr (e_st ep)" and ?dl = "ntohs (sg_len g) - of_nat sizeof_segment"
    let ?exp = "ntohl (sg_seqno g) + ucast ?dl" and ?i = "?b\<lparr> inflight := inflight ?b - int (unat ?dl) \<rparr>"
    let ?e = "st_upd (\<lambda>s. s\<lparr> st_bbr := ?i \<rparr>) ep"
    have "carries S (st_read_finish (e_st ep) = 1) g" using assms(3) gq by (auto elim: snd_invE)
    then have l: "length (sg_data g) \<le> 1440" "sg_len g = htons (of_nat (48 + length (sg_data g)))" by (simp_all add: carries_def)
    note u = len_of_seg [OF l]
    have st: "stamped t0 t ?b g" "t0 \<le> b_delivered_time ?b" "b_delivered_time ?b \<le> t" "rate_ok ?b"
      "b_delivered ?b + queued (st_segments (e_st ep)) < int (unat (st_next_seqno (e_st ep)))"
      using assms(1) gq by (simp_all add: paced_def)
    have "unat (st_next_seqno (e_st ep)) \<le> length input + 1" using assms(3) by (auto elim!: snd_invE)
    then have "unat (st_next_seqno (e_st ep)) \<le> 16777217" using assms(4) by simp
    then have "b_delivered ?b + int (length (sg_data g)) \<le> 16777216"
      using st(5) queued_nonneg [of q] unfolding gq queued_simps by linarith
    then have total: "b_delivered ?b + int (length (sg_data g)) \<le> 2 ^ 24" by simp
    have r: "receive_ack x ep sg =
        (if ?exp = ?ackno then bnd (bbr_onAck (x_now x) ?i g) (\<lambda>b.
            bnd (remove_front (st_upd (\<lambda>s. s\<lparr> st_bbr := b \<rparr>) ep)) (\<lambda>ep.
              Inr (st_upd (\<lambda>s. s\<lparr> st_seqno := ?exp, st_send_window := ntohs (sg_window sg) \<rparr>) ep, True)))
         else if ?exp < ?ackno then bnd (remove_front ?e) (\<lambda>ep. Inr (st_upd (\<lambda>s. s\<lparr> st_seqno := ?exp \<rparr>) ep, True))
         else bnd (ep_send x ep g (unat (ntohs (sg_len g)))) (\<lambda>ep. Inr (ep, True)))"
      using False nf gq by (simp add: receive_ack_def Let_def front_seg_def)
    consider (hit) "?exp = ?ackno" | (larger) "?exp \<noteq> ?ackno" "?exp < ?ackno" | (smaller) "?exp \<noteq> ?ackno" "\<not> ?exp < ?ackno" by blast
    then show ?thesis
    proof cases
      case hit
      have t: "sg_delivered_time g < x_now x" "x_now x - sg_delivered_time g \<le> 2 ^ 24"
        using st(1) assms(2) by (simp_all add: stamped_def timely_def)
      have "rate_ok ?i" "0 \<le> b_delivered ?i + int (unat (ntohs (sg_len g))) - 48 - sg_delivered g"
        "b_delivered ?i + int (unat (ntohs (sg_len g))) - 48 - sg_delivered g \<le> 2 ^ 24"
        using st total by (simp_all add: u stamped_def)
      from rate_ok_onAck [OF this t] obtain b where b: "bbr_onAck (x_now x) ?i g = Inr b" "rate_ok b"
        "b_delivered b = b_delivered ?b + int (length (sg_data g))" "b_delivered_time b = x_now x" by (auto simp: u)
      have "t0 \<le> x_now x" using st(2,3) now by simp
      with remove_front_paced [OF assms(1) gq b(2) _ _ now] b(3,4)
      obtain e' where "remove_front (st_upd (\<lambda>s. s\<lparr> st_bbr := b \<rparr>) ep) = Inr e'" "paced t0 (x_now x) e'" by auto
      then show ?thesis unfolding r if_P [OF hit] b(1) bnd_Inr
        by (intro exI [of _ "st_upd (\<lambda>s. s\<lparr> st_seqno := ?exp, st_send_window := ntohs (sg_window sg) \<rparr>) e'"] exI [of _ True]) simp
    next
      case larger
      have "rate_ok ?i" "b_delivered ?b \<le> b_delivered ?i" "b_delivered ?i \<le> b_delivered ?b + int (length (sg_data g))"
        "t0 \<le> b_delivered_time ?i" "b_delivered_time ?i \<le> x_now x" using st now by simp_all
      from remove_front_paced [OF assms(1) gq this(1,4,5) now this(2,3)]
      obtain e' where "remove_front ?e = Inr e'" "paced t0 (x_now x) e'" by blast
      then show ?thesis unfolding r if_not_P [OF larger(1)] if_P [OF larger(2)]
        by (intro exI [of _ "st_upd (\<lambda>s. s\<lparr> st_seqno := ?exp \<rparr>) e'"] exI [of _ True]) simp
    next
      case smaller
      have "\<not> c_delete_me (e_conn ep)" using assms(1) by (simp add: paced_def)
      from ep_send_ok [OF assms(2) this l(1) u] obtain e' where "ep_send x ep g (unat (ntohs (sg_len g))) = Inr e'" "paced t0 (x_now x) e'"
        using later by blast
      then show ?thesis unfolding r if_not_P [OF smaller(1)] if_not_P [OF smaller(2)] by auto
    qed
  qed
qed

lemma receive_fin_ok:
  assumes "paced t0 t ep" "timely t0 u x"
  shows "\<exists>ep'. receive_fin x ep sg = Inr ep' \<and> paced t0 t ep'"
proof -
  let ?e = "st_upd (\<lambda>s. s\<lparr> st_FIN_received := 1 \<rparr>) ep"
  let ?f = "st_upd (\<lambda>s. s\<lparr> st_ackno := st_ackno s + 1 \<rparr>) ?e"
  have p: "paced t0 t ?e" "paced t0 t ?f" using assms(1) paced_cong [of ?e ep] paced_cong [of ?f ep] by simp_all
  have "\<not> c_delete_me (e_conn ?f)" using assms(1) by (simp add: paced_def)
  from ctcp_send_ack_ok [OF assms(2) this] obtain r where r: "ctcp_send_ack x ?f = Inr r" "paced t0 t r" "\<not> c_delete_me (e_conn r)"
    using p(2) by blast
  from conn_output_ok [OF r(3), of "[]"] obtain n c where c: "conn_output (e_conn r) [] = Inr (n, c)" by blast
  have "c_delete_me c = c_delete_me (e_conn r)" using conn_put_deleted c unfolding conn_put_def by blast
  then have "paced t0 t (st_upd (\<lambda>s. s\<lparr> st_all_recv_output := 1 \<rparr>) (r\<lparr> e_conn := c \<rparr>))"
    using r(2) paced_cong [of "st_upd (\<lambda>s. s\<lparr> st_all_recv_output := 1 \<rparr>) (r\<lparr> e_conn := c \<rparr>)" r] by simp
  then show ?thesis using r(1) c p(1) assms(1) by (simp add: receive_fin_def Let_def)
qed

lemma ctcp_receive_ok:
  assumes "paced t0 t ep" "timely t0 t x" "snd_inv (x_cfg x) input ep S" "length input \<le> 2 ^ 24"
    and "rcv_inv ep T" "arrives T fin sg" "length T + 2 < 2 ^ 32"
  shows "\<exists>ep'. ctcp_receive x ep sg (48 + length (sg_data sg)) = Inr ep' \<and> paced t0 (x_now x) ep'"
proof -
  have nc: "\<forall>i. no_corrupt (x_env x i)" and now: "t \<le> x_now x" using assms(2) by (simp_all add: timely_def)
  have "st_output_len (e_st ep) = 0" using assms(5) by (simp add: rcv_inv_def)
  from receive_data_ok [OF assms(1,2) this] obtain e1 g1 where
    e1: "receive_data x ep sg (int (length (sg_data sg))) = Inr (e1, g1)" "paced t0 t e1" by blast
  have n: "int (48 + length (sg_data sg)) - int sizeof_segment = int (length (sg_data sg))" by simp
  show ?thesis
  proof (cases g1)
    case False
    then show ?thesis using e1 paced_later [OF e1(2) now] unfolding ctcp_receive_def n by simp
  next
    case True
    have "snd_inv (x_cfg x) input e1 S" using receive_data_inv [OF e1(1) nc assms(3,5-7)] by blast
    from receive_ack_ok [OF e1(2) assms(2) this assms(4)] obtain e2 g2 where
      e2: "receive_ack x e1 sg = Inr (e2, g2)" "paced t0 (x_now x) e2" by blast
    show ?thesis
    proof (cases g2)
      case False
      then show ?thesis using e1(1) e2 True unfolding ctcp_receive_def n by simp
    next
      case g2: True
      from receive_fin_ok [OF e2(2) assms(2)] show ?thesis using e1(1) e2 True g2 unfolding ctcp_receive_def n by simp
    qed
  qed
qed

lemma ep_packet_ok:
  assumes "paced t0 t ep" "timely t0 t x" "snd_inv (x_cfg x) input ep S" "length input \<le> 2 ^ 24"
    and "rcv_inv ep T" "length T + 2 < 2 ^ 32" "p = pkt_of cfg c s" "carries T fin s" "peers (e_conn ep) c"
  shows "\<exists>ep'. ep_packet x ep p = Inr ep' \<and> paced t0 (x_now x) ep'"
proof -
  let ?sg = "wire_seg cfg s"
  have "convert_to_ctcp (e_conn ep) (p @ calloc (MAX_PACKET_SIZE - length p)) = Inr ?sg"
    unfolding assms(7) by (rule wire_roundtrip [OF carries_wire_ok [OF assms(8)] assms(9)])
  moreover have "length p - FULL_HDR_SIZE + sizeof_segment = 48 + length (sg_data ?sg)"
    by (simp add: assms(7) wire_seg_def no_times_def Let_def)
  ultimately have "ep_packet x ep p = ctcp_receive x ep ?sg (48 + length (sg_data ?sg))" by (simp add: ep_packet_def add.commute)
  with ctcp_receive_ok [OF assms(1-5) carries_arrives [OF assms(8)] assms(6)] show ?thesis by simp
qed

section \<open>The timer and the output return\<close>

definition fin_due :: "endpoint \<Rightarrow> bool" where
  "fin_due ep \<longleftrightarrow> st_read_finish (e_st ep) = 1 \<and> st_get_all_ack (e_st ep) = 1 \<and> st_FIN_sent (e_st ep) = 0"

lemma timer_fin_ok:
  assumes "paced t0 t ep" "timely t0 t x" "fin_due ep"
  shows "\<exists>e g q. timer_fin x ep = Inr e \<and> st_FIN_sent (e_st e) = 1 \<and> st_get_all_ack (e_st e) = 0 \<and> st_segments (e_st e) = g # q
    \<and> st_current_time (e_st e) = st_current_time (e_st ep) \<and> st_rt_timeout (e_st e) = st_rt_timeout (e_st ep)"
proof -
  obtain g where g: "make_seg (st_ackno (e_st ep)) (st_next_seqno (e_st ep)) FIN (st_recv_window (e_st ep)) [] = Inr g" "sg_data g = []"
    using make_seg_eq [of "[]"] by fastforce
  let ?g = "g\<lparr> sg_delivered_time := x_now x \<rparr>"
  let ?e = "st_upd (\<lambda>s. s\<lparr> st_segments := st_segments s @ [?g], st_get_all_ack := 0 \<rparr>) ep"
  have p: "\<not> c_delete_me (e_conn ?e)" "e_fp ep \<noteq> None" using assms(1) by (simp_all add: paced_def)
  have l: "length (sg_data ?g) \<le> 1440" "48 = 48 + length (sg_data ?g)" using g(2) by simp_all
  from ep_send_ok [OF assms(2) p(1) l] obtain r where r: "ep_send x ?e ?g 48 = Inr r" "e_st r = e_st ?e" "e_fp r = e_fp ?e" by blast
  obtain h q where "st_segments (e_st ep) @ [?g] = h # q" by (cases "st_segments (e_st ep) @ [?g]") simp_all
  then show ?thesis using r p(2) g(1) assms(3) by (auto simp: timer_fin_def ctcp_send_fin_def Let_def fin_due_def)
qed

lemma timer_retransmit_ok:
  assumes "paced t0 t ep" "timely t0 t x" "snd_inv cfg input ep S" "st_segments (e_st ep) = g # q"
  shows "\<exists>ep'. timer_retransmit x ep = Inr ep' \<and> paced t0 t ep'"
proof -
  let ?b = "st_bbr (e_st ep)"
  let ?g = "g\<lparr> sg_sendtime := x_now x, sg_delivered := b_delivered ?b, sg_delivered_time := b_delivered_time ?b \<rparr>"
  let ?a = "st_upd (\<lambda>s. s\<lparr> st_retrans_count := st_retrans_count s + 1, st_current_time := x_now x, st_segments := ?g # q \<rparr>) ep"
  have "carries S (st_read_finish (e_st ep) = 1) g" using assms(3,4) by (auto elim: snd_invE)
  then have l: "length (sg_data g) \<le> 1440" "sg_len g = htons (of_nat (48 + length (sg_data g)))" by (simp_all add: carries_def)
  have p: "paced t0 t ?a" using assms(1,4) by (simp add: paced_def stamped_def)
  have d: "\<not> c_delete_me (e_conn ?a)" using p by (simp add: paced_def)
  have u: "length (sg_data ?g) \<le> 1440" "unat (ntohs (sg_len ?g)) = 48 + length (sg_data ?g)" using l(1) len_of_seg [OF l] by simp_all
  from ep_send_ok [OF assms(2) d u] obtain r where r: "ep_send x ?a ?g (unat (ntohs (sg_len ?g))) = Inr r" "paced t0 t r"
    using p by blast
  then have "rate_ok (st_bbr (e_st r))" "e_fp r \<noteq> None" by (simp_all add: paced_def)
  from log_bdp_ok [OF this] obtain k where k: "log_bdp x r = Inr (r\<lparr> e_fp := Some k \<rparr>)" by blast
  have "paced t0 t (st_upd (\<lambda>s. s\<lparr> st_bbr := (st_bbr s)\<lparr> inflight := n \<rparr> \<rparr>) (r\<lparr> e_fp := Some k \<rparr>))" for n
    using r(2) by (simp add: paced_def stamped_def)
  then show ?thesis using r(1) k assms(4) by (simp add: timer_retransmit_def Let_def front_seg_def)
qed

lemma timer_ep_ok:
  assumes "paced t0 t ep" "timely t0 t x" "snd_inv cfg input ep S" "\<not> (fin_due ep \<and> timed_out x ep)"
  shows "\<exists>ep' dead. timer_ep x ep = Inr (ep', dead) \<and> (paced t0 t ep' \<or> st_FIN_sent (e_st ep') = 1)"
proof (cases "fin_due ep")
  case True
  from timer_fin_ok [OF assms(1,2) True] obtain e g q where
    e: "timer_fin x ep = Inr e" "st_FIN_sent (e_st e) = 1" "st_get_all_ack (e_st e) = 0" "st_segments (e_st e) = g # q"
      "\<not> x_now x - st_current_time (e_st e) > st_rt_timeout (e_st e)"
    using assms(4) True by (auto simp: timed_out_def)
  then have "timer_ep x ep = Inr (e, False)" by (simp add: timer_ep_def Let_def)
  then show ?thesis using e(2) by (intro exI [of _ e] exI [of _ False]) simp
next
  case False
  then have f: "timer_fin x ep = Inr ep" by (auto simp: timer_fin_def fin_due_def Let_def)
  have nf: "st_FIN_sent (e_st ep) = 0" using assms(1) by (simp add: paced_def)
  show ?thesis
  proof (cases "st_segments (e_st ep)")
    case Nil
    have "paced t0 t (st_upd (\<lambda>s. s\<lparr> st_get_all_ack := 1 \<rparr>) ep)" using assms(1) paced_cong [of "st_upd (\<lambda>s. s\<lparr> st_get_all_ack := 1 \<rparr>) ep" ep] by simp
    then show ?thesis using f nf Nil
      by (intro exI [of _ "st_upd (\<lambda>s. s\<lparr> st_get_all_ack := 1 \<rparr>) ep"] exI [of _ False]) (simp add: timer_ep_def Let_def)
  next
    case (Cons g q)
    from timer_retransmit_ok [OF assms(1-3) Cons] obtain r where "timer_retransmit x ep = Inr r" "paced t0 t r" by blast
    then have "timer_ep x ep \<in> {Inr (r, False), Inr (ep, True), Inr (ep, False)}" using f nf Cons by (simp add: timer_ep_def Let_def)
    then show ?thesis using \<open>paced t0 t r\<close> assms(1) by auto
  qed
qed

lemma ep_drain_ok:
  assumes "paced t0 t ep" "rcv_inv ep T"
  shows "\<exists>ep'. ep_drain ep = Inr ep' \<and> paced t0 t ep'"
proof -
  obtain c b where c: "conn_drain (e_conn ep) = (c, b)" by fastforce
  have d: "c_delete_me c = c_delete_me (e_conn ep)" by (rule conn_drain_del [OF c])
  let ?e = "ep\<lparr> e_conn := c \<rparr>"
  have p: "paced t0 t ?e" using assms(1) paced_cong [of ?e ep] d by simp
  have o: "\<not> c_delete_me (e_conn ?e)" "st_output_len (e_st ?e) = int (length [])" "length [] \<le> conn_bufspace (e_conn ?e)"
    using p assms(2) by (simp_all add: paced_def rcv_inv_def)
  show ?thesis using ctcp_output_ok [OF o, of t0] p c by (cases b) (auto simp: ep_drain_def)
qed

section \<open>A FIN is never taken back\<close>

abbreviation fin_sent :: "endpoint \<Rightarrow> int" where "fin_sent ep \<equiv> st_FIN_sent (e_st ep)"

lemma ep_send_st: "ep_send x ep g n = Inr ep' \<Longrightarrow> e_st ep' = e_st ep"
  by (auto simp: ep_send_def bnd_eq_Inr)

lemma ctcp_send_ack_st: "ctcp_send_ack x ep = Inr ep' \<Longrightarrow> e_st ep' = e_st ep"
  by (auto simp: ctcp_send_ack_def Let_def bnd_eq_Inr dest!: ep_send_st)

lemma log_bdp_st: "log_bdp x ep = Inr ep' \<Longrightarrow> e_st ep' = e_st ep"
  using log_bdp_eq by fastforce

lemma ctcp_send_data_fin: "ctcp_send_data x ep b t1 t2 t3 = Inr ep' \<Longrightarrow> fin_sent ep' = fin_sent ep"
  by (auto simp: ctcp_send_data_def Let_def bnd_eq_Inr enqueue_data_def dest!: ep_send_st log_bdp_st)

lemma bbr_send_fin: "bbr_send x ep b = Inr ep' \<Longrightarrow> fin_sent ep' = fin_sent ep"
  by (auto simp: bbr_send_def Let_def bnd_eq_Inr enqueue_data_def split: if_splits dest!: ctcp_send_data_fin)

lemma ctcp_read_fin: "ctcp_read x ep = Inr ep' \<Longrightarrow> fin_sent ep' = fin_sent ep"
  unfolding ctcp_read_def Let_def
  by (auto simp: bnd_eq_Inr split: if_split_asm dest!: read_case bbr_send_fin)

lemma ctcp_output_fin: "ctcp_output ep = Inr ep' \<Longrightarrow> fin_sent ep' = fin_sent ep"
  by (auto simp: ctcp_output_def Let_def bnd_eq_Inr split: if_splits)

lemma remove_front_fin: "remove_front ep = Inr ep' \<Longrightarrow> fin_sent ep' = fin_sent ep"
  by (auto simp: remove_front_def bnd_eq_Inr)

lemma receive_data_fin: "receive_data x ep sg n = Inr (ep', go) \<Longrightarrow> fin_sent ep' = fin_sent ep"
  by (auto simp: receive_data_def Let_def bnd_eq_Inr split: if_splits dest!: ctcp_output_fin ctcp_send_ack_st)

lemma receive_ack_fin: "receive_ack x ep sg = Inr (ep', go) \<Longrightarrow> fin_sent ep' = fin_sent ep"
  unfolding receive_ack_def Let_def
  by (auto simp: bnd_eq_Inr split: if_split_asm option.splits dest!: remove_front_fin ep_send_st)

lemma receive_fin_fin: "receive_fin x ep sg = Inr ep' \<Longrightarrow> fin_sent ep' = fin_sent ep"
  by (auto simp: receive_fin_def Let_def bnd_eq_Inr split: if_splits dest!: ctcp_send_ack_st)

lemma ctcp_receive_fin: "ctcp_receive x ep sg n = Inr ep' \<Longrightarrow> fin_sent ep' = fin_sent ep"
  by (auto simp: ctcp_receive_def bnd_eq_Inr split: if_splits dest!: receive_data_fin receive_ack_fin receive_fin_fin)

lemma ep_packet_fin: "ep_packet x ep p = Inr ep' \<Longrightarrow> fin_sent ep' = fin_sent ep"
  by (auto simp: ep_packet_def bnd_eq_Inr dest!: ctcp_receive_fin)

lemma ep_drain_fin: "ep_drain ep = Inr ep' \<Longrightarrow> fin_sent ep' = fin_sent ep"
  by (auto simp: ep_drain_def Let_def split: prod.splits if_splits dest!: ctcp_output_fin)

lemma timer_ep_fin:
  assumes "timer_ep x ep = Inr (ep', dead)" "fin_sent ep \<noteq> 0" shows "fin_sent ep' = fin_sent ep"
proof -
  have r: "timer_retransmit x ep = Inr ep' \<Longrightarrow> fin_sent ep' = fin_sent ep" for ep'
    by (auto simp: timer_retransmit_def Let_def bnd_eq_Inr dest!: ep_send_st log_bdp_st)
  have "timer_fin x ep = Inr ep" using assms(2) by (simp add: timer_fin_def Let_def)
  then show ?thesis using assms(1) by (auto simp: timer_ep_def Let_def bnd_eq_Inr split: if_splits dest!: r)
qed

section \<open>Two hosts with clocks\<close>

text \<open>
  The steps of \<open>Exchange\<close>, each at a time later than the last step of the same host; only draining an output takes no time.
  The two clocks need not agree.
\<close>

inductive timed_step :: "sys_config \<Rightarrow> bytes list \<Rightarrow> int \<Rightarrow> endpoint \<Rightarrow> int \<Rightarrow> endpoint \<Rightarrow> bool"
  for cfg :: sys_config and net :: "bytes list" and t :: int and ep :: endpoint where
  input: "ctcp_read x ep = Inr ep' \<Longrightarrow> x_cfg x = cfg \<Longrightarrow> \<forall>i. no_corrupt (x_env x i) \<Longrightarrow> t < x_now x \<Longrightarrow> timed_step cfg net t ep (x_now x) ep'"
| timer: "timer_ep x ep = Inr (ep', False) \<Longrightarrow> x_cfg x = cfg \<Longrightarrow> \<forall>i. no_corrupt (x_env x i) \<Longrightarrow> t < x_now x \<Longrightarrow> timed_step cfg net t ep (x_now x) ep'"
| drain: "ep_drain ep = Inr ep' \<Longrightarrow> timed_step cfg net t ep t ep'"
| packet: "ep_packet x ep p = Inr ep' \<Longrightarrow> p \<in> set net \<Longrightarrow> x_cfg x = cfg \<Longrightarrow> \<forall>i. no_corrupt (x_env x i) \<Longrightarrow> t < x_now x
    \<Longrightarrow> timed_step cfg net t ep (x_now x) ep'"

inductive timed_exchange :: "sys_config \<Rightarrow> sys_config \<Rightarrow> endpoint \<Rightarrow> int \<Rightarrow> endpoint \<Rightarrow> int \<Rightarrow> endpoint \<Rightarrow> int \<Rightarrow> endpoint \<Rightarrow> int \<Rightarrow> bool"
  for cA cB :: sys_config and a0 :: endpoint and t0 :: int and b0 :: endpoint and u0 :: int where
  start: "timed_exchange cA cB a0 t0 b0 u0 a0 t0 b0 u0"
| left: "timed_exchange cA cB a0 t0 b0 u0 a t b u \<Longrightarrow> timed_step cA (c_net (e_conn b)) t a t' a' \<Longrightarrow> timed_exchange cA cB a0 t0 b0 u0 a' t' b u"
| right: "timed_exchange cA cB a0 t0 b0 u0 a t b u \<Longrightarrow> timed_step cB (c_net (e_conn a)) u b u' b' \<Longrightarrow> timed_exchange cA cB a0 t0 b0 u0 a t b' u'"

lemma timed_step_host: "timed_step cfg net t ep t' ep' \<Longrightarrow> host_step cfg net ep ep' \<and> t \<le> t'"
  by (induction rule: timed_step.induct) (auto intro: host_step.intros)

lemma timed_exchange_host: "timed_exchange cA cB a0 t0 b0 u0 a t b u \<Longrightarrow> exchange cA cB a0 b0 a b \<and> t0 \<le> t"
  by (induction rule: timed_exchange.induct) (auto intro: exchange.intros dest: timed_step_host)

lemma timer_fin_due:
  assumes "paced t0 t ep" "timely t0 t x" "fin_due ep" "timer_ep x ep = Inr (ep', dead)"
  shows "fin_sent ep' = 1"
proof -
  obtain e where e: "timer_fin x ep = Inr e" "fin_sent e = 1" using timer_fin_ok [OF assms(1-3)] by blast
  have "timer_fin x e = Inr e" using e(2) by (simp add: timer_fin_def Let_def)
  then have "timer_ep x e = timer_ep x ep" using e(1) by (simp add: timer_ep_def)
  then show ?thesis using timer_ep_fin [of x e ep' dead] assms(4) e(2) by simp
qed

text \<open>What holds of an endpoint and the packets that may reach it, for one with up to \<open>2 ^ 24\<close> bytes to send.\<close>

definition sound :: "sys_config \<Rightarrow> bytes list \<Rightarrow> bytes \<Rightarrow> endpoint \<Rightarrow> bool" where
  "sound cfg net input ep \<longleftrightarrow> length input \<le> 2 ^ 24 \<and> (\<exists>S T c cfg' fin. snd_inv cfg input ep S \<and> rcv_inv ep T \<and> length T + 2 < 2 ^ 32
     \<and> peers (e_conn ep) c \<and> (\<forall>p\<in>set net. \<exists>s. p = pkt_of cfg' c s \<and> carries T fin s))"

text \<open>Every handler returns, but for the timer when the FIN is due and the timeout over.\<close>

definition all_return :: "ctx \<Rightarrow> bytes list \<Rightarrow> endpoint \<Rightarrow> bool" where
  "all_return x net ep \<longleftrightarrow> (\<exists>ep'. ctcp_read x ep = Inr ep') \<and> (\<exists>ep'. ep_drain ep = Inr ep') \<and> (\<forall>p\<in>set net. \<exists>ep'. ep_packet x ep p = Inr ep')
     \<and> (\<not> (fin_due ep \<and> timed_out x ep) \<longrightarrow> (\<exists>r. timer_ep x ep = Inr r))"

lemma handlers_return:
  assumes "paced t0 t ep" "timely t0 t x" "sound (x_cfg x) net input ep"
  shows "all_return x net ep"
    and "ctcp_read x ep = Inr a \<Longrightarrow> paced t0 (x_now x) a" and "ep_drain ep = Inr b \<Longrightarrow> paced t0 t b"
    and "p \<in> set net \<Longrightarrow> ep_packet x ep p = Inr c \<Longrightarrow> paced t0 (x_now x) c"
    and "timer_ep x ep = Inr (d, dead) \<Longrightarrow> fin_sent d = 0 \<Longrightarrow> paced t0 (x_now x) d"
proof -
  obtain S T k cfg' fin where i: "snd_inv (x_cfg x) input ep S" "rcv_inv ep T" "length T + 2 < 2 ^ 32" "peers (e_conn ep) k"
    "\<forall>p\<in>set net. \<exists>s. p = pkt_of cfg' k s \<and> carries T fin s" "length input \<le> 2 ^ 24"
    using assms(3) unfolding sound_def by blast
  have n: "length input + 2 < 2 ^ 32" and now: "t \<le> x_now x" using i(6) assms(2) by (simp_all add: timely_def)
  note r = ctcp_read_ok [OF assms(1,2) i(1) n] and o = ep_drain_ok [OF assms(1) i(2)]
  have p: "\<exists>c. ep_packet x ep p = Inr c \<and> paced t0 (x_now x) c" if "p \<in> set net" for p
    using ep_packet_ok [OF assms(1,2) i(1,6,2,3) _ _ i(4)] i(5) that by blast
  note t = timer_ep_ok [OF assms(1,2) i(1)]
  show "all_return x net ep" using r o p t unfolding all_return_def by blast
  show "ctcp_read x ep = Inr a \<Longrightarrow> paced t0 (x_now x) a" using r paced_later [OF _ now] by auto
  show "ep_drain ep = Inr b \<Longrightarrow> paced t0 t b" using o by auto
  show "p \<in> set net \<Longrightarrow> ep_packet x ep p = Inr c \<Longrightarrow> paced t0 (x_now x) c" using p by fastforce
  show "paced t0 (x_now x) d" if d: "timer_ep x ep = Inr (d, dead)" "fin_sent d = 0"
  proof (cases "fin_due ep")
    case True
    then show ?thesis using timer_fin_due [OF assms(1,2) True d(1)] d(2) by simp
  next
    case False
    then have "paced t0 t d" using t d by auto
    then show ?thesis by (rule paced_later [OF _ now])
  qed
qed

lemma timed_step_paced:
  assumes "timed_step cfg net t ep t' ep'" "fin_sent ep = 0 \<longrightarrow> paced t0 t ep" "sound cfg net input ep"
    and "0 \<le> t0" "t' \<le> t0 + 2 ^ 24" "t' \<le> 2 ^ 52"
  shows "fin_sent ep' = 0 \<longrightarrow> paced t0 t' ep'"
proof
  assume f: "fin_sent ep' = 0"
  have same: "fin_sent ep = 0"
    using assms(1) f ctcp_read_fin ep_drain_fin ep_packet_fin timer_ep_fin by cases metis+
  then have p: "paced t0 t ep" using assms(2) by blast
  have tm: "timely t0 t x" if "\<forall>i. no_corrupt (x_env x i)" "t < x_now x" "t' = x_now x" for x
    using assms(4-6) that by (simp add: timely_def)
  from assms(1) show "paced t0 t' ep'"
  proof cases
    case (input x)
    then show ?thesis using handlers_return(2) [OF p tm, of x net] assms(3) by auto
  next
    case (timer x)
    then show ?thesis using handlers_return(5) [OF p tm, of x net] assms(3) f by auto
  next
    case drain
    obtain T where "rcv_inv ep T" using assms(3) by (auto simp: sound_def)
    then show ?thesis using ep_drain_ok [OF p] drain by auto
  next
    case (packet x q)
    then show ?thesis using handlers_return(4) [OF p tm, of x net] assms(3) by auto
  qed
qed

lemma exchange_sound:
  assumes "exchange_inv cA cB inA inB a b" "length inA \<le> 2 ^ 24" "length inB + 2 < 2 ^ 32"
  shows "sound cA (c_net (e_conn b)) inA a"
proof -
  obtain S T where i: "snd_inv cA inA a S" "snd_inv cB inB b T" "rcv_inv a T" "peers (e_conn a) (e_conn b)"
    using assms(1) unfolding exchange_inv_def by blast
  have net: "\<forall>p\<in>set (c_net (e_conn b)). \<exists>s. p = pkt_of cB (e_conn b) s \<and> carries T (st_read_finish (e_st b) = 1) s"
    using i(2) by (auto elim: snd_invE simp: net_ok_def)
  have "length T + 2 < 2 ^ 32" using snd_inv_length [OF i(2)] assms(3) by simp
  with assms(2) i(1,3,4) net show ?thesis unfolding sound_def by blast
qed

lemma opened_paced: "\<not> c_delete_me c \<Longrightarrow> paced t t (opened cfg t c)"
  using rate_ok_init by (simp add: paced_def opened_def ctcp_init_state_def) (simp add: init_bbr_def)

lemma timed_exchange_paced:
  assumes "timed_exchange cA cB (opened cA tA connA) tA b0 u0 a t b u" "exchange_inv cA cB inA inB (opened cA tA connA) b0"
    and "\<not> c_delete_me connA" "length inA \<le> 2 ^ 24" "length inB + 2 < 2 ^ 32" "0 \<le> tA" "t \<le> tA + 2 ^ 24" "t \<le> 2 ^ 52"
  shows "exchange_inv cA cB inA inB a b \<and> (fin_sent a = 0 \<longrightarrow> paced tA t a)"
  using assms(1,7,8)
proof induction
  case start then show ?case using assms(2) opened_paced [OF assms(3)] by simp
next
  case (left a t b u t' a')
  have le: "t \<le> t'" and h: "host_step cA (c_net (e_conn b)) a a'" using timed_step_host [OF left.hyps(2)] by auto
  then have i: "exchange_inv cA cB inA inB a b" "fin_sent a = 0 \<longrightarrow> paced tA t a" using left.IH left.prems by auto
  have n: "length inA + 2 < 2 ^ 32" using assms(4) by simp
  show ?case
    using timed_step_paced [OF left.hyps(2) i(2) exchange_sound [OF i(1) assms(4,5)] assms(6) left.prems]
      exchange_inv_step [OF i(1) h n assms(5)] by blast
next
  case (right a t b u u' b')
  have h: "host_step cB (c_net (e_conn a)) b b'" using timed_step_host [OF right.hyps(2)] by simp
  have i: "exchange_inv cA cB inA inB a b" "fin_sent a = 0 \<longrightarrow> paced tA t a" using right by auto
  have n: "length inA + 2 < 2 ^ 32" using assms(4) by simp
  show ?case using exchange_inv_step [OF iffD1 [OF exchange_inv_sym i(1)] h assms(5) n] i(2) exchange_inv_sym by blast
qed

section \<open>The property\<close>



end
