(* ===== verification/Delivery.thy ===== *)
theory Delivery
  imports CtcpSafe
begin

text \<open>
  Delivery between two cTCP hosts, in rounds: a read, timeouts while packets are lost, the packet that arrives, its
  acknowledgement. \<open>idle\<close> and \<open>ready\<close> describe the hosts between two rounds, \<open>waiting\<close> the sender inside one; each handler
  is a step from one to the next. The results: every round that is due delivers its message; without losses there is a schedule within
  the pacing; and what happens when an acknowledgement is lost.
\<close>

section \<open>An acknowledgement and the window\<close>

lemma clean_ack:
  assumes s: "st_segments (e_st ep) = [g]" "st_FIN_sent (e_st ep) = 0"
      "bbr_onAck (x_now x) ((st_bbr (e_st ep))\<lparr> inflight := inflight (st_bbr (e_st ep)) - int (length (sg_data g)) \<rparr>) g = Inr b"
    and g: "length (sg_data g) \<le> 1440" "sg_len g = htons (of_nat (48 + length (sg_data g)))"
    and h: "carries S fin h" "sg_data h = []" "sg_flags h = TH_ACK" "ntohl (sg_ackno h) = ntohl (sg_seqno g) + of_nat (length (sg_data g))"
    and p: "peers (e_conn ep) d"
  shows "ep_packet x ep (pkt_of cfg d h) = Inr (ep\<lparr> e_st := (e_st ep)\<lparr> st_segments := [], st_retrans_count := 0,
    st_seqno := ntohl (sg_ackno h), st_send_window := ntohs (sg_window h), st_bbr := b \<rparr> \<rparr>)"
proof -
  let ?sg = "wire_seg cfg h"
  note sg = wire_plain [OF h(3), of cfg]
  have dl: "unat (ntohs (sg_len g) - 48) = length (sg_data g)" using seg_data_len [OF g] by simp
  have u: "(ucast (ntohs (sg_len g) - 48) :: u32) = of_nat (length (sg_data g))" "uint (ntohs (sg_len g) - 48) = int (length (sg_data g))"
    unfolding dl [symmetric] by simp_all
  have "receive_data x ep ?sg 0 = Inr (ep, True)" by (simp add: receive_data_def)
  moreover let ?a = "ep\<lparr> e_st := (e_st ep)\<lparr> st_segments := [], st_retrans_count := 0,
    st_seqno := ntohl (sg_ackno h), st_send_window := ntohs (sg_window h), st_bbr := b \<rparr> \<rparr>"
  have "receive_ack x ep ?sg = Inr (?a, True)"
    using s sg(2,5,6) h(4) by (cases "e_st ep") (simp add: receive_ack_def Let_def remove_front_def front_seg_def u)
  moreover have "receive_fin x ?a ?sg = Inr ?a" using sg(1) by (simp add: receive_fin_def)
  ultimately have "ctcp_receive x ep ?sg 48 = Inr ?a" by (simp add: ctcp_receive_def)
  then show ?thesis using packet_received [OF h(1) p] h(2) by simp
qed

lemma bbr_onAck_cwnd:
  assumes "bbr_onAck now b g = Inr b'" "cwnd_gain b \<in> {Fin 0, Fin 2}" shows "cwnd_gain b' \<in> {Fin 0, Fin 2}"
proof -
  obtain b1 where b1: "bbr_switch b = Inr b1" using assms(1) by (auto simp: bbr_onAck_def elim!: bnd_InrE)
  then have 1: "cwnd_gain b1 \<in> {Fin 0, Fin 2}" using assms(2)
    by (auto simp: bbr_switch_def ctcp_bbr_startup_def ctcp_bbr_drain_def ctcp_bbr_probe_bw_def ctcp_bbr_probe_rtt_def Let_def
        split: bbr_mode.splits if_splits)
  have f: "cwnd_gain (update_min_filter t c r) = cwnd_gain c" for t c r by (simp add: update_min_filter_def split: prod.split)
  have m: "update_max_filter t c r = Inr c' \<Longrightarrow> cwnd_gain c' = cwnd_gain c" for t c r c'
    by (auto simp: update_max_filter_def split: prod.splits elim!: bnd_InrE)
  show ?thesis using assms(1) 1 unfolding bbr_onAck_def b1 by (auto simp: Let_def f split: if_splits dest!: m)
qed

lemma window_open:
  assumes "inflight b = 0" "cwnd_gain b \<in> {Fin 0, Fin 2}" "0 \<le> n"
  shows "\<not> bbr_window_full b n"
proof -
  have "0 \<le> rnd SINGLE (2 * rnd SINGLE (rat_of_int n))" using assms(3) by simp
  then show ?thesis using assms by (auto simp: bbr_window_full_def f_of_int_def simp del: rnd_nonneg)
qed


section \<open>A message on its way\<close>

text \<open>A host that has sent \<open>S\<close> with nothing outstanding, and the peer that has written it.\<close>

definition idle :: "int \<Rightarrow> int \<Rightarrow> bytes \<Rightarrow> endpoint \<Rightarrow> bool" where
  "idle t0 t S ep \<longleftrightarrow> paced t0 t ep \<and> st_segments (e_st ep) = [] \<and> st_seqno (e_st ep) = st_next_seqno (e_st ep)
     \<and> unat (st_next_seqno (e_st ep)) = length S + 1 \<and> st_send_window (e_st ep) \<noteq> 0 \<and> st_read_finish (e_st ep) = 0
     \<and> st_retrans_count (e_st ep) = 0 \<and> cwnd_gain (st_bbr (e_st ep)) \<in> {Fin 0, Fin 2} \<and> b_delivered_time (st_bbr (e_st ep)) = t
     \<and> \<not> c_read_eof (e_conn ep)"

definition ready :: "bytes \<Rightarrow> endpoint \<Rightarrow> bool" where
  "ready S ep \<longleftrightarrow> st_segments (e_st ep) = [] \<and> st_FIN_sent (e_st ep) = 0 \<and> unat (st_ackno (e_st ep)) = length S + 1
     \<and> st_recv_window (e_st ep) \<noteq> 0 \<and> c_out (e_conn ep) = S \<and> c_out_queue (e_conn ep) = [] \<and> \<not> closed (e_conn ep)
     \<and> \<not> c_delete_me (e_conn ep)"

text \<open>The next message is in the queue, in the segment \<open>g\<close>; and \<open>g\<close> is the last packet on the network.\<close>

definition plain_seg :: "bytes \<Rightarrow> bytes \<Rightarrow> ctcp_segment \<Rightarrow> bool" where
  "plain_seg S msg g \<longleftrightarrow> sg_data g = msg \<and> sg_len g = htons (of_nat (48 + length msg)) \<and> sg_flags g = TH_ACK
     \<and> unat (ntohl (sg_seqno g)) = length S + 1"

definition waiting :: "int \<Rightarrow> int \<Rightarrow> bytes \<Rightarrow> bytes \<Rightarrow> ctcp_segment \<Rightarrow> endpoint \<Rightarrow> bool" where
  "waiting t0 t S msg g ep \<longleftrightarrow> \<not> c_delete_me (e_conn ep) \<and> e_fp ep \<noteq> None \<and> st_FIN_sent (e_st ep) = 0
     \<and> st_read_finish (e_st ep) = 0 \<and> \<not> c_read_eof (e_conn ep) \<and> st_get_all_ack (e_st ep) = 0
     \<and> rate_ok (st_bbr (e_st ep)) \<and> cwnd_gain (st_bbr (e_st ep)) \<in> {Fin 0, Fin 2}
     \<and> t0 \<le> t \<and> b_delivered_time (st_bbr (e_st ep)) = t
     \<and> 0 \<le> b_delivered (st_bbr (e_st ep)) \<and> b_delivered (st_bbr (e_st ep)) < int (length S + 1)
     \<and> unat (st_next_seqno (e_st ep)) = length S + length msg + 1 \<and> st_segments (e_st ep) = [g] \<and> plain_seg S msg g"

definition transmitted :: "sys_config \<Rightarrow> ctcp_segment \<Rightarrow> endpoint \<Rightarrow> bool" where
  "transmitted cfg g ep \<longleftrightarrow> last (c_net (e_conn ep)) = pkt_of cfg (e_conn ep) g
     \<and> sg_delivered g = b_delivered (st_bbr (e_st ep)) \<and> sg_delivered_time g = b_delivered_time (st_bbr (e_st ep))"

text \<open>What nothing but an acknowledgement changes.\<close>

definition kept :: "endpoint \<Rightarrow> endpoint \<Rightarrow> bool" where
  "kept ep ep' \<longleftrightarrow> ids (e_conn ep') = ids (e_conn ep) \<and> st_rt_timeout (e_st ep') = st_rt_timeout (e_st ep)
     \<and> max_btlbw (st_bbr (e_st ep')) = max_btlbw (st_bbr (e_st ep))"

lemma kept_trans: "kept a b \<Longrightarrow> kept b c \<Longrightarrow> kept a c"
  by (simp add: kept_def)

lemma idle_reads:
  assumes a: "idle t0 t S a" "0 \<le> t0" and r: "nextSendTime (st_bbr (e_st a)) < x_now x" "t < x_now x" "x_now x \<le> 2 ^ 52" "\<forall>i. no_fault (x_env x i)"
    and m: "c_in (e_conn a) = RData msg # rs" "msg \<noteq> []" "length msg \<le> 1439" "length S + length msg \<le> 2 ^ 24" "eof_char_mode (x_cfg x) \<longrightarrow> hd msg \<noteq> 0x1a"
  shows "\<exists>a' g. ctcp_read x a = Inr a' \<and> waiting t0 t S msg g a' \<and> kept a a' \<and> c_in (e_conn a') = rs
    \<and> st_retrans_count (e_st a') = 0 \<and> st_current_time (e_st a') = st_current_time (e_st a)
    \<and> (inflight (st_bbr (e_st a)) = 0 \<longrightarrow> transmitted (x_cfg x) g a' \<and> inflight (st_bbr (e_st a')) = int (length msg)
        \<and> bbr_next_send (x_now x) (st_bbr (e_st a)) (int (length msg)) = Inr (nextSendTime (st_bbr (e_st a'))))"
proof -
  let ?s = "e_st a" and ?b = "st_bbr (e_st a)"
  note q = a(1) [unfolded idle_def paced_def]
  obtain bdp where bdp: "bbr_bdp ?b = Inr bdp" "0 \<le> bdp" using rate_ok_bdp q by blast
  have un: "unat (st_next_seqno ?s) = length S + 1" using q by blast
  then have "unat (st_next_seqno ?s) + 2 ^ 16 \<le> 2 ^ 32" using m(4) by simp
  then have w: "st_next_seqno ?s < st_seqno ?s + ucast (st_send_window ?s)" using window_opens q by simp
  have nx: "unat (st_next_seqno ?s + of_nat (length msg)) = length S + length msg + 1"
    using unat_add_small [of "st_next_seqno ?s" "length msg"] un m(4) by simp
  have c: "\<not> c_delete_me (e_conn a)" "\<not> c_read_eof (e_conn a)" "st_read_finish ?s = 0" using q by auto
  show ?thesis
  proof (cases "bbr_window_full ?b bdp")
    case True
    let ?o = "a\<lparr> e_conn := (e_conn a)\<lparr> c_in := rs \<rparr> \<rparr>"
    have i: "inflight ?b \<noteq> 0" using True window_open [of ?b bdp] bdp(2) q by blast
    have rd: "ctcp_read x a = bbr_send x ?o msg" by (rule read_message [OF m(1-3) c(1,2) m(5) c(3) r(1) w])
    obtain g0 where g0: "make_data_seg (e_st ?o) msg = Inr g0" "sg_data g0 = msg" "sg_len g0 = htons (of_nat (48 + length msg))"
      "sg_flags g0 = TH_ACK" "ntohl (sg_seqno g0) = st_next_seqno ?s" using make_data_seg_eq [of msg "e_st ?o"] m(3) by auto
    let ?g = "g0\<lparr> sg_delivered_time := b_delivered_time ?b \<rparr>"
    let ?a = "st_upd (enqueue_data ?g (length msg)) ?o"
    have "ctcp_read x a = Inr ?a" unfolding rd using bdp(1) True g0(1) by (simp add: bbr_send_def Let_def)
    moreover have "waiting t0 t S msg ?g ?a" using q nx un g0 by (auto simp: waiting_def enqueue_data_def plain_seg_def)
    moreover have "kept a ?a" by (simp add: kept_def enqueue_data_def ids_def)
    ultimately show ?thesis using i q by (intro exI [of _ ?a] exI [of _ ?g]) (simp add: enqueue_data_def)
  next
    case False
    let ?i = "?b\<lparr> inflight := inflight ?b + int (length msg) \<rparr>"
    have "rate_ok ?i" "0 \<le> x_now x" using q a(2) r(2) by auto
    with rate_ok_next_send [of ?i "int (length msg)" "x_now x"] m(3) r(3) obtain tt
      where tt: "bbr_next_send (x_now x) ?i (int (length msg)) = Inr tt" by auto
    obtain l where l: "e_fp a = Some l" using q by blast
    from clean_read [OF m(1-3) c(1,2) r(4) m(5) c(3) r(1) w refl bdp(1) False tt l]
    obtain g where g: "ctcp_read x a = Inr \<lparr> e_st = ?s\<lparr> st_segments := st_segments ?s @ [g],
          st_next_seqno := st_next_seqno ?s + of_nat (length msg), st_get_all_ack := 0, st_bbr := ?i\<lparr> nextSendTime := tt \<rparr> \<rparr>,
        e_conn = (e_conn a)\<lparr> c_in := rs, c_net := c_net (e_conn a) @ [pkt_of (x_cfg x) (e_conn a) g] \<rparr>,
        e_fp = Some (l @ [(x_now x, bdp * 8)]), e_sends = Suc (e_sends a) \<rparr>" (is "_ = Inr ?a")
    and gf: "sg_len g = htons (of_nat (48 + length msg))" "sg_data g = msg" "ntohl (sg_seqno g) = st_next_seqno ?s" "sg_flags g = TH_ACK"
      "sg_delivered g = b_delivered ?b" "sg_delivered_time g = b_delivered_time ?b" by auto
    have "waiting t0 t S msg g ?a" using q nx un gf by (auto simp: waiting_def plain_seg_def)
    moreover have "pkt_of (x_cfg x) (e_conn ?a) g = pkt_of (x_cfg x) (e_conn a) g" by (rule pkt_of_ids) (simp add: ids_def)
    then have "transmitted (x_cfg x) g ?a" using gf(5,6) by (simp add: transmitted_def)
    moreover have "kept a ?a" by (simp add: kept_def ids_def)
    moreover have "bbr_next_send (x_now x) ?b (int (length msg)) = Inr (nextSendTime (st_bbr (e_st ?a)))"
      using tt by (simp add: bbr_next_send_def)
    moreover have "c_in (e_conn ?a) = rs" "st_retrans_count (e_st ?a) = 0" "st_current_time (e_st ?a) = st_current_time ?s"
      "inflight ?b = 0 \<longrightarrow> inflight (st_bbr (e_st ?a)) = int (length msg)" using q by simp_all
    ultimately show ?thesis using g by blast
  qed
qed


lemma waiting_timer:
  assumes w: "waiting t0 t S msg g ep" "length msg \<le> 1439" and x: "timed_out x ep" "st_retrans_count (e_st ep) \<le> 5" "\<forall>i. no_fault (x_env x i)"
  shows "\<exists>ep' g'. timer_ep x ep = Inr (ep', False) \<and> waiting t0 t S msg g' ep' \<and> transmitted (x_cfg x) g' ep' \<and> kept ep ep'
    \<and> c_in (e_conn ep') = c_in (e_conn ep) \<and> st_retrans_count (e_st ep') = st_retrans_count (e_st ep) + 1
    \<and> st_current_time (e_st ep') = x_now x"
proof -
  let ?s = "e_st ep" and ?b = "st_bbr (e_st ep)"
  note q = w(1) [unfolded waiting_def plain_seg_def]
  obtain bdp l where b: "bbr_bdp ?b = Inr bdp" "e_fp ep = Some l" using rate_ok_bdp q by blast
  let ?g = "g\<lparr> sg_sendtime := x_now x, sg_delivered := b_delivered ?b, sg_delivered_time := b_delivered_time ?b \<rparr>"
  let ?e = "ep\<lparr> e_st := ?s\<lparr> st_retrans_count := st_retrans_count ?s + 1, st_current_time := x_now x, st_segments := [?g] \<rparr> \<rparr>"
  let ?f = "?e\<lparr> e_conn := (e_conn ?e)\<lparr> c_net := c_net (e_conn ?e) @ [pkt_of (x_cfg x) (e_conn ?e) ?g] \<rparr>, e_sends := Suc (e_sends ?e) \<rparr>"
  let ?a = "st_upd (\<lambda>s. s\<lparr> st_bbr := ?b\<lparr> inflight := inflight ?b + int (unat (ntohs (sg_len ?g))) \<rparr> \<rparr>) (?f\<lparr> e_fp := Some (l @ [(x_now x, bdp * 8)]) \<rparr>)"
  have n: "unat (ntohs (sg_len ?g)) = 48 + length (sg_data ?g)" using len_of_seg [of msg g] q w(2) by simp
  have snd: "ep_send x ?e ?g (unat (ntohs (sg_len ?g))) = Inr ?f"
    unfolding n by (rule ep_send_clean) (use q w(2) x(3) in simp_all)
  have o: "outstanding ep" using q w(2) by (simp add: outstanding_def)
  have "timer_ep x ep = Inr (?a, False)"
    using timer_outstanding [OF o x(1)] x(2) b snd q by (simp add: timer_retransmit_def Let_def front_seg_def log_bdp_def)
  moreover have "waiting t0 t S msg ?g ?a" using q by (simp add: waiting_def plain_seg_def)
  moreover have "pkt_of (x_cfg x) (e_conn ?a) ?g = pkt_of (x_cfg x) (e_conn ep) ?g" by (rule pkt_of_ids) (simp add: ids_def)
  then have "transmitted (x_cfg x) ?g ?a" by (simp add: transmitted_def)
  moreover have "kept ep ?a" by (simp add: kept_def ids_def)
  moreover have "c_in (e_conn ?a) = c_in (e_conn ep)" "st_retrans_count (e_st ?a) = st_retrans_count ?s + 1" "st_current_time (e_st ?a) = x_now x"
    by simp_all
  ultimately show ?thesis by blast
qed

lemma waiting_timers:
  assumes "waiting t0 t S msg g ep" "length msg \<le> 1439" "\<forall>x\<in>set xs. x_cfg x = cfg \<and> (\<forall>i. no_fault (x_env x i))"
    and "spaced (st_rt_timeout (e_st ep)) (st_current_time (e_st ep)) xs" "st_retrans_count (e_st ep) = int k" "k + length xs \<le> 6"
    and "xs \<noteq> [] \<or> transmitted cfg g ep"
  shows "\<exists>ep' g'. timer_run xs ep = Inr (ep', False) \<and> waiting t0 t S msg g' ep' \<and> transmitted cfg g' ep' \<and> kept ep ep'
    \<and> c_in (e_conn ep') = c_in (e_conn ep)"
  using assms
proof (induction xs arbitrary: ep g k)
  case Nil
  then show ?case by (auto simp: kept_def)
next
  case (Cons x xs)
  have t: "timed_out x ep" "st_retrans_count (e_st ep) \<le> 5" "\<forall>i. no_fault (x_env x i)" using Cons.prems by (simp_all add: timed_out_def)
  from waiting_timer [OF Cons.prems(1,2) t] obtain e1 g1 where e1: "timer_ep x ep = Inr (e1, False)" "waiting t0 t S msg g1 e1"
    "transmitted (x_cfg x) g1 e1" "kept ep e1" "c_in (e_conn e1) = c_in (e_conn ep)"
    "st_retrans_count (e_st e1) = st_retrans_count (e_st ep) + 1" "st_current_time (e_st e1) = x_now x" by blast
  have "\<exists>ep' g'. timer_run xs e1 = Inr (ep', False) \<and> waiting t0 t S msg g' ep' \<and> transmitted cfg g' ep' \<and> kept e1 ep'
      \<and> c_in (e_conn ep') = c_in (e_conn e1)"
    by (rule Cons.IH [OF e1(2) Cons.prems(2), of "Suc k"]) (use Cons.prems e1 in \<open>auto simp: kept_def\<close>)
  then show ?case using e1(1,4,5) kept_trans by fastforce
qed

definition faster :: "fp \<Rightarrow> rat \<Rightarrow> fp" where
  "faster bw r = (if f_less bw (Fin r) then Fin r else bw)"

lemma waiting_delivered:
  assumes a: "waiting t0 t S msg g a" "transmitted cfg g a" and b: "ready S b" and p: "peers (e_conn a) (e_conn b)" "peers (e_conn b) (e_conn a)"
    and m: "msg \<noteq> []" "length msg \<le> 1439" "c_wr (e_conn b) = WTake n # ws" "length msg \<le> n" "length S + length msg \<le> 2 ^ 24"
    and r: "\<forall>i. no_fault (x_env y i)" "t < x_now z" "x_now z \<le> t0 + 2 ^ 24"
  shows "\<exists>a' b'. ep_packet y b (last (c_net (e_conn a))) = Inr b' \<and> ep_packet z a (last (c_net (e_conn b'))) = Inr a'
    \<and> idle t0 (x_now z) (S @ msg) a' \<and> ready (S @ msg) b'
    \<and> c_in (e_conn a') = c_in (e_conn a) \<and> c_wr (e_conn b') = ws \<and> ids (e_conn a') = ids (e_conn a) \<and> ids (e_conn b') = ids (e_conn b)
    \<and> inflight (st_bbr (e_st a')) = inflight (st_bbr (e_st a)) - int (length msg)
    \<and> nextSendTime (st_bbr (e_st a')) = nextSendTime (st_bbr (e_st a))
    \<and> max_btlbw (st_bbr (e_st a')) = faster (max_btlbw (st_bbr (e_st a))) (rnd SINGLE (of_int (int (length msg)) / of_int (x_now z - t)))"
proof -
  let ?s = "e_st a" and ?b = "st_bbr (e_st a)"
  note q = a(1) [unfolded waiting_def plain_seg_def] and tr = a(2) [unfolded transmitted_def] and rb = b [unfolded ready_def]
  have sq: "unat (ntohl (sg_seqno g)) = length S + 1" using q by blast
  then have "ntohl (sg_seqno g) = of_nat (length S + 1)" by (metis ucast_id of_nat_unat)
  then have cg: "carries (S @ msg) False g" using q m(2) by (auto simp: carries_def intro!: exI [of _ "length S"])
  have ack: "ntohl (sg_seqno g) = st_ackno (e_st b)" using sq rb by (simp add: word_unat_eq_iff)
  have "c_out_queue (e_conn b) = []" "\<not> closed (e_conn b)" "\<not> c_delete_me (e_conn b)" "st_segments (e_st b) = []" "st_FIN_sent (e_st b) = 0"
    "unat (st_ackno (e_st b)) + 2 ^ 16 \<le> 2 ^ 32" using rb m(5) by simp_all
  note rc = clean_receive [OF this(1-3) m(3) this(4-6) cg _ _ ack _ p(2) r(1), of cfg]
  have gd: "sg_data g = msg" "sg_flags g = TH_ACK" using q by blast+
  obtain h where h: "ep_packet y b (pkt_of cfg (e_conn a) g) = Inr \<lparr> e_st = (e_st b)\<lparr> st_output := None, st_output_len := 0,
          st_ackno := st_ackno (e_st b) + of_nat (length msg) \<rparr>,
        e_conn = (e_conn b)\<lparr> c_wr := ws, c_out := c_out (e_conn b) @ msg, c_net := c_net (e_conn b) @ [pkt_of (x_cfg y) (e_conn b) h] \<rparr>,
        e_fp = e_fp b, e_sends = Suc (e_sends b) \<rparr>" (is "_ = Inr ?b1")
    and hf: "carries [] False h" "sg_data h = []" "sg_flags h = TH_ACK" "sg_window h = htons (st_recv_window (e_st b))"
      "ntohl (sg_ackno h) = st_ackno (e_st b) + of_nat (length msg)"
    using rc [unfolded gd] m(1,4) by blast
  have gl: "unat (ntohs (sg_len g)) = 48 + length msg" using len_of_seg [of msg g] q m(2) by simp
  let ?c = "?b\<lparr> inflight := inflight ?b - int (length msg) \<rparr>"
  have gt: "sg_delivered g = b_delivered ?b" "sg_delivered_time g = t" using tr q by simp_all
  have d: "b_delivered ?c + int (unat (ntohs (sg_len g))) - 48 - sg_delivered g = int (length msg)" unfolding gl gt by simp
  have "rate_ok ?c" "0 \<le> int (length msg)" "int (length msg) \<le> 2 ^ 24" "sg_delivered_time g < x_now z" "x_now z - sg_delivered_time g \<le> 2 ^ 24"
    using q r gt m(2) by auto
  from rate_ok_onAck [OF this(1), of g "x_now z", unfolded d, OF this(2-5)] obtain b' where
    b': "bbr_onAck (x_now z) ?c g = Inr b'" "rate_ok b'"
      "b_delivered b' = b_delivered ?b + int (length msg)" "b_delivered_time b' = x_now z" "inflight b' = inflight ?b - int (length msg)"
      "nextSendTime b' = nextSendTime ?b" "max_btlbw b' = faster (max_btlbw ?b) (rnd SINGLE (of_int (int (length msg)) / of_int (x_now z - t)))"
    unfolding gl on_ack_rate_def d [unfolded gl] gt(2) faster_def by auto
  have cw: "cwnd_gain b' \<in> {Fin 0, Fin 2}" by (rule bbr_onAck_cwnd [OF b'(1)]) (use q in simp)
  let ?e = "a\<lparr> e_st := ?s\<lparr> st_segments := [], st_retrans_count := 0, st_seqno := ntohl (sg_ackno h), st_send_window := ntohs (sg_window h), st_bbr := b' \<rparr> \<rparr>"
  have e: "ep_packet z a (pkt_of (x_cfg y) (e_conn b) h) = Inr ?e"
    by (rule clean_ack [OF _ _ _ _ _ hf(1-3) _ p(1), of g]) (use q b'(1) hf(5) ack m(2) gd in simp_all)
  have nx: "unat (st_ackno (e_st b) + of_nat (length msg)) = length (S @ msg) + 1"
    using unat_add_small [of "st_ackno (e_st b)" "length msg"] rb m(5) by simp
  have nq: "st_ackno (e_st b) + of_nat (length msg) = st_next_seqno ?s" using nx q by (simp add: word_unat_eq_iff)
  have "b_delivered b' < int (length (S @ msg) + 1)" using q b'(3) by auto
  then have "paced t0 (x_now z) ?e" using q r b'(2-4) by (auto simp: paced_def)
  then have "idle t0 (x_now z) (S @ msg) ?e" using q nq cw b'(4) hf(4,5) rb by (simp add: idle_def)
  moreover have "ready (S @ msg) ?b1" using rb nx by (simp add: ready_def closed_def)
  moreover have "c_in (e_conn ?e) = c_in (e_conn a)" "c_wr (e_conn ?b1) = ws" "ids (e_conn ?e) = ids (e_conn a)" "ids (e_conn ?b1) = ids (e_conn b)"
    "inflight (st_bbr (e_st ?e)) = inflight ?b - int (length msg)" "nextSendTime (st_bbr (e_st ?e)) = nextSendTime ?b"
    "max_btlbw (st_bbr (e_st ?e)) = faster (max_btlbw ?b) (rnd SINGLE (of_int (int (length msg)) / of_int (x_now z - t)))"
    using b'(5-7) by (simp_all add: ids_def)
  moreover have "last (c_net (e_conn a)) = pkt_of cfg (e_conn a) g" "last (c_net (e_conn ?b1)) = pkt_of (x_cfg y) (e_conn b) h" using tr by simp_all
  ultimately show ?thesis using h e by metis
qed

section \<open>Rounds\<close>

text \<open>
  A round: the host \<open>a\<close> reads, in \<open>x\<close>; its timer fires in each of \<open>xs\<close>; then the last packet it has sent arrives at \<open>b\<close>, in \<open>y\<close>, the
  earlier ones being lost, and what \<open>b\<close> answers arrives at \<open>a\<close>, in \<open>z\<close>.
\<close>

definition msg_round :: "ctx \<Rightarrow> ctx list \<Rightarrow> ctx \<Rightarrow> ctx \<Rightarrow> endpoint \<times> endpoint \<Rightarrow> (endpoint \<times> endpoint) res" where
  "msg_round x xs y z = (\<lambda>(a, b). bnd (ctcp_read x a) (\<lambda>a. bnd (timer_run xs a) (\<lambda>(a, dead).
     if dead then Inl UseAfterFree
     else bnd (ep_packet y b (last (c_net (e_conn a)))) (\<lambda>b. bnd (ep_packet z a (last (c_net (e_conn b)))) (\<lambda>a. Inr (a, b))))))"

text \<open>
  When it takes place: at a time the pacing allows, with up to six timeouts; without any, the window must be open, which it is
  while nothing is counted as in flight.
\<close>

definition round_due :: "sys_config \<Rightarrow> sys_config \<Rightarrow> int \<Rightarrow> int \<Rightarrow> endpoint \<Rightarrow> ctx \<Rightarrow> ctx list \<Rightarrow> ctx \<Rightarrow> ctx \<Rightarrow> bool" where
  "round_due cA cB t0 t a x xs y z \<longleftrightarrow> x_cfg x = cA \<and> x_cfg y = cB \<and> x_cfg z = cA
     \<and> (\<forall>i. no_fault (x_env x i) \<and> no_fault (x_env y i)) \<and> (\<forall>v\<in>set xs. x_cfg v = cA \<and> (\<forall>i. no_fault (x_env v i)))
     \<and> t < x_now x \<and> nextSendTime (st_bbr (e_st a)) < x_now x \<and> x_now x < x_now z \<and> x_now z \<le> t0 + 2 ^ 24 \<and> x_now z \<le> 2 ^ 52
     \<and> spaced (st_rt_timeout (e_st a)) (st_current_time (e_st a)) xs \<and> length xs \<le> 6
     \<and> (xs \<noteq> [] \<or> inflight (st_bbr (e_st a)) = 0)"

inductive rounds :: "sys_config \<Rightarrow> sys_config \<Rightarrow> endpoint \<Rightarrow> int \<Rightarrow> endpoint \<Rightarrow> nat \<Rightarrow> endpoint \<Rightarrow> int \<Rightarrow> endpoint \<Rightarrow> bool"
  for cA cB :: sys_config and a0 :: endpoint and t0 :: int and b0 :: endpoint where
  none: "rounds cA cB a0 t0 b0 0 a0 t0 b0"
| more: "rounds cA cB a0 t0 b0 k a t b \<Longrightarrow> round_due cA cB t0 t a x xs y z \<Longrightarrow> msg_round x xs y z (a, b) = Inr (a', b')
    \<Longrightarrow> rounds cA cB a0 t0 b0 (Suc k) a' (x_now z) b'"

text \<open>The messages that \<open>a\<close> finds in its input, each with the number of bytes that the output of \<open>b\<close> takes then.\<close>

definition message_ok :: "bool \<Rightarrow> bytes \<times> nat \<Rightarrow> bool" where
  "message_ok eof m \<longleftrightarrow> fst m \<noteq> [] \<and> length (fst m) \<le> 1439 \<and> length (fst m) \<le> snd m \<and> (eof \<longrightarrow> hd (fst m) \<noteq> 0x1a)"

definition stream :: "(bytes \<times> nat) list \<Rightarrow> bytes" where
  "stream ms = concat (map fst ms)"

definition to_send :: "(bytes \<times> nat) list \<Rightarrow> endpoint \<Rightarrow> endpoint \<Rightarrow> bool" where
  "to_send ms a b \<longleftrightarrow> (\<exists>rs ws. c_in (e_conn a) = map (\<lambda>m. RData (fst m)) ms @ rs \<and> c_wr (e_conn b) = map (\<lambda>m. WTake (snd m)) ms @ ws)
     \<and> peers (e_conn a) (e_conn b) \<and> peers (e_conn b) (e_conn a)"

definition settled :: "int \<Rightarrow> int \<Rightarrow> bytes \<Rightarrow> (bytes \<times> nat) list \<Rightarrow> endpoint \<Rightarrow> endpoint \<Rightarrow> bool" where
  "settled t0 t S ms a b \<longleftrightarrow> idle t0 t S a \<and> ready S b \<and> to_send ms a b"

lemma settled_opened:
  assumes "fresh_conn cA" "fresh_conn cB" "\<not> c_delete_me cA" "\<not> c_delete_me cB" "\<not> c_read_eof cA" "peers cA cB" "peers cB cA"
    and "c_in cA = map (\<lambda>m. RData (fst m)) ms @ rs" "c_wr cB = map (\<lambda>m. WTake (snd m)) ms @ ws"
    and "cfg_send_window cfgA \<noteq> 0" "cfg_recv_window cfgB \<noteq> 0"
  shows "settled tA tA [] ms (opened cfgA tA cA) (opened cfgB tB cB)"
  using assms opened_paced [OF assms(3), of tA cfgA]
  by (auto simp: settled_def idle_def ready_def to_send_def opened_def ctcp_init_state_def init_bbr_def bbr_calloc_def fresh_conn_def)

text \<open>A round that is due takes place, and delivers a message.\<close>

lemma settled_round:
  assumes "settled t0 t S (m # ms) a b" "message_ok (eof_char_mode cA) m" "length S + length (fst m) \<le> 2 ^ 24" "0 \<le> t0"
    and due: "round_due cA cB t0 t a x xs y z"
  shows "\<exists>a' b'. msg_round x xs y z (a, b) = Inr (a', b') \<and> settled t0 (x_now z) (S @ fst m) ms a' b'
    \<and> max_btlbw (st_bbr (e_st a')) = faster (max_btlbw (st_bbr (e_st a))) (rnd SINGLE (of_int (int (length (fst m))) / of_int (x_now z - t)))
    \<and> (xs = [] \<longrightarrow> inflight (st_bbr (e_st a')) = 0
        \<and> bbr_next_send (x_now x) (st_bbr (e_st a)) (int (length (fst m))) = Inr (nextSendTime (st_bbr (e_st a'))))"
proof -
  let ?msg = "fst m"
  obtain rs ws where c: "c_in (e_conn a) = RData ?msg # map (\<lambda>m. RData (fst m)) ms @ rs"
    "c_wr (e_conn b) = WTake (snd m) # map (\<lambda>m. WTake (snd m)) ms @ ws"
    and i: "idle t0 t S a" "ready S b" "peers (e_conn a) (e_conn b)" "peers (e_conn b) (e_conn a)"
    using assms(1) by (auto simp: settled_def to_send_def)
  have m: "?msg \<noteq> []" "length ?msg \<le> 1439" "length ?msg \<le> snd m" "eof_char_mode (x_cfg x) \<longrightarrow> hd ?msg \<noteq> 0x1a"
    using assms(2) due by (simp_all add: message_ok_def round_due_def)
  note r = due [unfolded round_due_def]
  have x: "nextSendTime (st_bbr (e_st a)) < x_now x" "t < x_now x" "x_now x \<le> 2 ^ 52" "\<forall>i. no_fault (x_env x i)" using r by auto
  from idle_reads [OF i(1) assms(4) x c(1) m(1,2) assms(3) m(4)] obtain a1 g where
    a1: "ctcp_read x a = Inr a1" "waiting t0 t S ?msg g a1" "kept a a1" "c_in (e_conn a1) = map (\<lambda>m. RData (fst m)) ms @ rs"
      "st_retrans_count (e_st a1) = int 0" "st_current_time (e_st a1) = st_current_time (e_st a)"
    and f: "inflight (st_bbr (e_st a)) = 0 \<longrightarrow> transmitted (x_cfg x) g a1 \<and> inflight (st_bbr (e_st a1)) = int (length ?msg)
        \<and> bbr_next_send (x_now x) (st_bbr (e_st a)) (int (length ?msg)) = Inr (nextSendTime (st_bbr (e_st a1)))" by auto
  have t: "\<forall>x\<in>set xs. x_cfg x = cA \<and> (\<forall>i. no_fault (x_env x i))" "spaced (st_rt_timeout (e_st a1)) (st_current_time (e_st a1)) xs"
    "0 + length xs \<le> 6" "xs \<noteq> [] \<or> transmitted cA g a1" using r a1(3,6) f by (auto simp: kept_def)
  from waiting_timers [OF a1(2) m(2) t(1,2) a1(5) t(3,4)] obtain a2 g' where
    a2: "timer_run xs a1 = Inr (a2, False)" "waiting t0 t S ?msg g' a2" "transmitted cA g' a2" "kept a1 a2" "c_in (e_conn a2) = c_in (e_conn a1)"
    by blast
  have k: "kept a a2" by (rule kept_trans [OF a1(3) a2(4)])
  then have p: "peers (e_conn a2) (e_conn b)" "peers (e_conn b) (e_conn a2)" using i(3,4) by (simp_all add: kept_def peers_def ids_def)
  have z: "\<forall>i. no_fault (x_env y i)" "t < x_now z" "x_now z \<le> t0 + 2 ^ 24" using r by auto
  from waiting_delivered [OF a2(2,3) i(2) p m(1,2) c(2) m(3) assms(3) z] obtain a' b' where
    d: "ep_packet y b (last (c_net (e_conn a2))) = Inr b'" "ep_packet z a2 (last (c_net (e_conn b'))) = Inr a'"
      "idle t0 (x_now z) (S @ ?msg) a'" "ready (S @ ?msg) b'"
      "c_in (e_conn a') = c_in (e_conn a2)" "c_wr (e_conn b') = map (\<lambda>m. WTake (snd m)) ms @ ws"
      "ids (e_conn a') = ids (e_conn a2)" "ids (e_conn b') = ids (e_conn b)"
      "inflight (st_bbr (e_st a')) = inflight (st_bbr (e_st a2)) - int (length ?msg)"
      "nextSendTime (st_bbr (e_st a')) = nextSendTime (st_bbr (e_st a2))"
      "max_btlbw (st_bbr (e_st a')) = faster (max_btlbw (st_bbr (e_st a2))) (rnd SINGLE (of_int (int (length ?msg)) / of_int (x_now z - t)))"
    by blast
  have "msg_round x xs y z (a, b) = Inr (a', b')" using a1(1) a2(1) d(1,2) by (simp add: msg_round_def)
  moreover have "to_send ms a' b'" using d(5-8) a1(4) a2(5) p by (auto simp: to_send_def peers_def ids_def)
  then have "settled t0 (x_now z) (S @ ?msg) ms a' b'" using d(3,4) by (simp add: settled_def)
  moreover have "xs = [] \<longrightarrow> inflight (st_bbr (e_st a')) = 0
      \<and> bbr_next_send (x_now x) (st_bbr (e_st a)) (int (length ?msg)) = Inr (nextSendTime (st_bbr (e_st a')))"
    using a2(1) d(9,10) f r by auto
  moreover have "max_btlbw (st_bbr (e_st a2)) = max_btlbw (st_bbr (e_st a))" using k by (simp add: kept_def)
  ultimately show ?thesis using d(11) by (intro exI [of _ a'] exI [of _ b']) simp
qed

text \<open>The messages that are left at round \<open>k\<close>.\<close>

lemma next_message:
  assumes "k < length ms" "length (stream ms) \<le> n"
  shows "drop k ms = (ms ! k) # drop (Suc k) ms" "stream (take (Suc k) ms) = stream (take k ms) @ fst (ms ! k)"
    "length (stream (take k ms)) + length (fst (ms ! k)) \<le> n"
proof -
  show e: "drop k ms = (ms ! k) # drop (Suc k) ms" "stream (take (Suc k) ms) = stream (take k ms) @ fst (ms ! k)"
    using assms(1) by (simp_all add: Cons_nth_drop_Suc stream_def take_Suc_conv_app_nth)
  have "stream ms = stream (take (Suc k) ms) @ stream (drop (Suc k) ms)"
    unfolding stream_def by (simp add: concat_append [symmetric] map_append [symmetric] del: concat_append map_append)
  then show "length (stream (take k ms)) + length (fst (ms ! k)) \<le> n" using e(2) assms(2) by simp
qed

lemma rounds_settled:
  assumes "rounds cA cB a0 t0 b0 k a t b" "settled t0 t0 [] ms a0 b0" "\<forall>m\<in>set ms. message_ok (eof_char_mode cA) m"
    and "length (stream ms) \<le> 2 ^ 24" "0 \<le> t0" "k \<le> length ms"
  shows "settled t0 t (stream (take k ms)) (drop k ms) a b"
  using assms(1,6)
proof induction
  case none then show ?case using assms(2) by (simp add: stream_def)
next
  case (more k a t b x xs y z a' b')
  have k: "k < length ms" using more.prems by simp
  note d = next_message [OF k assms(4)]
  have "message_ok (eof_char_mode cA) (ms ! k)" using assms(3) k by simp
  moreover have "settled t0 t (stream (take k ms)) (ms ! k # drop (Suc k) ms) a b" using more.IH k d(1) by simp
  ultimately show ?case using settled_round [OF _ _ d(3) assms(5) more.hyps(2)] more.hyps(3) unfolding d(2) by fastforce
qed

section \<open>A schedule\<close>

text \<open>
  The host reads as soon as the pacing allows, and each packet takes no longer than to the next millisecond. The first round
  measures at least half a byte a millisecond, the bandwidth never decreases, so the pause is never longer than two
  milliseconds for each byte.
\<close>

definition ctx_at :: "sys_config \<Rightarrow> int \<Rightarrow> ctx" where
  "ctx_at cfg now = \<lparr> x_cfg = cfg, x_env = (\<lambda>_. \<lparr> se_fault = (\<lambda>_ _. False), se_rand = (\<lambda>_. 0), se_fails = (\<lambda>_. False) \<rparr>), x_now = now \<rparr>"

lemma ctx_at [simp]: "x_cfg (ctx_at cfg now) = cfg" "x_now (ctx_at cfg now) = now" "no_fault (x_env (ctx_at cfg now) i)"
  by (simp_all add: ctx_at_def no_fault_def)

definition swift :: "int \<Rightarrow> ctcp_bbr \<Rightarrow> bool" where
  "swift t b \<longleftrightarrow> inflight b = 0 \<and> nextSendTime b \<le> t + 2877 \<and> (max_btlbw b = Fin 0 \<and> nextSendTime b \<le> t \<or> (\<exists>q. max_btlbw b = Fin q \<and> 1 / 2 \<le> q))"

lemma half_byte: "0 < n \<Longrightarrow> 1 / 2 \<le> rnd SINGLE (of_int n / of_int 2)"
  using rnd_ge_powi [of "-1" "of_int n / 2" SINGLE] by (simp add: power_int_minus)

lemma swift_round:
  assumes "swift t b" "rate_ok b" "0 < n" "n \<le> 1439" "0 \<le> t" "t \<le> 2 ^ 51"
    and x: "x = max t (nextSendTime b) + 1"
    and b': "bbr_next_send x b n = Inr (nextSendTime b')" "max_btlbw b' = faster (max_btlbw b) (rnd SINGLE (of_int n / of_int (x + 1 - t)))"
      "inflight b' = 0"
  shows "swift (x + 1) b' \<and> x + 1 \<le> t + 3000"
proof -
  have nst: "nextSendTime b \<le> t + 2877" using assms(1) by (simp add: swift_def)
  have x1: "0 \<le> x" "x \<le> 2 ^ 52" "x + 1 \<le> t + 3000" using x nst assms(5,6) by auto
  obtain g where g: "pacing_gain b = Fin g" "g \<in> {0, 1, 2}"
    using assms(2) by (cases "bbr_mode_of b") (auto simp: rate_ok_def bbr_inv_def split: if_splits)
  from assms(1) consider (zero) "max_btlbw b = Fin 0" "nextSendTime b \<le> t" | (fast) q where "max_btlbw b = Fin q" "1 / 2 \<le> q"
    by (auto simp: swift_def)
  then show ?thesis
  proof cases
    case zero
    then have "x + 1 - t = 2" using x by simp
    then have "1 / 2 \<le> rnd SINGLE (of_int n / of_int (x + 1 - t))" using half_byte [OF assms(3)] by (simp only:)
    then have "\<exists>q. max_btlbw b' = Fin q \<and> 1 / 2 \<le> q" unfolding b'(2) faster_def zero(1) by auto
    moreover have "f_is_zero (f_mul DOUBLE (pacing_gain b) (max_btlbw b))" using g(1) zero(1) by (simp add: f_is_zero_def)
    then have "nextSendTime b' = x" using b'(1) by (simp add: bbr_next_send_def Let_def)
    ultimately show ?thesis using x1 b'(3) by (simp add: swift_def)
  next
    case fast
    have "n * 2 ^ 1 \<le> 2 ^ 48" "0 \<le> n" "2 powi - int 1 \<le> q" using assms(3,4) fast(2) by (simp_all add: power_int_minus)
    with bbr_next_send_ok [OF g fast(1), of 1 n x] x1 b'(1) have "nextSendTime b' \<le> x + 2878" using assms(4) by auto
    moreover have "\<exists>q. max_btlbw b' = Fin q \<and> 1 / 2 \<le> q" using fast unfolding b'(2) faster_def by auto
    ultimately show ?thesis using x1 b'(3) by (auto simp: swift_def)
  qed
qed

lemma rounds_exist:
  assumes s: "settled t0 t0 [] ms a0 b0" "\<forall>m\<in>set ms. message_ok (eof_char_mode cA) m" "length (stream ms) \<le> 2 ^ 24" "0 \<le> t0"
    and "swift t0 (st_bbr (e_st a0))" "t0 \<le> 2 ^ 50" "length ms \<le> 5000" "k \<le> length ms"
  shows "\<exists>a t b. rounds cA cB a0 t0 b0 k a t b \<and> swift t (st_bbr (e_st a)) \<and> t0 \<le> t \<and> t \<le> t0 + 3000 * int k"
  using assms(8)
proof (induction k)
  case 0
  show ?case using rounds.none assms(5) by fastforce
next
  case (Suc k)
  obtain a t b where r: "rounds cA cB a0 t0 b0 k a t b" "swift t (st_bbr (e_st a))" "t0 \<le> t" "t \<le> t0 + 3000 * int k" using Suc by auto
  have k: "k < length ms" using Suc.prems by simp
  note d = next_message [OF k s(3)]
  let ?m = "ms ! k" and ?x = "max t (nextSendTime (st_bbr (e_st a))) + 1"
  have st: "settled t0 t (stream (take k ms)) (?m # drop (Suc k) ms) a b" using rounds_settled [OF r(1) s] k d(1) by simp
  have m: "message_ok (eof_char_mode cA) ?m" using s(2) k by simp
  then have n: "0 < int (length (fst ?m))" "int (length (fst ?m)) \<le> 1439" by (simp_all add: message_ok_def)
  have "nextSendTime (st_bbr (e_st a)) \<le> t + 2877" "inflight (st_bbr (e_st a)) = 0" using r(2) by (simp_all add: swift_def)
  then have due: "round_due cA cB t0 t a (ctx_at cA ?x) [] (ctx_at cB ?x) (ctx_at cA (?x + 1))"
    using r(3,4) s(4) assms(6,7) k by (auto simp: round_due_def)
  from settled_round [OF st m d(3) s(4) due] obtain a' b' where
    e: "msg_round (ctx_at cA ?x) [] (ctx_at cB ?x) (ctx_at cA (?x + 1)) (a, b) = Inr (a', b')"
      "bbr_next_send ?x (st_bbr (e_st a)) (int (length (fst ?m))) = Inr (nextSendTime (st_bbr (e_st a')))"
      "max_btlbw (st_bbr (e_st a')) = faster (max_btlbw (st_bbr (e_st a))) (rnd SINGLE (of_int (int (length (fst ?m))) / of_int (?x + 1 - t)))"
      "inflight (st_bbr (e_st a')) = 0"
    unfolding ctx_at by auto
  have "rate_ok (st_bbr (e_st a))" using st by (simp add: settled_def idle_def paced_def)
  moreover have "0 \<le> t" "t \<le> 2 ^ 51" using r(3,4) s(4) assms(6,7) k by auto
  ultimately have w: "swift (?x + 1) (st_bbr (e_st a'))" "?x + 1 \<le> t + 3000"
    using swift_round [OF r(2) _ n _ _ refl e(2,3,4)] by blast+
  have "rounds cA cB a0 t0 b0 (Suc k) a' (x_now (ctx_at cA (?x + 1))) b'" by (rule rounds.more [OF r(1) due e(1)])
  then show ?case using w r(3,4) by (intro exI [of _ a'] exI [of _ "?x + 1"] exI [of _ b']) auto
qed

section \<open>A lost acknowledgement\<close>

lemma received_before:
  assumes "waiting t0 t S msg g a" "transmitted cfg g a" "msg \<noteq> []" "length msg \<le> 1439" "ready (S @ msg) b" "peers (e_conn b) (e_conn a)"
  shows "ep_packet v b (last (c_net (e_conn a))) = Inr b"
proof -
  have g: "unat (ntohl (sg_seqno g)) = length S + 1" "sg_data g = msg" "sg_flags g = TH_ACK" "sg_len g = htons (of_nat (48 + length msg))"
    using assms(1) by (simp_all add: waiting_def plain_seg_def)
  have "ntohl (sg_seqno g) = of_nat (length S + 1)" unfolding g(1) [symmetric] by simp
  then have c: "carries (S @ msg) False g" using g assms(4) by (auto simp: carries_def intro!: exI [of _ "length S"])
  have "ntohl (sg_seqno (wire_seg cfg g)) < st_ackno (e_st b)"
    using assms(3,5) g(1) unfolding word_less_nat_alt by (simp add: ready_def wire_plain [OF g(3)])
  then have "receive_data v b (wire_seg cfg g) (int (length msg)) = Inr (b, False)" using assms(3) by (simp add: receive_data_def Let_def)
  then have "ctcp_receive v b (wire_seg cfg g) (48 + length (sg_data g)) = Inr b" using g(2) by (simp add: ctcp_receive_def)
  then show ?thesis using packet_received [OF c assms(6), of v cfg] assms(2) by (simp add: transmitted_def)
qed

section \<open>The properties\<close>

text \<open>
  C5. Complete delivery in spite of losses: up to 5000 messages, of at most 1439 bytes each and 16 megabytes together, wait in the input of a
  host, and the output of its peer takes them as they come. Of each message the packet and up to five of its retransmissions may be lost, and the
  acknowledgement of the last one arrives. After each number of rounds exactly as many messages have
  been written, in order, and nothing is outstanding; the next round never fails, unless the window, which a retransmission
  leaves narrower than before, keeps the packet back until a timeout. Without losses some schedule obeys the pacing of the congestion
  control and completes all rounds in three seconds for each message. All happens within \<open>2 ^ 24\<close> milliseconds.
\<close>

theorem ctcp_delivers_all:
  assumes "fresh_conn connA" "fresh_conn connB" "\<not> c_delete_me connA" "\<not> c_delete_me connB" "\<not> c_read_eof connA"
    and "peers connA connB" "peers connB connA" "cfg_send_window cA \<noteq> 0" "cfg_recv_window cB \<noteq> 0"
    and "c_in connA = map (\<lambda>m. RData (fst m)) ms @ rs" "c_wr connB = map (\<lambda>m. WTake (snd m)) ms @ ws"
    and "\<forall>m\<in>set ms. message_ok (eof_char_mode cA) m" "length (stream ms) \<le> 2 ^ 24" "length ms \<le> 5000" "0 \<le> tA" "tA \<le> 2 ^ 50"
  shows "(\<forall>k a t b. rounds cA cB (opened cA tA connA) tA (opened cB tB connB) k a t b \<and> k \<le> length ms \<longrightarrow>
        c_out (e_conn b) = stream (take k ms) \<and> st_segments (e_st a) = []
        \<and> (k < length ms \<longrightarrow> (\<forall>x xs y z. round_due cA cB tA t a x xs y z \<longrightarrow> (\<exists>r. msg_round x xs y z (a, b) = Inr r))))
    \<and> (\<exists>a t b. rounds cA cB (opened cA tA connA) tA (opened cB tB connB) (length ms) a t b \<and> t \<le> tA + 3000 * int (length ms)
        \<and> c_out (e_conn b) = stream ms)"
proof -
  have s: "settled tA tA [] ms (opened cA tA connA) (opened cB tB connB)"
    by (rule settled_opened [OF assms(1-7,10,11,8,9)])
  note r = rounds_settled [OF _ s assms(12,13,15)]
  have n: "\<exists>r. msg_round x xs y z (a, b) = Inr r" if "rounds cA cB (opened cA tA connA) tA (opened cB tB connB) k a t b" "k < length ms"
    "round_due cA cB tA t a x xs y z" for k a t b x xs y z
    using settled_round [OF _ _ next_message(3) [OF that(2) assms(13)] assms(15) that(3), of "drop (Suc k) ms" b]
      r [OF that(1)] assms(12) that(2) next_message(1) [OF that(2) assms(13)] by fastforce
  have "swift tA (st_bbr (e_st (opened cA tA connA)))"
    using assms(15) by (simp add: swift_def opened_def ctcp_init_state_def init_bbr_def)
  from rounds_exist [OF s assms(12,13,15) this assms(16,14) le_refl, of cB] obtain a t b where
    "rounds cA cB (opened cA tA connA) tA (opened cB tB connB) (length ms) a t b" "t \<le> tA + 3000 * int (length ms)" by blast
  moreover from r [OF this(1)] have "c_out (e_conn b) = stream ms" by (simp add: settled_def ready_def)
  ultimately show ?thesis using r n unfolding settled_def ready_def idle_def by blast
qed

text \<open>
  C39. An acknowledgement that is lost is never repeated: the first message of a connection arrives and is written, its acknowledgement is
  lost. The sender retransmits at each timeout, up to six times; the receiver ignores every retransmission, as it is
  of a segment already received, and does not acknowledge it. Unless more data follows, the seventh timeout destroys the connection, although all has been delivered.
\<close>

theorem ctcp_lost_ack:
  assumes "fresh_conn connA" "fresh_conn connB" "\<not> c_delete_me connA" "\<not> c_delete_me connB" "\<not> c_read_eof connA"
    and "peers connA connB" "peers connB connA" "cfg_send_window cA \<noteq> 0" "cfg_recv_window cB \<noteq> 0"
    and "c_in connA = RData msg # rs" "c_wr connB = WTake n # ws" "message_ok (eof_char_mode cA) (msg, n)"
    and "x_cfg x = cA" "\<forall>i. no_fault (x_env x i)" "\<forall>i. no_fault (x_env y i)" "0 \<le> tA" "tA < x_now x" "x_now x \<le> 2 ^ 51"
  shows "\<exists>a b. ctcp_read x (opened cA tA connA) = Inr a \<and> ep_packet y (opened cB tB connB) (last (c_net (e_conn a))) = Inr b
    \<and> c_out (e_conn b) = msg
    \<and> (\<forall>xs. (\<forall>v\<in>set xs. x_cfg v = cA \<and> (\<forall>i. no_fault (x_env v i))) \<and> spaced (cfg_rt_timeout cA) tA xs \<longrightarrow>
        (\<exists>a'. timer_run xs a = Inr (a', 7 \<le> length xs) \<and> (length xs \<le> 6 \<longrightarrow> (\<forall>v. ep_packet v b (last (c_net (e_conn a'))) = Inr b))))"
proof -
  let ?a = "opened cA tA connA" and ?b = "opened cB tB connB"
  have m: "msg \<noteq> []" "length msg \<le> 1439" "length msg \<le> n" "eof_char_mode (x_cfg x) \<longrightarrow> hd msg \<noteq> 0x1a" "length ([] :: bytes) + length msg \<le> 2 ^ 24"
    using assms(12,13) by (simp_all add: message_ok_def)
  have i: "idle tA tA [] ?a" "ready [] ?b"
    using settled_opened [OF assms(1-7) _ _ assms(8,9), of "[]" "c_in connA" "c_wr connB"] by (simp_all add: settled_def)
  have o: "e_conn ?a = connA" "e_conn ?b = connB" "st_current_time (e_st ?a) = tA" "st_rt_timeout (e_st ?a) = cfg_rt_timeout cA"
    "nextSendTime (st_bbr (e_st ?a)) = 0" "inflight (st_bbr (e_st ?a)) = 0"
    by (simp_all add: opened_def ctcp_init_state_def init_bbr_def)
  have x: "nextSendTime (st_bbr (e_st ?a)) < x_now x" "x_now x \<le> 2 ^ 52" "c_in (e_conn ?a) = RData msg # rs" using assms(10,16-18) by (simp_all add: o)
  from idle_reads [OF i(1) assms(16) x(1) assms(17) x(2) assms(14) x(3) m(1,2,5,4)] obtain a g where
    a: "ctcp_read x ?a = Inr a" "waiting tA tA [] msg g a" "kept ?a a" "st_retrans_count (e_st a) = int 0" "st_current_time (e_st a) = tA"
      "transmitted cA g a" unfolding o assms(13) by auto
  have p: "peers (e_conn a) connB" "peers connB (e_conn a)" using assms(6,7) a(3) by (simp_all add: kept_def o peers_def ids_def)
  have r: "st_rt_timeout (e_st a) = cfg_rt_timeout cA" using a(3) by (simp add: kept_def o)
  let ?z = "ctx_at cA (tA + 1)"
  have "tA < x_now ?z" "x_now ?z \<le> tA + 2 ^ 24" by simp_all
  from waiting_delivered [OF a(2,6) i(2) _ _ m(1,2) _ m(3,5) assms(15) this, unfolded o, OF p assms(11)] obtain b where
    b: "ep_packet y ?b (last (c_net (e_conn a))) = Inr b" "ready ([] @ msg) b" "ids (e_conn b) = ids connB" by blast
  have pb: "peers (e_conn b) (e_conn a')" if "kept a a'" for a' using p(2) b(3) that by (simp add: kept_def peers_def ids_def)
  have "\<exists>a'. timer_run xs a = Inr (a', 7 \<le> length xs) \<and> (length xs \<le> 6 \<longrightarrow> (\<forall>v. ep_packet v b (last (c_net (e_conn a'))) = Inr b))"
    if xs: "\<forall>v\<in>set xs. x_cfg v = cA \<and> (\<forall>i. no_fault (x_env v i))" "spaced (cfg_rt_timeout cA) tA xs" for xs
  proof (cases "length xs \<le> 6")
    case True
    then have "0 + length xs \<le> 6" "spaced (st_rt_timeout (e_st a)) (st_current_time (e_st a)) xs" using xs(2) by (simp_all add: r a(5))
    from waiting_timers [OF a(2) m(2) xs(1) this(2) a(4) this(1) disjI2 [OF a(6)]] obtain a' g' where
      "timer_run xs a = Inr (a', False)" "waiting tA tA [] msg g' a'" "transmitted cA g' a'" "kept a a'" by blast
    then show ?thesis using received_before [OF _ _ m(1,2) b(2) pb] True by auto
  next
    case False
    note q = a(2) [unfolded waiting_def plain_seg_def]
    obtain bdp l where bl: "bbr_bdp (st_bbr (e_st a)) = Inr bdp" "e_fp a = Some l" using rate_ok_bdp q by blast
    have "outstanding a" using q m(2) by (simp add: outstanding_def)
    moreover have "\<forall>v\<in>set xs. \<forall>i. no_corrupt (x_env v i)" using xs(1) no_fault_corrupt by blast
    ultimately show ?thesis using timer_run_steps [OF _ _ bl, of xs 0] xs(2) a(4) False by (auto simp: r a(5) not_le Suc_le_eq)
  qed
  then show ?thesis using a(1) b(1,2) by (auto simp: ready_def)
qed

theorem ctcp_delivers_all_witness:
  "\<exists>a t b. rounds ex_cfg ex_cfg (opened ex_cfg 990 (ex_a\<lparr> c_in := [RData [104, 105], RData [33]] \<rparr>)) 990
      (opened ex_cfg 990 (ex_b\<lparr> c_wr := [WTake 5, WTake 1] \<rparr>)) 2 a t b
    \<and> t \<le> 6990 \<and> c_out (e_conn b) = [104, 105, 33]"
proof -
  let ?a = "ex_a\<lparr> c_in := [RData [104, 105], RData [33]] \<rparr>" and ?b = "ex_b\<lparr> c_wr := [WTake 5, WTake 1] \<rparr>"
  let ?ms = "[([104, 105], 5), ([33], 1)] :: (bytes \<times> nat) list"
  have c: "fresh_conn ?a" "fresh_conn ?b" "\<not> c_delete_me ?a" "\<not> c_delete_me ?b" "\<not> c_read_eof ?a" "peers ?a ?b" "peers ?b ?a"
    using ex_conns by (simp_all add: fresh_conn_def closed_def peers_def)
  have w: "cfg_send_window ex_cfg \<noteq> 0" "cfg_recv_window ex_cfg \<noteq> 0" by (simp_all add: ex_cfg_def)
  have m: "\<forall>m\<in>set ?ms. message_ok (eof_char_mode ex_cfg) m" by (simp add: message_ok_def ex_cfg_def)
  have st: "stream ?ms = [104, 105, 33]" "length ?ms = 2" by (simp_all add: stream_def)
  have io: "c_in ?a = map (\<lambda>m. RData (fst m)) ?ms @ []" "c_wr ?b = map (\<lambda>m. WTake (snd m)) ?ms @ []" by simp_all
  have "length (stream ?ms) \<le> 2 ^ 24" "length ?ms \<le> 5000" "(0 :: int) \<le> 990" "(990 :: int) \<le> 2 ^ 50" unfolding st by simp_all
  from ctcp_delivers_all [OF c w io m this] obtain a t b where
    "rounds ex_cfg ex_cfg (opened ex_cfg 990 ?a) 990 (opened ex_cfg 990 ?b) 2 a t b" "t \<le> 990 + 3000 * int 2" "c_out (e_conn b) = [104, 105, 33]"
    unfolding st by blast
  then show ?thesis by auto
qed


theorem ctcp_lost_ack_witness:
  "\<exists>a b. ctcp_read ex_ctx (opened ex_cfg 990 ex_a) = Inr a \<and> ep_packet ex_ctx (opened ex_cfg 990 ex_b) (last (c_net (e_conn a))) = Inr b
    \<and> c_out (e_conn b) = [104, 105]
    \<and> (\<exists>a'. timer_run (map (\<lambda>t. ex_ctx\<lparr> x_now := t \<rparr>) [1200, 1500, 1800, 2100, 2400, 2700, 3000]) a = Inr (a', True))"
proof -
  let ?xs = "map (\<lambda>t. ex_ctx\<lparr> x_now := t \<rparr>) [1200, 1500, 1800, 2100, 2400, 2700, 3000]"
  have m: "message_ok (eof_char_mode ex_cfg) ([104, 105], 5)" "cfg_recv_window ex_cfg \<noteq> 0" "(0 :: int) \<le> 990" "990 < x_now ex_ctx" "x_now ex_ctx \<le> 2 ^ 51"
    by (simp_all add: message_ok_def ex_cfg_def ex_ctx_def)
  have xs: "\<forall>v\<in>set ?xs. x_cfg v = ex_cfg \<and> (\<forall>i. no_fault (x_env v i))" "spaced (cfg_rt_timeout ex_cfg) 990 ?xs" "length ?xs = 7"
    using ex_env(1,4) by (simp_all add: ex_cfg_def)
  have n: "(7 \<le> length ?xs) = True" unfolding xs(3) by simp
  from ctcp_lost_ack [OF ex_conns(1,2,5,6,7,3,4) ex_env(5) m(2) ex_conns(8,10) m(1) ex_env(4,1,1) m(3-5), of 990] obtain a b where
    ab: "ctcp_read ex_ctx (opened ex_cfg 990 ex_a) = Inr a" "ep_packet ex_ctx (opened ex_cfg 990 ex_b) (last (c_net (e_conn a))) = Inr b"
      "c_out (e_conn b) = [104, 105]"
    and t: "\<And>xs. \<forall>v\<in>set xs. x_cfg v = ex_cfg \<and> (\<forall>i. no_fault (x_env v i)) \<Longrightarrow> spaced (cfg_rt_timeout ex_cfg) 990 xs \<Longrightarrow>
      \<exists>a'. timer_run xs a = Inr (a', 7 \<le> length xs)" by blast
  from t [OF xs(1,2)] have "\<exists>a'. timer_run ?xs a = Inr (a', True)" unfolding n .
  with ab show ?thesis by blast
qed

end
