(* ===== verification/Session.thy ===== *)
theory Session
  imports Exchange
begin

text \<open>
  The rest of \<^verbatim>\<open>ctcp_sys_internal.c\<close>: opening connections, filtering packets, the lists of connections and
  of cTCP states, the event loop. Connection objects live at the addresses of \<open>p_eps\<close>, each with the
  cTCP state it belongs to; \<open>p_conns\<close> is the list of connections, \<open>p_states\<close> the list of cTCP states,
  \<open>p_fp\<close> the file all states share. A state that is in no list has been freed.

  The head of a server's connection list has a \<^verbatim>\<open>prev\<close> that points to a local variable of
  \<^verbatim>\<open>conn_add\<close>; freeing it writes there. What \<^verbatim>\<open>poll\<close> reports and the packet that \<^verbatim>\<open>recv\<close>
  returns are given for each turn of the loop. The packets that open connections, and the resets of \<open>Startup\<close>, are collected in \<open>p_sent\<close>.
\<close>

definition MAX_NUM_CLIENTS :: nat where [simp]: "MAX_NUM_CLIENTS = 10"
definition SALT :: int where [simp]: "SALT = 0x14400"
definition TIMER_INTERVAL :: int where [simp]: "TIMER_INTERVAL = 40"
definition RT_INTERVAL :: int where [simp]: "RT_INTERVAL = 200"
definition DEFAULT_PORT :: int where [simp]: "DEFAULT_PORT = 80"

record process =
  p_cfg :: sys_config
  p_server :: bool
  p_eps :: "nat \<Rightarrow> endpoint option"
  p_conns :: "nat list"
  p_states :: "nat list"
  p_fp :: "(int \<times> int) list option"
  p_connected :: nat
  p_new :: u16
  p_last :: "int \<times> int"
  p_sent :: "bytes list"
  p_exited :: bool

section \<open>Helpers\<close>

text \<open>Times are seconds and nanoseconds, \<open>timespec\<close>s; intervals are milliseconds.\<close>

definition need_timer_in :: "int \<times> int \<Rightarrow> int \<times> int \<Rightarrow> int \<Rightarrow> int" where
  "need_timer_in ts before interval =
     (let elapsed = fst ts - fst before in
      if elapsed > interval sdiv 1000 then 0
      else let elapsed = elapsed * 1000 + (snd ts - snd before) sdiv 1000000
           in if elapsed \<ge> interval then 0 else interval - elapsed)"

text \<open>Milliseconds, from seconds and microseconds.\<close>

definition current_time :: "int \<times> int \<Rightarrow> int" where
  "current_time tv = fst tv * 1000 + snd tv sdiv 1000"

definition add_network_line_ending :: "bool \<Rightarrow> bytes \<Rightarrow> nat \<Rightarrow> (bool \<times> bytes) res" where
  "add_network_line_ending webserver buf len =
     (if \<not> webserver then Inr (False, buf)
      else bnd (read_bytes buf (len - 1) 1) (\<lambda>b.
        if len = 0 then Inl OutOfBounds
        else if hd b \<noteq> 10 then Inr (False, buf)
        else bnd (write_bytes buf (len - 1) [13, 10, 0]) (\<lambda>buf. Inr (True, buf))))"

definition rand_percent :: "int \<Rightarrow> int \<Rightarrow> int" where
  "rand_percent r level = (r + level * SALT) smod 100"

text \<open>The windows that \<^verbatim>\<open>main\<close> configures for the option \<open>-w\<close>.\<close>

definition main_cfg :: "int \<Rightarrow> sys_config \<Rightarrow> sys_config" where
  "main_cfg window cfg = cfg\<lparr> cfg_recv_window := of_int (window * int MAX_SEG_DATA_SIZE),
     cfg_send_window := of_int (window * int MAX_SEG_DATA_SIZE), cfg_rt_timeout := RT_INTERVAL \<rparr>"

section \<open>Connections\<close>

text \<open>A \<^verbatim>\<open>calloc\<close>ed connection, with the input and output it will have.\<close>

definition conn_calloc :: "read_result list \<Rightarrow> write_result list \<Rightarrow> conn" where
  "conn_calloc i w = \<lparr> c_ip_addr = 0, c_port = 0, c_init_seqno = 0, c_their_init_seqno = 0, c_seqno = 0,
     c_next_seqno = 0, c_ackno = 0, c_read_eof = False, c_wrote_eof = False, c_wrote_err = False, c_delete_me = False,
     c_out_queue = [], c_pollout = False, c_in = i, c_wr = w, c_out = [], c_net = [] \<rparr>"

definition conn_setup :: "u32 \<Rightarrow> int \<Rightarrow> u32 \<Rightarrow> conn \<Rightarrow> conn" where
  "conn_setup ip_addr port rand c = c\<lparr> c_ip_addr := ip_addr, c_port := port, c_init_seqno := rand, c_seqno := 0,
     c_next_seqno := rand, c_ackno := 0 \<rparr>"

text \<open>Adding the connection at address \<open>i\<close>; the client's only connection is its own list.\<close>

definition conn_add :: "nat \<Rightarrow> process \<Rightarrow> process" where
  "conn_add i p = (if p_server p then p\<lparr> p_conns := i # p_conns p \<rparr> else p\<lparr> p_conns := [i] \<rparr>)"

definition conn_free :: "nat \<Rightarrow> process \<Rightarrow> process res" where
  "conn_free i p =
     (if p_conns p \<noteq> [] \<and> hd (p_conns p) = i
      then if p_server p then Inl UseAfterFree else Inr (p\<lparr> p_eps := (p_eps p)(i := None), p_conns := [] \<rparr>)
      else Inr (p\<lparr> p_eps := (p_eps p)(i := None), p_conns := remove1 i (p_conns p) \<rparr>))"

definition conn_of :: "process \<Rightarrow> nat \<Rightarrow> endpoint res" where
  "conn_of p i = (case p_eps p i of None \<Rightarrow> Inl UseAfterFree | Some ep \<Rightarrow> Inr ep)"

text \<open>The loop of \<^verbatim>\<open>delete_all_connections\<close> over the connections that are left.\<close>

fun delete_conns :: "nat list \<Rightarrow> process \<Rightarrow> process res" where
  "delete_conns [] p = Inr p"
| "delete_conns (i # is) p =
     bnd (conn_of p i) (\<lambda>ep. bnd (if c_delete_me (e_conn ep) then conn_free i p else Inr p) (delete_conns is))"

definition delete_all_connections :: "process \<Rightarrow> process res" where
  "delete_all_connections p = delete_conns (p_conns p) p"

definition end_client :: "process \<Rightarrow> process res" where
  "end_client p = (if p_server p then Inr p
     else bnd (delete_all_connections p) (\<lambda>p. Inr (p\<lparr> p_exited := True \<rparr>)))"

section \<open>The list of cTCP states\<close>

definition on_conn :: "nat \<Rightarrow> (endpoint \<Rightarrow> endpoint res) \<Rightarrow> process \<Rightarrow> process res" where
  "on_conn i f p = bnd (conn_of p i) (\<lambda>ep. bnd (f (ep\<lparr> e_fp := p_fp p \<rparr>)) (\<lambda>ep.
     Inr (p\<lparr> p_eps := (p_eps p)(i \<mapsto> ep), p_fp := e_fp ep \<rparr>)))"

text \<open>A handler on a connection's state.\<close>

definition on_state :: "nat \<Rightarrow> (endpoint \<Rightarrow> endpoint res) \<Rightarrow> process \<Rightarrow> process res" where
  "on_state i f p = (if i \<in> set (p_states p) then on_conn i f p else Inl UseAfterFree)"

definition ctcp_init :: "int \<Rightarrow> nat option \<Rightarrow> process \<Rightarrow> (bool \<times> process) res" where
  "ctcp_init now c p = (case c of None \<Rightarrow> Inr (False, p)
     | Some i \<Rightarrow> bnd (conn_of p i) (\<lambda>ep.
         Inr (True, p\<lparr> p_eps := (p_eps p)(i \<mapsto> opened (p_cfg p) now (e_conn ep)), p_states := i # p_states p, p_fp := Some [] \<rparr>)))"

definition ctcp_destroy :: "nat \<Rightarrow> process \<Rightarrow> process res" where
  "ctcp_destroy i p =
     bnd (on_conn i (\<lambda>ep. Inr (ep\<lparr> e_conn := conn_remove (e_conn ep) \<rparr>)) p) (\<lambda>p.
       end_client (p\<lparr> p_states := remove1 i (p_states p) \<rparr>))"

definition ctcp_timer :: "ctx \<Rightarrow> process \<Rightarrow> process res" where
  "ctcp_timer x p = (case p_states p of [] \<Rightarrow> Inr p
     | i # _ \<Rightarrow> bnd (conn_of p i) (\<lambda>ep. bnd (timer_ep x (ep\<lparr> e_fp := p_fp p \<rparr>)) (\<lambda>(ep, dead).
         let p = p\<lparr> p_eps := (p_eps p)(i \<mapsto> ep), p_fp := e_fp ep \<rparr>
         in if dead then ctcp_destroy i p else Inr p)))"

section \<open>Packets\<close>

text \<open>What becomes of a received packet: an error, dropped, the process exits, or it is passed on, for a connection.\<close>

datatype filtered = Failed | Dropped | Exits | Passed "nat option"

definition in_session :: "sys_config \<Rightarrow> sr_ip_hdr \<Rightarrow> tcphdr \<Rightarrow> conn \<Rightarrow> bool" where
  "in_session cfg ip tcp c \<longleftrightarrow> c_port c = int (unat (ntohs (th_sport tcp)))
     \<and> (unix_socket cfg \<or> c_ip_addr c = ip_src ip)
     \<and> ntohl (th_seq tcp) \<ge> c_their_init_seqno c \<and> ntohl (th_ack tcp) \<ge> c_init_seqno c"

fun find_session :: "process \<Rightarrow> sr_ip_hdr \<Rightarrow> tcphdr \<Rightarrow> nat list \<Rightarrow> filtered res" where
  "find_session p ip tcp [] = Inr Dropped"
| "find_session p ip tcp (i # is) = bnd (conn_of p i) (\<lambda>ep.
     if in_session (p_cfg p) ip tcp (e_conn ep) then Inr (Passed (Some i)) else find_session p ip tcp is)"

text \<open>\<open>r\<close> is what \<^verbatim>\<open>recv\<close> returns, \<open>None\<close> for an error.\<close>

definition recv_filter :: "process \<Rightarrow> bytes option \<Rightarrow> filtered res" where
  "recv_filter p r = (case r of None \<Rightarrow> Inr Failed
     | Some d \<Rightarrow> if length d < FULL_HDR_SIZE then Inr Dropped
       else bnd (load_ip d 0) (\<lambda>ip. bnd (load_tcp d IP_HDR_SIZE) (\<lambda>tcp.
         if th_dport tcp \<noteq> htons (of_int (my_port (p_cfg p))) then Inr Dropped
         else if ucast (th_flags tcp) AND TH_RST \<noteq> 0 then Inr Exits
         else if ucast (th_flags tcp) AND TH_SYN \<noteq> 0 then Inr (Passed None)
         else find_session p ip tcp (p_conns p))))"

definition send_tcp_conn_seg :: "bool \<Rightarrow> nat \<Rightarrow> u32 \<Rightarrow> process \<Rightarrow> (bool \<times> process) res" where
  "send_tcp_conn_seg fails i flags p =
     bnd (conn_of p i) (\<lambda>ep. bnd (create_tcp_seg (p_cfg p) (e_conn ep) (ucast flags) []) (\<lambda>(pkt, c).
       let p = p\<lparr> p_eps := (p_eps p)(i \<mapsto> ep\<lparr> e_conn := c \<rparr>) \<rparr>
       in Inr (\<not> fails, if fails then p else p\<lparr> p_sent := p_sent p @ [pkt] \<rparr>)))"

definition send_ack where "send_ack fails i = send_tcp_conn_seg fails i TH_ACK"
definition send_rst where "send_rst fails i = send_tcp_conn_seg fails i TH_RST"
definition send_syn where "send_syn fails i = send_tcp_conn_seg fails i TH_SYN"
definition send_synack where "send_synack fails i = send_tcp_conn_seg fails i (TH_SYN OR TH_ACK)"

section \<open>Opening a connection\<close>

text \<open>The client's connection to the server, made by \<^verbatim>\<open>do_config_server\<close>, once the address is resolved.\<close>

definition do_config_server :: "u32 \<Rightarrow> int \<Rightarrow> u32 \<Rightarrow> read_result list \<Rightarrow> write_result list \<Rightarrow> nat \<Rightarrow> process \<Rightarrow> process" where
  "do_config_server dst_ip server_port rand inp wr i p =
     (let port = (if server_port = 0 then DEFAULT_PORT else server_port);
          c = conn_setup dst_ip port rand (conn_calloc inp wr)
      in conn_add i (p\<lparr> p_eps := (p_eps p)(i \<mapsto> opened (p_cfg p) 0 c) \<rparr>))"

text \<open>The handshake: \<open>r\<close> is the packet that arrives; \<open>None\<close> is the result NULL.\<close>

definition upd_conn :: "nat \<Rightarrow> (conn \<Rightarrow> conn) \<Rightarrow> process \<Rightarrow> process res" where
  "upd_conn i f p = bnd (conn_of p i) (\<lambda>ep. Inr (p\<lparr> p_eps := (p_eps p)(i \<mapsto> ep\<lparr> e_conn := f (e_conn ep) \<rparr>) \<rparr>))"

definition tcp_handshake :: "bool \<Rightarrow> bool \<Rightarrow> bytes option \<Rightarrow> nat \<Rightarrow> process \<Rightarrow> (nat option \<times> process) res" where
  "tcp_handshake syn_fails ack_fails r i p =
     bnd (send_syn syn_fails i p) (\<lambda>(ok, p).
     if \<not> ok then Inr (None, p\<lparr> p_exited := True \<rparr>) else
     bnd (recv_filter p r) (\<lambda>f. case (f, r) of
       (Passed _, Some d) \<Rightarrow>
         bnd (load_tcp d IP_HDR_SIZE) (\<lambda>synack.
         let p = p\<lparr> p_cfg := (p_cfg p)\<lparr> cfg_send_window := ntohs (th_win synack) \<rparr> \<rparr> in
         if ucast (th_flags synack) AND TH_SYN = (0 :: u32) then
           bnd (upd_conn i (\<lambda>c. c\<lparr> c_init_seqno := ntohl (th_ack synack) - 1, c_their_init_seqno := ntohl (th_seq synack) - 1,
               c_next_seqno := ntohl (th_ack synack), c_ackno := ntohl (th_seq synack) \<rparr>) p) (\<lambda>p. Inr (Some i, p))
         else
           bnd (upd_conn i (\<lambda>c. c\<lparr> c_next_seqno := c_next_seqno c + 1, c_their_init_seqno := ntohl (th_seq synack),
               c_ackno := ntohl (th_seq synack) + 1 \<rparr>) p) (\<lambda>p.
           bnd (send_ack ack_fails i p) (\<lambda>(_, p). Inr (Some i, p))))
     | (Exits, _) \<Rightarrow> Inr (None, p\<lparr> p_exited := True \<rparr>)
     | _ \<Rightarrow> Inr (None, p)))"

definition start_client :: "bool \<Rightarrow> bool \<Rightarrow> bytes option \<Rightarrow> int \<Rightarrow> nat \<Rightarrow> process \<Rightarrow> (bool \<times> process) res" where
  "start_client syn_fails ack_fails r now i p =
     bnd (tcp_handshake syn_fails ack_fails r i p) (\<lambda>(c, p).
       if p_exited p then Inr (False, p) else ctcp_init now c p)"

text \<open>A SYN arrives: \<open>i\<close> is the address of the new connection.\<close>

definition tcp_new_connection ::
    "bytes \<Rightarrow> u32 \<Rightarrow> read_result list \<Rightarrow> write_result list \<Rightarrow> bool \<Rightarrow> int \<Rightarrow> nat \<Rightarrow> process \<Rightarrow> (nat option \<times> process) res" where
  "tcp_new_connection pkt rand inp wr fails now i p =
     (if p_connected p \<ge> MAX_NUM_CLIENTS then Inr (None, p)
      else let p = p\<lparr> p_connected := p_connected p + 1 \<rparr> in
        bnd (load_ip pkt 0) (\<lambda>ip. bnd (load_tcp pkt IP_HDR_SIZE) (\<lambda>syn.
        let c = conn_setup (ntohl (ip_src ip)) (int (unat (ntohs (th_sport syn)))) rand (conn_calloc inp wr);
            c = c\<lparr> c_their_init_seqno := ntohl (th_seq syn), c_ackno := ntohl (th_seq syn) + 1 \<rparr>;
            p = conn_add i (p\<lparr> p_eps := (p_eps p)(i \<mapsto> opened (p_cfg p) now c) \<rparr>) in
        bnd (send_synack fails i p) (\<lambda>(_, p).
        let p = p\<lparr> p_cfg := (p_cfg p)\<lparr> cfg_send_window := ntohs (th_win syn) \<rparr> \<rparr> in
        bnd (ctcp_init now (Some i) p) (\<lambda>(_, p). Inr (Some i, p))))))"

section \<open>The event loop\<close>

text \<open>
  One turn: what \<^verbatim>\<open>poll\<close> reports, the packet, the address and the input and output of a connection that may
  be made, the fate of sends, the time.
\<close>

record turn =
  t_stdin :: bool
  t_stdout :: bool
  t_program :: "nat \<Rightarrow> bool"
  t_socket :: bool
  t_recv :: "bytes option"
  t_addr :: nat
  t_rand :: u32
  t_input :: "read_result list"
  t_writes :: "write_result list"
  t_fails :: bool
  t_env :: "nat \<Rightarrow> send_env"
  t_now :: int
  t_clock :: "int \<times> int"

definition turn_ctx :: "turn \<Rightarrow> process \<Rightarrow> ctx" where
  "turn_ctx t p = \<lparr> x_cfg = p_cfg p, x_env = t_env t, x_now = t_now t \<rparr>"

fun on_all :: "(nat \<Rightarrow> process \<Rightarrow> process res) \<Rightarrow> nat list \<Rightarrow> process \<Rightarrow> process res" where
  "on_all f [] p = Inr p"
| "on_all f (i # is) p = bnd (f i p) (on_all f is)"

definition loop_stdin :: "turn \<Rightarrow> process \<Rightarrow> process res" where
  "loop_stdin t p = (if \<not> run_program (p_cfg p) \<and> t_stdin t then
     case p_conns p of [] \<Rightarrow> Inr p | i # _ \<Rightarrow> on_state i (ctcp_read (turn_ctx t p)) p else Inr p)"

definition loop_stdout :: "turn \<Rightarrow> process \<Rightarrow> process res" where
  "loop_stdout t p = (if t_stdout t then on_all (\<lambda>i. on_conn i ep_drain) (p_conns p) p else Inr p)"

definition loop_program :: "turn \<Rightarrow> process \<Rightarrow> process res" where
  "loop_program t p = (if run_program (p_cfg p) then
     on_all (\<lambda>i p. if t_program t i then on_state i (ctcp_read (turn_ctx t p)) p else Inr p) (p_conns p) p else Inr p)"

text \<open>A packet of a connection; the acknowledgement that ends a handshake is taken out.\<close>

definition loop_segment :: "turn \<Rightarrow> bytes \<Rightarrow> nat \<Rightarrow> process \<Rightarrow> process res" where
  "loop_segment t d i p =
     bnd (conn_of p i) (\<lambda>ep. bnd (load_tcp d IP_HDR_SIZE) (\<lambda>tcp.
     bnd (convert_to_ctcp (e_conn ep) (d @ calloc (MAX_PACKET_SIZE - length d))) (\<lambda>segment.
       if th_sport tcp = p_new p \<and> sg_flags segment AND TH_ACK \<noteq> 0 \<and> ntohl (sg_seqno segment) = 1 \<and> ntohl (sg_ackno segment) = 1
       then Inr (p\<lparr> p_new := 0 \<rparr>)
       else on_state i (\<lambda>ep. ctcp_receive (turn_ctx t p) ep segment (length d - FULL_HDR_SIZE + sizeof_segment)) p)))"

definition loop_socket :: "turn \<Rightarrow> process \<Rightarrow> process res" where
  "loop_socket t p = (if \<not> t_socket t then Inr p else
     bnd (recv_filter p (t_recv t)) (\<lambda>f. case (f, t_recv t) of
       (Passed (Some i), Some d) \<Rightarrow> loop_segment t d i p
     | (Passed None, Some d) \<Rightarrow>
         bnd (load_tcp d IP_HDR_SIZE) (\<lambda>tcp.
         bnd (c_assert (p_server p)) (\<lambda>_.
         bnd (tcp_new_connection d (t_rand t) (t_input t) (t_writes t) (t_fails t) (t_now t) (t_addr t) p) (\<lambda>(c, p).
           Inr (p\<lparr> p_new := th_sport tcp \<rparr>))))
     | (Exits, _) \<Rightarrow> Inr (p\<lparr> p_exited := True \<rparr>)
     | _ \<Rightarrow> Inr p))"

definition loop_timer :: "turn \<Rightarrow> process \<Rightarrow> process res" where
  "loop_timer t p = (if need_timer_in (t_clock t) (p_last p) TIMER_INTERVAL = 0
     then bnd (ctcp_timer (turn_ctx t p) p) (\<lambda>p. Inr (p\<lparr> p_last := t_clock t \<rparr>)) else Inr p)"

definition unless_exited :: "(process \<Rightarrow> process res) \<Rightarrow> process \<Rightarrow> process res" where
  "unless_exited f p = (if p_exited p then Inr p else f p)"

definition do_loop_turn :: "turn \<Rightarrow> process \<Rightarrow> process res" where
  "do_loop_turn t p =
     bnd (loop_stdin t p) (\<lambda>p. bnd (loop_stdout t p) (\<lambda>p. bnd (loop_program t p) (\<lambda>p.
     bnd (loop_socket t p) (\<lambda>p. bnd (unless_exited (loop_timer t) p) (unless_exited delete_all_connections)))))"

definition do_loop :: "turn list \<Rightarrow> process \<Rightarrow> process res" where
  "do_loop ts p = foldl (\<lambda>r t. bnd r (unless_exited (do_loop_turn t))) (Inr p) ts"

end
