(* ===== verification/SessionSpec.thy ===== *)
theory SessionSpec
  imports Session
begin

text \<open>
  Properties of sessions: the handshake makes the two ends peers, which is what the translation of segments and the
  exchange of a stream rest on; the lists of connections and states stay in order; how many
  clients a server takes; how the timer's interval is measured.
\<close>

section \<open>The handshake\<close>

definition hs_tcp :: "sys_config \<Rightarrow> conn \<Rightarrow> byte \<Rightarrow> tcphdr" where
  "hs_tcp cfg c flags = (let h = \<lparr> th_sport = htons (of_int (my_port cfg)), th_dport = htons (of_int (c_port c)),
     th_seq = htonl (c_next_seqno c), th_ack = htonl (c_ackno c), th_off = 5, th_x2 = 0, th_flags = flags,
     th_win = (if flags AND ucast TH_RST = 0 then htons (cfg_recv_window cfg) else 0), th_sum = 0, th_urp = 0 \<rparr>
   in h\<lparr> th_sum := tcp_sum (my_ip cfg) (c_ip_addr c) h [] \<rparr>)"

definition hs_pkt :: "sys_config \<Rightarrow> conn \<Rightarrow> byte \<Rightarrow> bytes" where
  "hs_pkt cfg c flags = pkt_ip (my_ip cfg) (c_ip_addr c) 0 @ tcp_bytes (hs_tcp cfg c flags)"

lemma create_tcp_seg_eq: "create_tcp_seg cfg c flags [] = Inr (hs_pkt cfg c flags, c\<lparr> c_seqno := c_next_seqno c \<rparr>)"
proof -
  have d: "create_datagram (my_ip cfg) (c_ip_addr c) (of_nat TCP_HDR_SIZE) = Inr (pkt_ip (my_ip cfg) (c_ip_addr c) 0 @ calloc 20)"
    using create_datagram_eq [of 0 "my_ip cfg" "c_ip_addr c"] by simp
  have w: "write_bytes (pkt_ip s d 0 @ b) 20 h = Inr (pkt_ip s d 0 @ h)" if "length b = 20" "length h = 20" for s d b h
    using write_tcp [of b h "pkt_ip s d 0" "[]"] that by simp
  have k: "cksum_tcp (pkt_ip s d 0 @ tcp_bytes h) 0 = Inr (tcp_sum s d h [])" for s d h
    using cksum_tcp_eq [of "[]" s d 0 h "[]"] by simp
  show ?thesis
    by (simp add: create_tcp_seg_def d [simplified] w k hs_pkt_def hs_tcp_def Let_def calloc_def)
qed

lemma hs_pkt_load: "load_ip (hs_pkt cfg c flags) 0 = Inr (ip_of (pkt_ip (my_ip cfg) (c_ip_addr c) 0))"
  "load_tcp (hs_pkt cfg c flags) 20 = Inr (hs_tcp cfg c flags)" "length (hs_pkt cfg c flags) = 40"
  by (simp_all add: hs_pkt_def load_tcp_def read_bytes_def)

lemma hs_tcp_fields [simp]: "th_sport (hs_tcp cfg c f) = htons (of_int (my_port cfg))"
  "th_dport (hs_tcp cfg c f) = htons (of_int (c_port c))" "th_seq (hs_tcp cfg c f) = htonl (c_next_seqno c)"
  "th_ack (hs_tcp cfg c f) = htonl (c_ackno c)" "th_flags (hs_tcp cfg c f) = f"
  "th_win (hs_tcp cfg c f) = (if f AND ucast TH_RST = 0 then htons (cfg_recv_window cfg) else 0)"
  by (simp_all add: hs_tcp_def Let_def)

lemma recv_syn:
  assumes "htons (of_int (c_port c)) = htons (of_int (my_port (p_cfg p)))"
    and "ucast f AND TH_RST = 0" "ucast f AND TH_SYN \<noteq> 0"
  shows "recv_filter p (Some (hs_pkt cfg c f)) = Inr (Passed None)"
  using assms by (simp add: recv_filter_def hs_pkt_load)

lemma send_seg_eq:
  assumes "p_eps p i = Some ep"
  shows "send_tcp_conn_seg False i f p = Inr (True, p\<lparr> p_eps := (p_eps p)(i \<mapsto> ep\<lparr> e_conn := (e_conn ep)\<lparr> c_seqno := c_next_seqno (e_conn ep) \<rparr> \<rparr>),
    p_sent := p_sent p @ [hs_pkt (p_cfg p) (e_conn ep) (ucast f)] \<rparr>)"
  using assms by (simp add: send_tcp_conn_seg_def conn_of_def create_tcp_seg_eq)

lemma conn_of_Some [simp]: "p_eps p i = Some ep \<Longrightarrow> conn_of p i = Inr ep"
  by (simp add: conn_of_def)

lemma conn_add_simps [simp]: "p_eps (conn_add i p) = p_eps p" "p_cfg (conn_add i p) = p_cfg p"
  "p_sent (conn_add i p) = p_sent p" "p_fp (conn_add i p) = p_fp p" "p_connected (conn_add i p) = p_connected p"
  "p_states (conn_add i p) = p_states p" "p_server (conn_add i p) = p_server p"
  by (simp_all add: conn_add_def)

lemma port_back: "of_int (int (unat (w :: u16))) = w"
  by simp

text \<open>What the server makes of a SYN.\<close>

lemma new_connection_eq:
  assumes "p_connected q < 10" and syn: "syn = hs_pkt cfg c (ucast TH_SYN)"
  shows "\<exists>q' b. tcp_new_connection syn rb inp wr False now j q = Inr (Some j, q') \<and> p_eps q' j = Some b
    \<and> c_init_seqno (e_conn b) = rb \<and> c_their_init_seqno (e_conn b) = c_next_seqno c \<and> fresh_conn (e_conn b)
    \<and> cfg_send_window (p_cfg q') = cfg_recv_window cfg \<and> e_st b = ctcp_init_state (p_cfg q') now
    \<and> p_conns q' = (if p_server q then j # p_conns q else [j]) \<and> p_last q' = p_last q \<and> p_exited q' = p_exited q
    \<and> \<not> c_delete_me (e_conn b) \<and> c_in (e_conn b) = inp \<and> c_wr (e_conn b) = wr
    \<and> b = opened (p_cfg q') now (e_conn b) \<and> c_port (e_conn b) = int (unat (of_int (my_port cfg) :: u16))
    \<and> p_states q' = j # p_states q \<and> p_fp q' = Some [] \<and> p_cfg q' = (p_cfg q)\<lparr> cfg_send_window := cfg_recv_window cfg \<rparr>
    \<and> (\<exists>d. p_sent q' = p_sent q @ [hs_pkt (p_cfg q) d (ucast (TH_SYN OR TH_ACK))] \<and> c_next_seqno d = rb
        \<and> of_int (c_port d) = (of_int (my_port cfg) :: u16))"
proof -
  let ?q = "q\<lparr> p_connected := p_connected q + 1 \<rparr>"
  let ?c = "(conn_setup (ntohl (my_ip cfg)) (int (unat (ntohs (htons (of_int (my_port cfg)) :: u16)))) rb (conn_calloc inp wr))\<lparr>
    c_their_init_seqno := c_next_seqno c, c_ackno := c_next_seqno c + 1 \<rparr>"
  let ?ep = "opened (p_cfg q) now ?c"
  let ?r = "conn_add j (?q\<lparr> p_eps := (p_eps ?q)(j \<mapsto> ?ep) \<rparr>)"
  have r: "p_eps ?r j = Some ?ep" by simp
  have e: "e_conn ?ep = ?c" by (simp add: opened_def)
  note s = send_seg_eq [OF r, of "TH_SYN OR TH_ACK", unfolded e]
  have "fresh_conn (?c\<lparr> c_seqno := c_next_seqno ?c \<rparr>)" by (simp add: fresh_conn_def conn_setup_def conn_calloc_def closed_def)
  moreover have "\<not> c_delete_me ?c" "c_in (conn_calloc inp wr) = inp" "c_wr (conn_calloc inp wr) = wr" by (simp_all add: conn_setup_def conn_calloc_def)
  moreover have "p_conns ?r = (if p_server q then j # p_conns q else [j])" "p_last ?r = p_last q" "p_exited ?r = p_exited q"
    by (simp_all add: conn_add_def)
  ultimately show ?thesis
    using assms(1) s unfolding tcp_new_connection_def Let_def syn
    by (simp add: hs_pkt_load send_synack_def ctcp_init_def opened_def conn_setup_def)
      (intro exI [of _ ?c], simp add: conn_setup_def)
qed

text \<open>What the client makes of the SYN-ACK.\<close>

definition hs_conn :: "conn \<Rightarrow> u32 \<Rightarrow> conn" where
  "hs_conn c theirs = c\<lparr> c_seqno := c_next_seqno c + 1, c_next_seqno := c_next_seqno c + 1, c_their_init_seqno := theirs, c_ackno := theirs + 1 \<rparr>"

lemma hs_pkt_seqno: "hs_pkt cfg (c\<lparr> c_seqno := n \<rparr>) f = hs_pkt cfg c f"
  by (simp add: hs_pkt_def hs_tcp_def)

lemma tcp_handshake_eq:
  assumes "p_eps p i = Some a0" "of_int (c_port d) = (of_int (my_port (p_cfg p)) :: u16)"
  shows "tcp_handshake False False (Some (hs_pkt cfg d (ucast (TH_SYN OR TH_ACK)))) i p =
    (let cfg' = (p_cfg p)\<lparr> cfg_send_window := cfg_recv_window cfg \<rparr>; c = hs_conn (e_conn a0) (c_next_seqno d) in
     Inr (Some i, p\<lparr> p_eps := (p_eps p)(i \<mapsto> a0\<lparr> e_conn := c \<rparr>), p_cfg := cfg',
       p_sent := p_sent p @ [hs_pkt (p_cfg p) (e_conn a0) (ucast TH_SYN), hs_pkt cfg' c (ucast TH_ACK)] \<rparr>))"
proof -
  let ?sa = "hs_pkt cfg d (ucast (TH_SYN OR TH_ACK))"
  let ?a1 = "a0\<lparr> e_conn := (e_conn a0)\<lparr> c_seqno := c_next_seqno (e_conn a0) \<rparr> \<rparr>"
  let ?p1 = "p\<lparr> p_eps := (p_eps p)(i \<mapsto> ?a1), p_sent := p_sent p @ [hs_pkt (p_cfg p) (e_conn a0) (ucast TH_SYN)] \<rparr>"
  have s1: "send_syn False i p = Inr (True, ?p1)" unfolding send_syn_def using send_seg_eq [OF assms(1), of TH_SYN] by simp
  have f1: "recv_filter ?p1 (Some ?sa) = Inr (Passed None)"
    by (rule recv_syn) (use assms(2) in simp_all)
  let ?c2 = "(e_conn ?a1)\<lparr> c_next_seqno := c_next_seqno (e_conn ?a1) + 1, c_their_init_seqno := c_next_seqno d, c_ackno := c_next_seqno d + 1 \<rparr>"
  let ?p2 = "?p1\<lparr> p_cfg := (p_cfg ?p1)\<lparr> cfg_send_window := cfg_recv_window cfg \<rparr>, p_eps := (p_eps ?p1)(i \<mapsto> ?a1\<lparr> e_conn := ?c2 \<rparr>) \<rparr>"
  have "p_eps ?p2 i = Some (?a1\<lparr> e_conn := ?c2 \<rparr>)" by simp
  note s2 = send_seg_eq [OF this, of TH_ACK]
  have c: "?c2\<lparr> c_seqno := c_next_seqno ?c2 \<rparr> = hs_conn (e_conn a0) (c_next_seqno d)" by (simp add: hs_conn_def)
  have "hs_pkt cfg' ?c2 f = hs_pkt cfg' (hs_conn (e_conn a0) (c_next_seqno d)) f" for cfg' f
    unfolding c [symmetric] hs_pkt_seqno ..
  then show ?thesis using s1 f1 s2 c
    by (simp add: tcp_handshake_def hs_pkt_load upd_conn_def send_ack_def Let_def)
qed

text \<open>
  C11. The handshake: the SYN of a client, delivered to a server that listens on the port it is for and has taken
  fewer than ten clients, opens a connection there, whose SYN-ACK, delivered back, completes the
  client's. Then each end knows the other's initial sequence number, the condition
  on which segments are translated, each has the other's receive window for its send window, and the
  server's new connection is ready for the exchange of data.
\<close>

theorem tcp_handshake_peers:
  assumes "p_eps p i = Some a0" "c_next_seqno (e_conn a0) = c_init_seqno (e_conn a0)" "p_connected q < 10"
    and "htons (of_int (c_port (e_conn a0))) = htons (of_int (my_port (p_cfg q)))"
  shows "\<exists>syn c synack q' p' a b. create_tcp_seg (p_cfg p) (e_conn a0) (ucast TH_SYN) [] = Inr (syn, c)
    \<and> recv_filter q (Some syn) = Inr (Passed None)
    \<and> tcp_new_connection syn rb inp wr False now j q = Inr (Some j, q') \<and> p_sent q' = p_sent q @ [synack]
    \<and> tcp_handshake False False (Some synack) i p = Inr (Some i, p') \<and> hd (drop (length (p_sent p)) (p_sent p')) = syn
    \<and> p_eps p' i = Some a \<and> p_eps q' j = Some b \<and> peers (e_conn a) (e_conn b) \<and> peers (e_conn b) (e_conn a)
    \<and> cfg_send_window (p_cfg p') = cfg_recv_window (p_cfg q) \<and> cfg_send_window (p_cfg q') = cfg_recv_window (p_cfg p)
    \<and> e_st b = ctcp_init_state (p_cfg q') now \<and> fresh_conn (e_conn b)"
proof -
  let ?syn = "hs_pkt (p_cfg p) (e_conn a0) (ucast TH_SYN)"
  obtain q' b d where n: "tcp_new_connection ?syn rb inp wr False now j q = Inr (Some j, q')" "p_eps q' j = Some b"
    "c_init_seqno (e_conn b) = rb" "c_their_init_seqno (e_conn b) = c_next_seqno (e_conn a0)" "fresh_conn (e_conn b)"
    "cfg_send_window (p_cfg q') = cfg_recv_window (p_cfg p)" "e_st b = ctcp_init_state (p_cfg q') now"
    and d: "p_sent q' = p_sent q @ [hs_pkt (p_cfg q) d (ucast (TH_SYN OR TH_ACK))]" "c_next_seqno d = rb"
      "of_int (c_port d) = (of_int (my_port (p_cfg p)) :: u16)"
    using new_connection_eq [OF assms(3) refl, of "p_cfg p" "e_conn a0" rb inp wr now j] by auto
  note h = tcp_handshake_eq [OF assms(1) d(3), of "p_cfg q"]
  have rs: "recv_filter q (Some ?syn) = Inr (Passed None)" by (rule recv_syn) (use assms(4) in simp_all)
  have "peers (hs_conn (e_conn a0) rb) (e_conn b)" "peers (e_conn b) (hs_conn (e_conn a0) rb)"
    using n(3,4) assms(2) by (simp_all add: peers_def hs_conn_def)
  then show ?thesis
    using create_tcp_seg_eq [of "p_cfg p" "e_conn a0" "ucast TH_SYN"] n(1,2,5-7) d(1,2) h rs
    by (fastforce simp: Let_def)
qed

section \<open>Handlers do not schedule connections for removal\<close>

abbreviation del :: "endpoint \<Rightarrow> bool" where "del ep \<equiv> c_delete_me (e_conn ep)"

lemma net_del: "c_delete_me (c\<lparr> c_net := n \<rparr>) = c_delete_me c"
  by simp

lemma conn_send_del: "conn_send cfg env c s n = Inr (r, c') \<Longrightarrow> c_delete_me c' = c_delete_me c"
proof -
  have t: "conn_transmit cfg env b l c = Inr (r, c') \<Longrightarrow> c_delete_me c' = c_delete_me c" for b l c r c'
    unfolding conn_transmit_def Let_def
    by (elim bnd_InrE) (auto simp only: bnd_eq_Inr sum.inject prod.inject net_del split: if_split_asm)
  have b: "conn_branch cfg env b l c = Inr (r, c') \<Longrightarrow> c_delete_me c' = c_delete_me c" for b l c r c'
    using t by (auto simp: conn_branch_def bnd_eq_Inr split: if_splits)
  assume "conn_send cfg env c s n = Inr (r, c')"
  then show ?thesis by (auto simp: conn_send_def bnd_eq_Inr split: if_splits dest!: b)
qed

lemma ep_send_del: "ep_send x ep g n = Inr ep' \<Longrightarrow> del ep' = del ep"
  by (auto simp: ep_send_def bnd_eq_Inr dest!: conn_send_del)

lemma log_bdp_del: "log_bdp x ep = Inr ep' \<Longrightarrow> del ep' = del ep"
  using log_bdp_eq by fastforce

lemma ctcp_output_del: "ctcp_output ep = Inr ep' \<Longrightarrow> del ep' = del ep"
  by (auto simp: ctcp_output_def Let_def bnd_eq_Inr split: if_splits dest!: conn_output_del)

lemma ctcp_send_ack_del: "ctcp_send_ack x ep = Inr ep' \<Longrightarrow> del ep' = del ep"
  by (auto simp: ctcp_send_ack_def Let_def bnd_eq_Inr dest!: ep_send_del)

lemma ctcp_send_data_del: "ctcp_send_data x ep b t1 t2 t3 = Inr ep' \<Longrightarrow> del ep' = del ep"
  by (auto simp: ctcp_send_data_def Let_def bnd_eq_Inr dest!: ep_send_del log_bdp_del)

lemma bbr_send_del: "bbr_send x ep b = Inr ep' \<Longrightarrow> del ep' = del ep"
  by (auto simp: bbr_send_def Let_def bnd_eq_Inr split: if_splits dest!: ctcp_send_data_del)

lemma ctcp_read_del: "ctcp_read x ep = Inr ep' \<Longrightarrow> del ep' = del ep"
  unfolding ctcp_read_def Let_def
  by (auto simp: bnd_eq_Inr split: if_split_asm dest!: read_case conn_input_del bbr_send_del)

lemma receive_data_del: "receive_data x ep sg n = Inr (ep', go) \<Longrightarrow> del ep' = del ep"
  by (auto simp: receive_data_def Let_def bnd_eq_Inr split: if_splits dest!: ctcp_output_del ctcp_send_ack_del)

lemma remove_front_del: "remove_front ep = Inr ep' \<Longrightarrow> del ep' = del ep"
  by (auto simp: remove_front_def bnd_eq_Inr)

lemma receive_ack_del: "receive_ack x ep sg = Inr (ep', go) \<Longrightarrow> del ep' = del ep"
  unfolding receive_ack_def Let_def
  by (auto simp: bnd_eq_Inr split: if_split_asm option.splits dest!: remove_front_del ep_send_del)

lemma receive_fin_del: "receive_fin x ep sg = Inr ep' \<Longrightarrow> del ep' = del ep"
  by (auto simp: receive_fin_def Let_def bnd_eq_Inr split: if_splits dest!: ctcp_send_ack_del conn_output_del)

lemma ctcp_receive_del: "ctcp_receive x ep sg n = Inr ep' \<Longrightarrow> del ep' = del ep"
  by (auto simp: ctcp_receive_def bnd_eq_Inr split: if_splits dest!: receive_data_del receive_ack_del receive_fin_del)

lemma timer_ep_del: "timer_ep x ep = Inr (ep', dead) \<Longrightarrow> del ep' = del ep"
proof -
  have f: "timer_fin x ep = Inr ep' \<Longrightarrow> del ep' = del ep" for ep ep'
    by (auto simp: timer_fin_def ctcp_send_fin_def Let_def bnd_eq_Inr split: if_splits option.splits dest!: ep_send_del)
  have r: "timer_retransmit x ep = Inr ep' \<Longrightarrow> del ep' = del ep" for ep ep'
    by (auto simp: timer_retransmit_def Let_def bnd_eq_Inr dest!: ep_send_del log_bdp_del)
  assume "timer_ep x ep = Inr (ep', dead)"
  then show ?thesis by (auto simp: timer_ep_def Let_def bnd_eq_Inr split: if_splits dest!: f r)
qed

lemma ep_drain_del: "ep_drain ep = Inr ep' \<Longrightarrow> del ep' = del ep"
  by (auto simp: ep_drain_def Let_def split: prod.splits if_splits dest!: conn_drain_del ctcp_output_del)

section \<open>The lists of a process\<close>

definition session_inv :: "process \<Rightarrow> bool" where
  "session_inv p \<longleftrightarrow> distinct (p_conns p) \<and> distinct (p_states p)
     \<and> (\<forall>i\<in>set (p_conns p) \<union> set (p_states p). p_eps p i \<noteq> None)
     \<and> (\<forall>i\<in>set (p_states p). \<forall>ep. p_eps p i = Some ep \<longrightarrow> \<not> del ep)
     \<and> (p_server p \<longrightarrow> length (p_conns p) \<le> p_connected p) \<and> p_connected p \<le> 10"

definition marks :: "process \<Rightarrow> nat \<Rightarrow> bool option" where
  "marks p i = map_option del (p_eps p i)"

text \<open>A step of the event loop that leaves the lists and the marks alone.\<close>

definition quiet :: "process \<Rightarrow> process \<Rightarrow> bool" where
  "quiet p p' \<longleftrightarrow> p_conns p' = p_conns p \<and> p_states p' = p_states p \<and> p_connected p' = p_connected p
     \<and> p_server p' = p_server p \<and> marks p' = marks p"

lemma quiet_refl [simp]: "quiet p p" by (simp add: quiet_def)

lemma quiet_trans: "quiet p q \<Longrightarrow> quiet q r \<Longrightarrow> quiet p r" by (simp add: quiet_def)

lemma session_inv_marks: "session_inv p \<longleftrightarrow> distinct (p_conns p) \<and> distinct (p_states p)
     \<and> (\<forall>i\<in>set (p_conns p) \<union> set (p_states p). marks p i \<noteq> None)
     \<and> (\<forall>i\<in>set (p_states p). marks p i \<noteq> Some True)
     \<and> (p_server p \<longrightarrow> length (p_conns p) \<le> p_connected p) \<and> p_connected p \<le> 10"
proof -
  have "(\<forall>ep. p_eps p i = Some ep \<longrightarrow> \<not> del ep) \<longleftrightarrow> marks p i \<noteq> Some True" for i
    by (cases "p_eps p i") (simp_all add: marks_def)
  then show ?thesis by (simp add: session_inv_def marks_def)
qed

lemma quiet_inv: "quiet p p' \<Longrightarrow> session_inv p' = session_inv p"
  unfolding session_inv_marks quiet_def by simp

lemma quiet_upd:
  assumes "p_eps p i = Some ep" "del ep' = del ep" "p_eps p' = (p_eps p)(i \<mapsto> ep')" "p_conns p' = p_conns p"
    "p_states p' = p_states p" "p_connected p' = p_connected p" "p_server p' = p_server p"
  shows "quiet p p'"
  using assms by (auto simp: quiet_def marks_def)

lemma conn_of_eq: "conn_of p i = Inr ep \<longleftrightarrow> p_eps p i = Some ep"
  by (simp add: conn_of_def split: option.split)

lemma on_conn_quiet:
  assumes "on_conn i f p = Inr p'" "\<And>ep ep'. f ep = Inr ep' \<Longrightarrow> del ep' = del ep"
  shows "quiet p p'"
proof -
  obtain ep ep' where e: "p_eps p i = Some ep" "f (ep\<lparr> e_fp := p_fp p \<rparr>) = Inr ep'"
    "p' = p\<lparr> p_eps := (p_eps p)(i \<mapsto> ep'), p_fp := e_fp ep' \<rparr>"
    using assms(1) by (auto simp: on_conn_def bnd_eq_Inr conn_of_eq)
  have "del ep' = del ep" using assms(2) [OF e(2)] by simp
  then show ?thesis by (rule quiet_upd [OF e(1)]) (simp_all add: e(3))
qed

lemma on_state_quiet:
  "on_state i f p = Inr p' \<Longrightarrow> (\<And>ep ep'. f ep = Inr ep' \<Longrightarrow> del ep' = del ep) \<Longrightarrow> quiet p p'"
  using on_conn_quiet by (auto simp: on_state_def split: if_splits)

lemma on_all_quiet:
  assumes "on_all f is p = Inr p'" "\<And>i p p'. f i p = Inr p' \<Longrightarrow> quiet p p'"
  shows "quiet p p'"
  using assms(1)
proof (induction "is" arbitrary: p)
  case (Cons i ks)
  then show ?case using assms(2) quiet_trans by (fastforce simp: bnd_eq_Inr)
qed simp

lemma send_seg_quiet: "send_tcp_conn_seg fails i f p = Inr (ok, p') \<Longrightarrow> quiet p p'"
proof -
  assume "send_tcp_conn_seg fails i f p = Inr (ok, p')"
  then obtain ep where e: "p_eps p i = Some ep"
    "p_eps p' = (p_eps p)(i \<mapsto> ep\<lparr> e_conn := (e_conn ep)\<lparr> c_seqno := c_next_seqno (e_conn ep) \<rparr> \<rparr>)"
    "p_conns p' = p_conns p \<and> p_states p' = p_states p \<and> p_connected p' = p_connected p \<and> p_server p' = p_server p"
    by (cases fails) (auto simp: send_tcp_conn_seg_def bnd_eq_Inr conn_of_eq create_tcp_seg_eq)
  show ?thesis by (rule quiet_upd [OF e(1) _ e(2)]) (use e(3) in simp_all)
qed

section \<open>Steps that change the lists\<close>

text \<open>Connections may go; of new ones there is at most \<open>j\<close>, counted, and only below the limit.\<close>

definition turns :: "nat \<Rightarrow> process \<Rightarrow> process \<Rightarrow> bool" where
  "turns j p p' \<longleftrightarrow> p_server p' = p_server p \<and>
     (p_connected p' = p_connected p \<and> set (p_conns p') \<subseteq> set (p_conns p)
      \<or> p_connected p < 10 \<and> p_connected p' = Suc (p_connected p) \<and> set (p_conns p') \<subseteq> insert j (set (p_conns p)))"

definition shrinks :: "process \<Rightarrow> process \<Rightarrow> bool" where
  "shrinks p p' \<longleftrightarrow> p_server p' = p_server p \<and> p_connected p' = p_connected p \<and> set (p_conns p') \<subseteq> set (p_conns p)"

lemma shrinks_refl [simp]: "shrinks p p" by (simp add: shrinks_def)

lemma shrinks_trans: "shrinks p q \<Longrightarrow> shrinks q r \<Longrightarrow> shrinks p r" by (auto simp: shrinks_def)

lemma quiet_shrinks: "quiet p p' \<Longrightarrow> shrinks p p'" by (simp add: quiet_def shrinks_def)

lemma conn_free_step:
  assumes "conn_free i p = Inr p'" "p_eps p i = Some ep" "del ep"
  shows "shrinks p p' \<and> (session_inv p \<longrightarrow> session_inv p')"
proof -
  have f: "p' = p\<lparr> p_eps := (p_eps p)(i := None), p_conns := [] \<rparr> \<or> p' = p\<lparr> p_eps := (p_eps p)(i := None), p_conns := remove1 i (p_conns p) \<rparr>"
    using assms(1) by (auto simp: conn_free_def split: if_splits)
  have s: "shrinks p p'" using f set_remove1_subset [of i "p_conns p"] by (auto simp: shrinks_def)
  have "session_inv p'" if inv: "session_inv p"
  proof -
    have i: "i \<notin> set (p_states p)" using inv assms(2,3) by (auto simp: session_inv_def)
    have d: "distinct (p_conns p)" using inv by (simp add: session_inv_def)
    have l: "length (remove1 i (p_conns p)) \<le> length (p_conns p)" by (simp add: length_remove1)
    from f show ?thesis
    proof
      assume p': "p' = p\<lparr> p_eps := (p_eps p)(i := None), p_conns := [] \<rparr>"
      show ?thesis using inv i unfolding session_inv_def p' by auto
    next
      assume p': "p' = p\<lparr> p_eps := (p_eps p)(i := None), p_conns := remove1 i (p_conns p) \<rparr>"
      show ?thesis using inv i d l unfolding session_inv_def p' by auto
    qed
  qed
  with s show ?thesis by blast
qed

lemma delete_conns_step:
  "delete_conns is p = Inr p' \<Longrightarrow> shrinks p p' \<and> (session_inv p \<longrightarrow> session_inv p')"
proof (induction "is" arbitrary: p)
  case (Cons i ks)
  then obtain ep q where q: "p_eps p i = Some ep" "(if del ep then conn_free i p else Inr p) = Inr q" "delete_conns ks q = Inr p'"
    by (auto simp: bnd_eq_Inr conn_of_eq)
  have "shrinks p q \<and> (session_inv p \<longrightarrow> session_inv q)"
    using q(1,2) conn_free_step [of i p q ep] by (cases "del ep") simp_all
  then show ?case using Cons.IH [OF q(3)] shrinks_trans by blast
qed simp

lemma delete_all_step: "delete_all_connections p = Inr p' \<Longrightarrow> shrinks p p' \<and> (session_inv p \<longrightarrow> session_inv p')"
  unfolding delete_all_connections_def by (rule delete_conns_step)

lemma end_client_step:
  assumes "end_client p = Inr p'" shows "shrinks p p' \<and> (session_inv p \<longrightarrow> session_inv p')"
proof (cases "p_server p")
  case True with assms show ?thesis by (simp add: end_client_def)
next
  case False
  then obtain q where q: "delete_all_connections p = Inr q" "p' = q\<lparr> p_exited := True \<rparr>"
    using assms by (auto simp: end_client_def bnd_eq_Inr)
  have "shrinks q p'" "session_inv p' = session_inv q" by (simp_all add: q(2) shrinks_def session_inv_def)
  then show ?thesis using delete_all_step [OF q(1)] shrinks_trans by blast
qed

lemma ctcp_destroy_step:
  assumes "ctcp_destroy i p = Inr p'" shows "shrinks p p' \<and> (session_inv p \<longrightarrow> session_inv p')"
proof -
  obtain ep where e: "p_eps p i = Some ep"
    "end_client (p\<lparr> p_eps := (p_eps p)(i \<mapsto> ep\<lparr> e_fp := p_fp p, e_conn := conn_remove (e_conn ep) \<rparr>), p_fp := p_fp p,
       p_states := remove1 i (p_states p) \<rparr>) = Inr p'" (is "end_client ?q = _")
    using assms by (auto simp: ctcp_destroy_def on_conn_def bnd_eq_Inr conn_of_eq)
  have "shrinks p ?q" by (simp add: shrinks_def)
  moreover have "session_inv ?q" if inv: "session_inv p"
  proof -
    have "distinct (p_states p)" using inv by (simp add: session_inv_def)
    then have "i \<notin> set (remove1 i (p_states p))" "set (remove1 i (p_states p)) \<subseteq> set (p_states p)" by auto
    then show ?thesis using inv unfolding session_inv_def by auto
  qed
  ultimately show ?thesis using end_client_step [OF e(2)] shrinks_trans by blast
qed

lemma shrinks_turns: "shrinks p p' \<Longrightarrow> turns j p p'" by (simp add: shrinks_def turns_def)

text \<open>A step of one turn, which may make a connection at the unused address \<open>j\<close>.\<close>

definition ok_step :: "nat \<Rightarrow> process \<Rightarrow> process \<Rightarrow> bool" where
  "ok_step j p p' \<longleftrightarrow> turns j p p' \<and> (session_inv p \<and> marks p j = None \<longrightarrow> session_inv p')"

lemma quiet_step: "quiet p p' \<Longrightarrow> ok_step j p p'"
  using quiet_shrinks shrinks_turns quiet_inv unfolding ok_step_def by blast

lemma shrinks_step: "shrinks p p' \<and> (session_inv p \<longrightarrow> session_inv p') \<Longrightarrow> ok_step j p p'"
  using shrinks_turns unfolding ok_step_def by blast

lemma new_connection_step:
  assumes "tcp_new_connection pkt rb inp wr fails now j p = Inr (c, p')"
  shows "ok_step j p p'"
proof (cases "p_connected p \<ge> 10")
  case True
  then show ?thesis using assms quiet_step by (simp add: tcp_new_connection_def)
next
  case False
  obtain ip syn where ld: "load_ip pkt 0 = Inr ip" "load_tcp pkt IP_HDR_SIZE = Inr syn"
    using assms False by (auto simp: tcp_new_connection_def Let_def bnd_eq_Inr)
  define cc where q: "cc = (conn_setup (ntohl (ip_src ip)) (int (unat (ntohs (th_sport syn)))) rb (conn_calloc inp wr))
        \<lparr> c_their_init_seqno := ntohl (th_seq syn), c_ackno := ntohl (th_seq syn) + 1 \<rparr>"
  have "\<not> MAX_NUM_CLIENTS \<le> p_connected p" using False by simp
  then have "bnd (send_synack fails j (conn_add j (p\<lparr> p_connected := p_connected p + 1, p_eps := (p_eps p)(j \<mapsto> opened (p_cfg p) now cc) \<rparr>)))
      (\<lambda>(ok, p). bnd (ctcp_init now (Some j) (p\<lparr> p_cfg := (p_cfg p)\<lparr> cfg_send_window := ntohs (th_win syn) \<rparr> \<rparr>)) (\<lambda>(ok, p). Inr (Some j, p))) = Inr (c, p')"
    using assms unfolding tcp_new_connection_def if_not_P [OF \<open>\<not> MAX_NUM_CLIENTS \<le> p_connected p\<close>] Let_def ld bnd_Inr q by simp
  then obtain ok q r ok' where
      q2: "send_synack fails j (conn_add j (p\<lparr> p_connected := p_connected p + 1, p_eps := (p_eps p)(j \<mapsto> opened (p_cfg p) now cc) \<rparr>)) = Inr (ok, q)"
      and q3: "ctcp_init now (Some j) (q\<lparr> p_cfg := r \<rparr>) = Inr (ok', p')"
    unfolding bnd_eq_Inr by (auto simp: bnd_eq_Inr)
  let ?n = "conn_add j (p\<lparr> p_connected := p_connected p + 1, p_eps := (p_eps p)(j \<mapsto> opened (p_cfg p) now cc) \<rparr>)"
  have qn: "quiet ?n q" using send_seg_quiet q2 unfolding send_synack_def by blast
  obtain ep where ep: "p_eps q j = Some ep" "p' = q\<lparr> p_cfg := r, p_eps := (p_eps q)(j \<mapsto> opened r now (e_conn ep)), p_states := j # p_states q, p_fp := Some [] \<rparr>"
    using q3 by (auto simp: ctcp_init_def bnd_eq_Inr conn_of_eq)
  have mk: "marks p' = marks q" "marks q = (marks p)(j \<mapsto> False)"
  proof -
    show "marks p' = marks q" using ep(1) by (auto simp: marks_def ep(2) opened_def)
    have "marks q = marks ?n" using qn by (simp add: quiet_def)
    also have "marks ?n = (marks p)(j \<mapsto> False)"
      by (auto simp: marks_def opened_def q conn_setup_def conn_calloc_def)
    finally show "marks q = (marks p)(j \<mapsto> False)" .
  qed
  have l: "p_conns p' = (if p_server p then j # p_conns p else [j])" "p_states p' = j # p_states p"
    "p_connected p' = Suc (p_connected p)" "p_server p' = p_server p"
    using qn by (simp_all add: ep(2) quiet_def conn_add_def)
  have "turns j p p'" using False l by (auto simp: turns_def)
  moreover have "session_inv p'" if inv: "session_inv p" "marks p j = None"
  proof -
    have n: "j \<notin> set (p_conns p)" "j \<notin> set (p_states p)" using inv unfolding session_inv_marks by blast+
    show ?thesis using inv n False unfolding session_inv_marks l mk by (cases "p_server p") auto
  qed
  ultimately show ?thesis by (simp add: ok_step_def)
qed

lemma loop_segment_quiet: "loop_segment t d i p = Inr p' \<Longrightarrow> quiet p p'"
proof -
  assume "loop_segment t d i p = Inr p'"
  then consider "p' = p\<lparr> p_new := 0 \<rparr>"
    | sg n where "on_state i (\<lambda>ep. ctcp_receive (turn_ctx t p) ep sg n) p = Inr p'"
    by (auto simp: loop_segment_def bnd_eq_Inr split: if_splits)
  then show ?thesis
  proof cases
    case 1 then show ?thesis by (simp add: quiet_def marks_def fun_eq_iff)
  next
    case 2 then show ?thesis using on_state_quiet ctcp_receive_del by blast
  qed
qed

lemma ok_step_marks: "marks p' = marks p \<Longrightarrow> p_conns p' = p_conns p \<Longrightarrow> p_states p' = p_states p \<Longrightarrow>
    p_connected p' = p_connected p \<Longrightarrow> p_server p' = p_server p \<Longrightarrow> ok_step j p p'"
  by (rule quiet_step) (simp add: quiet_def)

lemma loop_socket_cases [consumes 1, case_names same exits seg new]:
  assumes "loop_socket t p = Inr p'"
  obtains "p' = p" | "p' = p\<lparr> p_exited := True \<rparr>"
    | d i where "t_recv t = Some d" "recv_filter p (Some d) = Inr (Passed (Some i))" "loop_segment t d i p = Inr p'"
    | d c q k where "t_recv t = Some d" "recv_filter p (Some d) = Inr (Passed None)"
        "tcp_new_connection d (t_rand t) (t_input t) (t_writes t) (t_fails t) (t_now t) (t_addr t) p = Inr (c, q)" "p' = q\<lparr> p_new := k \<rparr>"
proof (cases "t_socket t")
  case False
  then show thesis using assms that(1) by (simp add: loop_socket_def)
next
  case True
  then obtain f where f: "recv_filter p (t_recv t) = Inr f" using assms by (auto simp: loop_socket_def bnd_eq_Inr)
  note l = assms [unfolded loop_socket_def f bnd_Inr]
  show thesis
  proof (cases "t_recv t")
    case None
    then show thesis using l True that(1,2) by (cases f) (auto split: option.splits)
  next
    case (Some d)
    show thesis
    proof (cases f)
      case (Passed i)
      show thesis
      proof (cases i)
        case None
        have "bnd (load_tcp d IP_HDR_SIZE) (\<lambda>tcp. bnd (c_assert (p_server p)) (\<lambda>_.
          bnd (tcp_new_connection d (t_rand t) (t_input t) (t_writes t) (t_fails t) (t_now t) (t_addr t) p) (\<lambda>(c, p).
            Inr (p\<lparr> p_new := th_sport tcp \<rparr>)))) = Inr p'"
          using l True Some Passed None by simp
        moreover have "recv_filter p (Some d) = Inr (Passed None)" using f Some Passed None by simp
        ultimately show thesis unfolding bnd_eq_Inr using Some by (elim exE conjE) (auto intro: that(4))
      next
        case (Some j)
        then show thesis using l True \<open>t_recv t = Some d\<close> Passed f that(3) by simp
      qed
    qed (use l True Some that(1,2) in simp_all)
  qed
qed

lemma loop_socket_step: "loop_socket t p = Inr p' \<Longrightarrow> ok_step (t_addr t) p p'"
proof (induction rule: loop_socket_cases)
  case same then show ?case using quiet_step by simp
next
  case exits then show ?case by (intro ok_step_marks) (simp_all add: marks_def fun_eq_iff)
next
  case (seg d i) then show ?case using loop_segment_quiet quiet_step by blast
next
  case (new d c q k)
  have "session_inv p' = session_inv q" "turns (t_addr t) p p' = turns (t_addr t) p q"
    by (simp_all add: new(4) session_inv_def turns_def)
  then show ?case using new_connection_step [OF new(3)] by (simp add: ok_step_def)
qed

lemma ctcp_timer_step: "ctcp_timer x p = Inr p' \<Longrightarrow> shrinks p p' \<and> (session_inv p \<longrightarrow> session_inv p')"
proof (cases "p_states p")
  case Nil
  moreover assume "ctcp_timer x p = Inr p'"
  ultimately show ?thesis by (simp add: ctcp_timer_def)
next
  case (Cons i ks)
  assume "ctcp_timer x p = Inr p'"
  then obtain ep ep' dead where e: "p_eps p i = Some ep" "timer_ep x (ep\<lparr> e_fp := p_fp p \<rparr>) = Inr (ep', dead)"
    "(if dead then ctcp_destroy i (p\<lparr> p_eps := (p_eps p)(i \<mapsto> ep'), p_fp := e_fp ep' \<rparr>)
      else Inr (p\<lparr> p_eps := (p_eps p)(i \<mapsto> ep'), p_fp := e_fp ep' \<rparr>)) = Inr p'"
    using Cons by (auto simp: ctcp_timer_def bnd_eq_Inr conn_of_eq Let_def)
  let ?q = "p\<lparr> p_eps := (p_eps p)(i \<mapsto> ep'), p_fp := e_fp ep' \<rparr>"
  have "del ep' = del ep" using timer_ep_del [OF e(2)] by simp
  then have q: "quiet p ?q" by (rule quiet_upd [OF e(1)]) simp_all
  have "shrinks ?q p' \<and> (session_inv ?q \<longrightarrow> session_inv p')"
    using e(3) ctcp_destroy_step [of i ?q p'] by (cases dead) simp_all
  then show ?thesis using quiet_shrinks [OF q] quiet_inv [OF q] shrinks_trans by blast
qed

lemma loop_timer_step:
  assumes "loop_timer t p = Inr p'" shows "shrinks p p' \<and> (session_inv p \<longrightarrow> session_inv p')"
proof (cases "p' = p")
  case True then show ?thesis by simp
next
  case False
  then obtain q where q: "ctcp_timer (turn_ctx t p) p = Inr q" "p' = q\<lparr> p_last := t_clock t \<rparr>"
    using assms by (auto simp: loop_timer_def bnd_eq_Inr split: if_splits)
  have "shrinks q p'" "session_inv p' = session_inv q" by (simp_all add: q(2) shrinks_def session_inv_def)
  then show ?thesis using ctcp_timer_step [OF q(1)] shrinks_trans by blast
qed

lemma loop_reads_quiet:
  shows "loop_stdin t p = Inr p' \<Longrightarrow> quiet p p'" and "loop_stdout t p = Inr p' \<Longrightarrow> quiet p p'"
    and "loop_program t p = Inr p' \<Longrightarrow> quiet p p'"
proof -
  have r: "on_state i (ctcp_read x) p = Inr p' \<Longrightarrow> quiet p p'" for i x p p'
    using on_state_quiet ctcp_read_del by blast
  show "loop_stdin t p = Inr p' \<Longrightarrow> quiet p p'"
    by (auto simp: loop_stdin_def split: if_splits list.splits dest: r)
  have d: "on_conn i ep_drain p = Inr p' \<Longrightarrow> quiet p p'" for i p p'
    using on_conn_quiet ep_drain_del by blast
  show "loop_stdout t p = Inr p' \<Longrightarrow> quiet p p'"
    using on_all_quiet [of "\<lambda>i. on_conn i ep_drain", OF _ d] by (auto simp: loop_stdout_def split: if_splits)
  show "loop_program t p = Inr p' \<Longrightarrow> quiet p p'"
    unfolding loop_program_def by (auto split: if_splits elim!: on_all_quiet dest: r)
qed

lemma ok_step_then:
  assumes "ok_step j p q" "shrinks q r \<and> (session_inv q \<longrightarrow> session_inv r)" shows "ok_step j p r"
  using assms unfolding ok_step_def turns_def shrinks_def by auto

lemma quiet_then:
  assumes "quiet p q" "ok_step j q r" shows "ok_step j p r"
proof -
  have "marks q = marks p" "turns j p r = turns j q r" using assms(1) by (simp_all add: quiet_def turns_def)
  then show ?thesis using assms quiet_inv [OF assms(1)] by (simp add: ok_step_def)
qed

lemma unless_step:
  assumes "unless_exited f p = Inr p'" "\<And>p p'. f p = Inr p' \<Longrightarrow> shrinks p p' \<and> (session_inv p \<longrightarrow> session_inv p')"
  shows "shrinks p p' \<and> (session_inv p \<longrightarrow> session_inv p')"
  using assms by (cases "p_exited p") (simp_all add: unless_exited_def)

lemma do_loop_turn_step:
  assumes "do_loop_turn t p = Inr p'" shows "ok_step (t_addr t) p p'"
proof -
  obtain a b c d e where s: "loop_stdin t p = Inr a" "loop_stdout t a = Inr b" "loop_program t b = Inr c"
    "loop_socket t c = Inr d" "unless_exited (loop_timer t) d = Inr e" "unless_exited delete_all_connections e = Inr p'"
    using assms by (auto simp: do_loop_turn_def bnd_eq_Inr)
  have "quiet p c" by (rule quiet_trans [OF quiet_trans [OF loop_reads_quiet(1) [OF s(1)] loop_reads_quiet(2) [OF s(2)]] loop_reads_quiet(3) [OF s(3)]])
  then have "ok_step (t_addr t) p d" using loop_socket_step [OF s(4)] quiet_then by blast
  then have "ok_step (t_addr t) p e" by (rule ok_step_then [OF _ unless_step [OF s(5)]]) (rule loop_timer_step)
  then show ?thesis by (rule ok_step_then [OF _ unless_step [OF s(6)]]) (rule delete_all_step)
qed

section \<open>Reachable states of a process\<close>

text \<open>The address of a connection that is made in a turn is one that is not in use.\<close>

inductive session_reach :: "process \<Rightarrow> process \<Rightarrow> bool" for p0 :: process where
  start: "session_reach p0 p0"
| turn: "session_reach p0 p \<Longrightarrow> p_eps p (t_addr t) = None \<Longrightarrow> do_loop_turn t p = Inr p' \<Longrightarrow> session_reach p0 p'"

lemma session_reach_keeps:
  assumes "session_reach p0 p" "session_inv p0" shows "session_inv p"
  using assms
proof (induction rule: session_reach.induct)
  case (turn p t p')
  then show ?case using do_loop_turn_step [OF turn.hyps(3)] by (simp add: ok_step_def marks_def)
qed

text \<open>
  In every state the event loop reaches, whatever arrives and whatever the handlers do, the lists of
  connections and of cTCP states have no repetitions and hold only allocated connections, no connection that is
  scheduled for removal has a state that the timer may still reach, and a server holds no
  more connections than it has counted, at most ten.
\<close>

theorem session_reach_invariant:
  assumes "session_reach p0 p" "session_inv p0" shows "session_inv p"
  using assms by (rule session_reach_keeps)

text \<open>
  C36. A server takes ten clients in its life: connections are counted when they open and never when they
  close, so from the state where the count is ten on, no connection is ever added, even when all are gone.
\<close>

theorem session_ten_clients:
  assumes "session_reach p0 p" "p_connected p0 = 10"
  shows "p_connected p = 10 \<and> set (p_conns p) \<subseteq> set (p_conns p0)"
  using assms
proof (induction rule: session_reach.induct)
  case (turn p t p')
  then show ?case using do_loop_turn_step [OF turn.hyps(3)] by (auto simp: ok_step_def turns_def)
qed simp

text \<open>
  Closing the newest connection of a server: its \<^verbatim>\<open>prev\<close> points to a local variable of the call of
  \<^verbatim>\<open>conn_add\<close> that made it, so freeing it writes to memory that is gone.
\<close>

theorem server_close_newest_dangling:
  assumes "p_server p" "p_conns p = i # is" "p_eps p i = Some ep"
  shows "\<exists>p'. ctcp_destroy i p = Inr p' \<and> delete_all_connections p' = Inl UseAfterFree"
  using assms
  by (simp add: ctcp_destroy_def on_conn_def end_client_def delete_all_connections_def conn_remove_def conn_free_def)

section \<open>The timer's interval\<close>

definition nanos :: "int \<times> int \<Rightarrow> int" where "nanos t = fst t * 1000000000 + snd t"

definition timespec_ok :: "int \<times> int \<Rightarrow> bool" where "timespec_ok t \<longleftrightarrow> 0 \<le> snd t \<and> snd t < 1000000000"

text \<open>
  The time to wait is never negative nor more than the interval, and when it is not 0 it is right to the
  millisecond. It can be 0 too early: as soon as the seconds differ, whatever the milliseconds.
\<close>

lemma sdiv_trunc: "0 < k \<Longrightarrow> (a :: int) - k < a sdiv k * k \<and> a sdiv k * k < a + k"
proof -
  assume k: "0 < k"
  have d: "b - k < b div k * k \<and> b div k * k \<le> b" for b :: int
    using div_mult_mod_eq [of b k] pos_mod_sign [OF k, of b] pos_mod_bound [OF k, of b] by linarith
  show ?thesis
  proof (cases "0 \<le> a")
    case True
    then have e: "a sdiv k = a div k" using k by (simp add: signed_divide_int_def sgn_if)
    show ?thesis unfolding e using d [of a] k by linarith
  next
    case False
    then have e: "a sdiv k * k = - ((- a) div k * k)" using k by (simp add: signed_divide_int_def sgn_if)
    show ?thesis unfolding e using d [of "- a"] k by linarith
  qed
qed

lemma need_timer_in_bounds:
  assumes "timespec_ok ts" "timespec_ok before" "nanos before \<le> nanos ts" "0 \<le> interval"
  shows "0 \<le> need_timer_in ts before interval \<and> need_timer_in ts before interval \<le> interval
    \<and> (0 < need_timer_in ts before interval \<longrightarrow>
      \<bar>nanos ts - nanos before - (interval - need_timer_in ts before interval) * 1000000\<bar> < 1000000)"
proof -
  let ?d = "fst ts - fst before" and ?n = "snd ts - snd before"
  let ?q = "?n sdiv 1000000"
  have q: "?n - 1000000 < ?q * 1000000" "?q * 1000000 < ?n + 1000000" using sdiv_trunc [of 1000000 ?n] by simp_all
  have n: "nanos ts - nanos before = ?d * 1000000000 + ?n" by (simp add: nanos_def algebra_simps)
  then have "0 \<le> ?d * 1000000000 + ?n" using assms(3) by simp
  then have "0 \<le> ?d * 1000 + ?q" using q by linarith
  then show ?thesis using assms(4) q n unfolding need_timer_in_def Let_def by auto
qed

lemma need_timer_in_early: "need_timer_in (1, 0) (0, 990000000) TIMER_INTERVAL = 0"
  by (simp add: need_timer_in_def signed_divide_int_def)

section \<open>Witnesses\<close>

definition ex_process :: "bool \<Rightarrow> process" where
  "ex_process server = \<lparr> p_cfg = ex_cfg, p_server = server, p_eps = (\<lambda>_. None), p_conns = [], p_states = [], p_fp = None,
     p_connected = 0, p_new = 0, p_last = (0, 0), p_sent = [], p_exited = False \<rparr>"

definition ex_client :: process where
  "ex_client = do_config_server 0x0100007f 9999 7 [] [] 3 (ex_process False)"

lemma ex_client: "\<exists>a. p_eps ex_client 3 = Some a \<and> c_next_seqno (e_conn a) = c_init_seqno (e_conn a) \<and> c_port (e_conn a) = 9999"
  by (simp add: ex_client_def do_config_server_def conn_add_def ex_process_def Let_def opened_def conn_setup_def)

theorem tcp_handshake_peers_witness:
  "\<exists>synack p' (q' :: process) a b. tcp_handshake False False (Some synack) 3 ex_client = Inr (Some 3, p') \<and> p_sent q' = [synack]
    \<and> p_eps p' 3 = Some a \<and> p_eps q' 5 = Some b \<and> peers (e_conn a) (e_conn b)"
proof -
  obtain a where a: "p_eps ex_client 3 = Some a" "c_next_seqno (e_conn a) = c_init_seqno (e_conn a)" "c_port (e_conn a) = 9999"
    using ex_client by blast
  have "p_connected (ex_process True) < 10" "htons (of_int (c_port (e_conn a))) = htons (of_int (my_port (p_cfg (ex_process True))))"
    using a(3) by (simp_all add: ex_process_def ex_cfg_def)
  from tcp_handshake_peers [OF a(1,2) this, of 100 "[]" "[]" 1000 5] show ?thesis
  proof (elim exE conjE)
    fix syn c synack p' a' b and q' :: process
    assume r: "p_sent q' = p_sent (ex_process True) @ [synack]" "tcp_handshake False False (Some synack) 3 ex_client = Inr (Some 3, p')"
      "p_eps p' 3 = Some a'" "p_eps q' 5 = Some b" "peers (e_conn a') (e_conn b)"
    have "p_sent q' = [synack]" using r(1) by (simp add: ex_process_def)
    with r(2-5) show ?thesis by blast
  qed
qed

text \<open>A turn in which a client connects.\<close>

definition ex_syn :: bytes where "ex_syn = hs_pkt ex_cfg (conn_setup 0x0100007f 9999 7 (conn_calloc [] [])) (ucast TH_SYN)"

definition ex_turn :: turn where
  "ex_turn = \<lparr> t_stdin = False, t_stdout = False, t_program = (\<lambda>_. False), t_socket = True, t_recv = Some ex_syn, t_addr = 5,
     t_rand = 100, t_input = [], t_writes = [], t_fails = False, t_env = x_env ex_ctx, t_now = 1000, t_clock = (0, 0) \<rparr>"

lemma ex_turn: "\<exists>p. session_reach (ex_process True) p \<and> p_conns p = [5]"
proof -
  let ?q = "ex_process True"
  have s: "loop_stdin ex_turn ?q = Inr ?q" "loop_stdout ex_turn ?q = Inr ?q" "loop_program ex_turn ?q = Inr ?q"
    by (simp_all add: loop_stdin_def loop_stdout_def loop_program_def ex_turn_def ex_process_def ex_cfg_def)
  have "recv_filter ?q (Some ex_syn) = Inr (Passed None)"
    unfolding ex_syn_def by (rule recv_syn) (simp_all add: ex_process_def ex_cfg_def conn_setup_def)
  moreover obtain q b where q: "tcp_new_connection ex_syn 100 [] [] False 1000 5 ?q = Inr (Some 5, q)" "p_eps q 5 = Some b"
      "p_conns q = [5]" "p_last q = (0, 0)" "\<not> p_exited q" "\<not> c_delete_me (e_conn b)"
    using new_connection_eq [OF _ ex_syn_def, of ?q 100 "[]" "[]" 1000 5] by (auto simp: ex_process_def)
  ultimately have k: "loop_socket ex_turn ?q = Inr (q\<lparr> p_new := th_sport (hs_tcp ex_cfg (conn_setup 0x0100007f 9999 7 (conn_calloc [] [])) (ucast TH_SYN)) \<rparr>)"
    (is "_ = Inr ?r") by (simp add: loop_socket_def ex_turn_def) (simp add: ex_syn_def hs_pkt_load ex_process_def)
  have tm: "unless_exited (loop_timer ex_turn) ?r = Inr ?r"
    using q(4,5) by (simp add: unless_exited_def loop_timer_def ex_turn_def need_timer_in_def signed_divide_int_def)
  have dl: "unless_exited delete_all_connections ?r = Inr ?r"
    using q by (simp add: unless_exited_def delete_all_connections_def)
  have "do_loop_turn ex_turn ?q = Inr ?r" unfolding do_loop_turn_def s bnd_Inr k tm dl ..
  moreover have "p_eps ?q (t_addr ex_turn) = None" by (simp add: ex_process_def)
  ultimately have "session_reach ?q ?r" using session_reach.turn [OF session_reach.start] by blast
  then show ?thesis using q(3) by (intro exI [of _ ?r]) simp
qed

theorem session_reach_invariant_witness: "\<exists>p. session_reach (ex_process True) p \<and> p_conns p = [5] \<and> session_inv p"
proof -
  obtain p where p: "session_reach (ex_process True) p" "p_conns p = [5]" using ex_turn by blast
  have "session_inv (ex_process True)" by (simp add: session_inv_def ex_process_def)
  with p session_reach_invariant show ?thesis by blast
qed

theorem session_ten_clients_witness:
  "\<exists>p. session_reach ((ex_process True)\<lparr> p_connected := 10 \<rparr>) p \<and> p_conns p = []"
proof -
  let ?p = "(ex_process True)\<lparr> p_connected := 10 \<rparr>"
  have "session_reach ?p ?p" by (rule session_reach.start)
  moreover from session_ten_clients [OF this] have "p_conns ?p = []" by (simp add: ex_process_def)
  ultimately show ?thesis by blast
qed

theorem server_close_newest_dangling_witness:
  "\<exists>p'. ctcp_destroy 5 ((ex_process True)\<lparr> p_conns := [5], p_states := [5], p_eps := [5 \<mapsto> opened ex_cfg 0 ex_b] \<rparr>) = Inr p'
    \<and> delete_all_connections p' = Inl UseAfterFree"
  by (rule server_close_newest_dangling) (simp_all add: ex_process_def)

end
