(* ===== verification/ProcessRun.thy ===== *)
theory ProcessRun
  imports SessionSpec
begin

text \<open>
  Two cTCP processes, each in its event loop. A turn of the loop serves all connections of the process, accepts new ones, filters
  packets, fires the timer for the first state and frees what is to be deleted; for one connection it is a sequence of the
  steps of \<open>Exchange\<close>. Hence the invariant of the exchange holds between a client process and a server process that
  has any number of other clients, from the handshake on.
\<close>

section \<open>One end of a connection\<close>

text \<open>
  What stays the same while one side moves: its own address, input and connection, the peer's, the data the peer
  has sent and whether it has sent all, and the packets that may arrive.
\<close>

record link =
  l_cfg :: sys_config
  l_input :: bytes
  l_conn :: conn
  l_peer_cfg :: sys_config
  l_peer :: conn
  l_data :: bytes
  l_fin :: bool

definition link_ok :: "link \<Rightarrow> bool" where
  "link_ok k \<longleftrightarrow> peers (l_conn k) (l_peer k) \<and> length (l_input k) + 2 < 2 ^ 32 \<and> length (l_data k) + 2 < 2 ^ 32"

definition same_host :: "sys_config \<Rightarrow> sys_config \<Rightarrow> bool" where
  "same_host cfg cfg' \<longleftrightarrow> my_ip cfg = my_ip cfg' \<and> my_port cfg = my_port cfg' \<and> run_program cfg = run_program cfg'
     \<and> unix_socket cfg = unix_socket cfg'"

text \<open>A packet of the peer's connection.\<close>

definition comes :: "link \<Rightarrow> bytes \<Rightarrow> bool" where
  "comes k d \<longleftrightarrow> (\<exists>s. d = pkt_of (l_peer_cfg k) (l_peer k) s \<and> carries (l_data k) (l_fin k) s)"

lemma same_host_refl [simp]: "same_host cfg cfg" by (simp add: same_host_def)

lemma same_host_trans: "same_host a b \<Longrightarrow> same_host b c \<Longrightarrow> same_host a c" by (simp add: same_host_def)

lemma same_host_sym: "same_host a b \<Longrightarrow> same_host b a" by (simp add: same_host_def)

lemma pkt_of_host: "same_host cfg cfg' \<Longrightarrow> pkt_of cfg c s = pkt_of cfg' c s"
  by (simp add: pkt_of_def pkt_tcp_def same_host_def)

lemma snd_inv_host: "same_host cfg cfg' \<Longrightarrow> snd_inv cfg input ep S = snd_inv cfg' input ep S"
  using pkt_of_host [of cfg cfg'] by (simp add: snd_inv_def net_ok_def)

definition advances :: "link \<Rightarrow> endpoint \<Rightarrow> endpoint \<Rightarrow> bool" where
  "advances k ep ep' \<longleftrightarrow> (\<forall>S. snd_inv (l_cfg k) (l_input k) ep S \<longrightarrow> rcv_inv ep (l_data k) \<longrightarrow> ids (e_conn ep) = ids (l_conn k) \<longrightarrow>
     (\<exists>b. snd_inv (l_cfg k) (l_input k) ep' (S @ b) \<and> rcv_inv ep' (l_data k) \<and> ids (e_conn ep') = ids (l_conn k)
       \<and> (st_read_finish (e_st ep) = 1 \<longrightarrow> b = [] \<and> st_read_finish (e_st ep') = 1)
       \<and> (st_all_recv_output (e_st ep') = 1 \<longrightarrow> st_all_recv_output (e_st ep) = 1 \<or> l_fin k)))"

lemma advances_trans:
  assumes "advances k a b" "advances k b c" shows "advances k a c"
  unfolding advances_def
proof (intro allI impI)
  fix S assume "snd_inv (l_cfg k) (l_input k) a S" "rcv_inv a (l_data k)" "ids (e_conn a) = ids (l_conn k)"
  with assms(1) obtain u where u: "snd_inv (l_cfg k) (l_input k) b (S @ u)" "rcv_inv b (l_data k)" "ids (e_conn b) = ids (l_conn k)"
    "st_read_finish (e_st a) = 1 \<longrightarrow> u = [] \<and> st_read_finish (e_st b) = 1"
    "st_all_recv_output (e_st b) = 1 \<longrightarrow> st_all_recv_output (e_st a) = 1 \<or> l_fin k" unfolding advances_def by blast
  with assms(2) obtain w where "snd_inv (l_cfg k) (l_input k) c ((S @ u) @ w)" "rcv_inv c (l_data k)" "ids (e_conn c) = ids (l_conn k)"
    "st_read_finish (e_st b) = 1 \<longrightarrow> w = [] \<and> st_read_finish (e_st c) = 1"
    "st_all_recv_output (e_st c) = 1 \<longrightarrow> st_all_recv_output (e_st b) = 1 \<or> l_fin k" unfolding advances_def by blast
  with u show "\<exists>b. snd_inv (l_cfg k) (l_input k) c (S @ b) \<and> rcv_inv c (l_data k) \<and> ids (e_conn c) = ids (l_conn k)
       \<and> (st_read_finish (e_st a) = 1 \<longrightarrow> b = [] \<and> st_read_finish (e_st c) = 1)
       \<and> (st_all_recv_output (e_st c) = 1 \<longrightarrow> st_all_recv_output (e_st a) = 1 \<or> l_fin k)"
    by (intro exI [of _ "u @ w"]) auto
qed

text \<open>What the invariants do not look at: the log file, the mark for removal.\<close>

lemma advances_parts:
  assumes "snd_part ep' = snd_part ep" "rcv_part ep' = rcv_part ep" "ids (e_conn ep') = ids (e_conn ep)"
    and "st_read_finish (e_st ep') = st_read_finish (e_st ep)"
  shows "advances k ep ep'"
proof -
  have "st_all_recv_output (e_st ep') = st_all_recv_output (e_st ep)" using assms(2) by (simp add: rcv_part_def)
  then show ?thesis unfolding advances_def snd_inv_cong [OF assms(1)] rcv_inv_cong [OF assms(2)] assms(3,4)
    by (intro allI impI exI [of _ "[]"]) simp
qed

lemma advances_refl [simp]: "advances k ep ep"
  by (rule advances_parts) simp_all

lemma advances_fp: "advances k (ep\<lparr> e_fp := f \<rparr>) ep' \<Longrightarrow> advances k ep ep'"
  by (rule advances_trans [of k ep "ep\<lparr> e_fp := f \<rparr>"]) (rule advances_parts, simp_all add: snd_part_def rcv_part_def)

lemma advances_remove: "advances k ep (ep\<lparr> e_conn := conn_remove (e_conn ep) \<rparr>)"
  by (rule advances_parts) (simp_all add: snd_part_def rcv_part_def conn_remove_def ids_def)

lemma host_step_advances:
  assumes "host_step cfg net ep ep'" "same_host cfg (l_cfg k)" "\<forall>d\<in>set net. comes k d" "link_ok k"
  shows "advances k ep ep'"
  unfolding advances_def
proof (intro allI impI)
  fix S assume i: "snd_inv (l_cfg k) (l_input k) ep S" "rcv_inv ep (l_data k)" "ids (e_conn ep) = ids (l_conn k)"
  have n: "\<forall>p\<in>set net. \<exists>s. p = pkt_of (l_peer_cfg k) (l_peer k) s \<and> carries (l_data k) (l_fin k) s"
    using assms(3) by (simp add: comes_def)
  have p: "peers (e_conn ep) (l_peer k)" using assms(4) i(3) by (simp add: link_ok_def peers_def ids_def)
  from host_step_inv [OF assms(1) _ i(2) n p, of "l_input k" S] snd_inv_host [OF assms(2)] i(1,3) assms(4)
  show "\<exists>b. snd_inv (l_cfg k) (l_input k) ep' (S @ b) \<and> rcv_inv ep' (l_data k) \<and> ids (e_conn ep') = ids (l_conn k)
       \<and> (st_read_finish (e_st ep) = 1 \<longrightarrow> b = [] \<and> st_read_finish (e_st ep') = 1)
       \<and> (st_all_recv_output (e_st ep') = 1 \<longrightarrow> st_all_recv_output (e_st ep) = 1 \<or> l_fin k)"
    by (auto simp: link_ok_def)
qed

lemma timer_advances:
  assumes "timer_ep x ep = Inr (ep', dead)" "same_host (x_cfg x) (l_cfg k)" "\<forall>i. no_corrupt (x_env x i)"
  shows "advances k ep ep'"
  unfolding advances_def
proof (intro allI impI)
  fix S assume i: "snd_inv (l_cfg k) (l_input k) ep S" "rcv_inv ep (l_data k)" "ids (e_conn ep) = ids (l_conn k)"
  note s = snd_inv_host [OF assms(2)]
  from calmD [OF timer_ep_calm [OF assms(1,3)], of "l_input k" S "l_data k"] i
  show "\<exists>b. snd_inv (l_cfg k) (l_input k) ep' (S @ b) \<and> rcv_inv ep' (l_data k) \<and> ids (e_conn ep') = ids (l_conn k)
       \<and> (st_read_finish (e_st ep) = 1 \<longrightarrow> b = [] \<and> st_read_finish (e_st ep') = 1)
       \<and> (st_all_recv_output (e_st ep') = 1 \<longrightarrow> st_all_recv_output (e_st ep) = 1 \<or> l_fin k)"
    by (intro exI [of _ "[]"]) (simp add: s keeps_def)
qed

lemma advances_ids: "(ids (e_conn ep) = ids (l_conn k) \<Longrightarrow> advances k ep ep') \<Longrightarrow> advances k ep ep'"
  unfolding advances_def by blast

section \<open>A process\<close>

definition progress :: "link \<Rightarrow> nat \<Rightarrow> process \<Rightarrow> process \<Rightarrow> bool" where
  "progress k i p p' \<longleftrightarrow> same_host (p_cfg p) (p_cfg p')
     \<and> (\<forall>ep'. p_eps p' i = Some ep' \<longrightarrow> (\<exists>ep. p_eps p i = Some ep \<and> advances k ep ep'))"

lemma progress_refl [simp]: "progress k i p p" by (simp add: progress_def)

lemma progress_trans: "progress k i p q \<Longrightarrow> progress k i q r \<Longrightarrow> progress k i p r"
  unfolding progress_def using same_host_trans advances_trans by metis

lemma progress_eps: "same_host (p_cfg p) (p_cfg p') \<Longrightarrow> p_eps p' i = p_eps p i \<Longrightarrow> progress k i p p'"
  by (simp add: progress_def)

lemma progress_upd:
  assumes "p_eps p m = Some ep" "p_eps p' = (p_eps p)(m \<mapsto> ep')" "same_host (p_cfg p) (p_cfg p')" "m = i \<Longrightarrow> advances k ep ep'"
  shows "progress k i p p'"
  using assms by (auto simp: progress_def)

lemma on_conn_progress:
  assumes "on_conn m f p = Inr p'"
    and "\<And>ep ep'. f ep = Inr ep' \<Longrightarrow> p_eps p i = Some (ep\<lparr> e_fp := e_fp (the (p_eps p i)) \<rparr>) \<Longrightarrow> m = i \<Longrightarrow> advances k ep ep'"
  shows "progress k i p p'"
proof -
  obtain ep ep' where e: "p_eps p m = Some ep" "f (ep\<lparr> e_fp := p_fp p \<rparr>) = Inr ep'"
    "p' = p\<lparr> p_eps := (p_eps p)(m \<mapsto> ep'), p_fp := e_fp ep' \<rparr>"
    using assms(1) by (auto simp: on_conn_def bnd_eq_Inr conn_of_eq)
  have a: "advances k ep ep'" if "m = i"
    by (rule advances_fp, rule assms(2) [OF e(2) _ that]) (use e(1) that in simp)
  show ?thesis by (rule progress_upd [OF e(1) _ _ a]) (simp_all add: e(3))
qed

lemma on_state_progress:
  assumes "on_state m f p = Inr p'"
    and "\<And>ep ep'. f ep = Inr ep' \<Longrightarrow> p_eps p i = Some (ep\<lparr> e_fp := e_fp (the (p_eps p i)) \<rparr>) \<Longrightarrow> m = i \<Longrightarrow> advances k ep ep'"
  shows "progress k i p p'"
  using assms on_conn_progress [of m f p p' i k] by (auto simp: on_state_def split: if_splits)

abbreviation hosts :: "link \<Rightarrow> process \<Rightarrow> bool" where "hosts k p \<equiv> same_host (p_cfg p) (l_cfg k)"

lemma progress_hosts: "progress k i p p' \<Longrightarrow> hosts k p' = hosts k p"
  unfolding progress_def using same_host_trans same_host_sym by blast

lemma on_all_progress:
  assumes "on_all f is p = Inr p'" "hosts k p"
    and "\<And>m p p'. f m p = Inr p' \<Longrightarrow> hosts k p \<Longrightarrow> progress k i p p'"
  shows "progress k i p p'"
  using assms(1,2)
proof (induction "is" arbitrary: p)
  case (Cons m ms)
  then obtain q where "f m p = Inr q" "on_all f ms q = Inr p'" by (auto simp: bnd_eq_Inr)
  with Cons assms(3) show ?case using progress_trans progress_hosts by blast
qed simp

section \<open>The phases of a turn\<close>

text \<open>A packet that says nothing to the connection: one that opens or resets, or does not belong to it.\<close>

definition foreign :: "sys_config \<Rightarrow> conn \<Rightarrow> bytes \<Rightarrow> bool" where
  "foreign cfg c d = (case (load_ip d 0, load_tcp d IP_HDR_SIZE) of
     (Inr ip, Inr tcp) \<Rightarrow> ucast (th_flags tcp) AND TH_RST \<noteq> 0 \<or> ucast (th_flags tcp) AND TH_SYN \<noteq> 0 \<or> \<not> in_session cfg ip tcp c
   | _ \<Rightarrow> True)"

definition turn_ok :: "link \<Rightarrow> nat \<Rightarrow> turn \<Rightarrow> bool" where
  "turn_ok k i t \<longleftrightarrow> (\<forall>n. no_corrupt (t_env t n)) \<and> t_addr t \<noteq> i
     \<and> (\<forall>d. t_recv t = Some d \<longrightarrow> comes k d \<or> foreign (l_cfg k) (l_conn k) d)"

lemma in_session_cong: "same_host cfg cfg' \<Longrightarrow> ids c = ids c' \<Longrightarrow> in_session cfg ip tcp c = in_session cfg' ip tcp c'"
  by (simp add: in_session_def same_host_def ids_def)

lemma find_session_Some:
  "find_session p ip tcp is = Inr (Passed (Some i)) \<Longrightarrow> \<exists>ep. p_eps p i = Some ep \<and> in_session (p_cfg p) ip tcp (e_conn ep)"
  by (induction "is") (auto simp: bnd_eq_Inr conn_of_eq split: if_splits)

lemma recv_filter_session:
  assumes "recv_filter p (Some d) = Inr (Passed (Some i))" "p_eps p i = Some ep"
  shows "\<not> foreign (p_cfg p) (e_conn ep) d"
proof -
  from assms obtain ip tcp where "load_ip d 0 = Inr ip" "load_tcp d IP_HDR_SIZE = Inr tcp"
    "ucast (th_flags tcp) AND TH_RST = 0" "ucast (th_flags tcp) AND TH_SYN = 0" "find_session p ip tcp (p_conns p) = Inr (Passed (Some i))"
    by (auto simp: recv_filter_def bnd_eq_Inr split: if_splits)
  then show ?thesis using find_session_Some assms(2) by (fastforce simp: foreign_def)
qed

lemma foreign_cong: "same_host cfg cfg' \<Longrightarrow> ids c = ids c' \<Longrightarrow> foreign cfg c d = foreign cfg' c' d"
  using in_session_cong [of cfg cfg' c c'] by (simp add: foreign_def split: sum.split)

lemma read_advances:
  assumes "ctcp_read (turn_ctx t p) ep = Inr ep'" "hosts k p" "turn_ok k i t" "link_ok k"
  shows "advances k ep ep'"
proof (rule host_step_advances [OF _ assms(2) _ assms(4), where net = "[]"])
  show "host_step (p_cfg p) [] ep ep'"
    by (rule host_step.input [OF assms(1)]) (use assms(3) in \<open>simp_all add: turn_ctx_def turn_ok_def\<close>)
qed simp

lemma drain_advances:
  assumes "ep_drain ep = Inr ep'" "link_ok k" shows "advances k ep ep'"
  by (rule host_step_advances [OF host_step.drain [OF assms(1)] same_host_refl _ assms(2), of "[]"]) simp

lemma loop_reads_progress:
  assumes "hosts k p" "turn_ok k i t" "link_ok k"
  shows "loop_stdin t p = Inr p' \<Longrightarrow> progress k i p p'" and "loop_stdout t p = Inr p' \<Longrightarrow> progress k i p p'"
    and "loop_program t p = Inr p' \<Longrightarrow> progress k i p p'"
proof -
  have r: "progress k i q q'" if "on_state m (ctcp_read (turn_ctx t q)) q = Inr q'" "hosts k q" for m q q'
    by (rule on_state_progress [OF that(1)]) (rule read_advances [OF _ that(2) assms(2,3)])
  then show "loop_stdin t p = Inr p' \<Longrightarrow> progress k i p p'"
    using assms(1) by (auto simp: loop_stdin_def split: if_splits list.splits)
  have d: "progress k i q q'" if "on_conn m ep_drain q = Inr q'" for m q q'
    by (rule on_conn_progress [OF that]) (rule drain_advances [OF _ assms(3)])
  show "loop_stdout t p = Inr p' \<Longrightarrow> progress k i p p'"
    using on_all_progress [of "\<lambda>i. on_conn i ep_drain" "p_conns p" p p' k i] assms(1) d by (auto simp: loop_stdout_def split: if_splits)
  have s: "progress k i q q'" if "(if t_program t m then on_state m (ctcp_read (turn_ctx t q)) q else Inr q) = Inr q'" "hosts k q" for m q q'
    using that r by (cases "t_program t m") simp_all
  show "loop_program t p = Inr p' \<Longrightarrow> progress k i p p'"
    unfolding loop_program_def using on_all_progress [OF _ assms(1) s] by (auto split: if_splits)
qed

lemma segment_progress:
  assumes "loop_segment t d m p = Inr p'" "recv_filter p (Some d) = Inr (Passed (Some m))" "t_recv t = Some d"
    and "hosts k p" "turn_ok k i t" "link_ok k"
  shows "progress k i p p'"
proof -
  obtain ep sg where e: "p_eps p m = Some ep" "convert_to_ctcp (e_conn ep) (d @ calloc (MAX_PACKET_SIZE - length d)) = Inr sg"
    and c: "p' = p\<lparr> p_new := 0 \<rparr> \<or> on_state m (\<lambda>ep. ctcp_receive (turn_ctx t p) ep sg (length d - FULL_HDR_SIZE + sizeof_segment)) p = Inr p'"
    using assms(1) by (auto simp: loop_segment_def bnd_eq_Inr conn_of_eq split: if_splits)
  from c show ?thesis
  proof
    assume "on_state m (\<lambda>ep. ctcp_receive (turn_ctx t p) ep sg (length d - FULL_HDR_SIZE + sizeof_segment)) p = Inr p'"
    then show ?thesis
    proof (rule on_state_progress)
      fix a a' assume a: "ctcp_receive (turn_ctx t p) a sg (length d - FULL_HDR_SIZE + sizeof_segment) = Inr a'" and
        i: "p_eps p i = Some (a\<lparr> e_fp := e_fp (the (p_eps p i)) \<rparr>)" "m = i"
      have "ep = a\<lparr> e_fp := e_fp ep \<rparr>" using e(1) i by simp
      from arg_cong [OF this, of e_conn] have ep: "e_conn ep = e_conn a" by simp
      show "advances k a a'"
      proof (rule advances_ids)
        assume "ids (e_conn a) = ids (l_conn k)"
        then have "\<not> foreign (l_cfg k) (l_conn k) d"
          using recv_filter_session [OF assms(2) e(1)] foreign_cong [OF assms(4)] ep by auto
        then have d: "comes k d" using assms(3,5) by (auto simp: turn_ok_def)
        have "ep_packet (turn_ctx t p) a d = Inr a'" using e(2) a by (simp add: ep_packet_def ep)
        then have "host_step (p_cfg p) [d] a a'"
          by (rule host_step.packet) (use assms(5) in \<open>simp_all add: turn_ctx_def turn_ok_def\<close>)
        then show ?thesis by (rule host_step_advances [OF _ assms(4) _ assms(6)]) (simp add: d)
      qed
    qed
  qed (simp add: progress_eps)
qed

lemma send_seg_other:
  assumes "send_tcp_conn_seg fails m f p = Inr (ok, p')" "m \<noteq> i" shows "progress k i p p'"
proof -
  from assms(1) obtain ep where "p_eps p m = Some ep"
    "p_eps p' = (p_eps p)(m \<mapsto> ep\<lparr> e_conn := (e_conn ep)\<lparr> c_seqno := c_next_seqno (e_conn ep) \<rparr> \<rparr>)" "p_cfg p' = p_cfg p"
    by (cases fails) (auto simp: send_tcp_conn_seg_def bnd_eq_Inr conn_of_eq create_tcp_seg_eq)
  then show ?thesis using assms(2) by (intro progress_eps) simp_all
qed

lemma new_connection_progress:
  assumes "tcp_new_connection d rb inp wr fails now m p = Inr (c, p')" "m \<noteq> i"
  shows "progress k i p p'"
proof (cases "p_connected p \<ge> 10")
  case True
  then show ?thesis using assms(1) by (simp add: tcp_new_connection_def)
next
  case False
  then obtain q r ok ok' cc w where s: "send_synack fails m (conn_add m (p\<lparr> p_connected := p_connected p + 1, p_eps := (p_eps p)(m \<mapsto> opened (p_cfg p) now cc) \<rparr>)) = Inr (ok, q)"
      "ctcp_init now (Some m) (q\<lparr> p_cfg := (p_cfg q)\<lparr> cfg_send_window := w \<rparr> \<rparr>) = Inr (ok', p')"
    using assms(1) by (auto simp: tcp_new_connection_def Let_def bnd_eq_Inr)
  have "progress k i p (conn_add m (p\<lparr> p_connected := p_connected p + 1, p_eps := (p_eps p)(m \<mapsto> opened (p_cfg p) now cc) \<rparr>))"
    using assms(2) by (intro progress_eps) simp_all
  moreover have "progress k i (conn_add m (p\<lparr> p_connected := p_connected p + 1, p_eps := (p_eps p)(m \<mapsto> opened (p_cfg p) now cc) \<rparr>)) q"
    using send_seg_other s(1) assms(2) unfolding send_synack_def by blast
  moreover have "progress k i q p'"
    using s(2) assms(2) by (intro progress_eps) (auto simp: ctcp_init_def bnd_eq_Inr conn_of_eq same_host_def)
  ultimately show ?thesis using progress_trans by blast
qed

lemma socket_progress:
  assumes "loop_socket t p = Inr p'" "hosts k p" "turn_ok k i t" "link_ok k"
  shows "progress k i p p'"
  using assms(1)
proof (cases rule: loop_socket_cases)
  case (seg d m)
  then show ?thesis using segment_progress assms(2-4) by blast
next
  case (new d c q n)
  have "progress k i p q" by (rule new_connection_progress [OF new(3)]) (use assms(3) in \<open>simp add: turn_ok_def\<close>)
  moreover have "progress k i q p'" by (rule progress_eps) (simp_all add: new(4))
  ultimately show ?thesis by (rule progress_trans)
qed (simp_all add: progress_eps)

text \<open>Freeing connections.\<close>

lemma delete_conns_progress: "delete_conns is p = Inr p' \<Longrightarrow> progress k i p p'"
proof (induction "is" arbitrary: p)
  case (Cons m ms)
  then obtain ep q where q: "(if del ep then conn_free m p else Inr p) = Inr q" "delete_conns ms q = Inr p'"
    by (auto simp: bnd_eq_Inr conn_of_eq)
  have "progress k i p q" using q(1) by (auto simp: conn_free_def progress_def split: if_splits)
  then show ?case using Cons.IH [OF q(2)] progress_trans by blast
qed simp

lemma end_client_progress: "end_client p = Inr p' \<Longrightarrow> progress k i p p'"
proof -
  assume "end_client p = Inr p'"
  then consider "p' = p" | q where "delete_all_connections p = Inr q" "p' = q\<lparr> p_exited := True \<rparr>"
    by (auto simp: end_client_def bnd_eq_Inr split: if_splits)
  then show ?thesis
  proof cases
    case 2
    have "progress k i p q" using 2(1) delete_conns_progress by (simp add: delete_all_connections_def)
    moreover have "progress k i q p'" by (rule progress_eps) (simp_all add: 2(2))
    ultimately show ?thesis by (rule progress_trans)
  qed simp
qed

lemma destroy_progress:
  assumes "ctcp_destroy m p = Inr p'" shows "progress k i p p'"
proof -
  obtain q where q: "on_conn m (\<lambda>ep. Inr (ep\<lparr> e_conn := conn_remove (e_conn ep) \<rparr>)) p = Inr q"
    "end_client (q\<lparr> p_states := remove1 m (p_states q) \<rparr>) = Inr p'"
    using assms by (auto simp: ctcp_destroy_def bnd_eq_Inr)
  have "progress k i p q" by (rule on_conn_progress [OF q(1)]) (auto intro: advances_remove)
  moreover have "progress k i q (q\<lparr> p_states := remove1 m (p_states q) \<rparr>)" by (rule progress_eps) simp_all
  ultimately show ?thesis using end_client_progress [OF q(2)] progress_trans by blast
qed

lemma ctcp_timer_progress:
  assumes "ctcp_timer (turn_ctx t p) p = Inr p'" "hosts k p" "turn_ok k i t"
  shows "progress k i p p'"
proof (cases "p_states p")
  case Nil
  then show ?thesis using assms(1) by (simp add: ctcp_timer_def)
next
  case (Cons m ms)
  then obtain ep ep' dead where e: "p_eps p m = Some ep" "timer_ep (turn_ctx t p) (ep\<lparr> e_fp := p_fp p \<rparr>) = Inr (ep', dead)"
    "(if dead then ctcp_destroy m (p\<lparr> p_eps := (p_eps p)(m \<mapsto> ep'), p_fp := e_fp ep' \<rparr>)
      else Inr (p\<lparr> p_eps := (p_eps p)(m \<mapsto> ep'), p_fp := e_fp ep' \<rparr>)) = Inr p'"
    using assms(1) by (auto simp: ctcp_timer_def bnd_eq_Inr conn_of_eq Let_def)
  let ?q = "p\<lparr> p_eps := (p_eps p)(m \<mapsto> ep'), p_fp := e_fp ep' \<rparr>"
  have "advances k (ep\<lparr> e_fp := p_fp p \<rparr>) ep'"
    by (rule timer_advances [OF e(2)]) (use assms(2,3) in \<open>simp_all add: turn_ctx_def turn_ok_def\<close>)
  then have "advances k ep ep'" by (rule advances_fp)
  then have "progress k i p ?q" by (intro progress_upd [OF e(1)]) simp_all
  moreover have "progress k i ?q p'" using e(3) destroy_progress by (cases dead) auto
  ultimately show ?thesis by (rule progress_trans)
qed

lemma loop_timer_progress:
  assumes "loop_timer t p = Inr p'" "hosts k p" "turn_ok k i t" shows "progress k i p p'"
proof (cases "p' = p")
  case False
  then obtain q where q: "ctcp_timer (turn_ctx t p) p = Inr q" "p' = q\<lparr> p_last := t_clock t \<rparr>"
    using assms by (auto simp: loop_timer_def bnd_eq_Inr split: if_splits)
  have "progress k i q p'" by (rule progress_eps) (simp_all add: q(2))
  then show ?thesis using ctcp_timer_progress [OF q(1) assms(2,3)] progress_trans by blast
qed simp

text \<open>The phases of a turn of the event loop; between two phases of one process the other may do any number of its own.\<close>

definition phase :: "turn \<Rightarrow> process \<Rightarrow> process \<Rightarrow> bool" where
  "phase t p p' \<longleftrightarrow> \<not> p_exited p \<and> Inr p' \<in>
     {loop_stdin t p, loop_stdout t p, loop_program t p, loop_socket t p, loop_timer t p, delete_all_connections p}"

lemma phase_progress:
  assumes "phase t p p'" "hosts k p" "turn_ok k i t" "link_ok k" shows "progress k i p p'"
proof -
  from assms(1) have "loop_stdin t p = Inr p' \<or> loop_stdout t p = Inr p' \<or> loop_program t p = Inr p' \<or> loop_socket t p = Inr p'
    \<or> loop_timer t p = Inr p' \<or> delete_all_connections p = Inr p'" by (auto simp: phase_def)
  then show ?thesis
    using loop_reads_progress [OF assms(2-4)] socket_progress [OF _ assms(2-4)] loop_timer_progress [OF _ assms(2,3)] delete_conns_progress
    unfolding delete_all_connections_def by blast
qed

section \<open>Two processes\<close>

text \<open>
  What a phase may receive: a packet that the peer's connection has put on the network, or one that is foreign to the
  connection, such as those of other hosts, and those that open connections.
\<close>

definition may_take :: "sys_config \<Rightarrow> conn \<Rightarrow> bytes list \<Rightarrow> nat \<Rightarrow> turn \<Rightarrow> bool" where
  "may_take cfg c net i t \<longleftrightarrow> (\<forall>n. no_corrupt (t_env t n)) \<and> t_addr t \<noteq> i
     \<and> (\<forall>d. t_recv t = Some d \<longrightarrow> d \<in> set net \<or> foreign cfg c d)"

text \<open>What a connection has put on the network, with the packets \<open>h\<close> of the handshake; it stays when the connection is freed.\<close>

definition on_wire :: "bytes list \<Rightarrow> nat \<Rightarrow> process \<Rightarrow> bytes list \<Rightarrow> bytes list" where
  "on_wire h i p net = (case p_eps p i of None \<Rightarrow> net | Some ep \<Rightarrow> h @ c_net (e_conn ep))"

abbreviation conn_at :: "process \<Rightarrow> nat \<Rightarrow> conn" where "conn_at p i \<equiv> e_conn (the (p_eps p i))"

inductive net_run :: "nat \<Rightarrow> nat \<Rightarrow> process \<Rightarrow> bytes list \<Rightarrow> process \<Rightarrow> bytes list \<Rightarrow> process \<Rightarrow> bytes list \<Rightarrow> process \<Rightarrow> bytes list \<Rightarrow> bool"
  for i :: nat and j :: nat and p0 :: process and h0 :: "bytes list" and q0 :: process and k0 :: "bytes list" where
  start: "net_run i j p0 h0 q0 k0 p0 h0 q0 k0"
| client: "net_run i j p0 h0 q0 k0 p N q M \<Longrightarrow> phase t p p' \<Longrightarrow> may_take (p_cfg p0) (conn_at p0 i) M i t
    \<Longrightarrow> net_run i j p0 h0 q0 k0 p' (on_wire h0 i p' N) q M"
| server: "net_run i j p0 h0 q0 k0 p N q M \<Longrightarrow> phase t q q' \<Longrightarrow> may_take (p_cfg q0) (conn_at q0 j) N j t
    \<Longrightarrow> net_run i j p0 h0 q0 k0 p N q' (on_wire k0 j q' M)"

definition opens :: "bytes \<Rightarrow> bool" where
  "opens d \<longleftrightarrow> (\<forall>cfg c. foreign cfg c d)"

definition on_net :: "sys_config \<Rightarrow> conn \<Rightarrow> bytes \<Rightarrow> bool \<Rightarrow> bytes list \<Rightarrow> bool" where
  "on_net cfg c S fin net \<longleftrightarrow> (\<forall>d\<in>set net. opens d \<or> (\<exists>s. d = pkt_of cfg c s \<and> carries S fin s))"

definition side_inv where
  "side_inv cfg input c i S fin T net p \<longleftrightarrow> same_host (p_cfg p) cfg \<and> on_net cfg c S fin net \<and> (\<exists>r. input = S @ r)
     \<and> (\<forall>ep. p_eps p i = Some ep \<longrightarrow> snd_inv cfg input ep S \<and> rcv_inv ep T \<and> ids (e_conn ep) = ids c
         \<and> (st_read_finish (e_st ep) = 1 \<longleftrightarrow> fin))"

definition got_all :: "nat \<Rightarrow> process \<Rightarrow> bool" where
  "got_all i p \<longleftrightarrow> (\<exists>ep. p_eps p i = Some ep \<and> st_all_recv_output (e_st ep) = 1)"

lemma on_net_start: "on_net cfg c [] False h \<Longrightarrow> on_net cfg c S fin h"
  unfolding on_net_def using carries_more [of "[]" _ S fin] by fastforce

lemma on_net_wire:
  assumes "on_net cfg c [] False h" "snd_inv cfg input ep S" "ids (e_conn ep) = ids c"
  shows "on_net cfg c S (st_read_finish (e_st ep) = 1) (h @ c_net (e_conn ep))"
proof -
  from assms(2) have "net_ok cfg (e_conn ep) S (st_read_finish (e_st ep) = 1)" by (rule snd_invE)
  then have "on_net cfg c S (st_read_finish (e_st ep) = 1) (c_net (e_conn ep))"
    using pkt_of_ids [OF assms(3)] by (auto simp: net_ok_def on_net_def)
  with on_net_start [OF assms(1)] show ?thesis by (auto simp: on_net_def)
qed

lemma side_link:
  assumes "may_take cfg c net i t" "on_net cfg' c' T fin net"
  shows "turn_ok \<lparr> l_cfg = cfg, l_input = input, l_conn = c, l_peer_cfg = cfg', l_peer = c', l_data = T, l_fin = fin \<rparr> i t"
  using assms by (auto simp: turn_ok_def may_take_def on_net_def comes_def opens_def)

lemma side_step:
  assumes A: "side_inv cA inA a i S finA T N p" and B: "side_inv cB inB b j T finB S M q"
    and step: "phase t p p'" "may_take cA a M i t"
    and k: "peers a b" "on_net cA a [] False h" "length inA + 2 < 2 ^ 32" "length inB + 2 < 2 ^ 32"
    and got: "got_all j q \<longrightarrow> finA" "got_all i p \<longrightarrow> finB"
  shows "\<exists>S' finA'. side_inv cA inA a i S' finA' T (on_wire h i p' N) p' \<and> side_inv cB inB b j T finB S' M q
    \<and> (got_all j q \<longrightarrow> finA') \<and> (got_all i p' \<longrightarrow> finB)"
proof -
  let ?k = "\<lparr> l_cfg = cA, l_input = inA, l_conn = a, l_peer_cfg = cB, l_peer = b, l_data = T, l_fin = finB \<rparr>"
  have "length T \<le> length inB" using B by (auto simp: side_inv_def)
  then have "link_ok ?k" using k by (simp add: link_ok_def)
  moreover have "turn_ok ?k i t" by (rule side_link [OF step(2)]) (use B in \<open>simp add: side_inv_def\<close>)
  moreover have "hosts ?k p" using A by (simp add: side_inv_def)
  ultimately have pr: "progress ?k i p p'" by (intro phase_progress [OF step(1)])
  then have host: "same_host (p_cfg p') cA" using progress_hosts [OF pr] A by (simp add: side_inv_def)
  show ?thesis
  proof (cases "p_eps p' i")
    case None
    then show ?thesis using A B host got
      by (intro exI [of _ S] exI [of _ finA]) (auto simp: side_inv_def on_wire_def got_all_def)
  next
    case (Some ep')
    with pr obtain ep where ep: "p_eps p i = Some ep" "advances ?k ep ep'" by (auto simp: progress_def)
    have o: "snd_inv cA inA ep S" "rcv_inv ep T" "ids (e_conn ep) = ids a" "st_read_finish (e_st ep) = 1 \<longleftrightarrow> finA"
      using A ep(1) by (auto simp: side_inv_def)
    from ep(2) o(1-3) obtain r where r: "snd_inv cA inA ep' (S @ r)" "rcv_inv ep' T" "ids (e_conn ep') = ids a"
      "st_read_finish (e_st ep) = 1 \<longrightarrow> r = [] \<and> st_read_finish (e_st ep') = 1"
      "st_all_recv_output (e_st ep') = 1 \<longrightarrow> st_all_recv_output (e_st ep) = 1 \<or> finB" by (auto simp: advances_def)
    let ?fin = "st_read_finish (e_st ep') = 1"
    have "\<exists>rest. inA = (S @ r) @ rest" using r(1) by (auto elim: snd_invE)
    then have A': "side_inv cA inA a i (S @ r) ?fin T (on_wire h i p' N) p'"
      using host on_net_wire [OF k(2) r(1,3)] r(1-3) Some by (simp add: side_inv_def on_wire_def)
    have rb: "rcv_inv e (S @ r)" if "p_eps q j = Some e" for e
    proof (cases "st_all_recv_output (e_st e) = 1")
      case True
      then have "r = []" using got(1) o(4) r(4) that by (auto simp: got_all_def)
      then show ?thesis using B that by (simp add: side_inv_def)
    next
      case False
      then show ?thesis using rcv_inv_more B that by (auto simp: side_inv_def)
    qed
    have B': "side_inv cB inB b j T finB (S @ r) M q" using B rb by (simp add: side_inv_def)
    have "got_all j q \<longrightarrow> ?fin" using got(1) o(4) r(4) by auto
    moreover have "got_all i p' \<longrightarrow> finB" using r(5) got(2) Some ep(1) by (auto simp: got_all_def)
    ultimately show ?thesis using A' B' by blast
  qed
qed

definition net_inv where
  "net_inv cA cB inA inB a b i j N M p q \<longleftrightarrow> (\<exists>S T finA finB. side_inv cA inA a i S finA T N p \<and> side_inv cB inB b j T finB S M q
     \<and> (got_all j q \<longrightarrow> finA) \<and> (got_all i p \<longrightarrow> finB))"

lemma net_inv_sym: "net_inv cA cB inA inB a b i j N M p q \<longleftrightarrow> net_inv cB cA inB inA b a j i M N q p"
  unfolding net_inv_def by blast

lemma net_inv_step:
  assumes "net_inv cA cB inA inB a b i j N M p q" "phase t p p'" "may_take cA a M i t"
    and "peers a b" "on_net cA a [] False h" "length inA + 2 < 2 ^ 32" "length inB + 2 < 2 ^ 32"
  shows "net_inv cA cB inA inB a b i j (on_wire h i p' N) M p' q"
  using assms(1) side_step [OF _ _ assms(2-7)] unfolding net_inv_def by metis

lemma net_run_inv:
  assumes "net_run i j p0 h q0 k p N q M"
    and "net_inv (p_cfg p0) (p_cfg q0) inA inB (conn_at p0 i) (conn_at q0 j) i j h k p0 q0"
    and "peers (conn_at p0 i) (conn_at q0 j)" "peers (conn_at q0 j) (conn_at p0 i)"
    and "on_net (p_cfg p0) (conn_at p0 i) [] False h" "on_net (p_cfg q0) (conn_at q0 j) [] False k"
    and "length inA + 2 < 2 ^ 32" "length inB + 2 < 2 ^ 32"
  shows "net_inv (p_cfg p0) (p_cfg q0) inA inB (conn_at p0 i) (conn_at q0 j) i j N M p q"
  using assms(1)
proof induction
  case start show ?case by (rule assms(2))
next
  case (client p N q M t p')
  from net_inv_step [OF client.IH client.hyps(2,3) assms(3,5,7,8)] show ?case .
next
  case (server p N q M t q')
  from net_inv_step [OF iffD1 [OF net_inv_sym server.IH] server.hyps(2,3) assms(4,6,8,7)] show ?case by (rule iffD1 [OF net_inv_sym])
qed

lemma net_inv_outputs:
  assumes "net_inv cA cB inA inB a b i j N M p q" "p_eps q j = Some ep"
  shows "\<exists>r. inA = c_out (e_conn ep) @ r"
proof -
  from assms obtain S r where S: "rcv_inv ep S" "inA = S @ r" unfolding net_inv_def side_inv_def by blast
  from rcv_inv_outputs [OF S(1)] S(2) show ?thesis by force
qed

section \<open>Whole turns\<close>

lemma on_conn_exited: "on_conn m f p = Inr p' \<Longrightarrow> p_exited p' = p_exited p"
  by (auto simp: on_conn_def bnd_eq_Inr)

lemma on_state_exited: "on_state m f p = Inr p' \<Longrightarrow> p_exited p' = p_exited p"
  using on_conn_exited by (auto simp: on_state_def split: if_splits)

lemma on_all_exited:
  "on_all f is p = Inr p' \<Longrightarrow> (\<And>m p p'. f m p = Inr p' \<Longrightarrow> p_exited p' = p_exited p) \<Longrightarrow> p_exited p' = p_exited p"
proof (induction "is" arbitrary: p)
  case (Cons m ms)
  then obtain q where "f m p = Inr q" "on_all f ms q = Inr p'" by (auto simp: bnd_eq_Inr)
  with Cons show ?case by metis
qed simp

lemma loop_reads_exited:
  shows "loop_stdin t p = Inr p' \<Longrightarrow> p_exited p' = p_exited p" and "loop_stdout t p = Inr p' \<Longrightarrow> p_exited p' = p_exited p"
    and "loop_program t p = Inr p' \<Longrightarrow> p_exited p' = p_exited p"
proof -
  show "loop_stdin t p = Inr p' \<Longrightarrow> p_exited p' = p_exited p"
    by (auto simp: loop_stdin_def split: if_splits list.splits dest: on_state_exited)
  show "loop_stdout t p = Inr p' \<Longrightarrow> p_exited p' = p_exited p"
    by (auto simp: loop_stdout_def split: if_splits elim!: on_all_exited dest: on_conn_exited)
  show "loop_program t p = Inr p' \<Longrightarrow> p_exited p' = p_exited p"
    by (auto simp: loop_program_def split: if_splits elim!: on_all_exited dest: on_state_exited)
qed

lemma net_run_phase:
  assumes "\<exists>N. net_run i j p0 h q0 k p N q M" "phase t p p'" "may_take (p_cfg p0) (conn_at p0 i) M i t"
  shows "\<exists>N. net_run i j p0 h q0 k p' N q M"
  using net_run.client [OF _ assms(2,3)] assms(1) by blast

text \<open>A turn of the client's loop is part of a run, and so is one of the server's.\<close>

lemma client_turn_run:
  assumes "net_run i j p0 h q0 k p N q M" "\<not> p_exited p" "do_loop_turn t p = Inr p'" "may_take (p_cfg p0) (conn_at p0 i) M i t"
  shows "\<exists>N'. net_run i j p0 h q0 k p' N' q M"
proof -
  obtain a b c d e where s: "loop_stdin t p = Inr a" "loop_stdout t a = Inr b" "loop_program t b = Inr c"
    "loop_socket t c = Inr d" "unless_exited (loop_timer t) d = Inr e" "unless_exited delete_all_connections e = Inr p'"
    using assms(3) by (auto simp: do_loop_turn_def bnd_eq_Inr)
  have x: "\<not> p_exited a" "\<not> p_exited b" "\<not> p_exited c" using assms(2) loop_reads_exited s(1-3) by blast+
  note step = net_run_phase [OF _ _ assms(4)]
  have "\<exists>N. net_run i j p0 h q0 k p N q M" using assms(1) by blast
  then have "\<exists>N. net_run i j p0 h q0 k a N q M" by (rule step) (use assms(2) s(1) in \<open>simp add: phase_def\<close>)
  then have "\<exists>N. net_run i j p0 h q0 k b N q M" by (rule step) (use x s(2) in \<open>simp add: phase_def\<close>)
  then have "\<exists>N. net_run i j p0 h q0 k c N q M" by (rule step) (use x s(3) in \<open>simp add: phase_def\<close>)
  then have d: "\<exists>N. net_run i j p0 h q0 k d N q M" by (rule step) (use x s(4) in \<open>simp add: phase_def\<close>)
  have e: "\<exists>N. net_run i j p0 h q0 k e N q M"
  proof (cases "p_exited d")
    case True then show ?thesis using d s(5) by (simp add: unless_exited_def)
  next
    case False then show ?thesis by (intro step [OF d]) (use s(5) in \<open>simp add: phase_def unless_exited_def\<close>)
  qed
  show ?thesis
  proof (cases "p_exited e")
    case True then show ?thesis using e s(6) by (simp add: unless_exited_def)
  next
    case False then show ?thesis by (intro step [OF e]) (use s(6) in \<open>simp add: phase_def unless_exited_def\<close>)
  qed
qed

lemma net_run_sym: "net_run i j p0 h q0 k p N q M \<Longrightarrow> net_run j i q0 k p0 h q M p N"
  by (induction rule: net_run.induct) (auto intro: net_run.intros)

lemma server_turn_run:
  assumes "net_run i j p0 h q0 k p N q M" "\<not> p_exited q" "do_loop_turn t q = Inr q'" "may_take (p_cfg q0) (conn_at q0 j) N j t"
  shows "\<exists>M'. net_run i j p0 h q0 k p N q' M'"
  using client_turn_run [OF net_run_sym [OF assms(1)] assms(2-4)] net_run_sym by blast

section \<open>From the handshake on\<close>

text \<open>The acknowledgement that ends the handshake is a packet like those of \<^verbatim>\<open>ctcp_send_ack\<close>.\<close>

definition hs_seg :: "sys_config \<Rightarrow> ctcp_segment" where
  "hs_seg cfg = (let s = \<lparr> sg_seqno = htonl 1, sg_ackno = htonl 1, sg_len = htons 48, sg_flags = TH_ACK,
       sg_window = htons (cfg_recv_window cfg), sg_cksum = 0, sg_sendtime = 0, sg_delivered = 0, sg_delivered_time = 0, sg_data = [] \<rparr>
     in s\<lparr> sg_cksum := seg_sum s \<rparr>)"

lemma hs_pkt_ack:
  assumes "c_next_seqno c = c_init_seqno c + 1" "c_ackno c = c_their_init_seqno c + 1"
  shows "hs_pkt cfg c (ucast TH_ACK) = pkt_of cfg c (hs_seg cfg)"
proof -
  let ?s = "hs_seg cfg"
  have k: "sg_cksum ?s = seg_sum ?s" by (simp add: hs_seg_def Let_def seg_sum_def)
  have f: "sg_data ?s = []" "sg_flags ?s = TH_ACK" "sg_seqno ?s = htonl 1" "sg_ackno ?s = htonl 1"
    "sg_window ?s = htons (cfg_recv_window cfg)" by (simp_all add: hs_seg_def Let_def)
  have n: "ntohl (htonl 1) + c_init_seqno c = c_next_seqno c" "ntohl (htonl 1) + c_their_init_seqno c = c_ackno c"
    unfolding assms htonl_htonl by (rule add.commute)+
  have "hs_tcp cfg c (ucast TH_ACK) = (pkt_tcp cfg c ?s)\<lparr> th_sum := tcp_sum (my_ip cfg) (c_ip_addr c) (pkt_tcp cfg c ?s) [] \<rparr>"
    unfolding hs_tcp_def pkt_tcp_def Let_def f n by simp
  then show ?thesis unfolding hs_pkt_def pkt_of_def Let_def k f by simp
qed

lemma carries_hs_seg: "carries [] False (hs_seg cfg)"
  by (simp add: carries_def hs_seg_def Let_def)

lemma opens_hs: "ucast f AND TH_SYN \<noteq> 0 \<Longrightarrow> opens (hs_pkt cfg c f)"
  by (simp add: opens_def foreign_def hs_pkt_load)

text \<open>The client's process when the handshake is over.\<close>

lemma start_client_eq:
  assumes "p_eps p i = Some a0" "of_int (c_port d) = (of_int (my_port (p_cfg p)) :: u16)" "\<not> p_exited p"
  shows "\<exists>p' c. start_client False False (Some (hs_pkt cfg d (ucast (TH_SYN OR TH_ACK)))) now i p = Inr (True, p')
    \<and> c = hs_conn (e_conn a0) (c_next_seqno d) \<and> p_eps p' i = Some (opened (p_cfg p') now c)
    \<and> p_cfg p' = (p_cfg p)\<lparr> cfg_send_window := cfg_recv_window cfg \<rparr> \<and> p_states p' = i # p_states p \<and> p_conns p' = p_conns p \<and> p_fp p' = Some []
    \<and> \<not> p_exited p' \<and> p_sent p' = p_sent p @ [hs_pkt (p_cfg p) (e_conn a0) (ucast TH_SYN), hs_pkt (p_cfg p') c (ucast TH_ACK)]"
  using assms tcp_handshake_eq [OF assms(1,2), of cfg]
  by (simp add: start_client_def Let_def ctcp_init_def)

lemma start_client_syn:
  assumes "start_client False f r now i p = Inr (True, p0)" "p_eps p i = Some a0"
  shows "\<exists>rest. p_sent p0 = p_sent p @ hs_pkt (p_cfg p) (e_conn a0) (ucast TH_SYN) # rest"
proof -
  note syn = send_seg_eq [OF assms(2), of TH_SYN, folded send_syn_def]
  have ack: "\<exists>r. p_sent q' = p_sent q @ r" if "send_ack f i q = Inr (ok, q')" for q q' ok
    using that by (cases f) (auto simp: send_ack_def send_tcp_conn_seg_def bnd_eq_Inr conn_of_eq create_tcp_seg_eq)
  obtain c q where h: "tcp_handshake False f r i p = Inr (c, q)" "p_sent p0 = p_sent q"
  proof -
    obtain y where y: "tcp_handshake False f r i p = Inr y"
      "(case y of (c, q) \<Rightarrow> if p_exited q then Inr (False, q) else ctcp_init now c q) = Inr (True, p0)"
      using assms(1) unfolding start_client_def by (rule bnd_InrE)
    obtain c q where "y = (c, q)" by (cases y)
    then have q: "tcp_handshake False f r i p = Inr (c, q)" "(if p_exited q then Inr (False, q) else ctcp_init now c q) = Inr (True, p0)"
      using y by simp_all
    have "p_sent p0 = p_sent q"
      using q(2) by (cases "p_exited q"; cases c) (auto simp: ctcp_init_def bnd_eq_Inr)
    with q(1) show thesis by (rule that)
  qed
  let ?p = "p\<lparr> p_eps := (p_eps p)(i \<mapsto> a0\<lparr> e_conn := (e_conn a0)\<lparr> c_seqno := c_next_seqno (e_conn a0) \<rparr> \<rparr>),
    p_sent := p_sent p @ [hs_pkt (p_cfg p) (e_conn a0) (ucast TH_SYN)] \<rparr>"
  obtain g where g: "recv_filter ?p r = Inr g" using h(1) by (auto simp: tcp_handshake_def syn bnd_eq_Inr)
  note t = h(1) [unfolded tcp_handshake_def syn bnd_Inr prod.case not_True_eq_False if_False g]
  have "\<exists>rest. p_sent q = p_sent ?p @ rest"
  proof (cases "\<exists>m d. g = Passed m \<and> r = Some d")
    case True
    then show ?thesis using t by (auto simp: bnd_eq_Inr upd_conn_def Let_def split: if_splits dest!: ack)
  next
    case False
    then show ?thesis using t by (cases g; cases r) auto
  qed
  then show ?thesis using h(2) by auto
qed

lemma side_start:
  assumes "p_eps p i = Some ep" "fresh_conn (e_conn ep)" "e_st ep = ctcp_init_state cfg t" "on_net (p_cfg p) (e_conn ep) [] False h"
  shows "side_inv (p_cfg p) (in_bytes (c_in (e_conn ep))) (e_conn ep) i [] False [] h p" "\<not> got_all i p"
proof -
  have "st_read_finish (e_st ep) = 0" "st_all_recv_output (e_st ep) = 0" by (simp_all add: assms(3) ctcp_init_state_def)
  then show "side_inv (p_cfg p) (in_bytes (c_in (e_conn ep))) (e_conn ep) i [] False [] h p" "\<not> got_all i p"
    using assms fresh_sides [OF assms(2,3)] by (simp_all add: side_inv_def got_all_def)
qed

lemma net_inv_start:
  assumes "p_eps p i = Some a" "fresh_conn (e_conn a)" "e_st a = ctcp_init_state cfg t" "on_net (p_cfg p) (e_conn a) [] False h"
    and "p_eps q j = Some b" "fresh_conn (e_conn b)" "e_st b = ctcp_init_state cfg' u" "on_net (p_cfg q) (e_conn b) [] False k"
  shows "net_inv (p_cfg p) (p_cfg q) (in_bytes (c_in (e_conn a))) (in_bytes (c_in (e_conn b))) (conn_at p i) (conn_at q j) i j h k p q"
  using side_start [OF assms(1-4)] side_start [OF assms(5-8)] assms(1,5) unfolding net_inv_def by auto

text \<open>The client calls, the server accepts: what the two processes are then.\<close>

definition connected :: "nat \<Rightarrow> process \<Rightarrow> nat \<Rightarrow> process \<Rightarrow> bytes \<Rightarrow> bytes \<Rightarrow> bool" where
  "connected i p j q inA inB \<longleftrightarrow> (\<exists>a b cfg cfg' t u. p_eps p i = Some a \<and> p_eps q j = Some b \<and> fresh_conn (e_conn a) \<and> fresh_conn (e_conn b)
     \<and> e_st a = ctcp_init_state cfg t \<and> e_st b = ctcp_init_state cfg' u \<and> in_bytes (c_in (e_conn a)) = inA \<and> in_bytes (c_in (e_conn b)) = inB
     \<and> peers (e_conn a) (e_conn b) \<and> peers (e_conn b) (e_conn a)
     \<and> on_net (p_cfg p) (e_conn a) [] False (p_sent p) \<and> on_net (p_cfg q) (e_conn b) [] False [last (p_sent q)])"

lemma session_start:
  assumes a0: "p_eps p i = Some a0" "fresh_conn (e_conn a0)" "c_next_seqno (e_conn a0) = c_init_seqno (e_conn a0)" "p_sent p = []" "\<not> p_exited p"
    and p0: "start_client False False (Some (last (p_sent q0))) now i p = Inr (True, p0)"
    and q0: "loop_socket t q = Inr q0" "t_socket t" "t_recv t = Some (hd (p_sent p0))" "\<not> t_fails t" "p_server q" "p_connected q < 10"
    and port: "htons (of_int (c_port (e_conn a0))) = htons (of_int (my_port (p_cfg q)))"
  shows "connected i p0 (t_addr t) q0 (in_bytes (c_in (e_conn a0))) (in_bytes (t_input t))"
proof -
  let ?syn = "hs_pkt (p_cfg p) (e_conn a0) (ucast TH_SYN)" and ?j = "t_addr t"
  have syn: "hd (p_sent p0) = ?syn" using start_client_syn [OF p0 a0(1)] a0(4) by auto
  have rs: "recv_filter q (Some ?syn) = Inr (Passed None)" by (rule recv_syn) (use port in simp_all)
  obtain q1 b d where n: "tcp_new_connection ?syn (t_rand t) (t_input t) (t_writes t) False (t_now t) ?j q = Inr (Some ?j, q1)"
    "p_eps q1 ?j = Some b" "c_init_seqno (e_conn b) = t_rand t" "c_their_init_seqno (e_conn b) = c_next_seqno (e_conn a0)"
    "fresh_conn (e_conn b)" "e_st b = ctcp_init_state (p_cfg q1) (t_now t)" "c_in (e_conn b) = t_input t"
    and d: "p_sent q1 = p_sent q @ [hs_pkt (p_cfg q) d (ucast (TH_SYN OR TH_ACK))]" "c_next_seqno d = t_rand t"
      "of_int (c_port d) = (of_int (my_port (p_cfg p)) :: u16)"
    using new_connection_eq [OF q0(6) refl, of "p_cfg p" "e_conn a0" "t_rand t" "t_input t" "t_writes t" "t_now t" ?j] by auto
  have q1: "q0 = q1\<lparr> p_new := th_sport (hs_tcp (p_cfg p) (e_conn a0) (ucast TH_SYN)) \<rparr>"
    using q0(1-5) rs n(1) unfolding syn loop_socket_def by (simp add: hs_pkt_load)
  then have last: "last (p_sent q0) = hs_pkt (p_cfg q) d (ucast (TH_SYN OR TH_ACK))" using d(1) by simp
  let ?c = "hs_conn (e_conn a0) (t_rand t)"
  obtain a where a: "p_eps p0 i = Some a" "e_conn a = ?c" "e_st a = ctcp_init_state (p_cfg p0) now"
    "p_sent p0 = [?syn, hs_pkt (p_cfg p0) ?c (ucast TH_ACK)]"
    using start_client_eq [OF a0(1) d(3) a0(5), of "p_cfg q" now] p0 a0(4) d(2) unfolding last by (auto simp: opened_def)
  have f: "fresh_conn ?c" "c_in ?c = c_in (e_conn a0)" using a0(2) by (simp_all add: fresh_conn_def hs_conn_def closed_def)
  have pr: "peers ?c (e_conn b)" "peers (e_conn b) ?c" using n(3,4) a0(3) by (simp_all add: peers_def hs_conn_def)
  have o: "opens ?syn" "opens (last (p_sent q0))" unfolding last by (simp_all add: opens_hs)
  have "hs_pkt (p_cfg p0) ?c (ucast TH_ACK) = pkt_of (p_cfg p0) ?c (hs_seg (p_cfg p0))"
    by (rule hs_pkt_ack) (use a0(3) in \<open>simp_all add: hs_conn_def\<close>)
  then have "on_net (p_cfg p0) ?c [] False (p_sent p0)" "on_net (p_cfg q0) (e_conn b) [] False [last (p_sent q0)]"
    using o carries_hs_seg by (auto simp: on_net_def a(4))
  then show ?thesis using a(1-3) f pr n(2,5-7) q1 unfolding connected_def by auto
qed

lemma do_config_server_eq:
  "p_eps (do_config_server ip port rand inp wr i p) i = Some (opened (p_cfg p) 0
     (conn_setup ip (if port = 0 then 80 else port) rand (conn_calloc inp wr)))"
  "p_sent (do_config_server ip port rand inp wr i p) = p_sent p" "p_exited (do_config_server ip port rand inp wr i p) = p_exited p"
  by (simp_all add: do_config_server_def conn_add_def Let_def)

lemma connected_outputs:
  assumes "connected i p0 j q0 inA inB" "net_run i j p0 (p_sent p0) q0 [last (p_sent q0)] p N q M"
    and "length inA + 2 < 2 ^ 32" "length inB + 2 < 2 ^ 32"
  shows "(\<forall>b. p_eps q j = Some b \<longrightarrow> (\<exists>r. inA = c_out (e_conn b) @ r)) \<and> (\<forall>a. p_eps p i = Some a \<longrightarrow> (\<exists>r. inB = c_out (e_conn a) @ r))"
proof -
  obtain a b cfg cfg' t u where c: "p_eps p0 i = Some a" "fresh_conn (e_conn a)" "e_st a = ctcp_init_state cfg t"
      "on_net (p_cfg p0) (e_conn a) [] False (p_sent p0)" "p_eps q0 j = Some b" "fresh_conn (e_conn b)" "e_st b = ctcp_init_state cfg' u"
      "on_net (p_cfg q0) (e_conn b) [] False [last (p_sent q0)]"
    and i: "in_bytes (c_in (e_conn a)) = inA" "in_bytes (c_in (e_conn b)) = inB"
    and pr: "peers (e_conn a) (e_conn b)" "peers (e_conn b) (e_conn a)"
    using assms(1) unfolding connected_def by blast
  note s = net_inv_start [OF c, unfolded i]
  have n: "net_inv (p_cfg p0) (p_cfg q0) inA inB (conn_at p0 i) (conn_at q0 j) i j N M p q"
    by (rule net_run_inv [OF assms(2) s _ _ _ _ assms(3,4)]) (use c pr in simp_all)
  then show ?thesis using net_inv_outputs [OF n] net_inv_outputs [OF iffD1 [OF net_inv_sym n]] by blast
qed

text \<open>
  C2. Two programs: a client sets up its connection and calls, a server with any number of other connections accepts in its
  event loop; from then on each runs its event loop, phase by phase, however the two interleave. Each phase reads the inputs
  that are ready, drains outputs, takes a packet, fires the timer, or frees connections. The packets of this connection and of its
  handshake may be lost, repeated, delayed and reordered, others may arrive at any time. As long as an end has the
  connection, what it has written is a prefix of what the other end was given to send.
\<close>

theorem programs_output_prefix:
  assumes client: "p = do_config_server ip port rand inA wrA i p1" "p_sent p1 = []" "\<not> p_exited p1"
      "start_client False False (Some (last (p_sent q0))) now i p = Inr (True, p0)"
    and server: "loop_socket t q = Inr q0" "t_socket t" "t_recv t = Some (hd (p_sent p0))" "\<not> t_fails t" "p_server q" "p_connected q < 10"
      "htons (of_int (if port = 0 then 80 else port)) = htons (of_int (my_port (p_cfg q)))"
    and run: "net_run i (t_addr t) p0 (p_sent p0) q0 [last (p_sent q0)] p' N q' M"
    and len: "length (in_bytes inA) + 2 < 2 ^ 32" "length (in_bytes (t_input t)) + 2 < 2 ^ 32"
  shows "(\<forall>b. p_eps q' (t_addr t) = Some b \<longrightarrow> (\<exists>r. in_bytes inA = c_out (e_conn b) @ r))
    \<and> (\<forall>a. p_eps p' i = Some a \<longrightarrow> (\<exists>r. in_bytes (t_input t) = c_out (e_conn a) @ r))"
proof -
  let ?c = "conn_setup ip (if port = 0 then 80 else port) rand (conn_calloc inA wrA)"
  have c: "e_conn (opened (p_cfg p1) 0 ?c) = ?c" by (simp add: opened_def)
  have f: "fresh_conn ?c" "c_next_seqno ?c = c_init_seqno ?c" "c_in ?c = inA" "c_port ?c = (if port = 0 then 80 else port)"
    by (simp_all add: fresh_conn_def conn_setup_def conn_calloc_def closed_def)
  have "connected i p0 (t_addr t) q0 (in_bytes inA) (in_bytes (t_input t))"
    using session_start [OF do_config_server_eq(1) _ _ _ _ client(4) [unfolded client(1)] server(1-6)] server(7) f client(2,3)
    unfolding c by (simp add: do_config_server_eq(2,3))
  from connected_outputs [OF this run len] show ?thesis .
qed

section \<open>The packets of a connection\<close>

text \<open>A packet of a connection finds its session.\<close>

lemma load_pkt_tcp: "load_tcp (pkt_of cfg dst s) 20 = Inr ((pkt_tcp cfg dst s)\<lparr> th_sum :=
    tcp_sum (my_ip cfg) (c_ip_addr dst) (pkt_tcp cfg dst s) (sg_data s) + (seg_sum s - sg_cksum s) \<rparr>)"
  by (simp add: pkt_of_def Let_def load_tcp_def read_bytes_def)

lemma load_pkt: "load_ip (pkt_of cfg dst s) 0 = Inr (ip_of (pkt_ip (my_ip cfg) (c_ip_addr dst) (length (sg_data s))))"
  by (simp add: pkt_of_def Let_def)

lemma recv_filter_pkt:
  assumes "p_conns p = [i]" "p_eps p i = Some ep" "unix_socket (p_cfg p)" "c_port (e_conn ep) = int (unat (of_int (my_port cfg) :: u16))"
    and "of_int (c_port dst) = (of_int (my_port (p_cfg p)) :: u16)" "peers (e_conn ep) dst" "sg_flags s = TH_ACK" "sg_data s = b" "length b \<le> 1440"
    and "c_init_seqno dst \<le> ntohl (sg_seqno s) + c_init_seqno dst" "c_their_init_seqno dst \<le> ntohl (sg_ackno s) + c_their_init_seqno dst"
  shows "recv_filter p (Some (pkt_of cfg dst s)) = Inr (Passed (Some i))"
proof -
  have "in_session (p_cfg p) ip ((pkt_tcp cfg dst s)\<lparr> th_sum := k \<rparr>) (e_conn ep)" for ip k
    using assms(3,4,6,10,11) by (simp add: in_session_def pkt_tcp_def peers_def)
  then show ?thesis using assms(1,2,5,7)
    by (simp add: recv_filter_def load_pkt load_pkt_tcp conn_of_def) (simp add: pkt_tcp_def)
qed

lemma segment_pkt:
  assumes "p_eps p i = Some ep" "wire_ok s" "peers (e_conn ep) dst"
  shows "loop_segment t (pkt_of cfg dst s) i p =
    (if htons (of_int (my_port cfg)) = p_new p \<and> wire_flags cfg (sg_flags s) AND TH_ACK \<noteq> 0 \<and> ntohl (sg_seqno s) = 1 \<and> ntohl (sg_ackno s) = 1
     then Inr (p\<lparr> p_new := 0 \<rparr>) else on_state i (\<lambda>ep. ctcp_receive (turn_ctx t p) ep (wire_seg cfg s) (48 + length (sg_data s))) p)"
proof -
  have w: "sg_flags (wire_seg cfg s) = wire_flags cfg (sg_flags s)" "sg_seqno (wire_seg cfg s) = sg_seqno s" "sg_ackno (wire_seg cfg s) = sg_ackno s"
    by (simp_all add: wire_seg_def no_times_def Let_def)
  have "th_sport ((pkt_tcp cfg dst s)\<lparr> th_sum := k \<rparr>) = htons (of_int (my_port cfg))" for k by (simp add: pkt_tcp_def)
  then show ?thesis using assms(1) wire_roundtrip [OF assms(2,3)]
    by (auto simp add: loop_segment_def load_pkt_tcp w add.commute)
qed

lemma on_state_eq:
  assumes "i \<in> set (p_states p)" "p_eps p i = Some ep" "e_fp ep = p_fp p" "f ep = Inr ep'"
  shows "on_state i f p = Inr (p\<lparr> p_eps := (p_eps p)(i \<mapsto> ep'), p_fp := e_fp ep' \<rparr>)"
proof -
  have "ep\<lparr> e_fp := p_fp p \<rparr> = ep" unfolding assms(3) [symmetric] by simp
  then show ?thesis using assms(1,2,4) by (simp add: on_state_def on_conn_def)
qed

text \<open>
  The acknowledgement of a handshake is known by its numbers only: when it is lost or late, the first data
  of the client, which has the same, is taken for it and dropped, and arrives with the retransmission.
\<close>

lemma first_data_taken_for_ack:
  assumes "p_eps p i = Some ep" "wire_ok s" "peers (e_conn ep) dst" "p_new p = htons (of_int (my_port cfg))"
    and "sg_flags s = TH_ACK" "ntohl (sg_seqno s) = 1" "ntohl (sg_ackno s) = 1"
  shows "loop_segment t (pkt_of cfg dst s) i p = Inr (p\<lparr> p_new := 0 \<rparr>)"
  using assms by (simp add: segment_pkt wire_flags_def)

section \<open>Witnesses\<close>

text \<open>Two processes on one machine; the client's input is two bytes.\<close>

definition ex_host :: sys_config where "ex_host = ex_cfg\<lparr> unix_socket := True \<rparr>"

definition ex_caller :: process where
  "ex_caller = do_config_server 0x0100007f 9999 7 [RData [104, 105]] [] 3 ((ex_process False)\<lparr> p_cfg := ex_host \<rparr>)"

definition ex_server :: process where "ex_server = (ex_process True)\<lparr> p_cfg := ex_host \<rparr>"

definition ex_receive :: "bytes \<Rightarrow> turn" where "ex_receive d = ex_turn\<lparr> t_recv := Some d, t_writes := [WTake 5] \<rparr>"

definition ex_read :: turn where "ex_read = ex_turn\<lparr> t_stdin := True, t_recv := None \<rparr>"

definition ex_call_conn :: conn where
  "ex_call_conn = hs_conn (conn_setup 0x0100007f 9999 7 (conn_calloc [RData [104, 105]] [])) 100"

lemma ex_call_conn: "fresh_conn ex_call_conn" "c_in ex_call_conn = [RData [104, 105]]" "\<not> c_delete_me ex_call_conn" "\<not> c_read_eof ex_call_conn"
  "c_init_seqno ex_call_conn = 7" "c_their_init_seqno ex_call_conn = 100" "c_next_seqno ex_call_conn = 8" "c_ackno ex_call_conn = 101"
  "c_port ex_call_conn = 9999"
  by (simp_all add: ex_call_conn_def hs_conn_def conn_setup_def conn_calloc_def fresh_conn_def closed_def)

lemma ex_opened:
  "\<exists>syn synack p0 q0 c. loop_socket (ex_receive syn) ex_server = Inr q0 \<and> last (p_sent q0) = synack
    \<and> start_client False False (Some synack) 990 3 ex_caller = Inr (True, p0) \<and> p_sent p0 = [syn, hs_pkt (p_cfg p0) ex_call_conn (ucast TH_ACK)]
    \<and> p_eps p0 3 = Some (opened (p_cfg p0) 990 ex_call_conn) \<and> p_states p0 = [3] \<and> p_conns p0 = [3] \<and> p_fp p0 = Some [] \<and> \<not> p_exited p0
    \<and> p_cfg p0 = ex_host \<and> p_cfg q0 = ex_host \<and> p_eps q0 5 = Some (opened ex_host 1000 c) \<and> p_states q0 = [5] \<and> p_conns q0 = [5] \<and> p_fp q0 = Some []
    \<and> \<not> p_exited q0 \<and> p_new q0 = htons 9999 \<and> fresh_conn c \<and> c_wr c = [WTake 5] \<and> \<not> c_delete_me c \<and> peers c ex_call_conn
    \<and> c_port c = 9999"
proof -
  let ?c0 = "conn_setup 0x0100007f 9999 7 (conn_calloc [RData [104, 105]] [])"
  let ?syn = "hs_pkt ex_host ?c0 (ucast TH_SYN)"
  have a0: "p_eps ex_caller 3 = Some (opened ex_host 0 ?c0)" "p_sent ex_caller = []" "\<not> p_exited ex_caller" "p_cfg ex_caller = ex_host"
      "p_states ex_caller = []" "p_conns ex_caller = [3]"
    by (simp_all add: ex_caller_def do_config_server_def ex_process_def conn_add_def Let_def)
  have o: "e_conn (opened ex_host 0 ?c0) = ?c0" by (simp add: opened_def)
  have h: "my_port ex_host = 9999" "cfg_recv_window ex_host = 1440" "ex_host\<lparr> cfg_send_window := 1440 \<rparr> = ex_host"
    by (simp_all add: ex_host_def ex_cfg_def)
  have s: "p_connected ex_server < 10" "p_cfg ex_server = ex_host" "p_server ex_server" "p_sent ex_server = []" "p_states ex_server = []"
      "p_conns ex_server = []" "\<not> p_exited ex_server"
    by (simp_all add: ex_server_def ex_process_def)
  obtain q b d where n: "tcp_new_connection ?syn 100 [] [WTake 5] False 1000 5 ex_server = Inr (Some 5, q)" "p_eps q 5 = Some b"
    "c_init_seqno (e_conn b) = 100" "c_their_init_seqno (e_conn b) = 7" "fresh_conn (e_conn b)" "c_wr (e_conn b) = [WTake 5]"
    "b = opened (p_cfg q) 1000 (e_conn b)" "c_port (e_conn b) = 9999" "p_states q = [5]" "p_fp q = Some []" "p_cfg q = ex_host"
    "p_conns q = [5]" "\<not> p_exited q" "\<not> c_delete_me (e_conn b)"
    and d: "p_sent q = [hs_pkt ex_host d (ucast (TH_SYN OR TH_ACK))]" "c_next_seqno d = 100" "of_int (c_port d) = (of_int 9999 :: u16)"
    using new_connection_eq [OF s(1) refl, of ex_host ?c0 100 "[]" "[WTake 5]" 1000 5] s h
    by (auto simp: conn_setup_def)
  let ?q = "q\<lparr> p_new := htons 9999 \<rparr>"
  have "recv_filter ex_server (Some ?syn) = Inr (Passed None)"
    by (rule recv_syn) (simp_all add: s h conn_setup_def)
  then have q: "loop_socket (ex_receive ?syn) ex_server = Inr ?q"
    using n(1) s(3) by (simp add: loop_socket_def ex_receive_def ex_turn_def) (simp add: hs_pkt_load h)
  have pt: "of_int (c_port d) = (of_int (my_port (p_cfg ex_caller)) :: u16)" unfolding a0(4) h(1) by (rule d(3))
  obtain p0 where p: "start_client False False (Some (hs_pkt ex_host d (ucast (TH_SYN OR TH_ACK)))) 990 3 ex_caller = Inr (True, p0)"
      "p_eps p0 3 = Some (opened (p_cfg p0) 990 ex_call_conn)" "p_cfg p0 = ex_host" "p_states p0 = [3]" "p_conns p0 = [3]" "p_fp p0 = Some []"
      "\<not> p_exited p0" "p_sent p0 = [?syn, hs_pkt (p_cfg p0) ex_call_conn (ucast TH_ACK)]"
    using start_client_eq [OF a0(1) pt a0(3), of ex_host 990] a0 h d(2) unfolding o ex_call_conn_def by auto
  have "peers (e_conn b) ex_call_conn" by (simp add: peers_def n(3,4) ex_call_conn)
  moreover have "p_eps ?q 5 = Some (opened ex_host 1000 (e_conn b))" using n(2,7) unfolding n(11) by simp
  ultimately show ?thesis using q p n d(1)
    by (intro exI [of _ ?syn] exI [of _ "hs_pkt ex_host d (ucast (TH_SYN OR TH_ACK))"] exI [of _ p0] exI [of _ ?q] exI [of _ "e_conn b"]) simp
qed

definition ex_take :: "bytes \<Rightarrow> turn" where "ex_take d = (ex_receive d)\<lparr> t_addr := 6 \<rparr>"

lemma ex_turns: "t_recv (ex_take d) = Some d" "t_socket (ex_take d)" "t_recv ex_read = None" "t_stdin ex_read"
  "may_take cfg c net 5 (ex_take d) = (d \<in> set net \<or> foreign cfg c d)" "may_take cfg c net 3 ex_read"
  using ex_env(2) by (simp_all add: ex_take_def ex_receive_def ex_read_def ex_turn_def may_take_def)

lemma ex_turn_ctx: "x_cfg (turn_ctx t p) = p_cfg p" "x_env (turn_ctx (ex_take d) p) = x_env ex_ctx" "x_env (turn_ctx ex_read p) = x_env ex_ctx"
  "x_now (turn_ctx ex_read p) = 1000"
  by (simp_all add: turn_ctx_def ex_take_def ex_receive_def ex_read_def ex_turn_def)

text \<open>The client reads its two bytes and sends them.\<close>

lemma ex_client_reads:
  assumes "p_eps p 3 = Some (opened ex_host 990 ex_call_conn)" "p_states p = [3]" "p_conns p = [3]" "p_fp p = Some []" "\<not> p_exited p" "p_cfg p = ex_host"
  shows "\<exists>p' a g. phase ex_read p p' \<and> p_eps p' 3 = Some a \<and> c_net (e_conn a) = [pkt_of ex_host ex_call_conn g]
    \<and> carries [104, 105] False g \<and> sg_data g = [104, 105] \<and> ntohl (sg_seqno g) = 1 \<and> sg_flags g = TH_ACK \<and> ntohl (sg_ackno g) = 1"
proof -
  let ?x = "turn_ctx ex_read p"
  have h: "\<not> run_program ex_host" "cfg_send_window ex_host \<noteq> 0" "\<not> eof_char_mode ex_host" by (simp_all add: ex_host_def ex_cfg_def)
  have "[104, 105] \<noteq> ([] :: bytes)" "length ([104, 105] :: bytes) \<le> 1439" "\<forall>i. no_fault (x_env ?x i)" "0 < x_now ?x" "cfg_send_window (x_cfg ?x) \<noteq> 0"
    "eof_char_mode (x_cfg ?x) \<longrightarrow> hd ([104, 105] :: bytes) \<noteq> 0x1a"
    using ex_env(1) h assms(6) by (simp_all add: ex_turn_ctx)
  from fresh_read [OF ex_call_conn(1,2) this(1,2) ex_call_conn(3,4) this(3-6), of 990]
  obtain a g where a: "ctcp_read ?x (opened ex_host 990 ex_call_conn) = Inr a" "c_net (e_conn a) = [pkt_of ex_host ex_call_conn g]"
    and g: "carries [104, 105] False g" "sg_data g = [104, 105]" "ntohl (sg_seqno g) = 1" "sg_flags g = TH_ACK" "ntohl (sg_ackno g) = 1"
    by (auto simp: ex_turn_ctx assms(6))
  have "on_state 3 (ctcp_read ?x) p = Inr (p\<lparr> p_eps := (p_eps p)(3 \<mapsto> a), p_fp := e_fp a \<rparr>)"
    by (rule on_state_eq [where f = "ctcp_read ?x", OF _ assms(1) _ a(1)]) (simp_all add: assms opened_def)
  then have "loop_stdin ex_read p = Inr (p\<lparr> p_eps := (p_eps p)(3 \<mapsto> a), p_fp := e_fp a \<rparr>)"
    using h(1) assms(3,6) by (simp add: loop_stdin_def ex_turns)
  then have "phase ex_read p (p\<lparr> p_eps := (p_eps p)(3 \<mapsto> a), p_fp := e_fp a \<rparr>)" using assms(5) by (simp add: phase_def)
  then show ?thesis using a(2) g by (intro exI [of _ "p\<lparr> p_eps := (p_eps p)(3 \<mapsto> a), p_fp := e_fp a \<rparr>"] exI [of _ a] exI [of _ g]) simp
qed

text \<open>The server takes a packet of the connection.\<close>

lemma ex_server_filter:
  assumes "p_eps q 5 = Some (opened ex_host 1000 c)" "p_conns q = [5]" "p_cfg q = ex_host" "peers c ex_call_conn" "c_port c = 9999"
    and "sg_flags g = TH_ACK" "ntohl (sg_seqno g) = 1" "ntohl (sg_ackno g) = 1" "length (sg_data g) \<le> 1440"
  shows "recv_filter q (Some (pkt_of ex_host ex_call_conn g)) = Inr (Passed (Some 5))"
proof -
  have "e_conn (opened ex_host 1000 c) = c" by (simp add: opened_def)
  then show ?thesis using assms ex_call_conn(5,6,9)
    by (intro recv_filter_pkt [OF assms(2,1)]) (simp_all add: ex_host_def ex_cfg_def)
qed

lemma ex_server_takes:
  assumes "p_eps q 5 = Some (opened ex_host 1000 c)" "p_conns q = [5]" "p_cfg q = ex_host" "peers c ex_call_conn" "c_port c = 9999"
    and "\<not> p_exited q" "p_new q = htons 9999"
  shows "phase (ex_take (pkt_of ex_host ex_call_conn (hs_seg ex_host))) q (q\<lparr> p_new := 0 \<rparr>)"
proof -
  let ?s = "hs_seg ex_host" and ?d = "pkt_of ex_host ex_call_conn (hs_seg ex_host)"
  have s: "sg_flags ?s = TH_ACK" "ntohl (sg_seqno ?s) = 1" "ntohl (sg_ackno ?s) = 1" "sg_data ?s = []" by (simp_all add: hs_seg_def Let_def)
  have f: "recv_filter q (Some ?d) = Inr (Passed (Some 5))" by (rule ex_server_filter [OF assms(1-5) s(1-3)]) (simp add: s)
  have "peers (e_conn (opened ex_host 1000 c)) ex_call_conn" using assms(4) by (simp add: opened_def)
  then have "loop_segment (ex_take ?d) ?d 5 q = Inr (q\<lparr> p_new := 0 \<rparr>)"
    using segment_pkt [OF assms(1) carries_wire_ok [OF carries_hs_seg], of ex_call_conn "ex_take ?d" ex_host ex_host] s assms(7)
    by (simp add: wire_flags_def ex_host_def ex_cfg_def)
  then show ?thesis using f assms(6) by (simp add: phase_def loop_socket_def ex_turns)
qed

lemma ex_server_writes:
  assumes "p_eps q 5 = Some (opened ex_host 1000 c)" "p_conns q = [5]" "p_cfg q = ex_host" "peers c ex_call_conn" "c_port c = 9999"
    and "\<not> p_exited q" "p_new q = 0" "p_states q = [5]" "p_fp q = Some []" "fresh_conn c" "c_wr c = [WTake 5]" "\<not> c_delete_me c"
    and g: "carries [104, 105] False g" "sg_data g = [104, 105]" "ntohl (sg_seqno g) = 1" "sg_flags g = TH_ACK" "ntohl (sg_ackno g) = 1"
  shows "\<exists>q' b. phase (ex_take (pkt_of ex_host ex_call_conn g)) q q' \<and> p_eps q' 5 = Some b \<and> c_out (e_conn b) = [104, 105]"
proof -
  let ?d = "pkt_of ex_host ex_call_conn g"
  let ?x = "turn_ctx (ex_take ?d) q"
  have f: "recv_filter q (Some ?d) = Inr (Passed (Some 5))" by (rule ex_server_filter [OF assms(1-5) g(4,3,5)]) (simp add: g(2))
  have p: "peers (e_conn (opened ex_host 1000 c)) ex_call_conn" using assms(4) by (simp add: opened_def)
  have l: "length ([104, 105] :: bytes) \<le> 5" "[104, 105] \<noteq> ([] :: bytes)" "\<forall>i. no_fault (x_env ?x i)"
    using ex_env(1) by (simp_all add: ex_turn_ctx)
  from fresh_receive [OF assms(10,11) l(1,2) assms(12) l(3) g(1-4) assms(4), of ex_host 1000 ex_host]
  obtain b where b: "ep_packet ?x (opened ex_host 1000 c) ?d = Inr b" "c_out (e_conn b) = [104, 105]" by blast
  have "ep_packet ?x (opened ex_host 1000 c) ?d = ctcp_receive ?x (opened ex_host 1000 c) (wire_seg ex_host g) (48 + length (sg_data g))"
    using wire_roundtrip [OF carries_wire_ok [OF g(1)] p] by (simp add: ep_packet_def add.commute)
  then have r: "ctcp_receive ?x (opened ex_host 1000 c) (wire_seg ex_host g) (48 + length (sg_data g)) = Inr b" using b(1) by simp
  let ?q = "q\<lparr> p_eps := (p_eps q)(5 \<mapsto> b), p_fp := e_fp b \<rparr>"
  have "on_state 5 (\<lambda>ep. ctcp_receive ?x ep (wire_seg ex_host g) (48 + length (sg_data g))) q = Inr ?q"
    by (rule on_state_eq [where f = "\<lambda>ep. ctcp_receive ?x ep (wire_seg ex_host g) (48 + length (sg_data g))", OF _ assms(1) _ r])
      (simp_all add: assms opened_def)
  moreover have "htons (of_int (my_port ex_host)) \<noteq> p_new q"
    using assms(7) by (simp add: ex_host_def ex_cfg_def)
  ultimately have "loop_segment (ex_take ?d) ?d 5 q = Inr ?q"
    using segment_pkt [OF assms(1) carries_wire_ok [OF g(1)] p, of "ex_take ?d" ex_host] by simp
  then have "phase (ex_take ?d) q ?q" using f assms(6) by (simp add: phase_def loop_socket_def ex_turns)
  then show ?thesis using b(2) by (intro exI [of _ ?q] exI [of _ b]) simp
qed

lemma ex_programs_run:
  "\<exists>syn q0 p0 p' N q' M b. loop_socket (ex_receive syn) ex_server = Inr q0 \<and> start_client False False (Some (last (p_sent q0))) 990 3 ex_caller = Inr (True, p0)
    \<and> hd (p_sent p0) = syn \<and> net_run 3 5 p0 (p_sent p0) q0 [last (p_sent q0)] p' N q' M \<and> p_eps q' 5 = Some b \<and> c_out (e_conn b) = [104, 105]"
proof -
  obtain syn synack p0 q0 c where q0: "loop_socket (ex_receive syn) ex_server = Inr q0" "last (p_sent q0) = synack" "p_cfg q0 = ex_host"
      "p_eps q0 5 = Some (opened ex_host 1000 c)" "p_states q0 = [5]" "p_conns q0 = [5]" "p_fp q0 = Some []" "\<not> p_exited q0" "p_new q0 = htons 9999"
    and p0: "start_client False False (Some synack) 990 3 ex_caller = Inr (True, p0)" "p_eps p0 3 = Some (opened (p_cfg p0) 990 ex_call_conn)"
      "p_states p0 = [3]" "p_conns p0 = [3]" "p_fp p0 = Some []" "\<not> p_exited p0" "p_cfg p0 = ex_host"
      "p_sent p0 = [syn, hs_pkt (p_cfg p0) ex_call_conn (ucast TH_ACK)]"
    and c: "fresh_conn c" "c_wr c = [WTake 5]" "\<not> c_delete_me c" "peers c ex_call_conn" "c_port c = 9999"
    using ex_opened by (elim exE conjE) blast
  let ?ack = "pkt_of ex_host ex_call_conn (hs_seg ex_host)" and ?M = "[last (p_sent q0)]"
  have ack: "p_sent p0 = [syn, ?ack]"
    unfolding p0(7,8) by (subst hs_pkt_ack) (simp_all add: ex_call_conn)
  obtain p1 a g where p1: "phase ex_read p0 p1" "p_eps p1 3 = Some a" "c_net (e_conn a) = [pkt_of ex_host ex_call_conn g]"
    and g: "carries [104, 105] False g" "sg_data g = [104, 105]" "ntohl (sg_seqno g) = 1" "sg_flags g = TH_ACK" "ntohl (sg_ackno g) = 1"
    using ex_client_reads [OF p0(2) [unfolded p0(7)] p0(3-7)] by blast
  let ?d = "pkt_of ex_host ex_call_conn g" and ?q1 = "q0\<lparr> p_new := 0 \<rparr>"
  have w: "on_wire (p_sent p0) 3 p1 (p_sent p0) = p_sent p0 @ [?d]" using p1 by (simp add: on_wire_def)
  have q1: "phase (ex_take ?ack) q0 ?q1" by (rule ex_server_takes [OF q0(4,6,3) c(4,5) q0(8,9)])
  obtain q2 b where q2: "phase (ex_take ?d) ?q1 q2" "p_eps q2 5 = Some b" "c_out (e_conn b) = [104, 105]"
    using ex_server_writes [of ?q1 c g] q0 c g by auto
  from net_run.client [OF net_run.start [of 3 5 p0 "p_sent p0" q0 ?M] p1(1) ex_turns(6)]
  have "net_run 3 5 p0 (p_sent p0) q0 ?M p1 (p_sent p0 @ [?d]) q0 ?M" unfolding w .
  from net_run.server [OF this q1]
  obtain M where "net_run 3 5 p0 (p_sent p0) q0 ?M p1 (p_sent p0 @ [?d]) ?q1 M" by (auto simp: ex_turns ack)
  from net_run.server [OF this q2(1)]
  obtain M' where run: "net_run 3 5 p0 (p_sent p0) q0 ?M p1 (p_sent p0 @ [?d]) q2 M'" by (auto simp: ex_turns)
  have "hd (p_sent p0) = syn" by (simp add: p0(8))
  with q0(1) p0(1) [folded q0(2)] run q2(2,3) show ?thesis by blast
qed

theorem programs_output_prefix_witness:
  "\<exists>t q0 p0 p' N q' M b r. loop_socket t ex_server = Inr q0 \<and> start_client False False (Some (last (p_sent q0))) 990 3 ex_caller = Inr (True, p0)
    \<and> net_run 3 (t_addr t) p0 (p_sent p0) q0 [last (p_sent q0)] p' N q' M
    \<and> p_eps q' (t_addr t) = Some b \<and> c_out (e_conn b) = [104, 105] \<and> in_bytes [RData [104, 105]] = c_out (e_conn b) @ r"
proof -
  obtain syn q0 p0 p' N q' M b where r: "loop_socket (ex_receive syn) ex_server = Inr q0"
      "start_client False False (Some (last (p_sent q0))) 990 3 ex_caller = Inr (True, p0)" "hd (p_sent p0) = syn"
      "net_run 3 5 p0 (p_sent p0) q0 [last (p_sent q0)] p' N q' M" "p_eps q' 5 = Some b" "c_out (e_conn b) = [104, 105]"
    using ex_programs_run by blast
  have t: "t_addr (ex_receive syn) = 5" "t_socket (ex_receive syn)" "t_recv (ex_receive syn) = Some (hd (p_sent p0))" "\<not> t_fails (ex_receive syn)"
    "t_input (ex_receive syn) = []" by (simp_all add: ex_receive_def ex_turn_def r(3))
  have s: "p_sent ((ex_process False)\<lparr> p_cfg := ex_host \<rparr>) = []" "\<not> p_exited ((ex_process False)\<lparr> p_cfg := ex_host \<rparr>)" "p_server ex_server"
    "p_connected ex_server < 10" "htons (of_int (if (9999 :: int) = 0 then 80 else 9999)) = htons (of_int (my_port (p_cfg ex_server)))"
    by (simp_all add: ex_server_def ex_process_def ex_host_def ex_cfg_def)
  have l: "length (in_bytes [RData [104, 105]]) + 2 < 2 ^ 32" "length (in_bytes (t_input (ex_receive syn))) + 2 < 2 ^ 32" by (simp_all add: t)
  from programs_output_prefix [OF ex_caller_def s(1,2) r(2,1) t(2-4) s(3-5) r(4) [folded t(1)] l]
  obtain e where "in_bytes [RData [104, 105]] = c_out (e_conn b) @ e" using r(5) by (auto simp: t(1))
  with r t(1) show ?thesis by metis
qed

end
