(* ===== verification/CtcpLog.thy ===== *)
theory CtcpLog
  imports CText Tcp
begin

text \<open>
  The text output of \<^verbatim>\<open>ctcp_sys_internal.h\<close>: the log of segments, a table of twelve columns separated by
  tabs, and the printers of packet headers; and the address lookups, which turn what the system knows of
  interfaces and hosts into an address. Strings are what the buffers hold before their NUL. The lemmas show that the
  log line of a segment fits the buffer of the function, that its columns are what the header line names, and that
  the data can be read back from the last one.
\<close>

section \<open>The log\<close>

definition LOG_SIZE :: nat where [simp]: "LOG_SIZE = 4 * MAX_SEG_DATA_SIZE"
definition LOG_ENTRY_SIZE :: nat where [simp]: "LOG_ENTRY_SIZE = 20"
definition LOCALHOST_STR :: string where "LOCALHOST_STR = ''localhost''"

definition LOG_HEADERS :: string where
  "LOG_HEADERS = ''Timestamp'' @ TAB # ''Source IP'' @ TAB # ''Source Port'' @ TAB # ''Destination IP'' @ TAB # ''Destination Port''
     @ TAB # ''Sequence Number'' @ TAB # ''Acknowledgement Number'' @ TAB # ''Length'' @ TAB # ''Flags'' @ TAB # ''Window''
     @ TAB # ''Checksum'' @ TAB # ''Data'' @ [LF]"

definition addr_format :: "string \<Rightarrow> int \<Rightarrow> string \<Rightarrow> int \<Rightarrow> string" where
  "addr_format a p b q = a @ TAB # dec_int p @ TAB # b @ TAB # dec_int q @ [TAB]"

definition format_addresses :: "u32 \<Rightarrow> int \<Rightarrow> conn \<Rightarrow> bool \<Rightarrow> bool \<Rightarrow> string" where
  "format_addresses ip_addr port c is_sent_segment is_unix_socket =
     snprintf (5 * LOG_ENTRY_SIZE)
       (if \<not> is_unix_socket then
          (let this_ip_addr = inet_ntoa ip_addr; other_ip_addr = inet_ntoa (c_ip_addr c)
           in if is_sent_segment then addr_format this_ip_addr port other_ip_addr (c_port c)
              else addr_format other_ip_addr (c_port c) this_ip_addr port)
        else if is_sent_segment then addr_format LOCALHOST_STR port LOCALHOST_STR (c_port c)
        else addr_format LOCALHOST_STR (c_port c) LOCALHOST_STR port)"

text \<open>The dump of \<open>len\<close> bytes into a buffer with \<open>room\<close> bytes left; a negative \<open>len\<close> dumps nothing.\<close>

definition hex_dump :: "bytes \<Rightarrow> nat \<Rightarrow> int \<Rightarrow> string res" where
  "hex_dump src room len =
     bnd (read_bytes src 0 (nat len)) (\<lambda>b.
       let t = TAB # concat (map (\<lambda>x. hex2 x @ '' '') b) @ [LF]
       in if room < length t + 1 then Inl OutOfBounds else Inr t)"

definition log_flags :: "u32 \<Rightarrow> string" where
  "log_flags f = (if f AND TH_SYN \<noteq> 0 then snprintf 5 ''SYN '' else [])
     @ (if f AND TH_ACK \<noteq> 0 then snprintf 5 ''ACK '' else []) @ (if f AND TH_FIN \<noteq> 0 then snprintf 5 ''FIN '' else [])"

datatype log_output = ToFile string | ToStderr string

definition log_segment :: "bool \<Rightarrow> int \<Rightarrow> u32 \<Rightarrow> int \<Rightarrow> conn \<Rightarrow> ctcp_segment \<Rightarrow> bool \<Rightarrow> bool \<Rightarrow> log_output res" where
  "log_segment test_debug_on now ip_addr port c segment is_sent_segment is_unix_socket =
     (let buf = snprintf LOG_ENTRY_SIZE (dec (unat (of_int now :: u64)) @ [TAB]);
          buf = buf @ format_addresses ip_addr port c is_sent_segment is_unix_socket;
          buf = buf @ snprintf (5 * LOG_ENTRY_SIZE) (dec_int (sint (ntohl (sg_seqno segment))) @ TAB #
                  dec_int (sint (ntohl (sg_ackno segment))) @ TAB # dec (unat (ntohs (sg_len segment))) @ [TAB]);
          buf = buf @ log_flags (sg_flags segment);
          buf = buf @ snprintf LOG_ENTRY_SIZE (TAB # dec (unat (ntohs (sg_window segment))) @ TAB # ''0x'' @ hexa (unat (sg_cksum segment)))
      in if \<not> test_debug_on then
           bnd (hex_dump (sg_data segment) (LOG_SIZE - length buf)
                  (int (unat (ntohs (sg_len segment))) - int sizeof_segment)) (\<lambda>d. Inr (ToFile (buf @ d)))
         else Inr (ToStderr (''!!!'' @ buf @ ''!!!'' @ [LF])))"

definition write_log_header :: log_output where
  "write_log_header = ToFile LOG_HEADERS"

section \<open>The printers\<close>

definition print_addr_ip :: "u32 \<Rightarrow> string" where
  "print_addr_ip address = inet_ntoa address @ [LF]"

definition sys_print_addr_ip_int :: "u32 \<Rightarrow> string" where
  "sys_print_addr_ip_int ip =
     dec (unat (drop_bit 24 ip)) @ ''.'' @ dec (unat (drop_bit 24 (push_bit 8 ip))) @ ''.''
     @ dec (unat (drop_bit 24 (push_bit 16 ip))) @ ''.'' @ dec (unat (drop_bit 24 (push_bit 24 ip))) @ [LF]"

abbreviation "hdr_rule \<equiv> ''+-----------------------------+'' @ [LF]"

definition sys_print_hdr_ip :: "bytes \<Rightarrow> string res" where
  "sys_print_hdr_ip buf = bnd (load_ip buf 0) (\<lambda>ip_hdr. Inr
     (hdr_rule @ ''IP HEADER'' @ [LF]
      @ ''  version: '' @ dec (unat (ip_v ip_hdr)) @ [LF] @ ''  header length: '' @ dec (unat (ip_hl ip_hdr)) @ [LF]
      @ ''  type of service: '' @ dec (unat (ip_tos ip_hdr)) @ [LF] @ ''  length: '' @ dec (unat (ntohs (ip_len ip_hdr))) @ [LF]
      @ ''  id: '' @ dec (unat (ntohs (ip_id ip_hdr))) @ [LF]
      @ (if ntohs (ip_off ip_hdr) AND IP_DF \<noteq> 0 then ''  fragment flag: DF'' @ [LF]
         else if ntohs (ip_off ip_hdr) AND IP_MF \<noteq> 0 then ''  fragment flag: MF'' @ [LF]
         else if ntohs (ip_off ip_hdr) AND IP_RF \<noteq> 0 then ''  fragment flag: R'' @ [LF] else [])
      @ ''  fragment offset: '' @ dec (unat (ntohs (ip_off ip_hdr) AND IP_OFFMASK)) @ [LF]
      @ ''  TTL: '' @ dec (unat (ip_ttl ip_hdr)) @ [LF] @ ''  protocol: '' @ dec (unat (ip_p ip_hdr)) @ [LF]
      @ ''  checksum: '' @ hexa (unat (ip_sum ip_hdr)) @ [LF]
      @ ''  source: '' @ sys_print_addr_ip_int (ntohl (ip_src ip_hdr))
      @ ''  destination: '' @ sys_print_addr_ip_int (ntohl (ip_dst ip_hdr))))"

definition print_hdr_tcp :: "bytes \<Rightarrow> nat \<Rightarrow> string res" where
  "print_hdr_tcp buf off = bnd (load_tcp buf off) (\<lambda>tcp_hdr. Inr
     (hdr_rule @ ''TCP HEADER'' @ [LF]
      @ ''  source port: '' @ dec (unat (ntohs (th_sport tcp_hdr))) @ [LF]
      @ ''  destination port: '' @ dec (unat (ntohs (th_dport tcp_hdr))) @ [LF]
      @ ''  seq number: '' @ dec_int (sint (ntohl (th_seq tcp_hdr))) @ [LF]
      @ ''  ack number: '' @ dec_int (sint (ntohl (th_ack tcp_hdr))) @ [LF] @ ''  flags: ''
      @ log_flags (ucast (th_flags tcp_hdr))
      @ (if ucast (th_flags tcp_hdr) AND TH_RST \<noteq> 0 then ''RST '' else []) @ [LF]
      @ ''  window size: '' @ dec (unat (ntohs (th_win tcp_hdr))) @ [LF]
      @ ''  checksum: '' @ hexa (unat (th_sum tcp_hdr)) @ [LF]))"

definition sys_print_hdrs :: "bytes \<Rightarrow> nat \<Rightarrow> string res" where
  "sys_print_hdrs buf n =
     (if n < IP_HDR_SIZE then Inr (''[ERROR] Failed to print IP header, insufficient length'' @ [LF])
      else bnd (sys_print_hdr_ip buf) (\<lambda>s. bnd (load_ip buf 0) (\<lambda>ip_hdr.
        if ip_p ip_hdr \<noteq> IPPROTO_TCP then Inr s
        else if n < IP_HDR_SIZE + IP_HDR_SIZE
        then Inr (s @ ''[ERROR] Failed to print TCP header, insufficient length'' @ [LF])
        else bnd (print_hdr_tcp buf IP_HDR_SIZE) (\<lambda>t. Inr (s @ t)))))"

section \<open>Addresses\<close>

definition ETH_INTERFACE :: string where "ETH_INTERFACE = ''eth''"
definition INADDR_NONE :: u32 where "INADDR_NONE = 0xFFFFFFFF"
definition LOCALHOST :: u32 where [simp]: "LOCALHOST = 16777343"

text \<open>
  An interface is its name and, when it has one of the family \<^verbatim>\<open>AF_INET\<close>, its address. The names are copied without
  their last character into a buffer that is cleared only once.
\<close>

fun ip_from_self_loop :: "(string \<times> u32 option) list \<Rightarrow> string \<Rightarrow> u32 \<Rightarrow> u32 res" where
  "ip_from_self_loop [] check_iface ip_addr = Inr ip_addr"
| "ip_from_self_loop ((name, a) # ifs) check_iface ip_addr =
     (case a of None \<Rightarrow> ip_from_self_loop ifs check_iface ip_addr
      | Some sin_addr \<Rightarrow>
          if name = [] \<or> length check_iface < length name - 1 then Inl OutOfBounds
          else let check_iface = butlast name @ drop (length name - 1) check_iface
               in if takeWhile (\<lambda>c. c \<noteq> CHR 0x00) check_iface \<noteq> ETH_INTERFACE
                  then ip_from_self_loop ifs check_iface ip_addr
                  else ip_from_self_loop ifs check_iface sin_addr)"

definition ip_from_self :: "(string \<times> u32 option) list \<Rightarrow> u32 res" where
  "ip_from_self ifs = ip_from_self_loop ifs (replicate 100 (CHR 0x00)) 0"

definition inet_addr :: "string \<Rightarrow> u32" where
  "inet_addr s = (case inet_aton s of None \<Rightarrow> INADDR_NONE | Some a \<Rightarrow> a)"

text \<open>\<open>entry\<close> is the address list of \<^verbatim>\<open>gethostbyname\<close>, \<open>ip\<close> what the uninitialised buffer holds.\<close>

definition ip_from_hostname :: "string \<Rightarrow> u32 list option \<Rightarrow> u32" where
  "ip_from_hostname ip entry = (case entry of None \<Rightarrow> 0
     | Some addr_list \<Rightarrow> inet_addr (foldl (\<lambda>_ a. inet_ntoa a) ip addr_list))"

section \<open>Lemmas: the columns of a line\<close>

text \<open>A line at its tabs, and the bytes of a dump.\<close>

fun columns :: "string \<Rightarrow> string list" where
  "columns [] = [[]]"
| "columns (c # s) = (case columns s of [] \<Rightarrow> [[c]] | w # ws \<Rightarrow> if c = TAB then [] # w # ws else (c # w) # ws)"

fun undump :: "string \<Rightarrow> bytes" where
  "undump (a # b # c # s) = unhex2 a b # undump s"
| "undump s = []"

lemma columns_nonempty [simp]: "columns s \<noteq> []"
  by (cases s) (auto split: list.split)

lemma columns_word [simp]: "TAB \<notin> set w \<Longrightarrow> columns (w @ TAB # s) = w # columns s"
  by (induction w) (auto split: list.split)

lemma columns_last [simp]: "TAB \<notin> set w \<Longrightarrow> columns w = [w]"
  by (induction w) auto

lemma columns_words:
  "\<forall>w\<in>set ws. TAB \<notin> set w \<Longrightarrow> columns (concat (map (\<lambda>w. w @ [TAB]) ws) @ d) = ws @ columns d"
  by (induction ws) auto

lemma undump_dump: "undump (concat (map (\<lambda>x. hex2 x @ '' '') b) @ [LF]) = b"
proof (induction b)
  case (Cons x b)
  obtain p q where h: "hex2 x = [p, q]" by (simp add: hex2_def)
  with Cons unhex2_hex2 [OF h] show ?case by simp
qed simp

lemma hex_digit_plain: "n < 16 \<Longrightarrow> hex_digit n \<noteq> TAB \<and> hex_digit n \<noteq> LF"
  by (auto simp: hex_digit_def dest: arg_cong [of "char_of _" _ "of_char :: char \<Rightarrow> nat"])

lemma hex2_plain: "TAB \<notin> set (hex2 b)"
proof -
  have "unat b < 2 ^ LENGTH(8)" by (rule unsigned_less)
  then have "unat b div 16 < 16" "unat b mod 16 < 16" by (simp_all add: less_mult_imp_div_less)
  from this [THEN hex_digit_plain] show ?thesis by (auto simp: hex2_def)
qed

lemma hexa_plain: "TAB \<notin> set (hexa n)"
proof (induction n rule: hexa.induct)
  case (1 n)
  show ?case
  proof (cases "n < 16")
    case True
    then show ?thesis using hex_digit_plain [of n] by (auto simp: hexa.simps [of n])
  next
    case False
    have "n mod 16 < 16" by simp
    from hex_digit_plain [OF this] 1 False show ?thesis by (auto simp: hexa.simps [of n])
  qed
qed

lemma length_hexa: "n < 16 ^ Suc k \<Longrightarrow> length (hexa n) \<le> Suc k"
proof (induction k arbitrary: n)
  case (Suc k)
  have "n div 16 < 16 ^ Suc k" using Suc.prems by (simp add: less_mult_imp_div_less)
  from Suc.IH [OF this] show ?case by (simp add: hexa.simps [of n])
qed (simp add: hexa.simps)

lemma dec_plain: "TAB \<notin> set (dec n)"
  using dec_digits [of n] isdigit_plain by auto

lemma dec_int_no_tab: "TAB \<notin> set (dec_int i)"
  using dec_int_plain by blast

lemma length_dump: "length (concat (map (\<lambda>x. hex2 x @ '' '') b)) = 3 * length b"
  by (induction b) (simp_all add: hex2_def)

lemma dump_plain: "TAB \<notin> set (concat (map (\<lambda>x. hex2 x @ '' '') b) @ [LF])"
  using hex2_plain by auto

section \<open>The line of a segment\<close>

lemma address_plain: "TAB \<notin> set (inet_ntoa a)" "length (inet_ntoa a) \<le> 15"
  "TAB \<notin> set LOCALHOST_STR" "length LOCALHOST_STR \<le> 15"
  using inet_ntoa_word(2) [of TAB a] inet_ntoa_word(3) [of a] by (auto simp: isspace_def LOCALHOST_STR_def)

definition log_addr :: "bool \<Rightarrow> u32 \<Rightarrow> string" where
  "log_addr is_unix a = (if is_unix then LOCALHOST_STR else inet_ntoa a)"

lemma log_addr_plain [simp]: "TAB \<notin> set (log_addr u a)" "length (log_addr u a) \<le> 15"
  using address_plain by (simp_all add: log_addr_def)

abbreviation int_range :: "int \<Rightarrow> bool" where "int_range i \<equiv> - (2 ^ 31) \<le> i \<and> i < 2 ^ 31"

lemma addr_format_fits:
  assumes "length a \<le> 15" "length b \<le> 15" "int_range p" "int_range q"
  shows "length (addr_format a p b q) < 100"
proof -
  have "length (dec_int p) \<le> 11" "length (dec_int q) \<le> 11" using assms by (intro length_dec_int; simp)+
  with assms show ?thesis by (simp add: addr_format_def)
qed

lemma format_addresses_eq:
  assumes "int_range port" "int_range (c_port c)"
  shows "format_addresses ip port c sent u =
    (if sent then addr_format (log_addr u ip) port (log_addr u (c_ip_addr c)) (c_port c)
     else addr_format (log_addr u (c_ip_addr c)) (c_port c) (log_addr u ip) port)"
proof -
  have "length (addr_format (log_addr u ip) port (log_addr u (c_ip_addr c)) (c_port c)) < 100"
    "length (addr_format (log_addr u (c_ip_addr c)) (c_port c) (log_addr u ip) port) < 100"
    by (rule addr_format_fits; use assms in simp)+
  then show ?thesis by (simp add: format_addresses_def Let_def log_addr_def split: if_splits)
qed

lemma sint_range: "int_range (sint (w :: u32))"
  using sint_ge [of w] sint_lt [of w] by simp

lemma length_dec_sint: "length (dec_int (sint (w :: u32))) \<le> 11"
  using sint_range [of w] by (intro length_dec_int) simp_all

lemma unat_u16_dec: "length (dec (unat (w :: u16))) \<le> 5" "length (hexa (unat w)) \<le> 4"
proof -
  have "unat w < 2 ^ LENGTH(16)" by (rule unsigned_less)
  then show "length (dec (unat w)) \<le> 5" "length (hexa (unat w)) \<le> 4"
    using length_dec [of "unat w" 4] length_hexa [of "unat w" 3] by simp_all
qed

lemma log_flags_plain: "TAB \<notin> set (log_flags f)" "length (log_flags f) \<le> 12"
  by (simp_all add: log_flags_def snprintf_def)

text \<open>The five parts of the line, none of them cut.\<close>

lemma log_parts_fit:
  assumes "0 \<le> now" "now < 10 ^ 18"
  shows "snprintf 20 (dec (unat (of_int now :: u64)) @ [TAB]) = dec (nat now) @ [TAB]" (is ?A)
    and "length (dec (nat now)) \<le> 18" (is ?B)
    and "snprintf 100 (dec_int (sint (x :: u32)) @ TAB # dec_int (sint (y :: u32)) @ TAB # dec (unat (n :: u16)) @ [TAB])
      = dec_int (sint x) @ TAB # dec_int (sint y) @ TAB # dec (unat n) @ [TAB]" (is ?C)
    and "snprintf 20 (TAB # dec (unat (w :: u16)) @ TAB # ''0x'' @ hexa (unat (k :: u16)))
      = TAB # dec (unat w) @ TAB # ''0x'' @ hexa (unat k)" (is ?D)
proof -
  have u: "unat (of_int now :: u64) = nat now"
    using assms by (simp add: unat_eq_nat_uint uint_word_of_int take_bit_int_eq_self)
  show B: ?B using length_dec [of "nat now" 17] assms by simp
  with u show ?A by (intro snprintf_fits [THEN trans]) simp_all
  from length_dec_sint [of x] length_dec_sint [of y] unat_u16_dec [of n] show ?C by (intro snprintf_fits) simp
  from unat_u16_dec [of w] unat_u16_dec [of k] show ?D by (intro snprintf_fits) simp
qed

text \<open>The numbers of the line before the data, and the line itself.\<close>

definition log_words :: "int \<Rightarrow> u32 \<Rightarrow> int \<Rightarrow> conn \<Rightarrow> ctcp_segment \<Rightarrow> bool \<Rightarrow> bool \<Rightarrow> string list" where
  "log_words now ip port c s sent unix = [dec (nat now)]
     @ (if sent then [log_addr unix ip, dec_int port, log_addr unix (c_ip_addr c), dec_int (c_port c)]
        else [log_addr unix (c_ip_addr c), dec_int (c_port c), log_addr unix ip, dec_int port])
     @ [dec_int (sint (ntohl (sg_seqno s))), dec_int (sint (ntohl (sg_ackno s))), dec (48 + length (sg_data s)),
        log_flags (sg_flags s), dec (unat (ntohs (sg_window s))), ''0x'' @ hexa (unat (sg_cksum s))]"

definition log_data :: "ctcp_segment \<Rightarrow> string" where
  "log_data s = concat (map (\<lambda>x. hex2 x @ '' '') (sg_data s)) @ [LF]"

definition log_line :: "int \<Rightarrow> u32 \<Rightarrow> int \<Rightarrow> conn \<Rightarrow> ctcp_segment \<Rightarrow> bool \<Rightarrow> bool \<Rightarrow> string" where
  "log_line now ip port c s sent unix = concat (map (\<lambda>w. w @ [TAB]) (log_words now ip port c s sent unix)) @ log_data s"

lemma log_line_columns:
  "columns (log_line now ip port c s sent unix) = log_words now ip port c s sent unix @ [log_data s]"
proof -
  have "\<forall>w\<in>set (log_words now ip port c s sent unix). TAB \<notin> set w"
    using hexa_plain [of "unat (sg_cksum s)"] by (simp add: log_words_def dec_plain dec_int_no_tab log_flags_plain(1))
  moreover have "TAB \<notin> set (log_data s)" using dump_plain [of "sg_data s"] by (simp add: log_data_def)
  ultimately show ?thesis by (simp only: log_line_def columns_words columns_last not_False_eq_True)
qed

lemma log_segment_text:
  assumes "length (sg_data s) \<le> 1440" "sg_len s = htons (of_nat (48 + length (sg_data s)))"
    and "0 \<le> now" "now < 10 ^ 18" "int_range port" "int_range (c_port c)"
  shows "log_segment False now ip port c s sent unix = Inr (ToFile (log_line now ip port c s sent unix))"
    "length (log_line now ip port c s sent unix) < LOG_SIZE"
proof -
  let ?line = "log_line now ip port c s sent unix"
  have len: "unat (ntohs (sg_len s)) = 48 + length (sg_data s)"
    using assms(1,2) unat_u16 [of "48 + length (sg_data s)"] by simp
  have d: "length (log_data s) = 3 * length (sg_data s) + 1"
    using length_dump [of "sg_data s"] by (simp add: log_data_def)
  define adr where "adr = format_addresses ip port c sent unix"
  define buf where "buf = dec (nat now) @ TAB # adr @ dec_int (sint (ntohl (sg_seqno s))) @ TAB # dec_int (sint (ntohl (sg_ackno s)))
    @ TAB # dec (48 + length (sg_data s)) @ TAB # log_flags (sg_flags s) @ TAB # dec (unat (ntohs (sg_window s)))
    @ TAB # ''0x'' @ hexa (unat (sg_cksum s))"
  have "length adr \<le> 99" using length_snprintf [of 100] by (simp add: adr_def format_addresses_def)
  then have b: "length buf \<le> 200"
    using length_dec_sint [of "ntohl (sg_seqno s)"] length_dec_sint [of "ntohl (sg_ackno s)"] log_parts_fit(2) [OF assms(3,4)]
      unat_u16_dec [of "ntohs (sg_window s)"] unat_u16_dec [of "sg_cksum s"]
      unat_u16_dec [of "ntohs (sg_len s)"] log_flags_plain [of "sg_flags s"] by (simp add: buf_def len)
  have l: "?line = buf @ TAB # log_data s"
    using format_addresses_eq [OF assms(5,6), of ip sent unix]
    by (cases sent) (simp_all add: log_line_def buf_def log_words_def adr_def addr_format_def)
  show "log_segment False now ip port c s sent unix = Inr (ToFile ?line)"
    using b d assms(1) log_parts_fit(1,2,4) [OF assms(3,4)]
      log_parts_fit(3) [OF assms(3,4), of "ntohl (sg_seqno s)" "ntohl (sg_ackno s)" "ntohs (sg_len s)", unfolded len]
    by (simp add: l log_segment_def Let_def len hex_dump_def adr_def [symmetric] buf_def log_data_def)
  show "length ?line < LOG_SIZE" using b d assms(1) by (simp add: l)
qed

text \<open>
  C34. The log line of a segment with at most the 1440 bytes of data a segment carries fits the buffer of
  the function, although no call is bounded by the room that is left in it; none of its parts is cut, so it has the twelve
  columns of the header line, with the numbers of the segment in them, and the last one is a dump of the
  data that can be read back.
\<close>

theorem log_segment_line:
  assumes "length (sg_data s) \<le> 1440" "sg_len s = htons (of_nat (48 + length (sg_data s)))"
    and "0 \<le> now" "now < 10 ^ 18" "int_range port" "int_range (c_port c)"
  shows "\<exists>line d. log_segment False now ip port c s sent unix = Inr (ToFile line) \<and> length line < LOG_SIZE
    \<and> columns line = [dec (nat now)]
        @ (if sent then [log_addr unix ip, dec_int port, log_addr unix (c_ip_addr c), dec_int (c_port c)]
           else [log_addr unix (c_ip_addr c), dec_int (c_port c), log_addr unix ip, dec_int port])
        @ [dec_int (sint (ntohl (sg_seqno s))), dec_int (sint (ntohl (sg_ackno s))), dec (48 + length (sg_data s)),
           log_flags (sg_flags s), dec (unat (ntohs (sg_window s))), ''0x'' @ hexa (unat (sg_cksum s)), d]
    \<and> undump d = sg_data s \<and> length (columns line) = length (columns LOG_HEADERS)"
proof -
  have "length (columns LOG_HEADERS) = 12" by (simp add: LOG_HEADERS_def)
  with log_segment_text [OF assms, of ip sent unix] undump_dump [of "sg_data s"] show ?thesis
    by (intro exI [of _ "log_line now ip port c s sent unix"] exI [of _ "log_data s"])
      (simp add: log_line_columns, simp add: log_words_def log_data_def)
qed

definition log_conn :: conn where
  "log_conn = \<lparr> c_ip_addr = LOCALHOST, c_port = 8080, c_init_seqno = 0, c_their_init_seqno = 0, c_seqno = 0,
     c_next_seqno = 0, c_ackno = 0, c_read_eof = False, c_wrote_eof = False, c_wrote_err = False, c_delete_me = False,
     c_out_queue = [], c_pollout = False, c_in = [], c_wr = [], c_out = [], c_net = [] \<rparr>"

definition log_seg :: ctcp_segment where
  "log_seg = (seg_calloc 2)\<lparr> sg_len := htons 50, sg_flags := TH_ACK \<rparr>"

theorem log_segment_line_witness:
  "\<exists>line d. log_segment False 1700000000000 0 80 log_conn log_seg True False = Inr (ToFile line)
    \<and> length line < LOG_SIZE \<and> undump d = [0, 0] \<and> last (columns line) = d \<and> length (columns line) = 12"
proof -
  have s: "length (sg_data log_seg) \<le> 1440" "sg_len log_seg = htons (of_nat (48 + length (sg_data log_seg)))"
    "sg_data log_seg = [0, 0]"
    by (simp_all add: log_seg_def seg_calloc_def calloc_def numeral_eq_Suc)
  have c: "int_range (c_port log_conn)" by (simp add: log_conn_def)
  have t: "0 \<le> (1700000000000 :: int)" "(1700000000000 :: int) < 10 ^ 18" "int_range 80" by simp_all
  from log_segment_line [OF s(1,2) t c, of 0 True False] s(3)
  obtain line d ws where l: "log_segment False 1700000000000 0 80 log_conn log_seg True False = Inr (ToFile line)"
    "length line < LOG_SIZE" "columns line = ws @ [d]" "undump d = [0, 0]" "length (columns line) = length (columns LOG_HEADERS)"
    unfolding if_True append_Cons append_Nil by (metis append_Cons append_Nil)
  have "length (columns LOG_HEADERS) = 12" by (simp add: LOG_HEADERS_def)
  with l show ?thesis by (intro exI [of _ line] exI [of _ d]) simp
qed

text \<open>Any host name with addresses resolves to the last of them.\<close>

lemma ip_from_hostname_last: "addrs \<noteq> [] \<Longrightarrow> ip_from_hostname s (Some addrs) = last addrs"
proof -
  have "foldl (\<lambda>_ a. inet_ntoa a) s (as @ [a]) = inet_ntoa a" for as a by simp
  then show "addrs \<noteq> [] \<Longrightarrow> ip_from_hostname s (Some addrs) = last addrs"
    by (cases addrs rule: rev_cases) (simp_all add: ip_from_hostname_def inet_addr_def)
qed

text \<open>An interface whose name is longer, before the Ethernet interface, hides it.\<close>

lemma ip_from_self_hidden:
  "ip_from_self [(''lo'', Some a), (''eth0'', Some b)] = Inr b"
  "ip_from_self [(''wlan0'', Some a), (''eth0'', Some b)] = Inr 0"
  by (simp_all add: ip_from_self_def ETH_INTERFACE_def numeral_eq_Suc)

text \<open>The two ways of printing an address agree.\<close>

lemma dec_octet_dec: "n < 256 \<Longrightarrow> dec n = dec_octet n"
proof -
  assume "n < 256"
  have 1: "k < 10 \<Longrightarrow> dec k = [dec_digit k]" for k by (simp add: dec.simps)
  have 2: "10 \<le> k \<Longrightarrow> dec k = dec (k div 10) @ [dec_digit (k mod 10)]" for k by (subst dec.simps) simp
  consider "n < 10" | "10 \<le> n \<and> n < 100" | "100 \<le> n" by linarith
  then show ?thesis using \<open>n < 256\<close>
    by cases (simp_all add: 1 2 dec_octet_def less_mult_imp_div_less div_mult2_eq [symmetric])
qed

lemma shifted_octet: "k \<le> 3 \<Longrightarrow> unat (drop_bit 24 (push_bit (24 - 8 * k) w)) = octet k (ntohl w)"
proof -
  assume k: "k \<le> 3"
  have "unat (drop_bit 24 (push_bit (24 - 8 * k) w)) = unat (take_bit 8 (drop_bit (8 * k) w))"
  proof (rule arg_cong [of _ _ unat], rule bit_word_eqI)
    fix n assume "n < LENGTH(32)"
    then show "bit (drop_bit 24 (push_bit (24 - 8 * k) w)) n = bit (take_bit 8 (drop_bit (8 * k) w)) n"
      using k by (auto simp: bit_simps add.commute dest: bit_imp_le_length)
  qed
  moreover have "unat w < 2 ^ LENGTH(32)" by (rule unsigned_less)
  ultimately have "unat (drop_bit 24 (push_bit (24 - 8 * k) w)) = unat w div 256 ^ k mod 256"
    by (simp add: unsigned_take_bit_eq unsigned_drop_bit_eq)
      (simp add: take_bit_eq_mod drop_bit_eq_div power_mult)
  then show ?thesis by (simp add: octet_def)
qed

lemma sys_print_addr_ip_int_ntoa: "sys_print_addr_ip_int (ntohl a) = print_addr_ip a"
  using shifted_octet [of 3 "ntohl a"] shifted_octet [of 2 "ntohl a"] shifted_octet [of 1 "ntohl a"] shifted_octet [of 0 "ntohl a"]
  by (simp add: sys_print_addr_ip_int_def print_addr_ip_def inet_ntoa_def dec_octet_dec)

end
