(* ===== verification/Startup.thy ===== *)
theory Startup
  imports SessionSpec CtcpLog
begin

text \<open>
  How a cTCP process begins, \<^verbatim>\<open>main\<close> of \<^verbatim>\<open>ctcp_sys_internal.c\<close> and what it calls before the event loop: options,
  the server's address, the socket, the resets that answer packets of earlier connections, the table of
  descriptors to poll and the slot each program gets in it. The options are the results of
  \<^verbatim>\<open>getopt_long\<close>, a letter and its argument; what the system answers (interfaces, host names, whether the socket can be opened
  and bound, the packets that are waiting) is the record \<open>host_env\<close>. The lemmas show that every packet that waits is answered
  with a reset its sender accepts, that the poll table is never written out of bounds, and that
  whatever the event loop reaches from \<^verbatim>\<open>main\<close> satisfies the invariant of sessions.
\<close>

section \<open>Options\<close>

record options =
  o_debug :: bool
  o_is_server :: bool
  o_is_client :: bool
  o_server :: "string option"
  o_port_str :: "string option"
  o_port :: int
  o_window :: int
  o_seed :: int
  o_drop :: int
  o_corrupt :: int
  o_delay :: int
  o_duplicate :: int
  o_logging :: bool
  o_test_debug :: bool
  o_lab5 :: bool

definition default_options :: "int \<Rightarrow> options" where
  "default_options time = \<lparr> o_debug = False, o_is_server = False, o_is_client = False, o_server = None, o_port_str = None,
     o_port = -1, o_window = 1, o_seed = time, o_drop = 0, o_corrupt = 0, o_delay = 0, o_duplicate = 0, o_logging = False,
     o_test_debug = False, o_lab5 = False \<rparr>"

text \<open>\<open>None\<close> is the exit of \<^verbatim>\<open>usage\<close>.\<close>

definition set_option :: "char \<Rightarrow> string \<Rightarrow> options \<Rightarrow> options option" where
  "set_option opt optarg os =
     (if opt = CHR ''d'' then Some (os\<lparr> o_debug := True \<rparr>)
      else if opt = CHR ''s'' then Some (os\<lparr> o_is_server := True \<rparr>)
      else if opt = CHR ''c'' then Some (os\<lparr> o_is_client := True, o_server := Some optarg \<rparr>)
      else if opt = CHR ''p'' then Some (os\<lparr> o_port := atoi optarg, o_port_str := Some optarg \<rparr>)
      else if opt = CHR ''w'' then Some (os\<lparr> o_window := atoi optarg \<rparr>)
      else if opt = CHR ''e'' then Some (os\<lparr> o_seed := atoi optarg \<rparr>)
      else if opt = CHR ''r'' then Some (os\<lparr> o_drop := atoi optarg \<rparr>)
      else if opt = CHR ''t'' then Some (os\<lparr> o_corrupt := atoi optarg \<rparr>)
      else if opt = CHR ''y'' then Some (os\<lparr> o_delay := atoi optarg \<rparr>)
      else if opt = CHR ''q'' then Some (os\<lparr> o_duplicate := atoi optarg \<rparr>)
      else if opt = CHR ''l'' then Some (os\<lparr> o_logging := True \<rparr>)
      else if opt = CHR ''z'' then Some (os\<lparr> o_test_debug := True \<rparr>)
      else if opt = CHR ''f'' then Some (os\<lparr> o_lab5 := True \<rparr>)
      else None)"

fun get_options :: "(char \<times> string) list \<Rightarrow> options \<Rightarrow> options option" where
  "get_options [] os = Some os"
| "get_options ((opt, optarg) # rest) os =
     (case set_option opt optarg os of None \<Rightarrow> None | Some os \<Rightarrow> get_options rest os)"

definition bad_options :: "options \<Rightarrow> bool" where
  "bad_options os \<longleftrightarrow> (o_is_client os \<and> o_is_server os) \<or> (\<not> o_is_client os \<and> \<not> o_is_server os) \<or> o_port os \<le> 0"

definition log_filename :: "int \<Rightarrow> int \<Rightarrow> string" where
  "log_filename sec port = snprintf 40 (dec_int sec @ ''-'' @ dec_int port @ ''.csv'')"

section \<open>Resets of earlier connections\<close>

text \<open>
  The packets that \<^verbatim>\<open>recv\<close> returns before the thread is cancelled, each with whether \<^verbatim>\<open>sendto\<close> can answer it; the
  result is the list of resets sent. The receive buffer is zero behind the packet.
\<close>

fun send_resets :: "sys_config \<Rightarrow> (bytes \<times> bool) list \<Rightarrow> bytes list res" where
  "send_resets cfg [] = Inr []"
| "send_resets cfg ((d, sent) # rest) =
     (if d = [] then Inr [] else
      let buf = take MAX_PACKET_SIZE d @ calloc (MAX_PACKET_SIZE - length d) in
      bnd (load_ip buf 0) (\<lambda>ip_hdr. bnd (load_tcp buf IP_HDR_SIZE) (\<lambda>tcp_hdr.
      bnd (create_tcp_rst cfg (ip_src ip_hdr) (th_dport tcp_hdr) (th_sport tcp_hdr) (th_ack tcp_hdr)) (\<lambda>rst.
        if \<not> sent then Inr [] else bnd (send_resets cfg rest) (\<lambda>rs. Inr (rst # rs))))))"

section \<open>The socket and the server's address\<close>

record host_env =
  h_ifs :: "(string \<times> u32 option) list"
  h_lookup :: "string \<Rightarrow> u32 list option"
  h_junk :: string
  h_socket :: bool
  h_hdrincl :: bool
  h_bind :: bool
  h_leftover :: "(bytes \<times> bool) list"

text \<open>The option of a raw socket and its address; a Unix socket needs neither.\<close>

definition config_addr :: "host_env \<Rightarrow> process \<Rightarrow> (bool \<times> process) res" where
  "config_addr env p =
     (if unix_socket (p_cfg p) then Inr (True, p)
      else if \<not> h_hdrincl env then Inr (False, p)
      else bnd (ip_from_self (h_ifs env)) (\<lambda>a. Inr (a \<noteq> 0, p\<lparr> p_cfg := (p_cfg p)\<lparr> my_ip := a \<rparr> \<rparr>)))"

text \<open>\<^verbatim>\<open>sun_path\<close> has 108 bytes, for the name of the socket and its NUL.\<close>

definition do_config :: "host_env \<Rightarrow> string \<Rightarrow> process \<Rightarrow> (bool \<times> process) res" where
  "do_config env port p =
     (if \<not> h_socket env then Inr (False, p) else
      bnd (config_addr env p) (\<lambda>(ok, p).
      if \<not> ok then Inr (False, p) else
      let p = p\<lparr> p_cfg := (p_cfg p)\<lparr> my_port := atoi port \<rparr>, p_conns := (if p_server p then [] else p_conns p) \<rparr> in
      bnd (if unix_socket (p_cfg p) \<and> 108 < length port + 2 then Inl OutOfBounds else Inr ()) (\<lambda>_.
      if \<not> h_bind env then Inr (False, p) else
      bnd (send_resets (p_cfg p) (h_leftover env)) (\<lambda>rs. Inr (True, p\<lparr> p_sent := p_sent p @ rs \<rparr>)))))"

text \<open>\<^verbatim>\<open>strsep\<close> at the colons: the host and the port, if there is one.\<close>

definition parse_server :: "string \<Rightarrow> (string \<times> int) option" where
  "parse_server server =
     (let host = takeWhile (\<lambda>c. c \<noteq> CHR '':'') server; rest = dropWhile (\<lambda>c. c \<noteq> CHR '':'') server
      in if rest = [] then None else Some (host, atoi (takeWhile (\<lambda>c. c \<noteq> CHR '':'') (tl rest))))"

definition config_server ::
    "host_env \<Rightarrow> string \<Rightarrow> u32 \<Rightarrow> read_result list \<Rightarrow> write_result list \<Rightarrow> nat \<Rightarrow> process \<Rightarrow> bool \<times> process" where
  "config_server env server rand inp wr i p =
     (case parse_server server of None \<Rightarrow> (False, p)
      | Some (host, server_port) \<Rightarrow>
          (let p = conn_add i (p\<lparr> p_eps := (p_eps p)(i \<mapsto> opened (p_cfg p) 0 (conn_calloc inp wr)) \<rparr>);
               dst_ip = ip_from_hostname (h_junk env) (h_lookup env host)
           in if dst_ip = 0 then (False, p)
              else let p = (if dst_ip \<noteq> LOCALHOST then p\<lparr> p_cfg := (p_cfg p)\<lparr> unix_socket := False \<rparr> \<rparr> else p)
                in (True, do_config_server dst_ip server_port rand inp wr i p)))"

section \<open>The poll table\<close>

record pollfd =
  pf_fd :: int
  pf_events :: u16

definition NUM_POLL :: nat where [simp]: "NUM_POLL = 3"
definition POLLIN :: u16 where "POLLIN = 1"
definition POLLOUT :: u16 where "POLLOUT = 4"
definition POLLERR :: u16 where "POLLERR = 8"
definition POLLHUP :: u16 where "POLLHUP = 16"

definition poll_table :: "pollfd list" where
  "poll_table = replicate (NUM_POLL + MAX_NUM_CLIENTS) \<lparr> pf_fd = 0, pf_events = 0 \<rparr>"

definition set_poll :: "nat \<Rightarrow> int \<Rightarrow> u16 \<Rightarrow> pollfd list \<Rightarrow> pollfd list res" where
  "set_poll k fd evs tab =
     (if k < length tab then Inr (tab[k := \<lparr> pf_fd = fd, pf_events = evs \<rparr>]) else Inl OutOfBounds)"

definition setup_poll :: "int \<Rightarrow> pollfd list \<Rightarrow> pollfd list res" where
  "setup_poll sock tab =
     bnd (set_poll 0 0 (POLLIN OR POLLHUP OR POLLERR) tab) (\<lambda>tab.
     bnd (set_poll 1 1 (POLLOUT OR POLLERR) tab) (\<lambda>tab.
       set_poll 2 sock (POLLIN OR POLLHUP OR POLLERR) tab))"

text \<open>The parent's side of \<^verbatim>\<open>execute_program\<close>: the slot of the new connection polls the program's output.\<close>

definition execute_program :: "nat \<Rightarrow> int \<Rightarrow> pollfd list \<Rightarrow> (nat \<times> pollfd list) res" where
  "execute_program num_connected fd tab =
     (let k = NUM_POLL + num_connected - 1
      in bnd (set_poll k fd (POLLIN OR POLLHUP) tab) (\<lambda>tab. Inr (k, tab)))"

section \<open>The main program\<close>

record start_env = host_env +
  s_syn_fails :: bool
  s_ack_fails :: bool
  s_reply :: "bytes option"
  s_rand :: u32
  s_input :: "read_result list"
  s_writes :: "write_result list"
  s_addr :: nat
  s_now :: int

definition main_client :: "start_env \<Rightarrow> string \<Rightarrow> string \<Rightarrow> process \<Rightarrow> (bool \<times> process) res" where
  "main_client env server port p =
     (let (ok, p) = config_server (host_env.truncate env) server (s_rand env) (s_input env) (s_writes env) (s_addr env) p in
      if \<not> ok then Inr (False, p) else
      bnd (do_config (host_env.truncate env) port p) (\<lambda>(ok, p).
      if \<not> ok then Inr (False, p)
      else start_client (s_syn_fails env) (s_ack_fails env) (s_reply env) (s_now env) (s_addr env) p))"

definition main_server :: "start_env \<Rightarrow> string \<Rightarrow> bool \<Rightarrow> process \<Rightarrow> (bool \<times> process) res" where
  "main_server env port has_program p =
     bnd (do_config (host_env.truncate env) port (p\<lparr> p_server := True \<rparr>)) (\<lambda>(ok, p).
       if \<not> ok then Inr (False, p)
       else Inr (True, if has_program then p\<lparr> p_cfg := (p_cfg p)\<lparr> run_program := True \<rparr> \<rparr> else p))"

text \<open>
  The process when its event loop starts, with its new log file and what is in it, \<open>Usage\<close> or the exit status. The static variables have their initial
  values, \<open>ip\<close> is the uninitialised address of a process on a Unix socket.
\<close>

datatype started = Usage | Status nat | Started "(string \<times> log_output) option" process

definition initial_process :: "u32 \<Rightarrow> options \<Rightarrow> process" where
  "initial_process ip os = \<lparr> p_cfg = main_cfg (o_window os) \<lparr> my_ip = ip, my_port = 0, cfg_recv_window = 0, cfg_send_window = 0,
       cfg_rt_timeout = 0, run_program = False, unix_socket = True, eof_char_mode = o_test_debug os \<or> o_lab5 os \<rparr>,
     p_server = False, p_eps = Map.empty, p_conns = [], p_states = [], p_fp = None, p_connected = 0, p_new = 0,
     p_last = (0, 0), p_sent = [], p_exited = False \<rparr>"

definition main_log_file :: "int \<Rightarrow> options \<Rightarrow> (string \<times> log_output) option" where
  "main_log_file sec os = (if o_logging os then Some (log_filename sec (o_port os), write_log_header) else None)"

definition ctcp_main :: "start_env \<Rightarrow> u32 \<Rightarrow> (char \<times> string) list \<Rightarrow> bool \<Rightarrow> started res" where
  "ctcp_main env ip args has_program =
     (case get_options args (default_options (s_now env div 1000)) of None \<Rightarrow> Inr Usage
      | Some os \<Rightarrow>
        if bad_options os then Inr Usage
        else let p = initial_process ip os; port = (case o_port_str os of None \<Rightarrow> [] | Some s \<Rightarrow> s) in
          bnd (if o_is_client os then bnd (deref (o_server os)) (\<lambda>server. main_client env server port p)
               else main_server env port has_program p) (\<lambda>(ok, p).
            if p_exited p \<or> \<not> ok then Inr (Status 1) else Inr (Started (main_log_file (s_now env div 1000) os) p)))"

section \<open>Lemmas: resets\<close>

definition rst_tcp :: "sys_config \<Rightarrow> u32 \<Rightarrow> u16 \<Rightarrow> u16 \<Rightarrow> u32 \<Rightarrow> tcphdr" where
  "rst_tcp cfg dst sp dp seq = (let h = \<lparr> th_sport = sp, th_dport = dp, th_seq = seq, th_ack = 0, th_off = 5, th_x2 = 0,
     th_flags = ucast TH_RST, th_win = 0, th_sum = 0, th_urp = 0 \<rparr> in h\<lparr> th_sum := tcp_sum (my_ip cfg) dst h [] \<rparr>)"

lemma create_tcp_rst_eq:
  "create_tcp_rst cfg dst sp dp seq = Inr (pkt_ip (my_ip cfg) dst 0 @ tcp_bytes (rst_tcp cfg dst sp dp seq))"
proof -
  have d: "create_datagram (my_ip cfg) dst (of_nat TCP_HDR_SIZE) = Inr (pkt_ip (my_ip cfg) dst 0 @ calloc 20)"
    using create_datagram_eq [of 0 "my_ip cfg" dst] by simp
  have w: "write_bytes (pkt_ip s d 0 @ b) 20 h = Inr (pkt_ip s d 0 @ h)" if "length b = 20" "length h = 20" for s d b h
    using write_tcp [of b h "pkt_ip s d 0" "[]"] that by simp
  have k: "cksum_tcp (pkt_ip s d 0 @ tcp_bytes h) 0 = Inr (tcp_sum s d h [])" for s d h
    using cksum_tcp_eq [of "[]" s d 0 h "[]"] by simp
  show ?thesis by (simp add: create_tcp_rst_def d [simplified] w k rst_tcp_def Let_def)
qed

text \<open>What \<open>r\<close> has to be to answer the packet \<open>d\<close>.\<close>

definition answers :: "sys_config \<Rightarrow> bytes \<Rightarrow> bytes \<Rightarrow> bool" where
  "answers cfg d r \<longleftrightarrow> length r = 40 \<and> (\<exists>ip t h. load_ip (take 1480 d @ calloc (1480 - length d)) 0 = Inr ip
     \<and> load_tcp (take 1480 d @ calloc (1480 - length d)) 20 = Inr t \<and> load_tcp r 20 = Inr h
     \<and> th_sport h = th_dport t \<and> th_dport h = th_sport t \<and> th_seq h = th_ack t \<and> th_flags h = ucast TH_RST
     \<and> (\<exists>i. load_ip r 0 = Inr i \<and> ip_src i = my_ip cfg \<and> ip_dst i = ip_src ip)
     \<and> (\<forall>q. htons (of_int (my_port (p_cfg q))) = th_sport t \<longrightarrow> recv_filter q (Some r) = Inr Exits))"

lemma rst_answers:
  assumes "load_ip (take 1480 d @ calloc (1480 - length d)) 0 = Inr ip"
    "load_tcp (take 1480 d @ calloc (1480 - length d)) 20 = Inr t"
  shows "answers cfg d (pkt_ip (my_ip cfg) (ip_src ip) 0 @ tcp_bytes (rst_tcp cfg (ip_src ip) (th_dport t) (th_sport t) (th_ack t)))"
    (is "answers cfg d ?r")
proof -
  let ?h = "rst_tcp cfg (ip_src ip) (th_dport t) (th_sport t) (th_ack t)"
  have l: "load_tcp ?r 20 = Inr ?h" by (simp add: load_tcp_def read_bytes_def)
  have h: "th_sport ?h = th_dport t" "th_dport ?h = th_sport t" "th_seq ?h = th_ack t" "th_flags ?h = ucast TH_RST"
    by (simp_all add: rst_tcp_def Let_def)
  have "recv_filter q (Some ?r) = Inr Exits" if "htons (of_int (my_port (p_cfg q))) = th_sport t" for q
    using that by (simp add: recv_filter_def l h)
  then show ?thesis unfolding answers_def using assms l h
    by (intro conjI exI [of _ ip] exI [of _ t] exI [of _ ?h] exI [of _ "ip_of (pkt_ip (my_ip cfg) (ip_src ip) 0)"]) simp_all
qed

lemma send_resets_list:
  "\<exists>rs. send_resets cfg pkts = Inr rs \<and> list_all2 (answers cfg) (map fst (takeWhile (\<lambda>(d, sent). d \<noteq> [] \<and> sent) pkts)) rs"
proof (induction pkts)
  case (Cons x pkts)
  obtain d sent where x: "x = (d, sent)" by (cases x)
  let ?b = "take 1480 d @ calloc (1480 - length d)"
  obtain ip t where l: "load_ip ?b 0 = Inr ip" "load_tcp ?b 20 = Inr t"
  proof -
    have "20 \<le> length ?b" "20 + 20 \<le> length ?b" by (simp_all add: min_def)
    with that show ?thesis by (simp only: load_ip_def load_tcp_def read_bytes_def) simp
  qed
  from Cons rst_answers [OF l, of cfg] show ?case by (auto simp: x l create_tcp_rst_eq)
qed simp

text \<open>
  C35. When a process starts, each of the packets that still arrive for it, up to the first that is empty or cannot be
  answered, is answered with a reset, in order: a packet with only headers, from the own address to the sender's, with the
  ports swapped and the sequence number the sender acknowledged, at which a cTCP process on
  the sender's port exits.
\<close>

theorem send_resets_answers:
  "\<exists>rs. send_resets cfg pkts = Inr rs \<and> list_all2 (answers cfg) (map fst (takeWhile (\<lambda>(d, sent). d \<noteq> [] \<and> sent) pkts)) rs"
  by (rule send_resets_list)

lemma send_resets_total: "\<exists>rs. send_resets cfg pkts = Inr rs"
  using send_resets_list by blast

section \<open>Lemmas: the poll table\<close>

text \<open>The programs of the connections that are accepted one after the other, \<open>k\<close> being counted already.\<close>

fun run_programs :: "nat \<Rightarrow> int list \<Rightarrow> pollfd list \<Rightarrow> pollfd list res" where
  "run_programs k [] tab = Inr tab"
| "run_programs k (fd # fds) tab = bnd (execute_program (k + 1) fd tab) (\<lambda>(_, tab). run_programs (k + 1) fds tab)"

lemma run_programs_fit:
  "k + length fds \<le> 10 \<Longrightarrow> length tab = 13 \<Longrightarrow> run_programs k fds tab =
    Inr (take (3 + k) tab @ map (\<lambda>fd. \<lparr> pf_fd = fd, pf_events = POLLIN OR POLLHUP \<rparr>) fds @ drop (3 + k + length fds) tab)"
proof (induction fds arbitrary: k tab)
  case (Cons fd fds)
  let ?x = "\<lparr> pf_fd = fd, pf_events = POLLIN OR POLLHUP \<rparr>"
  have "tab[3 + k := ?x] = take (3 + k) tab @ ?x # drop (4 + k) tab"
    using Cons.prems by (simp add: upd_conv_take_nth_drop add.commute)
  moreover have "execute_program (k + 1) fd tab = Inr (3 + k, tab[3 + k := ?x])"
    using Cons.prems by (simp add: execute_program_def set_poll_def Let_def)
  moreover have "run_programs (k + 1) fds (tab[3 + k := ?x]) = Inr (take (4 + k) (tab[3 + k := ?x])
      @ map (\<lambda>fd. \<lparr> pf_fd = fd, pf_events = POLLIN OR POLLHUP \<rparr>) fds @ drop (4 + k + length fds) (tab[3 + k := ?x]))"
    using Cons.IH [of "k + 1" "tab[3 + k := ?x]"] Cons.prems by (simp add: add.commute add.left_commute)
  moreover have "drop (length fds + (4 + k)) tab = drop (4 + (k + length fds)) tab"
    by (intro arg_cong [of _ _ "\<lambda>n. drop n tab"]) simp
  ultimately show ?case using Cons.prems by (simp add: min_def)
qed simp

lemma run_programs_beyond:
  "length tab = 13 \<Longrightarrow> k \<le> 10 \<Longrightarrow> 10 < k + length fds \<Longrightarrow> run_programs k fds tab = Inl OutOfBounds"
proof (induction fds arbitrary: k tab)
  case (Cons fd fds)
  show ?case
  proof (cases "k = 10")
    case True then show ?thesis using Cons.prems by (simp add: execute_program_def set_poll_def Let_def)
  next
    case False
    have "run_programs (k + 1) fds (tab[3 + k := x]) = Inl OutOfBounds" for x
      using Cons.prems False by (intro Cons.IH) simp_all
    then show ?thesis using Cons.prems False by (simp add: execute_program_def set_poll_def Let_def)
  qed
qed simp

text \<open>
  The poll table has room for the programs of exactly the ten connections that a server accepts: each writes the slot
  after the ones before it, none overwrites the standard input, the standard output or the
  socket, which \<^verbatim>\<open>setup_poll\<close> put in the first three, and an eleventh would write
  behind the table.
\<close>

theorem poll_table_slots:
  "\<exists>tab. setup_poll sock poll_table = Inr tab \<and> map pf_fd (take 3 tab) = [0, 1, sock]
    \<and> run_programs 0 fds tab = (if length fds \<le> 10
        then Inr (take 3 tab @ map (\<lambda>fd. \<lparr> pf_fd = fd, pf_events = POLLIN OR POLLHUP \<rparr>) fds @ drop (3 + length fds) tab)
        else Inl OutOfBounds)"
proof -
  have l: "length poll_table = 13" by (simp add: poll_table_def)
  define tab where "tab = poll_table[0 := \<lparr> pf_fd = 0, pf_events = POLLIN OR POLLHUP OR POLLERR \<rparr>,
    1 := \<lparr> pf_fd = 1, pf_events = POLLOUT OR POLLERR \<rparr>, 2 := \<lparr> pf_fd = sock, pf_events = POLLIN OR POLLHUP OR POLLERR \<rparr>]"
  have "setup_poll sock poll_table = Inr tab" by (simp add: setup_poll_def set_poll_def l tab_def)
  moreover have "length tab = 13" by (simp add: tab_def l)
  moreover have "map pf_fd (take 3 tab) = [0, 1, sock]" by (simp add: tab_def poll_table_def numeral_eq_Suc)
  ultimately show ?thesis using run_programs_fit [of 0 fds tab] run_programs_beyond [of tab 0 fds] by simp
qed

section \<open>Lemmas: from main to the event loop\<close>

lemma quiet_fields: "quiet p (p\<lparr> p_cfg := c \<rparr>)" "quiet p (p\<lparr> p_sent := l \<rparr>)"
  by (simp_all add: quiet_def marks_def fun_eq_iff)

lemma upd_conn_quiet:
  assumes "upd_conn i f p = Inr p'" "\<And>c. c_delete_me (f c) = c_delete_me c"
  shows "quiet p p'"
proof -
  obtain ep where "p_eps p i = Some ep" "p' = p\<lparr> p_eps := (p_eps p)(i \<mapsto> ep\<lparr> e_conn := f (e_conn ep) \<rparr>) \<rparr>"
    using assms(1) by (auto simp: upd_conn_def bnd_eq_Inr conn_of_eq)
  then show ?thesis by (intro quiet_upd [of p i ep]) (simp_all add: assms(2))
qed

lemma tcp_handshake_quiet:
  assumes "tcp_handshake f g r i p = Inr (c, p')" "\<not> p_exited p'"
  shows "quiet p p' \<and> (c = None \<or> c = Some i)"
proof -
  obtain ok q where q: "send_syn f i p = Inr (ok, q)" "quiet p q"
    using assms(1) send_seg_quiet by (auto simp: tcp_handshake_def bnd_eq_Inr send_syn_def)
  with assms obtain ok: "ok" by (cases ok) (auto simp: tcp_handshake_def)
  obtain fl where fl: "recv_filter q r = Inr fl"
    using assms(1) q(1) ok by (auto simp: tcp_handshake_def bnd_eq_Inr)
  show ?thesis
  proof (cases "\<exists>x d. fl = Passed x \<and> r = Some d")
    case False
    then show ?thesis using assms q ok fl
      by (auto simp: tcp_handshake_def split: filtered.splits option.splits)
  next
    case True
    then obtain x d where p: "fl = Passed x" "r = Some d" by blast
    obtain t where t: "load_tcp d IP_HDR_SIZE = Inr t"
      using assms(1) q(1) ok fl p by (auto simp: tcp_handshake_def bnd_eq_Inr)
    let ?q = "q\<lparr> p_cfg := (p_cfg q)\<lparr> cfg_send_window := ntohs (th_win t) \<rparr> \<rparr>"
    let ?A = "\<lambda>c. c\<lparr> c_init_seqno := ntohl (th_ack t) - 1, c_their_init_seqno := ntohl (th_seq t) - 1,
      c_next_seqno := ntohl (th_ack t), c_ackno := ntohl (th_seq t) \<rparr>"
    let ?B = "\<lambda>c. c\<lparr> c_next_seqno := c_next_seqno c + 1, c_their_init_seqno := ntohl (th_seq t), c_ackno := ntohl (th_seq t) + 1 \<rparr>"
    have fl2: "recv_filter q (Some d) = Inr (Passed x)" using fl p by simp
    have h: "(if ucast (th_flags t) AND TH_SYN = (0 :: u32) then bnd (upd_conn i ?A ?q) (\<lambda>p. Inr (Some i, p))
        else bnd (upd_conn i ?B ?q) (\<lambda>p. bnd (send_ack g i p) (\<lambda>(_, p). Inr (Some i, p)))) = Inr (c, p')"
      using assms(1) unfolding p(2) tcp_handshake_def q(1) by (simp only: bnd_Inr prod.case ok not_True_eq_False if_False fl2
        filtered.case option.case t Let_def)
    have c: "quiet p ?q" using quiet_trans [OF q(2) quiet_fields(1)] .
    have "\<exists>u. quiet ?q u \<and> c = Some i \<and> (p' = u \<or> (\<exists>b. send_ack g i u = Inr (b, p')))"
    proof (cases "ucast (th_flags t) AND TH_SYN = (0 :: u32)")
      case True
      then obtain u where "upd_conn i ?A ?q = Inr u" "c = Some i" "p' = u" using h by (auto simp: bnd_eq_Inr)
      moreover from this(1) have "quiet ?q u" by (rule upd_conn_quiet) simp
      ultimately show ?thesis by blast
    next
      case False
      then obtain u b where "upd_conn i ?B ?q = Inr u" "c = Some i" "send_ack g i u = Inr (b, p')"
        using h by (auto simp: bnd_eq_Inr)
      moreover from this(1) have "quiet ?q u" by (rule upd_conn_quiet) simp
      ultimately show ?thesis by blast
    qed
    then obtain u where u: "quiet ?q u" "c = Some i" "p' = u \<or> (\<exists>b. send_ack g i u = Inr (b, p'))"
      by blast
    then have "quiet u p'" using send_seg_quiet unfolding send_ack_def by (metis quiet_refl)
    with c u show ?thesis using quiet_trans by blast
  qed
qed

lemma start_client_inv:
  assumes "start_client f g r now i p = Inr (True, p')" "\<not> p_exited p'"
    and "p_conns p = [i]" "p_states p = []" "marks p i = Some False" "\<not> p_server p" "p_connected p = 0"
  shows "session_inv p' \<and> \<not> p_server p'"
proof -
  obtain c q where q: "tcp_handshake f g r i p = Inr (c, q)" "\<not> p_exited q" "ctcp_init now c q = Inr (True, p')"
    using assms(1,2) by (auto simp: start_client_def bnd_eq_Inr split: if_splits)
  then obtain ep where ep: "c = Some i" "quiet p q" "p_eps q i = Some ep"
    "p' = q\<lparr> p_eps := (p_eps q)(i \<mapsto> opened (p_cfg q) now (e_conn ep)), p_states := i # p_states q, p_fp := Some [] \<rparr>"
    using tcp_handshake_quiet [OF q(1,2)] by (auto simp: ctcp_init_def bnd_eq_Inr conn_of_eq)
  have "marks q i = Some False" using ep(2) assms(5) by (simp add: quiet_def)
  then have "\<not> del ep" by (simp add: marks_def ep(3))
  with ep(2) assms(3-7) show ?thesis by (simp add: session_inv_def ep(4) quiet_def opened_def)
qed

lemma do_config_keeps:
  assumes "do_config env port p = Inr (True, p')"
  shows "\<exists>cfg l. my_port cfg = atoi port \<and> p' = p\<lparr> p_cfg := cfg, p_conns := (if p_server p then [] else p_conns p), p_sent := l \<rparr>"
proof -
  obtain cfg where a: "config_addr env p = Inr (True, p\<lparr> p_cfg := cfg \<rparr>)"
  proof -
    have "h_socket env" using assms by (cases "h_socket env") (simp_all add: do_config_def)
    with assms obtain ok q where q: "config_addr env p = Inr (ok, q)" "ok" by (auto simp: do_config_def bnd_eq_Inr split: if_splits)
    then have "\<exists>cfg. q = p\<lparr> p_cfg := cfg \<rparr>"
      by (auto simp: config_addr_def bnd_eq_Inr split: if_splits intro: exI [of _ "p_cfg p"])
    with q that show ?thesis by auto
  qed
  let ?q = "p\<lparr> p_cfg := cfg\<lparr> my_port := atoi port \<rparr>, p_conns := (if p_server p then [] else p_conns p) \<rparr>"
  obtain rs where "send_resets (p_cfg ?q) (h_leftover env) = Inr rs" using send_resets_total by blast
  with assms a have "p' = ?q\<lparr> p_sent := p_sent ?q @ rs \<rparr>"
    by (simp add: do_config_def Let_def split: if_splits)
  then show ?thesis by (intro exI [of _ "cfg\<lparr> my_port := atoi port \<rparr>"] exI [of _ "p_sent ?q @ rs"]) simp
qed

lemma config_server_keeps:
  assumes "config_server env server rand inp wr i p = (True, p')" "\<not> p_server p"
  shows "p_conns p' = [i] \<and> marks p' i = Some False \<and> \<not> p_server p' \<and> p_states p' = p_states p
    \<and> p_connected p' = p_connected p"
proof -
  obtain q ip port where "p' = do_config_server ip port rand inp wr i q" "p_states q = p_states p" "\<not> p_server q"
    "p_connected q = p_connected p"
    using assms by (auto simp: config_server_def Let_def conn_add_def split: option.splits if_splits)
  then show ?thesis
    by (simp add: do_config_server_def Let_def conn_add_def marks_def opened_def conn_setup_def conn_calloc_def)
qed

lemma if_SomeE:
  "(if b then x else y) = Some z \<Longrightarrow> (b \<Longrightarrow> x = Some z \<Longrightarrow> P) \<Longrightarrow> (\<not> b \<Longrightarrow> y = Some z \<Longrightarrow> P) \<Longrightarrow> P"
  by (cases b) simp_all

lemma set_option_flags:
  "set_option opt a os = Some os' \<Longrightarrow> o_is_server os' = (o_is_server os \<or> opt = CHR ''s'') \<and> o_is_client os' = (o_is_client os \<or> opt = CHR ''c'')"
  unfolding set_option_def by (erule if_SomeE, clarsimp)+ simp

lemma get_options_flags:
  "get_options args os = Some os' \<Longrightarrow> o_is_server os' = (o_is_server os \<or> CHR ''s'' \<in> fst ` set args)
    \<and> o_is_client os' = (o_is_client os \<or> CHR ''c'' \<in> fst ` set args)"
proof (induction args arbitrary: os)
  case (Cons x args)
  then obtain os1 where "set_option (fst x) (snd x) os = Some os1" "get_options args os1 = Some os'"
    by (cases x) (auto split: option.splits)
  with Cons.IH [of os1] set_option_flags [of "fst x" "snd x" os os1] show ?case by auto
qed simp

lemma initial_fields: "p_server (initial_process ip os) = False" "p_states (initial_process ip os) = []"
  "p_connected (initial_process ip os) = 0" "p_conns (initial_process ip os) = []"
  by (simp_all add: initial_process_def)

lemma main_client_inv:
  assumes "main_client env server port p = Inr (True, p')" "\<not> p_exited p'" "\<not> p_server p" "p_states p = []" "p_connected p = 0"
  shows "session_inv p' \<and> \<not> p_server p'"
proof -
  obtain q where q: "config_server (host_env.truncate env) server (s_rand env) (s_input env) (s_writes env) (s_addr env) p = (True, q)"
    using assms(1) by (auto simp: main_client_def Let_def split: prod.splits if_splits)
  with assms(1) obtain r where r: "do_config (host_env.truncate env) port q = Inr (True, r)"
    "start_client (s_syn_fails env) (s_ack_fails env) (s_reply env) (s_now env) (s_addr env) r = Inr (True, p')"
    by (auto simp: main_client_def bnd_eq_Inr split: if_splits)
  obtain cfg l where k: "r = q\<lparr> p_cfg := cfg, p_conns := (if p_server q then [] else p_conns q), p_sent := l \<rparr>"
    using do_config_keeps [OF r(1)] by blast
  from start_client_inv [OF r(2) assms(2)] config_server_keeps [OF q assms(3)] assms(4,5) show ?thesis
    by (simp add: k marks_def)
qed

lemma main_server_inv:
  assumes "main_server env port prog p = Inr (True, p')" "p_states p = []" "p_connected p = 0"
  shows "session_inv p' \<and> p_server p'"
proof -
  obtain r where r: "do_config (host_env.truncate env) port (p\<lparr> p_server := True \<rparr>) = Inr (True, r)"
    "p' = (if prog then r\<lparr> p_cfg := (p_cfg r)\<lparr> run_program := True \<rparr> \<rparr> else r)"
    using assms(1) by (auto simp: main_server_def bnd_eq_Inr split: if_splits)
  obtain cfg l where k: "r = p\<lparr> p_server := True, p_cfg := cfg, p_conns := [], p_sent := l \<rparr>"
    using do_config_keeps [OF r(1)] by auto
  show ?thesis using assms(2,3) by (simp add: r(2) k session_inv_def)
qed

lemma ctcp_main_started:
  assumes "ctcp_main env ip args prog = Inr (Started lf p)"
  shows "session_inv p \<and> p_server p = (CHR ''s'' \<in> fst ` set args) \<and> p_server p = (CHR ''c'' \<notin> fst ` set args)"
proof -
  obtain os where o: "get_options args (default_options (s_now env div 1000)) = Some os" "\<not> bad_options os"
    using assms by (auto simp: ctcp_main_def split: option.splits if_splits)
  have f: "o_is_server os = (CHR ''s'' \<in> fst ` set args)" "o_is_client os = (CHR ''c'' \<in> fst ` set args)"
    using get_options_flags [OF o(1)] by (simp_all add: default_options_def)
  let ?p = "initial_process ip os" and ?port = "case o_port_str os of None \<Rightarrow> [] | Some s \<Rightarrow> s"
  note m = assms [unfolded ctcp_main_def o option.case if_not_P [OF o(2)] Let_def]
  show ?thesis
  proof (cases "o_is_client os")
    case True
    then obtain server where "main_client env server ?port ?p = Inr (True, p)" "\<not> p_exited p"
      using m by (auto simp: bnd_eq_Inr split: if_splits)
    from main_client_inv [OF this] True o(2) f show ?thesis by (auto simp: initial_fields bad_options_def)
  next
    case False
    then have "main_server env ?port prog ?p = Inr (True, p)" using m by (auto simp: bnd_eq_Inr split: if_splits)
    from main_server_inv [OF this] False o(2) f show ?thesis by (auto simp: initial_fields bad_options_def)
  qed
qed

text \<open>
  C18. Whatever the command line, the host and the network do, when \<^verbatim>\<open>main\<close> reaches the event loop the process is a
  client or a server as its options say, and from there every state the loop reaches satisfies the
  invariant of sessions: what \<^verbatim>\<open>main\<close> sets up is what the loop needs.
\<close>

theorem ctcp_main_session_inv:
  assumes "ctcp_main env ip args prog = Inr (Started lf p)" "session_reach p q"
  shows "session_inv q \<and> p_server p = (CHR ''s'' \<in> fst ` set args) \<and> p_server p = (CHR ''c'' \<notin> fst ` set args)"
proof -
  have i: "session_inv p" using ctcp_main_started [OF assms(1)] by blast
  from session_reach_keeps [OF assms(2) i] ctcp_main_started [OF assms(1)] show ?thesis by blast
qed

definition ex_start :: start_env where
  "ex_start = \<lparr> h_ifs = [], h_lookup = Map.empty, h_junk = [], h_socket = True, h_hdrincl = True, h_bind = True, h_leftover = [],
     s_syn_fails = False, s_ack_fails = False, s_reply = None, s_rand = 1, s_input = [], s_writes = [], s_addr = 0, s_now = 5 \<rparr>"

lemma atoi_8080: "atoi ''8080'' = 8080"
  by (simp add: atoi_def strtol10_def isspace_def isdigit_def number_def digit_of_def)

theorem ctcp_main_session_inv_witness:
  "\<exists>p. ctcp_main ex_start 0 [(CHR ''s'', []), (CHR ''p'', ''8080'')] False = Inr (Started None p) \<and> session_inv p \<and> p_server p
    \<and> my_port (p_cfg p) = 8080"
proof -
  let ?a = "[(CHR ''s'', []), (CHR ''p'', ''8080'')]"
  obtain p where p: "ctcp_main ex_start 0 ?a False = Inr (Started None p)" "my_port (p_cfg p) = 8080"
    by (simp add: ctcp_main_def default_options_def set_option_def bad_options_def atoi_8080 main_server_def ex_start_def
        do_config_def config_addr_def host_env.defs initial_process_def main_cfg_def main_log_file_def Let_def)
  from ctcp_main_session_inv [OF p(1) session_reach.start] have "session_inv p" "p_server p" by simp_all
  with p show ?thesis by blast
qed

end
