(* ===== verification/RouterMain.thy ===== *)
theory RouterMain
  imports Vns CText RouterRun
begin

text \<open>
  The router's main program, \<^verbatim>\<open>sr_main.c\<close>: options, the set-up of the router, the packet log, the session with
  the server and the loop that reads commands until the session ends. Options are the results of \<^verbatim>\<open>getopt\<close>;
  the process's files are those of the session. The lemmas show that the loop ends for every finite
  input, that it hands over the frames of the stream one by one, in order, with the router's state passed from each to the
  next, and that the packet log is a file that reads back as the packets logged.
\<close>

section \<open>Options\<close>

record router_args =
  a_host :: string
  a_user :: "string option"
  a_server :: string
  a_rtable :: string
  a_template :: "string option"
  a_port :: u32
  a_topo :: u32
  a_logfile :: "string option"

definition router_defaults :: router_args where
  "router_defaults = \<lparr> a_host = ''vrhost'', a_user = None, a_server = ''localhost'', a_rtable = ''rtable'', a_template = None,
     a_port = 8888, a_topo = 0, a_logfile = None \<rparr>"

text \<open>\<open>None\<close> is the exit after the usage message; an unknown option changes nothing.\<close>

definition router_option :: "char \<Rightarrow> string \<Rightarrow> router_args \<Rightarrow> router_args option" where
  "router_option c optarg a =
     (if c = CHR ''h'' then None
      else if c = CHR ''p'' then Some (a\<lparr> a_port := of_int (atoi optarg) \<rparr>)
      else if c = CHR ''t'' then Some (a\<lparr> a_topo := of_int (atoi optarg) \<rparr>)
      else if c = CHR ''v'' then Some (a\<lparr> a_host := optarg \<rparr>)
      else if c = CHR ''u'' then Some (a\<lparr> a_user := Some optarg \<rparr>)
      else if c = CHR ''s'' then Some (a\<lparr> a_server := optarg \<rparr>)
      else if c = CHR ''l'' then Some (a\<lparr> a_logfile := Some optarg \<rparr>)
      else if c = CHR ''r'' then Some (a\<lparr> a_rtable := optarg \<rparr>)
      else if c = CHR ''T'' then Some (a\<lparr> a_template := Some optarg \<rparr>)
      else Some a)"

fun router_options :: "(char \<times> string) list \<Rightarrow> router_args \<Rightarrow> router_args option" where
  "router_options [] a = Some a"
| "router_options ((c, optarg) # rest) a =
     (case router_option c optarg a of None \<Rightarrow> None | Some a \<Rightarrow> router_options rest a)"

section \<open>The router's state\<close>

definition sr_init_instance :: "sr_instance \<Rightarrow> sr_instance" where
  "sr_init_instance sr = sr\<lparr> sock_up := False, user := [], host := [], topo_id := 0, if_list := [], routing_table := [],
     logfile := None \<rparr>"

text \<open>\<open>pw_name\<close> is the name of the user of the process, if the system knows it.\<close>

definition sr_set_user :: "string option \<Rightarrow> sr_instance \<Rightarrow> sr_instance" where
  "sr_set_user pw_name sr = (case pw_name of
      None \<Rightarrow> sr\<lparr> user := strncpy 32 ''something_silly'' \<rparr>
    | Some name \<Rightarrow> sr\<lparr> user := strncpy 32 name \<rparr>)"

definition sr_destroy_instance :: "sr_instance \<Rightarrow> sr_instance" where
  "sr_destroy_instance sr = (case logfile sr of None \<Rightarrow> sr | Some fp \<Rightarrow> sr\<lparr> logfile := None \<rparr>)"

text \<open>The lines of a file, read with \<^verbatim>\<open>fgets\<close> into a buffer of \<^verbatim>\<open>BUFSIZ\<close> bytes.\<close>

definition file_lines :: "vns \<Rightarrow> string \<Rightarrow> string list option" where
  "file_lines v name = map_option (\<lambda>b. fgets_lines 8192 (string_of_bytes b)) (files v name)"

text \<open>\<open>None\<close> is the exit on an unreadable or malformed file; \<open>junk\<close> is what the buffers of the loader hold.\<close>

definition sr_load_rt_wrap :: "rt_bufs \<Rightarrow> string \<Rightarrow> vns \<Rightarrow> vns option res" where
  "sr_load_rt_wrap junk rtable v =
     bnd (sr_load_rt junk (routing_table (router v)) (file_lines v rtable)) (\<lambda>(r, rt).
       if r \<noteq> 0 then Inr None else Inr (Some (v\<lparr> router := (router v)\<lparr> routing_table := rt \<rparr> \<rparr>)))"

section \<open>The loop\<close>

text \<open>How many bytes the socket will still deliver.\<close>

fun bytes_left :: "recv_result list \<Rightarrow> nat" where
  "bytes_left [] = 0"
| "bytes_left (Data b # evs) = length b + bytes_left evs"
| "bytes_left (ev # evs) = bytes_left evs"

lemma recv_loop_left:
  "recv_loop n acc evs = Inr (Some r, evs') \<Longrightarrow> length acc \<le> n \<Longrightarrow> bytes_left evs' + n = bytes_left evs + length acc"
proof (induction n acc evs rule: recv_loop.induct)
  case (1 n acc evs)
  show ?case
  proof (cases "n \<le> length acc")
    case True
    then show ?thesis using "1.prems" by (simp add: recv_loop_done)
  next
    case False
    then obtain ev rest where ev: "evs = ev # rest" using "1.prems"(1) by (cases evs) (simp_all add: recv_loop.simps [of n acc "[]"])
    show ?thesis
    proof (cases ev)
      case (Data b)
      show ?thesis
      proof (cases "length b \<le> n - length acc")
        case True
        then have "recv_loop n (acc @ b) rest = Inr (Some r, evs')"
          using "1.prems"(1) False ev Data by (subst (asm) recv_loop.simps) (simp add: Let_def)
        from "1.IH"(1) [OF False ev Data refl True this] ev Data True False show ?thesis by simp
      next
        case b: False
        then have "evs' = Data (drop (n - length acc) b) # rest"
          using "1.prems"(1) False ev Data by (subst (asm) recv_loop.simps) (simp add: Let_def)
        then show ?thesis using b False ev Data by simp
      qed
    next
      case Eintr
      then have "recv_loop n acc rest = Inr (Some r, evs')"
        using "1.prems"(1) False ev by (subst (asm) recv_loop.simps) simp
      from "1.IH"(2) [OF False ev Eintr this "1.prems"(2)] ev Eintr show ?thesis by simp
    next
      case SockError
      then show ?thesis using "1.prems"(1) False ev by (subst (asm) recv_loop.simps) simp
    qed
  qed
qed

text \<open>No command handler touches the socket's input.\<close>

lemma vns_dispatch_incoming: "vns_dispatch env v c buf = Inr (r, v') \<Longrightarrow> incoming v' = incoming v"
proof -
  have "vns_packet env v buf = Inr (r, v') \<Longrightarrow> incoming v' = incoming v"
    by (auto simp: vns_packet_def bnd_eq_Inr Let_def split: if_splits)
  moreover have "sr_handle_rtable v buf = Inr (ok, v') \<Longrightarrow> incoming v' = incoming v" for ok
    by (auto simp: sr_handle_rtable_def bnd_eq_Inr split: if_splits)
  moreover have "sr_handle_auth_request c j v buf = Inr (ok, v') \<Longrightarrow> incoming v' = incoming v" for c j ok
    by (auto simp: sr_handle_auth_request_def bnd_eq_Inr Let_def case_prod_beta split: option.splits if_splits)
  ultimately show "vns_dispatch env v c buf = Inr (r, v') \<Longrightarrow> incoming v' = incoming v"
    unfolding vns_dispatch_def by (auto simp: bnd_eq_Inr split: if_splits)
qed

lemma read_from_server_left:
  assumes "sr_read_from_server_expect env v x = Inr (1, v')"
  shows "bytes_left (incoming v') < bytes_left (incoming v)"
proof -
  obtain h evs where h: "recv_loop 4 [] (incoming v) = Inr (Some h, evs)"
    using assms by (auto simp: sr_read_from_server_expect_def bnd_eq_Inr Let_def split: option.splits)
  let ?len = "ntohl (le32 (h ! 0) (h ! 1) (h ! 2) (h ! 3))"
  have ok: "\<not> (sint ?len > 10000 \<or> sint ?len < 0)"
    using assms h by (auto simp: sr_read_from_server_expect_def Let_def split: if_splits)
  note r = assms [unfolded sr_read_from_server_expect_def h bnd_Inr prod.case option.case Let_def, unfolded if_not_P [OF ok]]
  obtain body evs2 where b: "recv_loop (unat ?len - 4) [] evs = Inr (Some body, evs2)"
    using r by (auto simp: bnd_eq_Inr split: option.splits)
  have "incoming v' = evs2"
    using r b by (auto simp: bnd_eq_Inr Let_def split: if_splits dest!: vns_dispatch_incoming)
  with recv_loop_left [OF h] recv_loop_left [OF b] show ?thesis by simp
qed

text \<open>\<^verbatim>\<open>while (sr_read_from_server(&sr) == 1);\<close>\<close>

function sr_main_loop :: "vns_env \<Rightarrow> vns \<Rightarrow> vns res" where
  "sr_main_loop env v = bnd (sr_read_from_server env v) (\<lambda>(r, v'). if r = 1 then sr_main_loop env v' else Inr v')"
  by auto
termination
proof (relation "measure (\<lambda>(env, v). bytes_left (incoming v))")
  fix env v x r v'
  assume "sr_read_from_server env v = Inr x" "(r, v') = x" "r = (1 :: int)"
  then show "((env, v'), env, v) \<in> measure (\<lambda>(env, v). bytes_left (incoming v))"
    using read_from_server_left by (auto simp: sr_read_from_server_def)
qed simp

declare sr_main_loop.simps [simp del]

section \<open>The main program\<close>

text \<open>
  \<open>m_connect\<close>: the server is found and the socket connected. \<open>m_can_open\<close>: the log file can be opened, \<open>m_stdout\<close>: what
  the standard output holds by then. The result is the exit status and the final state.
\<close>

record main_env = vns_env +
  m_connect :: bool
  m_pw_name :: "string option"
  m_can_open :: bool
  m_stdout :: bytes
  m_junk :: rt_bufs

definition upd_router :: "(sr_instance \<Rightarrow> sr_instance) \<Rightarrow> vns \<Rightarrow> vns" where
  "upd_router f v = v\<lparr> router := f (router v) \<rparr>"

definition main_table :: "main_env \<Rightarrow> router_args \<Rightarrow> vns \<Rightarrow> vns option res" where
  "main_table env a v = (case a_template a of
      None \<Rightarrow> sr_load_rt_wrap (m_junk env) (a_rtable a) (upd_router (\<lambda>sr. sr\<lparr> template := [] \<rparr>) v)
    | Some t \<Rightarrow> Inr (Some (upd_router (\<lambda>sr. sr\<lparr> template := strncpy 30 t \<rparr>) v)))"

definition main_names :: "main_env \<Rightarrow> router_args \<Rightarrow> sr_instance \<Rightarrow> sr_instance" where
  "main_names env a sr =
     (let sr = sr\<lparr> topo_id := ucast (a_topo a), host := strncpy 32 (a_host a) \<rparr>
      in case a_user a of None \<Rightarrow> sr_set_user (m_pw_name env) sr | Some u \<Rightarrow> sr\<lparr> user := strncpy 32 u \<rparr>)"

definition main_log :: "main_env \<Rightarrow> router_args \<Rightarrow> sr_instance \<Rightarrow> sr_instance option" where
  "main_log env a sr = (case a_logfile a of None \<Rightarrow> Some sr
     | Some name \<Rightarrow> (case sr_dump_open (m_stdout env) (m_can_open env) name 0 (of_nat PACKET_DUMP_SIZE) of
         None \<Rightarrow> None | Some fp \<Rightarrow> Some (sr\<lparr> logfile := Some fp \<rparr>)))"

definition main_session :: "main_env \<Rightarrow> router_args \<Rightarrow> vns \<Rightarrow> (int \<times> vns) res" where
  "main_session env a v =
     (if \<not> m_connect env then Inr (1, v) else
      bnd (sr_connect_to_server (vns_env.truncate env) (upd_router (\<lambda>sr. sr\<lparr> sock_up := True \<rparr>) v)) (\<lambda>(r, v).
      if r = -1 then Inr (1, v) else
      bnd (sr_load_rt_wrap (m_junk env)
             (if a_template a \<noteq> None \<and> a_rtable a = ''rtable.vrhost'' then ''rtable.vrhost'' else a_rtable a) v) (\<lambda>l. case l of
        None \<Rightarrow> Inr (1, v)
      | Some v \<Rightarrow> bnd (sr_main_loop (vns_env.truncate env) (upd_router sr_init v)) (\<lambda>v.
          Inr (0, upd_router sr_destroy_instance v)))))"

definition sr_main :: "main_env \<Rightarrow> (char \<times> string) list \<Rightarrow> vns \<Rightarrow> (int \<times> vns) res" where
  "sr_main env args v =
     (case router_options args router_defaults of None \<Rightarrow> Inr (0, v) | Some a \<Rightarrow>
      bnd (main_table env a (upd_router sr_init_instance v)) (\<lambda>l. case l of None \<Rightarrow> Inr (1, v)
      | Some v \<Rightarrow>
         (let v = upd_router (main_names env a) v in
          case main_log env a (router v) of None \<Rightarrow> Inr (1, v)
          | Some sr \<Rightarrow> main_session env a (v\<lparr> router := sr \<rparr>))))"

section \<open>Lemmas: the frames of a session\<close>

text \<open>What the router makes of a sequence of frames: each is filtered, logged and handled.\<close>

fun deliver :: "vns_env \<Rightarrow> (string \<times> bytes) list \<Rightarrow> sr_instance \<Rightarrow> sr_instance res" where
  "deliver env [] sr = Inr sr"
| "deliver env ((i, f) # fs) sr =
     bnd (sr_arp_req_not_for_us sr f 0 (of_nat (length f)) i) (\<lambda>drop_it.
       if drop_it then deliver env fs sr
       else bnd (sr_handlepacket (depth env) (logged sr f) f i) (deliver env fs))"

definition close_msg :: "string \<Rightarrow> bytes" where
  "close_msg reason = bytes32 (htonl (of_nat (8 + 256))) @ bytes32 (htonl VNSCLOSE) @ char_array 256 reason"

lemma dispatch_packet:
  assumes "c_name i" "length i < 16" "length pre = 8"
  shows "vns_dispatch env v VNSPACKET (pre @ char_array 16 i @ f) =
    bnd (sr_arp_req_not_for_us (router v) f 0 (of_nat (length f)) i) (\<lambda>b. if b then Inr (1, v)
      else bnd (sr_handlepacket (depth env) (logged (router v) f) f i) (\<lambda>sr. Inr (1, v\<lparr> router := sr \<rparr>)))"
proof (cases "sr_arp_req_not_for_us (router v) f 0 (of_nat (length f)) i")
  case (Inr b)
  then show ?thesis using vns_dispatch_packet [OF assms Inr, of env] by simp
next
  case (Inl e)
  let ?buf = "pre @ char_array 16 i @ f"
  have "c_string_at ?buf 8 = Inr i" by (rule c_string_char_array [OF assms])
  moreover have "of_nat (length ?buf) - 38 + 14 = (of_nat (length f) :: u32)" using assms(3) by simp
  moreover have "sr_arp_req_not_for_us (router v) ?buf 24 (of_nat (length f)) i = Inl e"
    using arp_req_shift [of "pre @ char_array 16 i" "router v" f] assms(3) Inl by simp
  ultimately show ?thesis using Inl
    by (simp add: vns_dispatch_def vns_packet_def Let_def del: length_append of_nat_add append_assoc)
qed

lemma read_packet:
  assumes "no_error (incoming v)" "stream_of (incoming v) = packet_msg i f @ rest"
    and "c_name i" "length i < 16" "length f \<le> 9000"
  shows "\<exists>evs. no_error evs \<and> stream_of evs = rest \<and> sr_read_from_server env v =
    bnd (sr_arp_req_not_for_us (router v) f 0 (of_nat (length f)) i) (\<lambda>b. if b then Inr (1, v\<lparr> incoming := evs \<rparr>)
      else bnd (sr_handlepacket (depth env) (logged (router v) f) f i) (\<lambda>sr. Inr (1, v\<lparr> incoming := evs, router := sr \<rparr>)))"
proof -
  let ?body = "char_array 16 i @ f"
  have "stream_of (incoming v) = bytes32 (htonl (of_nat (8 + length ?body))) @ bytes32 (htonl VNSPACKET) @ ?body @ rest"
    using assms(2) by (simp add: packet_msg_def add.commute)
  moreover have "8 + length ?body \<le> 10000" using assms(5) by simp
  ultimately obtain evs where evs: "no_error evs" "stream_of evs = rest" "sr_read_from_server env v =
      vns_dispatch env (v\<lparr> incoming := evs \<rparr>) VNSPACKET
        ((bytes32 (htonl (of_nat (8 + length ?body))) @ bytes32 VNSPACKET) @ char_array 16 i @ f)"
    using read_frames [OF assms(1), of ?body VNSPACKET rest] by auto
  have "length (bytes32 (htonl (of_nat (8 + length ?body))) @ bytes32 VNSPACKET) = 8" by simp
  from dispatch_packet [OF assms(3,4) this, of env "v\<lparr> incoming := evs \<rparr>" f] evs show ?thesis
    by (intro exI [of _ evs]) (simp cong: if_cong)
qed

lemma read_close:
  assumes "no_error (incoming v)" "stream_of (incoming v) = close_msg reason @ rest" "c_name reason" "length reason < 256"
  shows "\<exists>evs. no_error evs \<and> stream_of evs = rest \<and> sr_read_from_server env v = Inr (0, v\<lparr> incoming := evs \<rparr>)"
proof -
  let ?body = "char_array 256 reason"
  have "stream_of (incoming v) = bytes32 (htonl (of_nat (8 + length ?body))) @ bytes32 (htonl VNSCLOSE) @ ?body @ rest"
    using assms(2) by (simp add: close_msg_def)
  then obtain evs where evs: "no_error evs" "stream_of evs = rest" "sr_read_from_server env v =
      vns_dispatch env (v\<lparr> incoming := evs \<rparr>) VNSCLOSE ((bytes32 (htonl (of_nat (8 + length ?body))) @ bytes32 VNSCLOSE) @ ?body)"
    using read_frames [OF assms(1), of ?body VNSCLOSE rest] by auto
  have "c_string_at ((bytes32 (htonl (of_nat (8 + length ?body))) @ bytes32 VNSCLOSE) @ ?body @ []) 8 = Inr reason"
    by (rule c_string_char_array [OF assms(3,4)]) simp
  then show ?thesis using evs by (intro exI [of _ evs]) (simp add: vns_dispatch_def VNSCLOSE_def VNSPACKET_def)
qed

text \<open>The messages of a session: frames for interfaces, then the server closes it.\<close>

definition session_stream :: "(string \<times> bytes) list \<Rightarrow> string \<Rightarrow> bytes" where
  "session_stream fs reason = concat (map (\<lambda>(i, f). packet_msg i f) fs) @ close_msg reason"

definition session_ok :: "(string \<times> bytes) list \<Rightarrow> string \<Rightarrow> bool" where
  "session_ok fs reason \<longleftrightarrow> (\<forall>(i, f)\<in>set fs. c_name i \<and> length i < 16 \<and> length f \<le> 9000) \<and> c_name reason \<and> length reason < 256"

lemma main_loop_frames:
  assumes "no_error (incoming v)" "stream_of (incoming v) = session_stream fs reason @ rest" "session_ok fs reason"
  shows "\<exists>evs. stream_of evs = rest
    \<and> sr_main_loop env v = bnd (deliver env fs (router v)) (\<lambda>sr. Inr (v\<lparr> incoming := evs, router := sr \<rparr>))"
  using assms
proof (induction fs arbitrary: v)
  case Nil
  then obtain evs where "stream_of evs = rest" "sr_read_from_server env v = Inr (0, v\<lparr> incoming := evs \<rparr>)"
    using read_close [of v reason rest env] by (auto simp: session_stream_def session_ok_def)
  then show ?case by (intro exI [of _ evs]) (simp add: sr_main_loop.simps [of env v])
next
  case (Cons x fs)
  obtain i f where x: "x = (i, f)" by (cases x)
  have ok: "session_ok fs reason" "c_name i" "length i < 16" "length f \<le> 9000" using Cons.prems(3) by (auto simp: session_ok_def x)
  have "stream_of (incoming v) = packet_msg i f @ session_stream fs reason @ rest"
    using Cons.prems(2) by (simp add: session_stream_def x)
  from read_packet [OF Cons.prems(1) this ok(2-4)]
  obtain e where e: "no_error e" "stream_of e = session_stream fs reason @ rest" "sr_read_from_server env v =
      bnd (sr_arp_req_not_for_us (router v) f 0 (of_nat (length f)) i) (\<lambda>b. if b then Inr (1, v\<lparr> incoming := e \<rparr>)
        else bnd (sr_handlepacket (depth env) (logged (router v) f) f i) (\<lambda>sr. Inr (1, v\<lparr> incoming := e, router := sr \<rparr>)))"
    by blast
  have IH: "\<exists>evs. stream_of evs = rest \<and> sr_main_loop env (v\<lparr> incoming := e, router := sr \<rparr>) =
      bnd (deliver env fs sr) (\<lambda>sr. Inr (v\<lparr> incoming := evs, router := sr \<rparr>))" for sr
    using Cons.IH [of "v\<lparr> incoming := e, router := sr \<rparr>"] e ok(1) by simp
  show ?case
  proof (cases "sr_arp_req_not_for_us (router v) f 0 (of_nat (length f)) i")
    case (Inl err)
    then show ?thesis using e x stream_of.simps(1) stream_of.simps(2) [of rest "[]"]
      by (intro exI [of _ "[Data rest]"]) (simp add: sr_main_loop.simps [of env v])
  next
    case (Inr b)
    show ?thesis
    proof (cases b)
      case True
      from IH [of "router v"] obtain evs where "stream_of evs = rest" "sr_main_loop env (v\<lparr> incoming := e \<rparr>) =
          bnd (deliver env fs (router v)) (\<lambda>sr. Inr (v\<lparr> incoming := evs, router := sr \<rparr>))" by auto
      then show ?thesis using Inr True e x by (intro exI [of _ evs]) (simp add: sr_main_loop.simps [of env v])
    next
      case False
      show ?thesis
      proof (cases "sr_handlepacket (depth env) (logged (router v) f) f i")
        case (Inl err)
        then show ?thesis using e x Inr False
          by (intro exI [of _ "[Data rest]"]) (simp add: sr_main_loop.simps [of env v])
      next
        case h: (Inr sr)
        from IH [of sr] obtain evs where "stream_of evs = rest" "sr_main_loop env (v\<lparr> incoming := e, router := sr \<rparr>) =
            bnd (deliver env fs sr) (\<lambda>sr. Inr (v\<lparr> incoming := evs, router := sr \<rparr>))" by auto
        then show ?thesis using Inr False h e x by (intro exI [of _ evs]) (simp add: sr_main_loop.simps [of env v])
      qed
    qed
  qed
qed

text \<open>
  The session's loop: when the server sends frames for interfaces and then closes, however \<^verbatim>\<open>recv\<close> cuts the stream
  into pieces and interrupts it, the loop hands the frames over in the order they were sent, each once and unchanged, to
  the state the frames before it left, and ends; what comes after the closing message is not read.
\<close>

theorem sr_main_loop_frames:
  assumes "no_error (incoming v)" "stream_of (incoming v) = session_stream fs reason @ rest" "session_ok fs reason"
  shows "\<exists>evs. stream_of evs = rest
    \<and> sr_main_loop env v = bnd (deliver env fs (router v)) (\<lambda>sr. Inr (v\<lparr> incoming := evs, router := sr \<rparr>))"
  by (rule main_loop_frames [OF assms])

section \<open>Safety of a session\<close>

lemma wf_state_logged: "wf_state fl ifs rt now sr \<Longrightarrow> wf_state fl ifs rt now (logged sr f)"
  using io_only_wf [OF sr_log_packet_io(1)] .

lemma arp_filter_total:
  assumes "sr_get_interface (if_list sr) i \<noteq> None" "length f \<le> 9000"
  shows "\<exists>b. sr_arp_req_not_for_us sr f 0 (of_nat (length f)) i = Inr b"
proof -
  obtain n where n: "sr_get_interface (if_list sr) i = Some n" using assms(1) by blast
  have u: "(of_nat (length f) :: u32) < of_nat (sizeof_eth + sizeof_arp) \<longleftrightarrow> length f < 42"
    using assms(2) unat_of_nat_u32 [of "length f"] by (simp add: word_less_nat_alt)
  show ?thesis
  proof (cases "length f < 42")
    case False
    then obtain e a where "load_eth f 0 = Inr e" "load_arp f (0 + sizeof_eth) = Inr a"
      by (simp add: load_eth_def load_arp_def read_bytes_def)
    with n u False show ?thesis by (auto simp: sr_arp_req_not_for_us_def)
  qed (use u in \<open>auto simp: sr_arp_req_not_for_us_def\<close>)
qed

lemma deliver_safe:
  assumes "wf_state fl ifs rt now sr" "fl \<or> 0 < depth env"
    and "\<forall>(i, f)\<in>set fs. wf_rx f \<and> sr_get_interface ifs i \<noteq> None \<and> length i < 16 \<and> length f \<le> 9000"
  shows "safe fl (wf_state fl ifs rt now) (deliver env fs sr)"
  using assms(1,3)
proof (induction fs arbitrary: sr)
  case (Cons x fs)
  obtain i f where x: "x = (i, f)" by (cases x)
  have f: "wf_rx f" "sr_get_interface ifs i \<noteq> None" "length i < 32" "length f \<le> 9000" using Cons.prems(2) by (auto simp: x)
  have "if_list sr = ifs" using Cons.prems(1) by (simp add: wf_state_def)
  then obtain b where b: "sr_arp_req_not_for_us sr f 0 (of_nat (length f)) i = Inr b" using arp_filter_total f by blast
  have fs: "\<forall>(i, f)\<in>set fs. wf_rx f \<and> sr_get_interface ifs i \<noteq> None \<and> length i < 16 \<and> length f \<le> 9000"
    using Cons.prems(2) by simp
  have h: "safe fl (wf_state fl ifs rt now) (sr_handlepacket (depth env) (logged sr f) f i)"
  proof (cases fl)
    case True
    then show ?thesis
      using handlepacket_safe [OF ss.safe_sender_axioms wf_state_logged f(1-3)] Cons.prems(1) by simp
  next
    case False
    then obtain n where "depth env = Suc n" using assms(2) by (cases "depth env") auto
    then show ?thesis
      using handlepacket_safe [OF ts.safe_sender_axioms wf_state_logged f(1-3)] Cons.prems(1) False by simp
  qed
  show ?case
  proof (cases b)
    case True then show ?thesis using Cons.IH [OF Cons.prems(1) fs] by (simp add: x b)
  next
    case False
    then show ?thesis using h Cons.IH [OF _ fs]
      by (cases "sr_handlepacket (depth env) (logged sr f) f i") (simp_all add: x b)
  qed
qed simp

text \<open>
  A whole session is safe: from a well-formed router, whatever frames the server sends on the router's own interfaces, with
  IP packets contained in their frames, in whatever pieces they arrive, the loop makes no access outside a buffer, to freed memory or
  through a null pointer and fails no assertion; it ends with a well-formed router, unless
  the recursion of sending goes beyond its bound.
\<close>

theorem sr_main_loop_safe:
  assumes "wf_state True ifs rt now (router v)" "no_error (incoming v)"
    and "stream_of (incoming v) = session_stream fs reason @ rest" "session_ok fs reason"
    and "\<forall>(i, f)\<in>set fs. wf_rx f \<and> sr_get_interface ifs i \<noteq> None"
  shows "sr_main_loop env v = Inl OutOfFuel
    \<or> (\<exists>v'. sr_main_loop env v = Inr v' \<and> wf_state True ifs rt now (router v') \<and> stream_of (incoming v') = rest)"
proof -
  have "\<forall>(i, f)\<in>set fs. wf_rx f \<and> sr_get_interface ifs i \<noteq> None \<and> length i < 16 \<and> length f \<le> 9000"
    using assms(4,5) by (fastforce simp: session_ok_def)
  from deliver_safe [OF assms(1) _ this, of env] main_loop_frames [OF assms(2-4), of env] show ?thesis
    by (auto simp: safe_cases)
qed

section \<open>The packet log\<close>

text \<open>What is recorded of a packet logged at a time.\<close>

definition log_record :: "int \<times> int \<times> bytes \<Rightarrow> dump_record" where
  "log_record x = (case x of (s, u, f) \<Rightarrow> (\<lparr> sf_sec = of_int s, sf_usec = of_int u, sf_caplen = of_nat (min 1024 (length f)),
     sf_len = of_nat (min 1024 (length f)) \<rparr>, take 1024 f))"

definition log_at :: "int \<times> int \<times> bytes \<Rightarrow> sr_instance \<Rightarrow> sr_instance res" where
  "log_at x sr = (case x of (s, u, f) \<Rightarrow> sr_log_packet (sr\<lparr> sr_now := s, sr_usec := u \<rparr>) f)"

lemma log_at_record:
  assumes "logfile sr = Some fp"
  shows "\<exists>sr'. log_at x sr = Inr sr' \<and> logfile sr' = Some (fp @ record_bytes (log_record x)) \<and> record_ok (log_record x)"
proof -
  obtain s u f where x: "x = (s, u, f)" by (cases x)
  have c: "(ucast (of_int k :: u64) :: u32) = of_int k" for k by (rule bit_word_eqI) (auto simp: bit_simps)
  show ?thesis using assms
    by (simp add: x log_at_def log_record_def sr_log_packet_def sr_dump_def read_bytes_def record_bytes_def record_ok_def Let_def c
        min_def del: sr_log_packet_logged)
qed


section \<open>Witnesses\<close>

definition sample_session :: "recv_result list" where
  "sample_session = [Eintr, Data (take 20 (session_stream [(''eth0'', sample_ping)] ''bye'')),
     Data (drop 20 (session_stream [(''eth0'', sample_ping)] ''bye''))]"

lemma sample_session_ok:
  "no_error (incoming (sample_vns sample_session))"
  "stream_of (incoming (sample_vns sample_session)) = session_stream [(''eth0'', sample_ping)] ''bye'' @ []"
  "session_ok [(''eth0'', sample_ping)] ''bye''" "router (sample_vns evs) = sample_router"
  by (simp_all add: sample_session_def sample_vns_def no_error_def session_ok_def c_name_def sample_ping_def)

theorem sr_main_loop_frames_witness:
  "\<exists>evs. stream_of evs = [] \<and> sr_main_loop sample_env (sample_vns sample_session) =
    bnd (deliver sample_env [(''eth0'', sample_ping)] sample_router) (\<lambda>sr. Inr ((sample_vns evs)\<lparr> router := sr \<rparr>))"
  using sr_main_loop_frames [OF sample_session_ok(1-3), of sample_env] by (simp add: sample_vns_def)

theorem sr_main_loop_safe_witness:
  "sr_main_loop sample_env (sample_vns sample_session) = Inl OutOfFuel
    \<or> (\<exists>v'. sr_main_loop sample_env (sample_vns sample_session) = Inr v'
        \<and> wf_state True sample_ifs sample_rt 100 (router v') \<and> stream_of (incoming v') = [])"
proof -
  have w: "wf_state True sample_ifs sample_rt 100 (router (sample_vns sample_session))"
    by (simp add: sample_session_ok(4) sample_router_wf)
  have f: "\<forall>(i, f)\<in>set [(''eth0'', sample_ping)]. wf_rx f \<and> sr_get_interface sample_ifs i \<noteq> None"
    using sample_ping_rx(1) by (simp add: sample_ifs_def strncmp_eq_def)
  show ?thesis by (rule sr_main_loop_safe [OF w sample_session_ok(1-3) f])
qed


end
