(* ===== verification/RouterSession.thy ===== *)
theory RouterSession
  imports RouterMain
begin

text \<open>
  The whole program of the router, from its command line to its exit, over one session with the server: routing
  table, authentication, interfaces, frames, close. The lemmas follow the session message by message; the
  properties say that the program comes down to handing the frames to a router that is
  configured as the routing table file and the server's description say, and that nothing in it
  faults.
\<close>

section \<open>The messages of the server\<close>

definition auth_request_msg :: "bytes \<Rightarrow> bytes" where
  "auth_request_msg salt = bytes32 (htonl (of_nat (8 + length salt))) @ bytes32 (htonl VNS_AUTH_REQUEST) @ salt"

definition auth_status_msg :: "byte \<Rightarrow> string \<Rightarrow> bytes" where
  "auth_status_msg auth_ok msg =
     bytes32 (htonl (of_nat (8 + length (auth_ok # bytes_of_string msg)))) @ bytes32 (htonl VNS_AUTH_STATUS)
     @ auth_ok # bytes_of_string msg"

definition hwinfo_msg :: "sr_if list \<Rightarrow> bytes" where
  "hwinfo_msg new = bytes32 (htonl (of_nat (8 + length (concat (map hw_if new))))) @ bytes32 (htonl VNSHWINFO)
     @ concat (map hw_if new)"

text \<open>The digest that answers a salt.\<close>

definition auth_digest :: "bytes \<Rightarrow> bytes \<Rightarrow> bytes \<Rightarrow> u32 list" where
  "auth_digest salt content junk = fips_sha1 (salt @ (let l = first_line content in
     if length l = 64 then l else l @ [0] @ take (63 - length l) (drop (length l + 1) junk)))"

section \<open>Authentication and opening\<close>

lemma read_auth_request:
  assumes "no_error (incoming v)" "stream_of (incoming v) = auth_request_msg salt @ rest" "length salt \<le> 9992"
    and "files v ''auth_key'' = Some content" "content \<noteq> []" "length (stack_junk env) = 65"
    and "length (Message_Block (fresh_ctx env)) = 64" "sock_up (router v)"
  shows "\<exists>evs. no_error evs \<and> stream_of evs = rest \<and> sr_read_from_server_expect env v VNS_AUTH_REQUEST =
    Inr (1, v\<lparr> incoming := evs, sent_ctl := sent_ctl v @ [auth_reply (user (router v)) (auth_digest salt content (stack_junk env))] \<rparr>)"
proof -
  have "8 + length salt \<le> 10000" using assms(3) by simp
  from read_frames_expect [OF assms(1) assms(2) [unfolded auth_request_msg_def append_assoc] this, of VNS_AUTH_REQUEST env]
  obtain evs where evs: "no_error evs" "stream_of evs = rest" "sr_read_from_server_expect env v VNS_AUTH_REQUEST =
      vns_dispatch env (v\<lparr> incoming := evs \<rparr>) VNS_AUTH_REQUEST
        (bytes32 (htonl (of_nat (8 + length salt))) @ bytes32 VNS_AUTH_REQUEST @ salt)" by blast
  have "sr_handle_auth_request (fresh_ctx env) (stack_junk env) (v\<lparr> incoming := evs \<rparr>)
      (bytes32 (htonl (of_nat (8 + length salt))) @ bytes32 VNS_AUTH_REQUEST @ salt) =
      Inr (True, (v\<lparr> incoming := evs \<rparr>)\<lparr> sent_ctl := sent_ctl v @ [auth_reply (user (router v)) (auth_digest salt content (stack_junk env))] \<rparr>)"
    using handle_auth_request [of "v\<lparr> incoming := evs \<rparr>" content "stack_junk env" "fresh_ctx env" salt "bytes32 VNS_AUTH_REQUEST"]
      assms(3-8) by (simp add: auth_digest_def)
  with evs show ?thesis
    by (intro exI [of _ evs]) (simp add: vns_dispatch_def VNS_AUTH_REQUEST_def VNSPACKET_def VNSCLOSE_def VNSBANNER_def
        VNSHWINFO_def VNS_RTABLE_def)
qed

lemma read_auth_status:
  assumes "no_error (incoming v)" "stream_of (incoming v) = auth_status_msg auth_ok msg @ rest" "length msg \<le> 9000" "auth_ok \<noteq> 0"
  shows "\<exists>evs. no_error evs \<and> stream_of evs = rest
    \<and> sr_read_from_server_expect env v VNS_AUTH_STATUS = Inr (1, v\<lparr> incoming := evs \<rparr>)"
proof -
  let ?body = "auth_ok # bytes_of_string msg"
  have "8 + length ?body \<le> 10000" using assms(3) by simp
  from read_frames_expect [OF assms(1) _ this, of VNS_AUTH_STATUS rest VNS_AUTH_STATUS env]
  obtain evs where evs: "no_error evs" "stream_of evs = rest" "sr_read_from_server_expect env v VNS_AUTH_STATUS =
      vns_dispatch env (v\<lparr> incoming := evs \<rparr>) VNS_AUTH_STATUS
        (bytes32 (htonl (of_nat (8 + length ?body))) @ bytes32 VNS_AUTH_STATUS @ ?body)"
    using assms(2) by (auto simp: auth_status_msg_def)
  have "sr_handle_auth_status (bytes32 (htonl (of_nat (8 + length ?body))) @ bytes32 VNS_AUTH_STATUS @ ?body) = Inr auth_ok"
    using assms(4) by (simp add: sr_handle_auth_status_def read_bytes_def)
  with evs assms(4) show ?thesis
    by (intro exI [of _ evs]) (simp add: vns_dispatch_def VNS_AUTH_REQUEST_def VNSPACKET_def VNSCLOSE_def VNSBANNER_def
        VNSHWINFO_def VNS_RTABLE_def VNS_AUTH_STATUS_def)
qed

definition opened_session :: "vns_env \<Rightarrow> bytes \<Rightarrow> bytes \<Rightarrow> vns \<Rightarrow> recv_result list \<Rightarrow> vns" where
  "opened_session env salt content v evs = v\<lparr> incoming := evs, sent_ctl := sent_ctl v @
     [auth_reply (user (router v)) (auth_digest salt content (stack_junk env)),
      open_msg (topo_id (router v)) (host (router v)) (user (router v))] \<rparr>"

text \<open>What the server's side of the opening has to provide.\<close>

definition auth_ready :: "vns_env \<Rightarrow> bytes \<Rightarrow> bytes \<Rightarrow> byte \<Rightarrow> string \<Rightarrow> vns \<Rightarrow> bool" where
  "auth_ready env salt content auth_ok msg v \<longleftrightarrow> length salt \<le> 9992 \<and> files v ''auth_key'' = Some content \<and> content \<noteq> []
     \<and> length (stack_junk env) = 65 \<and> length (Message_Block (fresh_ctx env)) = 64 \<and> auth_ok \<noteq> 0 \<and> length msg \<le> 9000"

lemma connect_session:
  assumes "no_error (incoming v)" "stream_of (incoming v) = auth_request_msg salt @ auth_status_msg auth_ok msg @ rest"
    and "auth_ready env salt content auth_ok msg v" "sock_up (router v)" "template (router v) = []"
  shows "\<exists>evs. no_error evs \<and> stream_of evs = rest
    \<and> sr_connect_to_server env v = Inr (0, opened_session env salt content v evs)"
proof -
  note r = assms(3) [unfolded auth_ready_def]
  let ?v = "\<lambda>e. v\<lparr> incoming := e, sent_ctl := sent_ctl v @ [auth_reply (user (router v)) (auth_digest salt content (stack_junk env))] \<rparr>"
  obtain e1 where 1: "no_error e1" "stream_of e1 = auth_status_msg auth_ok msg @ rest"
    "sr_read_from_server_expect env v VNS_AUTH_REQUEST = Inr (1, ?v e1)"
    using read_auth_request [OF assms(1,2)] r assms(4) by blast
  obtain e2 where 2: "no_error e2" "stream_of e2 = rest" "sr_read_from_server_expect env (?v e1) VNS_AUTH_STATUS = Inr (1, ?v e2)"
    using read_auth_status [of "?v e1" auth_ok msg rest env] 1 r by auto
  show ?thesis
    using 1(3) 2 assms(4,5)
    by (intro exI [of _ e2]) (simp add: sr_connect_to_server_def vns_send_def Let_def opened_session_def)
qed

section \<open>The interfaces\<close>

lemma length_hw_ifs: "\<forall>i\<in>set new. hw_ok i \<Longrightarrow> length (concat (map hw_if new)) = 108 * length new"
  by (induction new) (simp_all add: hw_if_length)

lemma same_names:
  assumes "map sr_print_if ifs = map sr_print_if new"
  shows "sr_get_interface ifs n = None \<longleftrightarrow> sr_get_interface new n = None" "ifs = [] \<longleftrightarrow> new = []"
proof -
  have "map if_name ifs = map if_name new"
    using arg_cong [OF assms, of "map fst"] by (simp add: comp_def sr_print_if_def)
  then have s: "if_name ` set ifs = if_name ` set new" by (metis set_map)
  have q: "sr_get_interface l n = None \<longleftrightarrow> (\<forall>x\<in>if_name ` set l. \<not> strncmp_eq 32 x n)" for l
    by (auto simp: sr_get_interface_find find_None_iff)
  show "sr_get_interface ifs n = None \<longleftrightarrow> sr_get_interface new n = None" by (simp only: q s)
  show "ifs = [] \<longleftrightarrow> new = []" using arg_cong [OF assms, of length] by auto
qed

lemma described_config:
  assumes "map sr_print_if ifs = map sr_print_if new" "\<forall>i\<in>set new. hw_ok i" "\<forall>r\<in>set rt. length (interface r) < 32"
    and "\<forall>r\<in>set rt. sr_get_interface new (interface r) \<noteq> None"
  shows "wf_config ifs rt"
proof -
  have s: "sr_print_if ` set ifs = sr_print_if ` set new" using arg_cong [OF assms(1), of set] by simp
  have "length (addr i) = 6 \<and> length (if_name i) < 32" if "i \<in> set ifs" for i
  proof -
    from imageI [OF that, of sr_print_if] s obtain j where "j \<in> set new" "sr_print_if i = sr_print_if j" by auto
    with assms(2) show ?thesis by (auto simp: sr_print_if_def hw_ok_def)
  qed
  with assms(3,4) same_names(1) [OF assms(1)] show ?thesis by (simp add: wf_config_def)
qed

lemma read_hwinfo:
  assumes "no_error (incoming v)" "stream_of (incoming v) = hwinfo_msg new @ rest" "\<forall>i\<in>set new. hw_ok i" "length new \<le> 90"
    and "if_list (router v) = []" "new \<noteq> []" "routing_table (router v) \<noteq> []"
    and "\<forall>r\<in>set (routing_table (router v)). sr_get_interface new (interface r) \<noteq> None"
  shows "\<exists>evs ifs. no_error evs \<and> stream_of evs = rest \<and> map sr_print_if ifs = map sr_print_if new
    \<and> sr_read_from_server env v = Inr (1, v\<lparr> incoming := evs, router := (router v)\<lparr> if_list := ifs \<rparr> \<rparr>)"
proof -
  have l: "length (concat (map hw_if new)) = 108 * length new" by (rule length_hw_ifs [OF assms(3)])
  then have "8 + length (concat (map hw_if new)) \<le> 10000" using assms(4) by simp
  from read_frames [OF assms(1) _ this, of VNSHWINFO rest env]
  obtain evs where evs: "no_error evs" "stream_of evs = rest" "sr_read_from_server env v =
      vns_dispatch env (v\<lparr> incoming := evs \<rparr>) VNSHWINFO
        (bytes32 (htonl (of_nat (8 + 108 * length new))) @ bytes32 VNSHWINFO @ concat (map hw_if new))"
    using assms(2) by (auto simp: hwinfo_msg_def l)
  obtain ifs where ifs: "sr_handle_hwinfo (fresh_if env) (router v)
      (bytes32 (htonl (of_nat (8 + 108 * length new))) @ bytes32 VNSHWINFO @ concat (map hw_if new)) =
      Inr (3 * int (length new), (router v)\<lparr> if_list := ifs \<rparr>)" "map sr_print_if ifs = map sr_print_if new"
    using handle_hwinfo [OF assms(3,4), of "bytes32 VNSHWINFO" "fresh_if env" "router v"] assms(5) by auto
  have "sr_verify_routing_table ifs (routing_table (router v)) = 0"
    using sr_verify_routing_table_spec [of ifs "routing_table (router v)"] same_names [OF ifs(2)] assms(6-8) by auto
  with evs ifs show ?thesis
    by (intro exI [of _ evs] exI [of _ ifs])
      (simp add: vns_dispatch_def VNSPACKET_def VNSCLOSE_def VNSBANNER_def VNSHWINFO_def)
qed

section \<open>The routing table\<close>

lemma load_lines_Cons:
  assumes "sr_load_rt_lines (line # lines) b c rt = Inr (0, rt')"
  shows "\<exists>b' d g m. sscanf4 line b = Inr b' \<and> inet_aton (b_dest b') = Some d \<and> inet_aton (b_gw b') = Some g
    \<and> inet_aton (b_mask b') = Some m
    \<and> sr_load_rt_lines lines b' True (sr_add_rt_entry (if \<not> c then [] else rt) d g m (b_iface b')) = Inr (0, rt')"
proof -
  obtain b' where b: "sscanf4 line b = Inr b'" using assms by (cases "sscanf4 line b") simp_all
  show ?thesis using assms by (cases c) (auto simp: b Let_def split: option.splits)
qed

lemma load_lines_names:
  assumes "sr_load_rt_lines lines b c rt = Inr (0, rt')" "length (b_iface b) < 32" "\<forall>r\<in>set rt. length (interface r) < 32"
  shows "\<forall>r\<in>set rt'. length (interface r) < 32"
  using assms
proof (induction lines arbitrary: b c rt)
  case (Cons line lines)
  obtain b' d g m where b: "sscanf4 line b = Inr b'"
    "sr_load_rt_lines lines b' True (sr_add_rt_entry (if \<not> c then [] else rt) d g m (b_iface b')) = Inr (0, rt')"
    using load_lines_Cons [OF Cons.prems(1)] by blast
  have "3 < length (tokens line) \<Longrightarrow> tokens line ! 3 \<in> set (take 4 (tokens line))"
    using nth_mem [of 3 "take 4 (tokens line)"] by simp
  then have n: "length (b_iface b') < 32" using b(1) Cons.prems(2) by (auto simp: sscanf4_def Let_def split: if_splits)
  have "\<forall>r\<in>set (sr_add_rt_entry (if \<not> c then [] else rt) d g m (b_iface b')). length (interface r) < 32"
    using n Cons.prems(3) by (auto simp: sr_add_rt_entry_append sr_rt_new_def strncpy_def)
  from Cons.IH [OF b(2) n this] show ?case .
qed simp

text \<open>Loading a file a second time changes nothing.\<close>

lemma load_rt_again: "sr_load_rt j [] f = Inr (0, rt) \<Longrightarrow> sr_load_rt j rt f = Inr (0, rt)"
proof (cases f)
  case (Some lines)
  assume l: "sr_load_rt j [] f = Inr (0, rt)"
  show ?thesis
  proof (cases lines)
    case (Cons line rest)
    from load_lines_Cons [of line rest j False "[]" rt] l Some Cons show ?thesis
      by (auto simp: sr_load_rt_def)
  qed (use l Some in \<open>simp add: sr_load_rt_def\<close>)
qed (simp add: sr_load_rt_def)

lemma load_rt_names:
  assumes "sr_load_rt j [] f = Inr (0, rt)" "length (b_iface j) < 32"
  shows "\<forall>r\<in>set rt. length (interface r) < 32"
  using assms load_lines_names [of _ j False "[]" rt] by (auto simp: sr_load_rt_def split: option.splits)

section \<open>The whole program\<close>

text \<open>
  A configuration and a script of the session: the arguments are parsed, the table is loaded from its file, the server
  authenticates the client, describes interfaces that include those of the routes, sends frames on them and closes.
\<close>

definition program_ok :: "main_env \<Rightarrow> (char \<times> string) list \<Rightarrow> vns \<Rightarrow> router_args \<Rightarrow> sr_rt list \<Rightarrow> bool" where
  "program_ok env args v a rt \<longleftrightarrow> router_options args router_defaults = Some a \<and> a_template a = None
     \<and> sr_load_rt (m_junk env) [] (file_lines v (a_rtable a)) = Inr (0, rt) \<and> length (b_iface (m_junk env)) < 32
     \<and> m_connect env \<and> (a_logfile a = None \<or> m_can_open env)"

definition server_stream :: "bytes \<Rightarrow> byte \<Rightarrow> string \<Rightarrow> sr_if list \<Rightarrow> (string \<times> bytes) list \<Rightarrow> string \<Rightarrow> bytes" where
  "server_stream salt auth_ok msg new fs reason =
     auth_request_msg salt @ auth_status_msg auth_ok msg @ hwinfo_msg new @ session_stream fs reason"

definition hardware_ok :: "sr_if list \<Rightarrow> sr_rt list \<Rightarrow> bool" where
  "hardware_ok new rt \<longleftrightarrow> new \<noteq> [] \<and> length new \<le> 90 \<and> (\<forall>i\<in>set new. hw_ok i) \<and> rt \<noteq> []
     \<and> (\<forall>r\<in>set rt. sr_get_interface new (interface r) \<noteq> None)"

text \<open>The router when the first frame arrives, and the process then.\<close>

definition ready_router :: "main_env \<Rightarrow> router_args \<Rightarrow> sr_rt list \<Rightarrow> sr_if list \<Rightarrow> sr_instance \<Rightarrow> sr_instance" where
  "ready_router env a rt ifs sr =
     (let sr = main_names env a ((sr_init_instance sr)\<lparr> template := [], routing_table := rt \<rparr>)
      in (sr_init (sr\<lparr> logfile := (case a_logfile a of None \<Rightarrow> None
          | Some name \<Rightarrow> sr_dump_open (m_stdout env) (m_can_open env) name 0 (of_nat PACKET_DUMP_SIZE)), sock_up := True \<rparr>))
        \<lparr> if_list := ifs \<rparr>)"

lemma names_fields: "template (main_names env a sr) = template sr" "routing_table (main_names env a sr) = routing_table sr"
  "if_list (main_names env a sr) = if_list sr" "logfile (main_names env a sr) = logfile sr"
  "cache (main_names env a sr) = cache sr" "sr_now (main_names env a sr) = sr_now sr"
  by (simp_all add: main_names_def sr_set_user_def Let_def split: option.splits)

lemma main_log_open:
  assumes "a_logfile a = None \<or> m_can_open env" "logfile sr = None"
  shows "main_log env a sr = Some (sr\<lparr> logfile := (case a_logfile a of None \<Rightarrow> None
          | Some name \<Rightarrow> sr_dump_open (m_stdout env) (m_can_open env) name 0 (of_nat PACKET_DUMP_SIZE)) \<rparr>)"
  using assms by (cases sr) (auto simp: main_log_def sr_dump_open_def split: option.splits)

lemma ready_router_wf:
  assumes "map sr_print_if ifs = map sr_print_if new" "hardware_ok new rt" "\<forall>r\<in>set rt. length (interface r) < 32"
  shows "wf_state fl ifs rt (sr_now sr) (ready_router env a rt ifs sr)"
proof -
  have c: "wf_config ifs rt" using described_config [OF assms(1) _ assms(3)] assms(2) by (simp add: hardware_ok_def)
  define s where "s = ready_router env a rt ifs sr"
  have "if_list s = ifs" "routing_table s = rt" "sr_now s = sr_now sr" "\<exists>k. cache s = sr_arpcache_init k"
    by (auto simp: s_def ready_router_def Let_def sr_init_def names_fields sr_init_instance_def)
  then show ?thesis using c unfolding s_def [symmetric] by (auto simp: wf_state_def wf_cache_init) (auto simp: sr_arpcache_init_def empty_entry_def)
qed

lemma session_from_hwinfo:
  assumes "no_error (incoming v)" "stream_of (incoming v) = hwinfo_msg new @ session_stream fs reason @ rest"
    and "hardware_ok new (routing_table (router v))" "if_list (router v) = []" "session_ok fs reason"
  shows "\<exists>evs ifs. stream_of evs = rest \<and> map sr_print_if ifs = map sr_print_if new \<and> sr_main_loop env v =
    bnd (deliver env fs ((router v)\<lparr> if_list := ifs \<rparr>)) (\<lambda>sr. Inr (v\<lparr> incoming := evs, router := sr \<rparr>))"
proof -
  note h = assms(3) [unfolded hardware_ok_def]
  obtain e1 ifs where 1: "no_error e1" "stream_of e1 = session_stream fs reason @ rest" "map sr_print_if ifs = map sr_print_if new"
    "sr_read_from_server env v = Inr (1, v\<lparr> incoming := e1, router := (router v)\<lparr> if_list := ifs \<rparr> \<rparr>)"
    using read_hwinfo [OF assms(1,2), of env] h assms(4) by blast
  obtain e2 where "stream_of e2 = rest" "sr_main_loop env (v\<lparr> incoming := e1, router := (router v)\<lparr> if_list := ifs \<rparr> \<rparr>) =
      bnd (deliver env fs ((router v)\<lparr> if_list := ifs \<rparr>)) (\<lambda>sr. Inr (v\<lparr> incoming := e2, router := sr \<rparr>))"
    using main_loop_frames [of "v\<lparr> incoming := e1, router := (router v)\<lparr> if_list := ifs \<rparr> \<rparr>" fs reason rest env] 1(1,2) assms(5) by auto
  with 1(3,4) show ?thesis by (intro exI [of _ e2] exI [of _ ifs]) (simp add: sr_main_loop.simps [of env v])
qed

definition session_opening :: "main_env \<Rightarrow> bytes \<Rightarrow> bytes \<Rightarrow> sr_instance \<Rightarrow> bytes list" where
  "session_opening env salt content sr = [auth_reply (user sr) (auth_digest salt content (stack_junk env)),
     open_msg (topo_id sr) (host sr) (user sr)]"

lemma main_program:
  assumes "program_ok env args v a rt" "hardware_ok new rt" "session_ok fs reason" "no_error (incoming v)"
    and "stream_of (incoming v) = server_stream salt auth_ok msg new fs reason @ rest"
    and "auth_ready (vns_env.truncate env) salt content auth_ok msg v"
  shows "\<exists>evs ifs sr0. stream_of evs = rest \<and> map sr_print_if ifs = map sr_print_if new
    \<and> sr0 = ready_router env a rt ifs (router v) \<and> sr_main env args v =
      bnd (deliver (vns_env.truncate env) fs sr0) (\<lambda>sr. Inr (0, v\<lparr>
        sent_ctl := sent_ctl v @ session_opening env salt content sr0, incoming := evs, router := sr_destroy_instance sr \<rparr>))"
proof -
  note p = assms(1) [unfolded program_ok_def]
  let ?env = "vns_env.truncate env"
  define r1 where "r1 = main_names env a ((sr_init_instance (router v))\<lparr> template := [], routing_table := rt \<rparr>)"
  define r2 where "r2 = r1\<lparr> logfile := (case a_logfile a of None \<Rightarrow> None
      | Some name \<Rightarrow> sr_dump_open (m_stdout env) (m_can_open env) name 0 (of_nat PACKET_DUMP_SIZE)), sock_up := True \<rparr>"
  define v2 where "v2 = v\<lparr> router := r2 \<rparr>"
  have f: "logfile r1 = None" "template r2 = []" "if_list r2 = []" "routing_table r2 = rt" "sock_up r2"
    by (simp_all add: r1_def r2_def names_fields sr_init_instance_def)
  have l: "file_lines (v\<lparr> router := x, incoming := y, sent_ctl := z \<rparr>) n = file_lines v n" "file_lines (v\<lparr> router := x \<rparr>) n = file_lines v n" for n x y z
    by (simp_all add: file_lines_def)
  have t: "main_table env a (upd_router sr_init_instance v) = Inr (Some (v\<lparr> router := (sr_init_instance (router v))\<lparr> template := [], routing_table := rt \<rparr> \<rparr>))"
    using p l by (simp add: main_table_def upd_router_def sr_load_rt_wrap_def sr_init_instance_def file_lines_def)
  have "sr_main env args v = main_session env a (v\<lparr> router := r1\<lparr> logfile := logfile r2 \<rparr> \<rparr>)"
    using p t main_log_open [of a env r1] f(1) by (simp add: sr_main_def upd_router_def r1_def [symmetric] r2_def Let_def)
  moreover obtain e1 where c: "no_error e1" "stream_of e1 = hwinfo_msg new @ session_stream fs reason @ rest"
    "sr_connect_to_server ?env v2 = Inr (0, opened_session ?env salt content v2 e1)"
    using connect_session [of v2 salt auth_ok msg "hwinfo_msg new @ session_stream fs reason @ rest" ?env content] assms(4-6) f
    by (auto simp: v2_def server_stream_def auth_ready_def)
  define v3 where "v3 = (opened_session ?env salt content v2 e1)\<lparr> router := sr_init r2 \<rparr>"
  have w: "sr_load_rt_wrap (m_junk env) (a_rtable a) (opened_session ?env salt content v2 e1) = Inr (Some (opened_session ?env salt content v2 e1))"
    using p load_rt_again [of "m_junk env" _ rt] f(4) by (simp add: sr_load_rt_wrap_def opened_session_def v2_def l)
  have "upd_router (\<lambda>sr. sr\<lparr> sock_up := True \<rparr>) (v\<lparr> router := r1\<lparr> logfile := logfile r2 \<rparr> \<rparr>) = v2"
    by (simp add: upd_router_def v2_def r2_def)
  moreover have "upd_router sr_init (opened_session ?env salt content v2 e1) = v3"
    by (simp add: upd_router_def v3_def opened_session_def v2_def)
  ultimately have m: "sr_main env args v = bnd (sr_main_loop ?env v3) (\<lambda>v. Inr (0, upd_router sr_destroy_instance v))"
    using p c(3) w by (simp add: main_session_def)
  have "if_list (sr_init r2) = []" "routing_table (sr_init r2) = rt" using f by (simp_all add: sr_init_def)
  then obtain evs ifs where x: "stream_of evs = rest" "map sr_print_if ifs = map sr_print_if new" "sr_main_loop ?env v3 =
      bnd (deliver ?env fs ((sr_init r2)\<lparr> if_list := ifs \<rparr>)) (\<lambda>sr. Inr (v3\<lparr> incoming := evs, router := sr \<rparr>))"
    using session_from_hwinfo [of v3 new fs reason rest ?env] c(1,2) assms(2,3) by (auto simp: v3_def opened_session_def)
  have g: "(sr_init r2)\<lparr> if_list := ifs \<rparr> = ready_router env a rt ifs (router v)"
    by (simp add: ready_router_def r2_def r1_def Let_def)
  have s: "session_opening env salt content (ready_router env a rt ifs (router v)) =
      [auth_reply (user r2) (auth_digest salt content (stack_junk ?env)), open_msg (topo_id r2) (host r2) (user r2)]"
    by (simp add: session_opening_def g [symmetric] sr_init_def vns_env.defs)
  have "v3\<lparr> incoming := evs, router := sr \<rparr> = v\<lparr> sent_ctl := sent_ctl v @ session_opening env salt content
      (ready_router env a rt ifs (router v)), incoming := evs, router := sr \<rparr>" for sr
    by (simp add: s v3_def opened_session_def v2_def)
  with x m g show ?thesis
    by (intro exI [of _ evs] exI [of _ ifs] exI conjI)
      (simp_all add: upd_router_def bnd_assoc)
qed



section \<open>Witnesses\<close>

text \<open>A routing table file with the lines that the printer prints is read as these lines.\<close>

lemma table_lines:
  assumes "\<forall>e\<in>set rt. wf_rt_name (interface e)" "files v name = Some (bytes_of_string (concat (map sr_print_routing_entry rt)))"
  shows "file_lines v name = Some (map sr_print_routing_entry rt)"
proof -
  have ip: "LF \<notin> set (inet_ntoa x)" "length (inet_ntoa x) \<le> 15" for x
    using inet_ntoa_word(2) [of LF x] inet_ntoa_word(3) [of x] by (auto simp: isspace_def)
  have "\<exists>w. sr_print_routing_entry e = w @ [LF] \<and> LF \<notin> set w \<and> length w < 8192 - 1" if "wf_rt_name (interface e)" for e
  proof -
    let ?w = "inet_ntoa (dest e) @ [TAB, TAB] @ inet_ntoa (gw e) @ [TAB] @ inet_ntoa (mask e) @ [TAB] @ interface e"
    have i: "LF \<notin> set (interface e)" "length (interface e) < 32" using that by (auto simp: wf_rt_name_def isspace_def)
    have "sr_print_routing_entry e = ?w @ [LF]" by (simp add: sr_print_routing_entry_def)
    moreover have "LF \<notin> set ?w" using ip(1) i(1) by simp
    moreover have "length ?w < 8192 - 1" using ip(2) [of "dest e"] ip(2) [of "gw e"] ip(2) [of "mask e"] i(2) by simp
    ultimately show ?thesis by blast
  qed
  then have "fgets_lines 8192 (concat (map sr_print_routing_entry rt)) = map sr_print_routing_entry rt"
    using assms(1) by (intro fgets_lines_lines) auto
  with assms(2) show ?thesis by (simp add: file_lines_def)
qed

definition ex_main_env :: main_env where
  "ex_main_env = vns_env.extend sample_env \<lparr> m_connect = True, m_pw_name = Some ''student'', m_can_open = True, m_stdout = [],
     m_junk = \<lparr> b_dest = [], b_gw = [], b_mask = [], b_iface = [] \<rparr> \<rparr>"

definition ex_main :: "recv_result list \<Rightarrow> vns" where
  "ex_main evs = (sample_vns evs)\<lparr> files := (files (sample_vns []))(''rtable'' := Some (bytes_of_string
     (concat (map sr_print_routing_entry sample_rt)))) \<rparr>"

definition ex_stream :: bytes where
  "ex_stream = server_stream [1, 2, 3] 1 ''ok'' sample_ifs [(''eth0'', sample_ping)] ''bye''"

lemma ex_main_ok:
  "program_ok ex_main_env [] (ex_main [Eintr, Data ex_stream]) router_defaults sample_rt" "hardware_ok sample_ifs sample_rt"
  "no_error (incoming (ex_main [Eintr, Data ex_stream]))"
  "stream_of (incoming (ex_main [Eintr, Data ex_stream])) =
     server_stream [1, 2, 3] 1 ''ok'' sample_ifs [(''eth0'', sample_ping)] ''bye'' @ []"
  "auth_ready (vns_env.truncate ex_main_env) [1, 2, 3] (replicate 64 107) 1 ''ok'' (ex_main [Eintr, Data ex_stream])"
  "\<forall>(i, f)\<in>set [(''eth0'', sample_ping)]. wf_rx f \<and> sr_get_interface sample_ifs i \<noteq> None"
proof -
  have n: "\<forall>e\<in>set sample_rt. wf_rt_name (interface e)" by (simp add: sample_rt_def wf_rt_name_def isspace_def)
  have "file_lines (ex_main [Eintr, Data ex_stream]) ''rtable'' = Some (map sr_print_routing_entry sample_rt)"
    by (rule table_lines [OF n]) (simp add: ex_main_def)
  moreover have "sr_load_rt j [] (Some (map sr_print_routing_entry sample_rt)) = Inr (0, sample_rt)" for j
    using n by (simp add: sr_load_rt_def sample_rt_def sscanf4_entry sr_add_rt_entry_append sr_rt_new_def strncpy_def)
  ultimately show "program_ok ex_main_env [] (ex_main [Eintr, Data ex_stream]) router_defaults sample_rt"
    by (simp add: program_ok_def router_defaults_def ex_main_env_def vns_env.defs)
  show "hardware_ok sample_ifs sample_rt"
    by (simp add: hardware_ok_def sample_ifs_def sample_rt_def hw_ok_def c_name_def strncmp_eq_def)
  show "auth_ready (vns_env.truncate ex_main_env) [1, 2, 3] (replicate 64 107) 1 ''ok'' (ex_main [Eintr, Data ex_stream])"
    by (simp add: auth_ready_def ex_main_def sample_vns_def ex_main_env_def vns_env.defs sample_env_def sha1_zero_ctx_def)
  show "\<forall>(i, f)\<in>set [(''eth0'', sample_ping)]. wf_rx f \<and> sr_get_interface sample_ifs i \<noteq> None"
    using sample_ping_rx(1) by (simp add: sample_ifs_def strncmp_eq_def)
qed (simp_all add: ex_main_def sample_vns_def no_error_def ex_stream_def)



end
