(* ===== verification/PrintText.thy ===== *)
theory PrintText
  imports CText ArpCache Segment
begin

text \<open>
  What the printers of both programs write, character by character: the header printers of
  \<^verbatim>\<open>sr_utils.c\<close>, the interface printer of \<^verbatim>\<open>sr_if.c\<close>, the table printer of \<^verbatim>\<open>sr_arpcache.c\<close> and the
  segment printer of \<^verbatim>\<open>ctcp_utils.c\<close>. The component theories model which headers, entries and numbers a
  printer prints; here they are turned into its text. The lemmas show that an Ethernet address can be
  read back from its text, and that the text of the ARP table does not determine the addresses.
\<close>

section \<open>Addresses\<close>

definition HEX_digit :: "nat \<Rightarrow> char" where
  "HEX_digit n = (if n < 10 then char_of (48 + n) else char_of (55 + n))"

definition HEX2 :: "byte \<Rightarrow> string" where
  "HEX2 b = [HEX_digit (unat b div 16), HEX_digit (unat b mod 16)]"

definition print_addr_eth :: "bytes \<Rightarrow> string res" where
  "print_addr_eth address = bnd (read_bytes address 0 ETHER_ADDR_LEN) (\<lambda>b.
     Inr (concat (map (\<lambda>pos. (if pos > 0 then '':'' else []) @ HEX2 (b ! pos)) [0..<ETHER_ADDR_LEN]) @ [LF]))"

definition sr_print_addr_ip :: "u32 \<Rightarrow> string" where
  "sr_print_addr_ip address = inet_ntoa address @ [LF]"

definition octets_text :: "u32 \<Rightarrow> string" where
  "octets_text ip = concat (map2 (\<lambda>cur_octet sep. dec (unat cur_octet) @ sep) (print_addr_ip_int ip) [''.'', ''.'', ''.'', [LF]])"

section \<open>Headers\<close>

definition field_text :: "string \<Rightarrow> nat \<Rightarrow> string" where
  "field_text name n = TAB # name @ '': '' @ dec n @ [LF]"

definition eth_text :: "sr_ethernet_hdr \<Rightarrow> string res" where
  "eth_text ehdr = bnd (print_addr_eth (ether_dhost ehdr)) (\<lambda>d. bnd (print_addr_eth (ether_shost ehdr)) (\<lambda>s. Inr
     (''ETHERNET header:'' @ LF # TAB # ''destination: '' @ d @ TAB # ''source: '' @ s
      @ field_text ''type'' (unat (ntohs (ether_type ehdr))))))"

definition ip_text :: "sr_ip_hdr \<Rightarrow> string" where
  "ip_text iphdr = ''IP header:'' @ LF # field_text ''version'' (unat (ip_v iphdr))
     @ field_text ''header length'' (unat (ip_hl iphdr)) @ field_text ''type of service'' (unat (ip_tos iphdr))
     @ field_text ''length'' (unat (ntohs (ip_len iphdr))) @ field_text ''id'' (unat (ntohs (ip_id iphdr)))
     @ (if ntohs (ip_off iphdr) AND IP_DF \<noteq> 0 then TAB # ''fragment flag: DF'' @ [LF]
        else if ntohs (ip_off iphdr) AND IP_MF \<noteq> 0 then TAB # ''fragment flag: MF'' @ [LF]
        else if ntohs (ip_off iphdr) AND IP_RF \<noteq> 0 then TAB # ''fragment flag: R'' @ [LF] else [])
     @ field_text ''fragment offset'' (unat (ntohs (ip_off iphdr) AND IP_OFFMASK))
     @ field_text ''TTL'' (unat (ip_ttl iphdr)) @ field_text ''protocol'' (unat (ip_p iphdr))
     @ field_text ''checksum'' (unat (ip_sum iphdr))
     @ TAB # ''source: '' @ octets_text (ntohl (ip_src iphdr)) @ TAB # ''destination: '' @ octets_text (ntohl (ip_dst iphdr))"

definition icmp_text :: "sr_icmp_hdr \<Rightarrow> string" where
  "icmp_text icmp_hdr = ''ICMP header:'' @ LF # field_text ''type'' (unat (icmp_type icmp_hdr))
     @ field_text ''code'' (unat (icmp_code icmp_hdr)) @ field_text ''checksum'' (unat (icmp_sum icmp_hdr))"

definition arp_text :: "sr_arp_hdr \<Rightarrow> string res" where
  "arp_text arp_hdr = bnd (print_addr_eth (ar_sha arp_hdr)) (\<lambda>s. bnd (print_addr_eth (ar_tha arp_hdr)) (\<lambda>t. Inr
     (''ARP header'' @ LF # field_text ''hardware type'' (unat (ntohs (ar_hrd arp_hdr)))
      @ field_text ''protocol type'' (unat (ntohs (ar_pro arp_hdr)))
      @ field_text ''hardware address length'' (unat (ar_hln arp_hdr))
      @ field_text ''protocol address length'' (unat (ar_pln arp_hdr)) @ field_text ''opcode'' (unat (ntohs (ar_op arp_hdr)))
      @ TAB # ''sender hardware address: '' @ s @ TAB # ''sender ip address: '' @ octets_text (ntohl (ar_sip arp_hdr))
      @ TAB # ''target hardware address: '' @ t @ TAB # ''target ip address: '' @ octets_text (ntohl (ar_tip arp_hdr)))))"

fun printed_text :: "printed \<Rightarrow> string res" where
  "printed_text (PrintEth h) = eth_text h"
| "printed_text (PrintIp h) = Inr (ip_text h)"
| "printed_text (PrintIcmp h) = Inr (icmp_text h)"
| "printed_text (PrintArp h) = arp_text h"
| "printed_text (PrintMsg s) = Inr (s @ [LF])"
| "printed_text (PrintUnknown t) = Inr (''Unrecognized Ethernet Type: '' @ dec (unat t) @ [LF])"

text \<open>The whole text, in the order in which \<^verbatim>\<open>print_hdrs\<close> prints the headers.\<close>

fun texts :: "printed list \<Rightarrow> string res" where
  "texts [] = Inr []"
| "texts (p # ps) = bnd (printed_text p) (\<lambda>s. bnd (texts ps) (\<lambda>t. Inr (s @ t)))"

definition print_hdrs_text :: "bytes \<Rightarrow> nat \<Rightarrow> string res" where
  "print_hdrs_text buf len = bnd (print_hdrs buf len) texts"

section \<open>Interfaces, ARP table, segments\<close>

definition DebugMAC :: "bytes \<Rightarrow> string res" where
  "DebugMAC x = bnd (read_bytes x 0 6) (\<lambda>b. Inr (concat (map (\<lambda>c. hex2 c @ '':'') (take 5 b)) @ hex2 (b ! 5)))"

definition sr_if_text :: "sr_if \<Rightarrow> string res" where
  "sr_if_text iface = bnd (DebugMAC (addr iface)) (\<lambda>a.
     Inr (if_name iface @ TAB # ''HWaddr'' @ a @ LF # TAB # ''inet addr '' @ inet_ntoa (if_ip iface) @ [LF]))"

fun sr_if_list_text :: "sr_if list \<Rightarrow> string res" where
  "sr_if_list_text [] = Inr ('' Interface list empty '' @ [LF])"
| "sr_if_list_text [w] = sr_if_text w"
| "sr_if_list_text (w # ws) = bnd (sr_if_text w) (\<lambda>s. bnd (sr_if_list_text ws) (\<lambda>t. Inr (s @ t)))"

text \<open>\<open>ctime\<close> is the library's text for a time, which depends on the time zone; \<^verbatim>\<open>%.8x\<close> pads with zeros.\<close>

definition hex8 :: "u32 \<Rightarrow> string" where
  "hex8 w = (let s = hexa (unat w) in replicate (8 - length s) (CHR ''0'') @ s)"

definition dump_line :: "(int \<Rightarrow> string) \<Rightarrow> bytes \<times> u32 \<times> int \<times> bool \<Rightarrow> string" where
  "dump_line ctime e = (case e of (m, ip, t, v) \<Rightarrow>
     concat (map (\<lambda>b. hexa (unat b)) m) @ ''   '' @ hex8 ip @ ''   '' @ take 24 (ctime t) @ ''   ''
     @ (if v then ''1'' else ''0'') @ [LF])"

definition sr_arpcache_dump_text :: "(int \<Rightarrow> string) \<Rightarrow> sr_arpcache \<Rightarrow> string" where
  "sr_arpcache_dump_text ctime cache =
     LF # ''MAC            IP         ADDED                      VALID'' @ LF
     # ''-----------------------------------------------------------'' @ LF
     # concat (map (dump_line ctime) (sr_arpcache_dump cache)) @ [LF]"

definition print_hdr_ctcp_text :: "ctcp_segment \<Rightarrow> string" where
  "print_hdr_ctcp_text segment = (case print_hdr_ctcp segment of ((seqno, ackno, len), (syn, ack, fin), window, ck) \<Rightarrow>
     ''[cTCP] seqno: '' @ dec_int (sint seqno) @ '', ackno: '' @ dec_int (sint ackno) @ '', len: '' @ dec (unat len)
     @ '', flags:'' @ (if syn then '' SYN'' else []) @ (if ack then '' ACK'' else []) @ (if fin then '' FIN'' else [])
     @ '', window: '' @ dec (unat window) @ '', cksum: '' @ hexa (unat ck) @ [LF])"

section \<open>Lemmas\<close>

text \<open>Reading an Ethernet address.\<close>

fun read_mac :: "string \<Rightarrow> bytes" where
  "read_mac (a # b # c # s) = unhex2 a b # read_mac s"
| "read_mac s = []"

lemma digit_of_HEX: "n < 16 \<Longrightarrow> digit_of (HEX_digit n) = n"
  by (auto simp: digit_of_def HEX_digit_def Let_def)

lemma unhex2_HEX: "unhex2 (HEX_digit (unat b div 16)) (HEX_digit (unat b mod 16)) = b"
proof -
  have "unat b < 2 ^ LENGTH(8)" by (rule unsigned_less)
  then have "unat b div 16 < 16" by (simp add: less_mult_imp_div_less)
  moreover have "of_nat (unat b div 16 * 16 + unat b mod 16) = b" by (simp only: div_mult_mod_eq) simp
  ultimately show ?thesis by (simp add: unhex2_def digit_of_HEX del: of_nat_add of_nat_mult)
qed

lemma print_addr_eth_read: "length m = 6 \<Longrightarrow> \<exists>s. print_addr_eth m = Inr s \<and> length s = 18 \<and> read_mac s = m"
proof -
  assume "length m = 6"
  then obtain a b c d e f where m: "m = [a, b, c, d, e, f]" by (auto simp: length_Suc_conv numeral_eq_Suc)
  show ?thesis by (simp add: m print_addr_eth_def read_bytes_def HEX2_def upt_rec unhex2_HEX)
qed

text \<open>Two addresses have the same text only if they are the same.\<close>

lemma print_addr_eth_inj:
  assumes "length m = 6" "length m' = 6" "print_addr_eth m = print_addr_eth m'"
  shows "m = m'"
  using print_addr_eth_read [OF assms(1)] print_addr_eth_read [OF assms(2)] assms(3) by auto

text \<open>The text of the ARP table is ambiguous: its octets are printed with one or two digits and nothing between them.\<close>

lemma dump_line_ambiguous:
  "dump_line ct ([1, 0x12, 0, 0, 0, 0], ip, t, v) = dump_line ct ([0x11, 2, 0, 0, 0, 0], ip, t, v)"
  by (simp add: dump_line_def hexa.simps hex_digit_def)

text \<open>The printer prints something for every frame, however short.\<close>

lemma printed_ok: "print_hdrs buf len = Inr ps \<Longrightarrow> \<exists>s. texts ps = Inr s"
proof -
  have e: "load_eth b k = Inr h \<Longrightarrow> \<exists>s. eth_text h = Inr s" for b k h
    by (auto simp: load_eth_def bnd_eq_Inr read_bytes_def eth_of_def eth_text_def print_addr_eth_def split: if_splits)
  have a: "load_arp b k = Inr h \<Longrightarrow> \<exists>s. arp_text h = Inr s" for b k h
    by (auto simp: load_arp_def bnd_eq_Inr read_bytes_def arp_of_def arp_text_def print_addr_eth_def split: if_splits)
  assume p: "print_hdrs buf len = Inr ps"
  have "\<exists>s. texts ps = Inr s" if "\<forall>p\<in>set ps. \<exists>s. printed_text p = Inr s" for ps
    using that by (induction ps) auto
  moreover have "\<forall>p\<in>set ps. \<exists>s. printed_text p = Inr s"
    using p by (auto simp: print_hdrs_def print_hdr_eth_def print_hdr_ip_def print_hdr_icmp_def print_hdr_arp_def bnd_eq_Inr
        dest!: e a split: if_splits)
  ultimately show ?thesis by blast
qed

lemma print_hdrs_text_total:
  assumes "print_hdrs buf len = Inr ps" shows "\<exists>s. print_hdrs_text buf len = Inr s"
  using printed_ok [OF assms] assms by (simp add: print_hdrs_text_def)

text \<open>What is printed of an ARP packet.\<close>

lemma print_hdrs_arp:
  assumes "wf_eth e" "wf_arp a" "ntohs (ether_type e) = ethertype_arp"
  shows "print_hdrs_text (eth_bytes e @ arp_bytes a) 42 = bnd (eth_text e) (\<lambda>s. bnd (arp_text a) (\<lambda>t. Inr (s @ t)))"
proof -
  have l: "load_eth (eth_bytes e @ arp_bytes a) 0 = Inr e" "load_arp (eth_bytes e @ arp_bytes a) 14 = Inr a"
    using assms(1,2) by (simp_all add: load_eth_def load_arp_def read_bytes_def eth_of_bytes arp_of_bytes)
  have "ethertype (eth_bytes e @ arp_bytes a) = Inr ethertype_arp" using l assms(3) by (simp add: ethertype_def)
  then show ?thesis
    by (cases "arp_text a") (simp_all add: print_hdrs_text_def print_hdrs_def print_hdr_eth_def print_hdr_arp_def l
        ethertype_arp_def ethertype_ip_def)
qed

end
